(* ===== verification/Prelude.thy ===== *)
theory Prelude
  imports Main "HOL-Library.Word"
begin

text \<open>
  Shared vocabulary of the development: the ways a C++ operation of the repository can fail, the
  sequencing of fallible operations, and the parts of the C++ standard library the sources use on
  \<open>std::string\<close> (\<open>find\<close>, \<open>substr\<close>, \<open>std::to_string\<close>, \<open>std::stoi\<close>, the \<open>%i\<close> conversion of
  \<open>sprintf\<close> and \<open>sscanf\<close>). A \<open>std::string\<close> is a \<^typ>\<open>string\<close> (one \<^typ>\<open>char\<close> per byte), a
  \<open>size_t\<close> that only counts bytes held in memory is a \<^typ>\<open>nat\<close>, an \<open>int\<close> is an \<^typ>\<open>int\<close>
  whose range is checked where the code's result depends on it.
\<close>

section \<open>Failing operations\<close>

text \<open>
  \<open>AssertFailed\<close> is a failed \<open>assert\<close>; \<open>Fatal\<close> is glog's \<open>LOG(FATAL)\<close>, which aborts; the exceptions
  are named after their C++ types. \<open>Undefined\<close> marks an operation whose behaviour C++ leaves
  undefined (a read of an uninitialised variable, an access out of bounds). \<open>NoReturn\<close> is a call that
  has not returned: its loop asks a library that never gives the answer that ends it. \<open>NotModelled\<close> marks the
  inputs on which a library function is not modelled (a \<open>printf\<close> conversion other than \<open>%i\<close>, \<open>%d\<close> and
  \<open>%%\<close>); a theorem that says what the code does excludes them.
\<close>

datatype fault =
    AssertFailed
  | Fatal
  | OutOfRange
  | LengthError
  | InvalidArgument
  | RuntimeError
  | BadAnyCast
  | JsonError
  | Undefined
  | NoReturn
  | NotModelled

type_synonym 'a res = "fault + 'a"

definition rbind :: "'a res \<Rightarrow> ('a \<Rightarrow> 'b res) \<Rightarrow> 'b res" where
  "rbind m f = (case m of Inl e \<Rightarrow> Inl e | Inr x \<Rightarrow> f x)"

definition require :: "bool \<Rightarrow> fault \<Rightarrow> 'a res \<Rightarrow> 'a res" where
  "require b e k = (if b then k else Inl e)"

fun returns :: "'a res \<Rightarrow> bool" where
  "returns (Inl _) = False"
| "returns (Inr _) = True"

named_theorems exec_simps \<open>equations that run the model of an operation\<close>
named_theorems wf_intros \<open>the well-formedness facts the operations keep\<close>

lemma rbind_simps [simp, exec_simps]:
  "rbind (Inl e) f = Inl e" "rbind (Inr x) f = f x"
  by (simp_all add: rbind_def)

lemma rbind_Inr_iff: "rbind m f = Inr y \<longleftrightarrow> (\<exists>x. m = Inr x \<and> f x = Inr y)"
  by (cases m) simp_all

lemma require_simps [simp, exec_simps]:
  "require True e k = k" "require False e k = Inl e"
  by (simp_all add: require_def)

lemma require_Inr_iff [simp]: "require b e k = Inr y \<longleftrightarrow> b \<and> k = Inr y"
  by (simp add: require_def)

lemma require_Inl_iff: "require b e k = Inl f \<longleftrightarrow> (\<not> b \<and> f = e) \<or> (b \<and> k = Inl f)"
  by (auto simp: require_def)

lemma returns_iff: "returns m \<longleftrightarrow> (\<exists>x. m = Inr x)"
  by (cases m) simp_all

section \<open>Characters\<close>

text \<open>The quote and the backslash, which a literal cannot hold without escapes.\<close>

abbreviation dquote :: char where "dquote \<equiv> CHR 0x22"
abbreviation bslash :: char where "bslash \<equiv> CHR 0x5C"
abbreviation newline :: char where "newline \<equiv> CHR 0x0A"
abbreviation nul :: char where "nul \<equiv> CHR 0x00"

definition code_of :: "char \<Rightarrow> nat" where
  "code_of c = of_char c"

definition is_digit :: "char \<Rightarrow> bool" where
  "is_digit c \<longleftrightarrow> 48 \<le> code_of c \<and> code_of c \<le> 57"

text \<open>\<open>isspace\<close> in the C locale.\<close>

definition is_space :: "char \<Rightarrow> bool" where
  "is_space c \<longleftrightarrow> code_of c = 32 \<or> (9 \<le> code_of c \<and> code_of c \<le> 13)"

lemma code_of_bound [simp]: "code_of c < 256"
  unfolding code_of_def by (rule nat_of_char_less_256)

lemma code_of_char_of [simp]: "code_of (char_of n) = n mod 256" for n :: nat
  unfolding code_of_def by (rule of_char_of)

lemma char_of_code_of [simp]: "char_of (code_of c) = c"
  unfolding code_of_def by (rule char_of_char)

lemma code_of_inject [simp]: "code_of c = code_of d \<longleftrightarrow> c = d"
  by (metis char_of_code_of)

section \<open>Strings\<close>

text \<open>\<open>std::string::find\<close>: the first position at which the pattern occurs, \<open>npos\<close> as \<open>None\<close>.\<close>

fun str_find :: "string \<Rightarrow> string \<Rightarrow> nat option" where
  "str_find pat [] = (if pat = [] then Some 0 else None)"
| "str_find pat (c # cs) =
     (if take (length pat) (c # cs) = pat then Some 0 else map_option Suc (str_find pat cs))"

definition str_contains :: "string \<Rightarrow> string \<Rightarrow> bool" where
  "str_contains pat s \<longleftrightarrow> str_find pat s \<noteq> None"

text \<open>\<open>find(pat, pos)\<close>: the search starts at \<open>pos\<close>, the position counts from the start of the string.\<close>

definition str_find_from :: "string \<Rightarrow> string \<Rightarrow> nat \<Rightarrow> nat option" where
  "str_find_from pat s pos =
     (if length s < pos then None else map_option ((+) pos) (str_find pat (drop pos s)))"

lemma str_find_Some:
  "str_find pat s = Some n \<Longrightarrow> n + length pat \<le> length s \<and> take (length pat) (drop n s) = pat"
proof (induction pat s arbitrary: n rule: str_find.induct)
  case (2 pat c cs)
  show ?case
  proof (cases "take (length pat) (c # cs) = pat")
    case True
    then have "length pat \<le> length (c # cs)"
      by (metis length_take min.cobounded1)
    with True "2.prems" show ?thesis by simp
  qed (use 2 in auto)
qed (auto split: if_splits)

lemma str_find_prefix: "str_find pat (pat @ s) = Some 0"
proof (cases "pat @ s")
  case (Cons a list)
  then have "take (length pat) (a # list) = pat"
    by (metis append_eq_conv_conj)
  with Cons show ?thesis by simp
qed simp

lemma str_find_absent:
  "c \<in> set pat \<Longrightarrow> c \<notin> set s \<Longrightarrow> str_find pat s = None"
proof (induction s)
  case (Cons a s)
  then have "take (length pat) (a # s) \<noteq> pat"
    by (metis in_set_takeD)
  with Cons show ?case by simp
qed auto

text \<open>A pattern whose first character does not occur before it is found where it was put.\<close>

lemma str_find_skip:
  assumes "c \<notin> set xs"
  shows "str_find (c # pat) (xs @ s) = map_option ((+) (length xs)) (str_find (c # pat) s)"
  using assms by (induction xs) (auto simp: option.map_comp fun_eq_iff intro!: option.map_cong option.map_ident_strong [symmetric])

text \<open>\<open>std::to_string\<close> on a non-negative number and on an \<open>int\<close>.\<close>

definition digit_char :: "nat \<Rightarrow> char" where
  "digit_char d = char_of (48 + d)"

fun nat_to_string :: "nat \<Rightarrow> string" where
  "nat_to_string n =
     (if n < 10 then [digit_char n] else nat_to_string (n div 10) @ [digit_char (n mod 10)])"

declare nat_to_string.simps [simp del]

definition int_to_string :: "int \<Rightarrow> string" where
  "int_to_string i = (if i < 0 then CHR ''-'' # nat_to_string (nat (- i)) else nat_to_string (nat i))"

text \<open>The value of a run of decimal digits, and the longest such run at the start of a string.\<close>

definition digit_val :: "char \<Rightarrow> nat" where
  "digit_val c = code_of c - 48"

definition digits_val :: "string \<Rightarrow> nat" where
  "digits_val s = foldl (\<lambda>v c. 10 * v + digit_val c) 0 s"

lemma code_of_digit_char: "d < 10 \<Longrightarrow> code_of (digit_char d) = 48 + d"
  by (simp add: digit_char_def)

lemma is_digit_digit_char: "d < 10 \<Longrightarrow> is_digit (digit_char d)"
  by (simp add: is_digit_def code_of_digit_char)

lemma digit_val_digit_char: "d < 10 \<Longrightarrow> digit_val (digit_char d) = d"
  by (simp add: digit_val_def code_of_digit_char)

lemma nat_to_string_not_Nil [simp]: "nat_to_string n \<noteq> []"
  by (subst nat_to_string.simps) simp

lemma nat_to_string_digits: "list_all is_digit (nat_to_string n)"
proof (induction n rule: nat_to_string.induct)
  case (1 n)
  then show ?case
    by (subst nat_to_string.simps) (auto simp: is_digit_digit_char)
qed

lemma digits_val_snoc [simp]: "digits_val (s @ [c]) = 10 * digits_val s + digit_val c"
  by (simp add: digits_val_def)

lemma digits_val_nat_to_string [simp]: "digits_val (nat_to_string n) = n"
proof (induction n rule: nat_to_string.induct)
  case (1 n)
  show ?case
  proof (cases "n < 10")
    case True
    then show ?thesis
      by (subst nat_to_string.simps) (simp add: digits_val_def digit_val_digit_char)
  next
    case False
    with 1 show ?thesis
      by (subst nat_to_string.simps) (simp add: digit_val_digit_char)
  qed
qed

lemma nat_to_string_inject [simp]: "nat_to_string m = nat_to_string n \<longleftrightarrow> m = n"
  by (metis digits_val_nat_to_string)

text \<open>Evaluates \<open>std::to_string\<close> on a numeral.\<close>

lemma length_nat_to_string: "0 < k \<Longrightarrow> n < 10 ^ k \<Longrightarrow> length (nat_to_string n) \<le> k"
proof (induction k arbitrary: n)
  case (Suc k)
  show ?case
  proof (cases "n < 10")
    case False
    with Suc.prems have "n div 10 < 10 ^ k" "0 < k" by (auto intro!: Nat.gr0I)
    with Suc.IH [of "n div 10"] False show ?thesis by (simp add: nat_to_string.simps [of n])
  qed (simp add: nat_to_string.simps [of n])
qed simp

lemmas nat_to_string_eval = nat_to_string.simps digit_char_def char_of_def bit_0

lemma not_in_nat_to_string: "\<not> is_digit c \<Longrightarrow> c \<notin> set (nat_to_string n)"
  using nat_to_string_digits [of n] by (auto simp: list_all_iff)

lemma takeWhile_digits_append:
  "list_all is_digit ds \<Longrightarrow> (\<And>c cs. rest = c # cs \<Longrightarrow> \<not> is_digit c)
   \<Longrightarrow> takeWhile is_digit (ds @ rest) = ds"
  by (induction ds) (cases rest, auto)+

lemma dropWhile_digits_append:
  "list_all is_digit ds \<Longrightarrow> (\<And>c cs. rest = c # cs \<Longrightarrow> \<not> is_digit c)
   \<Longrightarrow> dropWhile is_digit (ds @ rest) = rest"
  by (induction ds) (cases rest, auto)+

section \<open>Conversions from text\<close>

text \<open>
  \<open>std::stoi\<close>: leading white space, an optional sign, the longest run of digits; no digit throws
  \<open>std::invalid_argument\<close>, a value that does not fit an \<open>int\<close> throws \<open>std::out_of_range\<close>.
\<close>

definition int_min :: int where "int_min = - 2147483648"
definition int_max :: int where "int_max = 2147483647"

definition split_sign :: "string \<Rightarrow> bool \<times> string" where
  "split_sign s = (case s of
       [] \<Rightarrow> (False, [])
     | c # cs \<Rightarrow> if c = CHR ''-'' then (True, cs) else if c = CHR ''+'' then (False, cs) else (False, s))"

definition stoi :: "string \<Rightarrow> int res" where
  "stoi s =
     (let (neg, body) = split_sign (dropWhile is_space s);
          ds = takeWhile is_digit body;
          v = (if neg then - int (digits_val ds) else int (digits_val ds))
      in if ds = [] then Inl InvalidArgument
         else if v < int_min \<or> int_max < v then Inl OutOfRange
         else Inr v)"

lemma digit_not_space: "is_digit c \<Longrightarrow> \<not> is_space c"
  by (auto simp: is_digit_def is_space_def)

lemma digit_not_sign: "is_digit c \<Longrightarrow> c \<noteq> CHR ''-'' \<and> c \<noteq> CHR ''+''"
  by (auto simp: is_digit_def code_of_def)

lemma stoi_digits:
  assumes "list_all is_digit ds" "ds \<noteq> []" "\<And>c cs. rest = c # cs \<Longrightarrow> \<not> is_digit c"
    "int (digits_val ds) \<le> int_max"
  shows "stoi (ds @ rest) = Inr (int (digits_val ds))"
proof -
  obtain d ds' where d: "ds = d # ds'" "is_digit d"
    using assms(1,2) by (cases ds) auto
  then have "split_sign (dropWhile is_space (ds @ rest)) = (False, ds @ rest)"
    by (simp add: split_sign_def digit_not_space digit_not_sign)
  moreover have "takeWhile is_digit (ds @ rest) = ds"
    using assms(1,3) by (rule takeWhile_digits_append)
  moreover have "int_min \<le> int (digits_val ds)"
    by (simp add: int_min_def)
  ultimately show ?thesis
    using assms(2,4) by (simp add: stoi_def)
qed

lemma stoi_nat_to_string [simp]:
  "int n \<le> int_max \<Longrightarrow> stoi (nat_to_string n) = Inr (int n)"
  using stoi_digits [of "nat_to_string n" "[]"] by (simp add: nat_to_string_digits)

lemma stoi_Nil [simp]: "stoi [] = Inl InvalidArgument"
  by (simp add: stoi_def split_sign_def)

text \<open>The value an \<open>int\<close> keeps of a number computed in a wider type (or of an atomic increment).\<close>

definition to_int32 :: "int \<Rightarrow> int" where
  "to_int32 v = (v + 2147483648) mod 4294967296 - 2147483648"

lemma to_int32_id: "int_min \<le> v \<Longrightarrow> v \<le> int_max \<Longrightarrow> to_int32 v = v"
  by (simp add: to_int32_def int_min_def int_max_def)

lemma int_to_string_of_nat [simp]: "int_to_string (int n) = nat_to_string n"
  by (simp add: int_to_string_def)

section \<open>Bounded copies and lists updated by index\<close>

text \<open>\<open>snprintf(buf, n, ...)\<close> keeps the first \<open>n - 1\<close> characters of the formatted text.\<close>

definition snprintf_trunc :: "nat \<Rightarrow> string \<Rightarrow> string" where
  "snprintf_trunc n s = take (n - 1) s"

lemma snprintf_trunc_id: "length s < n \<Longrightarrow> snprintf_trunc n s = s"
  by (simp add: snprintf_trunc_def)

text \<open>Overwriting a segment of a byte vector (\<open>std::copy\<close> into it), bounds met by the caller.\<close>

definition write_at :: "'a list \<Rightarrow> nat \<Rightarrow> 'a list \<Rightarrow> 'a list" where
  "write_at xs k ys = take k xs @ ys @ drop (k + length ys) xs"

lemma drop_length_append: "drop (length xs) (xs @ ys) = ys"
  by simp

lemma length_write_at [simp]:
  "k + length ys \<le> length xs \<Longrightarrow> length (write_at xs k ys) = length xs"
  by (simp add: write_at_def)

lemma take_write_at: "k \<le> length xs \<Longrightarrow> take k (write_at xs k ys) = take k xs"
  by (simp add: write_at_def)

lemma drop_write_at:
  "k \<le> length xs \<Longrightarrow> drop k (write_at xs k ys) = ys @ drop (k + length ys) xs"
  by (simp add: write_at_def)

end
