(* ===== verification/ZmqParam.thy ===== *)
theory ZmqParam
  imports Prelude
begin

text \<open>
  \<open>hybrid-comm/src/pzmq_data.cpp\<close>: a ZMQ message and the two-parameter packing that RPC calls put
  in it. \<open>set_param\<close> writes one length byte, the first parameter and the second one;
  \<open>get_param\<close> reads either back. The length goes through a \<open>char\<close>, whose signedness C++ leaves
  to the platform (signed on x86-64, unsigned on AArch64), so it is the argument \<open>schar\<close> of the model.
  A message is the string of its bytes; \<open>zmq_msg_init\<close>/\<open>close\<close> and the pointer accessors carry no
  other state.
\<close>

section \<open>The message\<close>

record pzmq_data =
  msg_bytes :: string

definition msg_new :: pzmq_data where
  "msg_new = \<lparr>msg_bytes = []\<rparr>"

definition msg_string :: "pzmq_data \<Rightarrow> string" where
  "msg_string m = msg_bytes m"

definition msg_size :: "pzmq_data \<Rightarrow> nat" where
  "msg_size m = length (msg_bytes m)"

section \<open>The two-parameter packing\<close>

text \<open>\<open>static_cast<char>(n)\<close> keeps the low byte, and reading it back is where the sign matters.\<close>

definition char_of_size :: "nat \<Rightarrow> char" where
  "char_of_size n = char_of (n mod 256)"

definition char_value :: "bool \<Rightarrow> char \<Rightarrow> int" where
  "char_value schar c =
     (if schar \<and> 128 \<le> code_of c then int (code_of c) - 256 else int (code_of c))"

definition set_param :: "string \<Rightarrow> string \<Rightarrow> string" where
  "set_param param0 param1 = char_of_size (length param0) # param0 @ param1"

text \<open>
  \<open>std::string(p, n)\<close> where \<open>n\<close> was converted from a signed value: a negative count becomes a huge
  \<open>size_t\<close> and the constructor throws \<open>std::length_error\<close>; a count past the readable bytes reads out
  of bounds. For \<open>idata\<close> the terminating NUL of \<open>c_str()\<close> is readable as well.
\<close>

definition get_param :: "bool \<Rightarrow> pzmq_data \<Rightarrow> int \<Rightarrow> string \<Rightarrow> string res" where
  "get_param schar m index idata =
     (let data = (if 0 < length idata then idata else msg_bytes m);
          readable = (if 0 < length idata then idata @ [nul] else msg_bytes m);
          size = int (length data)
      in case data of
           [] \<Rightarrow> Inl Undefined
         | c # _ \<Rightarrow>
             let d = char_value schar c
             in if index mod 2 = 0
                then if d < 0 then Inl LengthError
                     else if length readable < 1 + nat d then Inl Undefined
                     else Inr (take (nat d) (drop 1 readable))
                else if size - d - 1 < 0 then Inl LengthError
                     else if d + 1 < 0 then Inl Undefined
                     else Inr (take (nat (size - d - 1)) (drop (nat (d + 1)) data)))"

text \<open>The longest first parameter whose length survives the \<open>char\<close>.\<close>

definition max_param0 :: "bool \<Rightarrow> nat" where
  "max_param0 schar = (if schar then 127 else 255)"

section \<open>Lemmas\<close>

lemma set_param_not_Nil [simp]: "set_param a b \<noteq> []"
  by (simp add: set_param_def)

lemma length_set_param [simp]: "length (set_param a b) = Suc (length a + length b)"
  by (simp add: set_param_def)

lemma char_value_short:
  "n \<le> max_param0 schar \<Longrightarrow> char_value schar (char_of_size n) = int n"
  by (auto simp: max_param0_def char_value_def char_of_size_def split: if_splits)

lemma nat_int_Suc: "nat (int n + 1) = Suc n"
  by simp

lemma get_param_packed_fst:
  "length a \<le> max_param0 schar \<Longrightarrow> i mod 2 = 0
   \<Longrightarrow> get_param schar m i (set_param a b) = Inr a"
  by (simp add: get_param_def set_param_def Let_def char_value_short)

lemma get_param_packed_snd:
  "length a \<le> max_param0 schar \<Longrightarrow> i mod 2 \<noteq> 0
   \<Longrightarrow> get_param schar m i (set_param a b) = Inr b"
  by (simp add: get_param_def set_param_def Let_def char_value_short nat_int_Suc)

lemma get_param_msg_fst:
  "length a \<le> max_param0 schar \<Longrightarrow> i mod 2 = 0
   \<Longrightarrow> get_param schar \<lparr>msg_bytes = set_param a b\<rparr> i [] = Inr a"
  by (simp add: get_param_def set_param_def Let_def char_value_short)

lemma get_param_msg_snd:
  "length a \<le> max_param0 schar \<Longrightarrow> i mod 2 \<noteq> 0
   \<Longrightarrow> get_param schar \<lparr>msg_bytes = set_param a b\<rparr> i [] = Inr b"
  by (simp add: get_param_def set_param_def Let_def char_value_short nat_int_Suc)

lemmas get_param_simps = get_param_packed_fst get_param_packed_snd get_param_msg_fst get_param_msg_snd

section \<open>Properties\<close>



text \<open>The bound is sharp. Where \<open>char\<close> is signed, a first parameter of 128 to 255 bytes makes
  reading it back throw \<open>std::length_error\<close>; on every platform a first parameter of 256 bytes or more
  comes back cut to its length modulo 256 (or as that error).\<close>

theorem param_too_long:
  assumes "max_param0 schar < length a"
  shows "get_param schar \<lparr>msg_bytes = set_param a b\<rparr> 0 [] \<noteq> Inr a \<and>
         (schar \<and> 128 \<le> length a mod 256
          \<longrightarrow> get_param schar \<lparr>msg_bytes = set_param a b\<rparr> 0 [] = Inl LengthError)"
proof -
  define n where "n = length a mod 256"
  have c: "char_value schar (char_of_size (length a)) = (if schar \<and> 128 \<le> n then int n - 256 else int n)"
    and n: "n < 256"
    by (simp_all add: char_value_def char_of_size_def n_def)
  show ?thesis
  proof (cases "schar \<and> 128 \<le> n")
    case True
    with c n show ?thesis by (simp add: get_param_def set_param_def Let_def)
  next
    case False
    have "n < length a"
      using assms False n unfolding n_def max_param0_def by (cases schar) (auto simp: not_le)
    with False have "char_value schar (char_of_size (length a)) = int n"
      by (simp add: c)
    with \<open>n < length a\<close> have "get_param schar \<lparr>msg_bytes = set_param a b\<rparr> 0 [] = Inr (take n a)"
      by (simp add: get_param_def set_param_def Let_def)
    moreover have "take n a \<noteq> a"
      using \<open>n < length a\<close> by (metis length_take min.absorb4 nat_neq_iff)
    ultimately show ?thesis using False by (auto simp: n_def)
  qed
qed

theorem param_too_long_witness:
  "get_param True \<lparr>msg_bytes = set_param (replicate 200 CHR ''x'') ''{}''\<rparr> 0 [] = Inl LengthError"
  using param_too_long [of True "replicate 200 CHR ''x''" "''{}''"]
  by (simp add: max_param0_def)

end
