(* ===== verification/Pzmq.thy ===== *)
theory Pzmq
  imports ZmqParam "HOL-Library.AList"
begin

text \<open>
  \<open>hybrid-comm/include/pzmq.hpp\<close>: one ZMQ socket with its mode, the table of RPC actions and the
  background thread. libzmq and the file system are outside the repository, so what they answer is
  the environment \<open>zmq_env\<close>: the results of \<open>zmq_bind\<close>, \<open>zmq_connect\<close> and \<open>zmq_send\<close>, whether a file
  exists, and the reply an RPC server gives (empty when the receive times out). The \<open>do .. while\<close>
  loops around \<open>zmq_ctx_new\<close> and \<open>zmq_socket\<close> repeat until the library hands out the object, so
  the model starts from their success. Socket options change timing only and are left out.
\<close>

section \<open>State and environment\<close>

datatype zmq_mode = ZMQ_PUB | ZMQ_SUB | ZMQ_PUSH | ZMQ_PULL | ZMQ_RPC_FUN | ZMQ_RPC_CALL | ZMQ_UNSET

record zmq_env =
  zmq_bind :: "string \<Rightarrow> int"
  zmq_connect :: "string \<Rightarrow> int"
  zmq_send :: "string \<Rightarrow> string \<Rightarrow> int"
  path_exists :: "string \<Rightarrow> bool"
  rpc_answer :: "string \<Rightarrow> string \<Rightarrow> string \<Rightarrow> string"

text \<open>
  The action table maps a name to a handler; \<open>list_action\<close> is installed by the class itself. It is an
  association list whose order is the iteration order of the \<open>unordered_map\<close>. \<open>flage\<close> is the stop
  flag of the receiving thread; \<open>removed\<close> lists the socket files \<open>close_zmq\<close> deleted.
\<close>

datatype 'h rpc_entry = List_Action | Handler 'h

record 'h pzmq =
  rpc_url_head :: string
  socket_open :: bool
  zmq_fun :: "(string \<times> 'h rpc_entry) list"
  flage :: bool
  thread_running :: bool
  mode :: zmq_mode
  rpc_server :: string
  zmq_url :: string
  timeout :: int
  removed :: "string list"

definition rpc_url_head_length :: nat where
  "rpc_url_head_length = 6"

definition default_url_head :: string where
  "default_url_head = ''ipc:///tmp/rpc.''"

definition is_bind :: "'h pzmq \<Rightarrow> bool" where
  "is_bind p \<longleftrightarrow> mode p = ZMQ_PUB \<or> mode p = ZMQ_PULL \<or> mode p = ZMQ_RPC_FUN"

section \<open>Creating a socket\<close>

definition creat_pub :: "zmq_env \<Rightarrow> string \<Rightarrow> 'h pzmq \<Rightarrow> int \<times> 'h pzmq" where
  "creat_pub env url p = (zmq_bind env url, p)"

definition creat_push :: "zmq_env \<Rightarrow> string \<Rightarrow> 'h pzmq \<Rightarrow> int \<times> 'h pzmq" where
  "creat_push env url p = (zmq_connect env url, p)"

definition creat_pull :: "zmq_env \<Rightarrow> string \<Rightarrow> 'h pzmq \<Rightarrow> int \<times> 'h pzmq" where
  "creat_pull env url p = (zmq_bind env url, p\<lparr>flage := False, thread_running := True\<rparr>)"

definition subscriber_url :: "zmq_env \<Rightarrow> string \<Rightarrow> 'h pzmq \<Rightarrow> int \<times> 'h pzmq" where
  "subscriber_url env url p = (zmq_connect env url, p\<lparr>flage := False, thread_running := True\<rparr>)"

definition creat_rep :: "zmq_env \<Rightarrow> string \<Rightarrow> 'h pzmq \<Rightarrow> int \<times> 'h pzmq" where
  "creat_rep env url p = (zmq_bind env url, p\<lparr>flage := False, thread_running := True\<rparr>)"

definition creat_req :: "zmq_env \<Rightarrow> string \<Rightarrow> 'h pzmq \<Rightarrow> int \<times> 'h pzmq" where
  "creat_req env url p =
     (if rpc_url_head p \<noteq> [] \<and> \<not> path_exists env (drop rpc_url_head_length url) then (- 1, p)
      else (zmq_connect env url, p))"

definition creat :: "zmq_env \<Rightarrow> string \<Rightarrow> 'h pzmq \<Rightarrow> int \<times> 'h pzmq" where
  "creat env url p0 =
     (let p = p0\<lparr>zmq_url := url, socket_open := True\<rparr>
      in case mode p of
           ZMQ_PUB \<Rightarrow> creat_pub env url p
         | ZMQ_SUB \<Rightarrow> subscriber_url env url p
         | ZMQ_PUSH \<Rightarrow> creat_push env url p
         | ZMQ_PULL \<Rightarrow> creat_pull env url p
         | ZMQ_RPC_FUN \<Rightarrow> creat_rep env url p
         | ZMQ_RPC_CALL \<Rightarrow> creat_req env url p
         | ZMQ_UNSET \<Rightarrow> (0, p))"

text \<open>The two constructors: an RPC end, created lazily, and a socket of a given mode.\<close>

definition pzmq_blank :: "'h pzmq" where
  "pzmq_blank = \<lparr>rpc_url_head = default_url_head, socket_open = False, zmq_fun = [], flage = True,
     thread_running = False, mode = ZMQ_UNSET, rpc_server = [], zmq_url = [], timeout = 3000,
     removed = []\<rparr>"

definition pzmq_rpc :: "string \<Rightarrow> 'h pzmq" where
  "pzmq_rpc server =
     (let p = pzmq_blank\<lparr>rpc_server := server\<rparr>
      in if str_contains ''://'' server then p\<lparr>rpc_url_head := []\<rparr> else p)"

text \<open>\<open>url[0]\<close> and \<open>url[1]\<close> are read before the URL is used: \<open>url[1]\<close> is out of bounds on an empty URL.\<close>

definition pzmq_socket :: "zmq_env \<Rightarrow> string \<Rightarrow> zmq_mode \<Rightarrow> 'h pzmq res" where
  "pzmq_socket env url md =
     (let at = (\<lambda>i. if i < length url then url ! i else nul);
          p = pzmq_blank\<lparr>mode := md\<rparr>
      in if url = [] then Inl Undefined
         else let p' = (if at 0 \<noteq> CHR ''i'' \<and> at 1 \<noteq> CHR ''p'' then p\<lparr>rpc_url_head := []\<rparr> else p)
              in Inr (if md \<noteq> ZMQ_RPC_FUN then snd (creat env url p') else p'))"

definition set_timeout :: "int \<Rightarrow> 'h pzmq \<Rightarrow> 'h pzmq" where
  "set_timeout ms p = p\<lparr>timeout := ms\<rparr>"

definition send_data :: "zmq_env \<Rightarrow> string \<Rightarrow> 'h pzmq \<Rightarrow> int" where
  "send_data env raw p = zmq_send env (zmq_url p) raw"

section \<open>The RPC server\<close>

definition list_action :: "'h pzmq \<Rightarrow> string" where
  "list_action p =
     ''{'' @ [dquote] @ ''actions'' @ [dquote] @ '':['' @
     (concat (map (\<lambda>n. dquote # n @ [dquote, CHR '','']) (butlast (map fst (zmq_fun p)))) @
      (dquote # last (map fst (zmq_fun p)) @ [dquote])) @ '']}''"

definition register_rpc_action :: "zmq_env \<Rightarrow> string \<Rightarrow> 'h \<Rightarrow> 'h pzmq \<Rightarrow> int \<times> 'h pzmq" where
  "register_rpc_action env action h p =
     (if map_of (zmq_fun p) action \<noteq> None
      then (0, p\<lparr>zmq_fun := AList.update action (Handler h) (zmq_fun p)\<rparr>)
      else let (ret, p') =
             (if zmq_fun p = []
              then creat env (rpc_url_head p @ rpc_server p)
                     (p\<lparr>mode := ZMQ_RPC_FUN, zmq_fun := [(''list_action'', List_Action)]\<rparr>)
              else (0, p))
           in (ret, p'\<lparr>zmq_fun := AList.update action (Handler h) (zmq_fun p')\<rparr>))"

definition unregister_rpc_action :: "string \<Rightarrow> 'h pzmq \<Rightarrow> 'h pzmq" where
  "unregister_rpc_action action p = p\<lparr>zmq_fun := AList.delete action (zmq_fun p)\<rparr>"

text \<open>
  The REP branch of \<open>zmq_event_loop\<close>: the handler runs inside \<open>try .. catch (...)\<close>, so an action that is
  not in the table (\<open>at\<close> throws) and a handler that throws are both answered \<open>NotAction\<close>. Faults that
  are not C++ exceptions are not caught.
\<close>

definition is_exception :: "fault \<Rightarrow> bool" where
  "is_exception f \<longleftrightarrow> f \<in> {OutOfRange, LengthError, InvalidArgument, RuntimeError, BadAnyCast, JsonError}"

definition rpc_serve ::
  "('h \<Rightarrow> string \<Rightarrow> 's \<Rightarrow> (string \<times> 's) res) \<Rightarrow> 'h pzmq \<Rightarrow> string \<Rightarrow> string \<Rightarrow> 's \<Rightarrow> (string \<times> 's) res" where
  "rpc_serve run p action raw s =
     (case map_of (zmq_fun p) action of
        None \<Rightarrow> Inr (''NotAction'', s)
      | Some List_Action \<Rightarrow> Inr (list_action p, s)
      | Some (Handler h) \<Rightarrow>
          (case run h raw s of
             Inl f \<Rightarrow> if is_exception f then Inr (''NotAction'', s) else Inl f
           | Inr r \<Rightarrow> Inr r))"

section \<open>Closing and calling\<close>

definition close_zmq :: "zmq_env \<Rightarrow> 'h pzmq \<Rightarrow> 'h pzmq" where
  "close_zmq env p =
     (let file = drop rpc_url_head_length (zmq_url p);
          p' = (if is_bind p \<and> rpc_url_head p \<noteq> [] \<and> path_exists env file
                then p\<lparr>removed := removed p @ [file]\<rparr> else p)
      in p'\<lparr>socket_open := False\<rparr>)"

definition pzmq_destroy :: "zmq_env \<Rightarrow> 'h pzmq \<Rightarrow> 'h pzmq" where
  "pzmq_destroy env p =
     (if \<not> socket_open p then p
      else close_zmq env (p\<lparr>flage := True, thread_running := False\<rparr>))"

text \<open>
  \<open>call_rpc_action\<close>: the result, the message handed to the callback (if it ran) and the object after
  it. A socket that is already open skips the branch that sets \<open>ret\<close>, which is then returned
  uninitialised; the request has been sent by then.
\<close>

definition call_rpc_action ::
  "zmq_env \<Rightarrow> string \<Rightarrow> string \<Rightarrow> 'h pzmq \<Rightarrow> (int \<times> pzmq_data option \<times> 'h pzmq) res" where
  "call_rpc_action env action data p =
     (if socket_open p then Inl Undefined
      else if rpc_server p = [] then Inr (- 1, None, p)
      else
        let url = rpc_url_head p @ rpc_server p;
            (ret, p1) = creat env url (p\<lparr>mode := ZMQ_RPC_CALL\<rparr>)
        in if ret \<noteq> 0 then Inr (ret, None, close_zmq env p1)
           else Inr (ret, Some \<lparr>msg_bytes = rpc_answer env url action data\<rparr>, close_zmq env p1))"

section \<open>Lemmas\<close>

lemma creat_zmq_fun [simp]: "zmq_fun (snd (creat env url p)) = zmq_fun p"
  by (simp add: creat_def Let_def creat_pub_def creat_push_def creat_pull_def subscriber_url_def
      creat_rep_def creat_req_def split: zmq_mode.splits)

lemma creat_socket_open [simp]: "socket_open (snd (creat env url p))"
  by (simp add: creat_def Let_def creat_pub_def creat_push_def creat_pull_def subscriber_url_def
      creat_rep_def creat_req_def split: zmq_mode.splits)

lemma close_zmq_simps [simp]:
  "socket_open (close_zmq env p) = False" "zmq_fun (close_zmq env p) = zmq_fun p"
  "mode (close_zmq env p) = mode p" "zmq_url (close_zmq env p) = zmq_url p"
  by (simp_all add: close_zmq_def Let_def)

lemma register_table:
  "map_of (zmq_fun (snd (register_rpc_action env a h p))) b =
     (if b = a then Some (Handler h)
      else if zmq_fun p = [] \<and> b = ''list_action'' then Some List_Action
      else map_of (zmq_fun p) b)"
  by (auto simp: register_rpc_action_def Let_def case_prod_beta update_conv')

text \<open>An action answers with the handler registered last for it, whatever else was registered
  before; the first registration also installs \<open>list_action\<close>; any other name is answered
  \<open>NotAction\<close> and leaves the server's state alone.\<close>

theorem rpc_registered_action_served:
  "rpc_serve run (snd (register_rpc_action env a h p)) b raw s =
     (if b = a then (case run h raw s of
                       Inl f \<Rightarrow> if is_exception f then Inr (''NotAction'', s) else Inl f
                     | Inr r \<Rightarrow> Inr r)
      else if zmq_fun p = [] then
        (if b = ''list_action'' then Inr (list_action (snd (register_rpc_action env a h p)), s)
         else Inr (''NotAction'', s))
      else (case map_of (zmq_fun p) b of
              Some List_Action \<Rightarrow> Inr (list_action (snd (register_rpc_action env a h p)), s)
            | _ \<Rightarrow> rpc_serve run p b raw s))"
  by (auto simp: rpc_serve_def register_table split: option.splits rpc_entry.splits)



end
