(* ===== verification/Format.thy ===== *)
theory Format
  imports Prelude
begin

text \<open>
  The two C library functions the unit manager formats its socket URLs with: \<open>sprintf\<close> and
  \<open>sscanf\<close> on a format that holds one \<open>%i\<close> (the entries \<open>config_zmq_s_format\<close> and
  \<open>config_zmq_c_format\<close> of \<open>master_config.json\<close>). A second conversion has no argument left, which is
  undefined behaviour. \<open>%i\<close> reads a hexadecimal or octal number after \<open>0x\<close> or \<open>0\<close>.
\<close>

section \<open>sprintf\<close>

fun sprintf_i :: "string \<Rightarrow> int option \<Rightarrow> string res" where
  "sprintf_i [] arg = Inr []"
| "sprintf_i (c # cs) arg =
     (if c = nul then Inr []
      else if c \<noteq> CHR ''%'' then rbind (sprintf_i cs arg) (\<lambda>r. Inr (c # r))
      else (case cs of
              [] \<Rightarrow> Inl Undefined
            | k # cs' \<Rightarrow>
                if k = CHR ''%'' then rbind (sprintf_i cs' arg) (\<lambda>r. Inr (CHR ''%'' # r))
                else if k = CHR ''i'' \<or> k = CHR ''d'' then
                  (case arg of
                     None \<Rightarrow> Inl Undefined
                   | Some n \<Rightarrow> rbind (sprintf_i cs' None) (\<lambda>r. Inr (int_to_string n @ r)))
                else Inl NotModelled))"

text \<open>\<open>sprintf\<close> into a buffer of \<open>cap\<close> bytes: the text and its NUL must fit.\<close>

definition sprintf_buf :: "nat \<Rightarrow> string \<Rightarrow> int \<Rightarrow> string res" where
  "sprintf_buf cap fmt n =
     rbind (sprintf_i fmt (Some n)) (\<lambda>s. if cap < length s + 1 then Inl Undefined else Inr s)"

section \<open>sscanf\<close>

definition hex_val :: "char \<Rightarrow> nat" where
  "hex_val c = (if is_digit c then digit_val c
                else if 97 \<le> code_of c then code_of c - 87 else code_of c - 55)"

definition is_hex :: "char \<Rightarrow> bool" where
  "is_hex c \<longleftrightarrow> is_digit c \<or> (97 \<le> code_of c \<and> code_of c \<le> 102) \<or> (65 \<le> code_of c \<and> code_of c \<le> 70)"

definition is_oct :: "char \<Rightarrow> bool" where
  "is_oct c \<longleftrightarrow> 48 \<le> code_of c \<and> code_of c \<le> 55"

definition base_val :: "nat \<Rightarrow> string \<Rightarrow> nat" where
  "base_val b s = foldl (\<lambda>v c. b * v + hex_val c) 0 s"

definition store_int :: "bool \<Rightarrow> nat \<Rightarrow> int option res" where
  "store_int neg v =
     (let i = (if neg then - int v else int v)
      in if i < int_min \<or> int_max < i then Inl Undefined else Inr (Some i))"

text \<open>The input item of \<open>%i\<close>: \<open>None\<close> when it fails to match, so that nothing is stored.\<close>

definition scan_int :: "string \<Rightarrow> int option res" where
  "scan_int s =
     (let (neg, body) = split_sign s
      in case body of
           [] \<Rightarrow> Inr None
         | c # cs \<Rightarrow>
             if c = CHR ''0'' \<and> cs \<noteq> [] \<and> (hd cs = CHR ''x'' \<or> hd cs = CHR ''X'') then
               (let ds = takeWhile is_hex (tl cs)
                in if ds = [] then Inr None else store_int neg (base_val 16 ds))
             else if c = CHR ''0'' then store_int neg (base_val 8 (takeWhile is_oct body))
             else if is_digit c then store_int neg (digits_val (takeWhile is_digit body))
             else Inr None)"

definition scan_dec :: "string \<Rightarrow> int option res" where
  "scan_dec s =
     (let (neg, body) = split_sign s; ds = takeWhile is_digit body
      in if ds = [] then Inr None else store_int neg (digits_val ds))"

text \<open>The value the first conversion of the format stores; what follows it stores nothing more.\<close>

fun sscanf_i :: "string \<Rightarrow> string \<Rightarrow> int option res" where
  "sscanf_i [] inp = Inr None"
| "sscanf_i (c # cs) inp =
     (if c = nul then Inr None
      else if is_space c then sscanf_i cs (dropWhile is_space inp)
      else if c \<noteq> CHR ''%'' then
        (case inp of [] \<Rightarrow> Inr None | d # ds \<Rightarrow> if d = c then sscanf_i cs ds else Inr None)
      else (case cs of
              [] \<Rightarrow> Inl Undefined
            | k # cs' \<Rightarrow>
                let rest = dropWhile is_space inp
                in if k = CHR ''%'' then
                     (case rest of
                        [] \<Rightarrow> Inr None
                      | d # ds \<Rightarrow> if d = CHR ''%'' then sscanf_i cs' ds else Inr None)
                   else if k = CHR ''i'' then scan_int rest
                   else if k = CHR ''d'' then scan_dec rest
                   else Inl NotModelled))"

section \<open>Formats with one conversion\<close>

definition literal :: "string \<Rightarrow> bool" where
  "literal s \<longleftrightarrow> (\<forall>c \<in> set s. c \<noteq> CHR ''%'' \<and> c \<noteq> nul)"

definition one_conversion :: "string \<Rightarrow> string \<Rightarrow> string \<Rightarrow> bool" where
  "one_conversion fmt pre post \<longleftrightarrow>
     fmt = pre @ ''%i'' @ post \<and> literal pre \<and> literal post \<and> (\<forall>c \<in> set pre. \<not> is_space c)"

text \<open>The text after a printed number does not extend it.\<close>

definition stops_number :: "string \<Rightarrow> bool" where
  "stops_number s \<longleftrightarrow> (s = [] \<or> (\<not> is_digit (hd s) \<and> hd s \<noteq> CHR ''x'' \<and> hd s \<noteq> CHR ''X''))"

lemma literal_Cons [simp]: "literal (c # s) \<longleftrightarrow> c \<noteq> CHR ''%'' \<and> c \<noteq> nul \<and> literal s"
  by (auto simp: literal_def)

lemma literal_Nil [simp]: "literal []"
  by (simp add: literal_def)

lemma literal_append [simp]: "literal (s @ t) \<longleftrightarrow> literal s \<and> literal t"
  by (auto simp: literal_def)

lemma sprintf_i_literal: "literal s \<Longrightarrow> sprintf_i s arg = Inr s"
  by (induction s) (auto simp: literal_def)

lemma sprintf_i_prefix:
  "literal pre \<Longrightarrow> sprintf_i (pre @ fmt) arg = rbind (sprintf_i fmt arg) (\<lambda>r. Inr (pre @ r))"
proof (induction pre)
  case Nil
  then show ?case by (simp add: rbind_def split: sum.splits)
next
  case (Cons c pre)
  then have "c \<noteq> nul" "c \<noteq> CHR ''%''" "literal pre" by (auto simp: literal_def)
  with Cons.IH show ?case by (simp add: rbind_def split: sum.splits)
qed

lemma sprintf_i_one:
  "literal pre \<Longrightarrow> literal post \<Longrightarrow>
   sprintf_i (pre @ CHR ''%'' # CHR ''i'' # post) (Some n) = Inr (pre @ int_to_string n @ post)"
  by (simp add: sprintf_i_prefix sprintf_i_literal)

lemma sprintf_buf_one:
  "literal pre \<Longrightarrow> literal post \<Longrightarrow> length pre + length (int_to_string n) + length post < cap \<Longrightarrow>
   sprintf_buf cap (pre @ CHR ''%'' # CHR ''i'' # post) n = Inr (pre @ int_to_string n @ post)"
  by (simp add: sprintf_buf_def sprintf_i_one)

lemma nat_to_string_head:
  "\<exists>c cs. nat_to_string n = c # cs \<and> is_digit c \<and> (c = CHR ''0'' \<longrightarrow> n = 0 \<and> cs = [])"
proof (induction n rule: nat_to_string.induct)
  case (1 n)
  show ?case
  proof (cases "n < 10")
    case True
    have "digit_char n = CHR ''0'' \<longrightarrow> n = 0"
      using code_of_digit_char [OF True] by (auto simp: code_of_def)
    with True show ?thesis
      by (subst nat_to_string.simps) (simp add: is_digit_digit_char)
  next
    case False
    with 1 obtain c cs where c: "nat_to_string (n div 10) = c # cs" "is_digit c"
      "c = CHR ''0'' \<longrightarrow> n div 10 = 0 \<and> cs = []" by blast
    moreover have "n div 10 \<noteq> 0" using False by simp
    ultimately show ?thesis
      using False by (subst nat_to_string.simps) simp
  qed
qed

lemma scan_int_nat_to_string:
  assumes "int n \<le> int_max" "stops_number rest"
  shows "scan_int (nat_to_string n @ rest) = Inr (Some (int n))"
proof -
  obtain c cs where c: "nat_to_string n = c # cs" "is_digit c" "c = CHR ''0'' \<longrightarrow> n = 0 \<and> cs = []"
    using nat_to_string_head by blast
  have sign: "split_sign (nat_to_string n @ rest) = (False, nat_to_string n @ rest)"
    using c by (simp add: split_sign_def digit_not_sign)
  have st: "store_int False m = Inr (Some (int m))" if "int m \<le> int_max" for m
    using that by (simp add: store_int_def int_min_def)
  show ?thesis
  proof (cases "c = CHR ''0''")
    case True
    with c have "n = 0" "cs = []" by simp_all
    moreover have "takeWhile is_oct (CHR ''0'' # rest) = ''0''"
      using assms(2) by (cases rest) (auto simp: is_oct_def code_of_def is_digit_def stops_number_def)
    ultimately show ?thesis
      using True c sign assms(2) st [of 0]
      by (auto simp: scan_int_def stops_number_def base_val_def hex_val_def digit_val_def is_digit_def
          code_of_def int_max_def)
  next
    case False
    have "takeWhile is_digit (nat_to_string n @ rest) = nat_to_string n"
      using assms(2) by (intro takeWhile_digits_append nat_to_string_digits) (auto simp: stops_number_def)
    then have tw: "takeWhile is_digit (c # cs @ rest) = c # cs" using c(1) by simp
    have dv: "digits_val (c # cs) = n" using c(1) digits_val_nat_to_string [of n] by simp
    have sg: "split_sign (c # cs @ rest) = (False, c # cs @ rest)" using sign c(1) by simp
    show ?thesis
      using False st [OF assms(1)] dv c(2)
      by (simp add: scan_int_def c(1) sg tw del: takeWhile.simps)
  qed
qed

lemma sscanf_i_prefix:
  "literal pre \<Longrightarrow> \<forall>c \<in> set pre. \<not> is_space c \<Longrightarrow> sscanf_i (pre @ fmt) (pre @ inp) = sscanf_i fmt inp"
  by (induction pre) (auto simp: literal_def)

lemma dropWhile_nat_to_string: "dropWhile is_space (nat_to_string n @ rest) = nat_to_string n @ rest"
  using nat_to_string_head [of n] by (auto simp: digit_not_space)

lemma sscanf_i_one:
  assumes "one_conversion fmt pre post" "int n \<le> int_max" "stops_number rest"
  shows "sscanf_i fmt (pre @ nat_to_string n @ rest) = Inr (Some (int n))"
proof -
  have "sscanf_i fmt (pre @ nat_to_string n @ rest)
      = sscanf_i (CHR ''%'' # CHR ''i'' # post) (nat_to_string n @ rest)"
    using assms(1) sscanf_i_prefix [of pre "CHR ''%'' # CHR ''i'' # post" "nat_to_string n @ rest"]
    by (simp add: one_conversion_def)
  moreover have "\<not> is_space (CHR ''%'')" by (simp add: is_space_def code_of_def)
  ultimately show ?thesis
    using scan_int_nat_to_string [OF assms(2,3)] by (simp add: dropWhile_nat_to_string Let_def)
qed

text \<open>Two numbers printed through one format give different texts.\<close>

lemma format_inject:
  "pre @ nat_to_string m @ post = pre @ nat_to_string n @ post \<longleftrightarrow> m = n"
  by simp

end
