(* ===== verification/StackFlowUtil.thy ===== *)
theory StackFlowUtil
  imports Prelude "HOL-Library.AList"
begin

unbundle bit_operations_syntax

text \<open>
  \<open>infra-controller/src/StackFlowUtil.cpp\<close>: the textual JSON field scanner every node and the
  unit manager use, the \<open>work_id\<close> functions, the UTF-8 encoder and the reassembly of streamed
  text. The scanner is a character automaton, so it is modelled as one: its state is the record
  \<open>scan_state\<close> and one iteration of the \<open>for\<close> loop is \<open>scan_step\<close>.
\<close>

section \<open>The field scanner\<close>

text \<open>The values 0, 10, 100 and -1 of the local variable \<open>status\<close>.\<close>

datatype scan_status = Outside | InObject | InString | Finished

record scan_state =
  key_val :: string
  status :: scan_status
  last_c :: char
  obj_flage :: int

definition quoted :: "string \<Rightarrow> string" where
  "quoted s = dquote # s @ [dquote]"

definition scan_init :: scan_state where
  "scan_init = \<lparr>key_val = [], status = Outside, last_c = nul, obj_flage = 0\<rparr>"

definition push :: "char \<Rightarrow> scan_state \<Rightarrow> scan_state" where
  "push c s = s\<lparr>key_val := key_val s @ [c]\<rparr>"

definition scan_outside :: "char \<Rightarrow> scan_state \<Rightarrow> scan_state" where
  "scan_outside c s =
     (if c = dquote then s\<lparr>status := InString\<rparr>
      else if c = CHR ''{'' then (push c s)\<lparr>obj_flage := 1, status := InObject\<rparr>
      else if c = CHR '':'' then s\<lparr>obj_flage := 1\<rparr>
      else if c = CHR '','' \<or> c = CHR ''}'' then s\<lparr>obj_flage := 0, status := Finished\<rparr>
      else if c = CHR '' '' then s
      else if obj_flage s \<noteq> 0 then push c s
      else s)"

definition scan_object :: "char \<Rightarrow> scan_state \<Rightarrow> scan_state" where
  "scan_object c s =
     (let s1 = push c s;
          s2 = (if c = CHR ''{'' then s1\<lparr>obj_flage := obj_flage s1 + 1\<rparr> else s1);
          s3 = (if c = CHR ''}'' then s2\<lparr>obj_flage := obj_flage s2 - 1\<rparr> else s2)
      in if obj_flage s3 = 0 \<and> key_val s3 \<noteq> [] then s3\<lparr>status := Finished\<rparr> else s3)"

definition scan_in_string :: "char \<Rightarrow> scan_state \<Rightarrow> scan_state" where
  "scan_in_string c s =
     (if c = dquote \<and> last_c s \<noteq> bslash then s\<lparr>obj_flage := 0, status := Finished\<rparr> else push c s)"

definition scan_step :: "char \<Rightarrow> scan_state \<Rightarrow> scan_state" where
  "scan_step c s =
     (case status s of
        Outside \<Rightarrow> scan_outside c s
      | InObject \<Rightarrow> scan_object c s
      | InString \<Rightarrow> scan_in_string c s
      | Finished \<Rightarrow> s)\<lparr>last_c := c\<rparr>"

definition scan_result :: "scan_state \<Rightarrow> string" where
  "scan_result s = (if obj_flage s \<noteq> 0 then [] else key_val s)"

definition scan_text :: "string \<Rightarrow> scan_state \<Rightarrow> scan_state" where
  "scan_text cs s = fold scan_step cs s"

definition sample_json_str_get :: "string \<Rightarrow> string \<Rightarrow> string" where
  "sample_json_str_get json_str json_key =
     (let find_key = quoted json_key
      in case str_find find_key json_str of
           None \<Rightarrow> []
         | Some subs_start \<Rightarrow>
             scan_result (scan_text (drop (subs_start + length find_key) json_str) scan_init))"

section \<open>Work ids\<close>

definition WORK_ID_NONE :: int where
  "WORK_ID_NONE = - 100"

definition sample_get_work_id_num :: "string \<Rightarrow> int res" where
  "sample_get_work_id_num work_id =
     (case str_find ''.'' work_id of
        None \<Rightarrow> Inr WORK_ID_NONE
      | Some a \<Rightarrow>
          if a = length work_id - 1 then Inr WORK_ID_NONE else stoi (drop (a + 1) work_id))"

definition sample_get_work_id_name :: "string \<Rightarrow> string" where
  "sample_get_work_id_name work_id =
     (case str_find ''.'' work_id of None \<Rightarrow> work_id | Some a \<Rightarrow> take a work_id)"

definition sample_get_work_id :: "int \<Rightarrow> string \<Rightarrow> string" where
  "sample_get_work_id work_id_num unit_name = unit_name @ ''.'' @ int_to_string work_id_num"

section \<open>UTF-8\<close>

text \<open>The bytes written to \<open>output\<close>; \<open>*length\<close> is their number, and 0 past U+10FFFF.\<close>

definition unicode_to_utf8 :: "32 word \<Rightarrow> 8 word list" where
  "unicode_to_utf8 codepoint =
     (if codepoint \<le> 0x7F then
        [ucast (codepoint AND 0x7F)]
      else if codepoint \<le> 0x7FF then
        [ucast (0xC0 OR (drop_bit 6 codepoint AND 0x1F)),
         ucast (0x80 OR (codepoint AND 0x3F))]
      else if codepoint \<le> 0xFFFF then
        [ucast (0xE0 OR (drop_bit 12 codepoint AND 0x0F)),
         ucast (0x80 OR (drop_bit 6 codepoint AND 0x3F)),
         ucast (0x80 OR (codepoint AND 0x3F))]
      else if codepoint \<le> 0x10FFFF then
        [ucast (0xF0 OR (drop_bit 18 codepoint AND 0x07)),
         ucast (0x80 OR (drop_bit 12 codepoint AND 0x3F)),
         ucast (0x80 OR (drop_bit 6 codepoint AND 0x3F)),
         ucast (0x80 OR (codepoint AND 0x3F))]
      else [])"

section \<open>Streamed text\<close>

text \<open>
  \<open>stream_buff\<close> is an \<open>unordered_map<int, std::string>\<close>, kept as an association list so that its
  size is computable. Both numbers are \<open>int\<close>s; \<open>stream_buff.at(i)\<close> throws on a missing index.
\<close>

type_synonym stream_buff = "(int \<times> string) list"

fun join_stream :: "stream_buff \<Rightarrow> nat \<Rightarrow> nat \<Rightarrow> string \<Rightarrow> string res" where
  "join_stream buff i 0 out = Inr out"
| "join_stream buff i (Suc k) out =
     (case map_of buff (int i) of
        None \<Rightarrow> Inl OutOfRange
      | Some s \<Rightarrow> join_stream buff (Suc i) k (out @ s))"

text \<open>The result holds the return value, \<open>out\<close> and the new \<open>stream_buff\<close>.\<close>

definition decode_stream :: "string \<Rightarrow> string \<Rightarrow> stream_buff \<Rightarrow> (bool \<times> string \<times> stream_buff) res" where
  "decode_stream inp out stream_buff =
     rbind (stoi (sample_json_str_get inp ''index'')) (\<lambda>index.
       let finish = sample_json_str_get inp ''finish'';
           buff = AList.update index (sample_json_str_get inp ''delta'') stream_buff
       in if \<not> str_contains ''f'' finish
          then rbind (join_stream buff 0 (length buff) out) (\<lambda>out'. Inr (False, out', []))
          else Inr (True, out, buff))"

section \<open>How the scanner runs\<close>

text \<open>
  The shapes of value the scanner reads back unchanged: the body of a string literal (every quote
  in it escaped, and no backslash just before the closing quote), and a brace-delimited body that
  first balances at its end.
\<close>

fun str_body :: "char \<Rightarrow> string \<Rightarrow> bool" where
  "str_body p [] = (p \<noteq> bslash)"
| "str_body p (c # cs) = ((c = dquote \<longrightarrow> p = bslash) \<and> str_body c cs)"

definition brace_step :: "char \<Rightarrow> int \<Rightarrow> int" where
  "brace_step c d = (if c = CHR ''{'' then d + 1 else if c = CHR ''}'' then d - 1 else d)"

fun closes :: "int \<Rightarrow> string \<Rightarrow> bool" where
  "closes d [] = False"
| "closes d (c # cs) = (if brace_step c d = 0 then cs = [] else closes (brace_step c d) cs)"

definition plain_char :: "char \<Rightarrow> bool" where
  "plain_char c \<longleftrightarrow> c \<notin> {dquote, bslash, CHR ''{'', CHR ''}'', CHR '','', CHR '':'', CHR '' ''}"

definition plain_text :: "string \<Rightarrow> bool" where
  "plain_text s \<longleftrightarrow> dquote \<notin> set s \<and> bslash \<notin> set s"

lemma scan_simps [simp, exec_simps]:
  "scan_text [] s = s" "scan_text (c # cs) s = scan_text cs (scan_step c s)" "scan_text (xs @ ys) s = scan_text ys (scan_text xs s)"
  by (simp_all add: scan_text_def)

lemma scan_Finished:
  "status s = Finished \<Longrightarrow>
   status (scan_text cs s) = Finished \<and> key_val (scan_text cs s) = key_val s \<and> obj_flage (scan_text cs s) = obj_flage s"
  by (induction cs arbitrary: s) (simp_all add: scan_step_def)

lemma scan_result_Finished:
  "status s = Finished \<Longrightarrow> scan_result (scan_text cs s) = scan_result s"
  by (simp add: scan_result_def scan_Finished)

text \<open>Separators between the key and its value leave the scanner outside, the flag set by a colon.\<close>

lemma scan_separators:
  assumes "set sep \<subseteq> {CHR '' '', CHR '':''}" "status s = Outside"
  shows "\<exists>l. scan_text sep s = s\<lparr>last_c := l, obj_flage := (if CHR '':'' \<in> set sep then 1 else obj_flage s)\<rparr>"
  using assms
proof (induction sep arbitrary: s)
  case Nil
  then show ?case by (intro exI [of _ "last_c s"]) simp
next
  case (Cons c sep)
  let ?t = "scan_step c s"
  have t: "?t = s\<lparr>last_c := c, obj_flage := (if c = CHR '':'' then 1 else obj_flage s)\<rparr>"
    using Cons.prems by (auto simp: scan_step_def scan_outside_def)
  then have "status ?t = Outside" using Cons.prems by simp
  with Cons.prems obtain l where
    "scan_text sep ?t = ?t\<lparr>last_c := l, obj_flage := (if CHR '':'' \<in> set sep then 1 else obj_flage ?t)\<rparr>"
    using Cons.IH [of ?t] by auto
  with t show ?case by (intro exI [of _ l]) auto
qed

lemma scan_separators_init:
  assumes "set sep \<subseteq> {CHR '' '', CHR '':''}"
  shows "status (scan_text sep scan_init) = Outside" "key_val (scan_text sep scan_init) = []"
    "obj_flage (scan_text sep scan_init) = (if CHR '':'' \<in> set sep then 1 else 0)"
  using scan_separators [OF assms, of scan_init] by (auto simp: scan_init_def)

lemma scan_string_body:
  "status s = InString \<Longrightarrow> str_body (last_c s) v \<Longrightarrow>
   status (scan_text v s) = InString \<and> key_val (scan_text v s) = key_val s @ v \<and> last_c (scan_text v s) \<noteq> bslash"
proof (induction v arbitrary: s)
  case (Cons c v)
  let ?t = "scan_step c s"
  have t: "status ?t = InString" "key_val ?t = key_val s @ [c]" "last_c ?t = c"
    using Cons.prems by (auto simp: scan_step_def scan_in_string_def push_def)
  with Cons.prems have "str_body (last_c ?t) v" by simp
  with t Cons.IH [of ?t] show ?case by simp
qed simp

lemma scan_object_body:
  "status s = InObject \<Longrightarrow> 0 < obj_flage s \<Longrightarrow> closes (obj_flage s) v \<Longrightarrow>
   status (scan_text v s) = Finished \<and> key_val (scan_text v s) = key_val s @ v \<and> obj_flage (scan_text v s) = 0"
proof (induction v arbitrary: s)
  case (Cons c v)
  let ?t = "scan_step c s" and ?d = "brace_step c (obj_flage s)"
  have t: "key_val ?t = key_val s @ [c]" "obj_flage ?t = ?d"
    "status ?t = (if ?d = 0 then Finished else InObject)"
    using Cons.prems
    by (auto simp: scan_step_def scan_object_def push_def brace_step_def Let_def)
  show ?case
  proof (cases "?d = 0")
    case True
    with Cons.prems t show ?thesis by simp
  next
    case False
    with Cons.prems have "0 < ?d" "closes ?d v"
      by (auto simp: brace_step_def split: if_splits)
    with False t Cons.IH [of ?t] show ?thesis by simp
  qed
qed simp

lemma scan_plain:
  "status s = Outside \<Longrightarrow> obj_flage s = 1 \<Longrightarrow> list_all plain_char v \<Longrightarrow>
   status (scan_text v s) = Outside \<and> key_val (scan_text v s) = key_val s @ v \<and> obj_flage (scan_text v s) = 1"
proof (induction v arbitrary: s)
  case (Cons c v)
  let ?t = "scan_step c s"
  have "status ?t = Outside" "key_val ?t = key_val s @ [c]" "obj_flage ?t = 1"
    using Cons.prems by (auto simp: scan_step_def scan_outside_def push_def plain_char_def)
  with Cons.prems Cons.IH [of ?t] show ?case by simp
qed simp

lemma plain_text_str_body: "plain_text v \<Longrightarrow> p \<noteq> bslash \<Longrightarrow> str_body p v"
proof (induction v arbitrary: p)
  case (Cons c v)
  have "c \<noteq> dquote" "c \<noteq> bslash"
    using Cons.prems(1) unfolding plain_text_def by (metis list.set_intros(1))+
  moreover have "plain_text v"
    using Cons.prems(1) by (simp add: plain_text_def)
  ultimately show ?case using Cons.IH [of c] by simp
qed simp

section \<open>Properties of the scanner\<close>

lemma get_string_literal:
  assumes "str_find (quoted key) json = Some n"
    and "drop (n + length (quoted key)) json = sep @ quoted v @ rest"
    and "set sep \<subseteq> {CHR '' '', CHR '':''}"
    and "str_body dquote v"
  shows "sample_json_str_get json key = v"
proof -
  note sep = scan_separators_init [OF assms(3)]
  let ?s1 = "scan_step dquote (scan_text sep scan_init)"
  have s1: "status ?s1 = InString" "key_val ?s1 = []" "last_c ?s1 = dquote"
    by (simp_all add: sep scan_step_def scan_outside_def)
  let ?s2 = "scan_text v ?s1"
  have s2: "status ?s2 = InString" "key_val ?s2 = v" "last_c ?s2 \<noteq> bslash"
    using scan_string_body [of ?s1 v] s1 assms(4) by simp_all
  have "status (scan_step dquote ?s2) = Finished" "scan_result (scan_step dquote ?s2) = v"
    using s2 by (simp_all add: scan_step_def scan_in_string_def scan_result_def)
  then have "scan_result (scan_text (sep @ quoted v @ rest) scan_init) = v"
    by (simp add: quoted_def scan_result_Finished)
  with assms(1,2) show ?thesis by (simp add: sample_json_str_get_def)
qed

text \<open>C18: a field whose value is a JSON string literal is read back exactly as it is written
  between the quotes, wherever in the text its key first occurs and whatever follows; the only
  condition is that the literal does not end in a backslash.\<close>

theorem get_string_field:
  assumes "str_find (quoted key) json = Some n"
    and "drop (n + length (quoted key)) json = sep @ quoted v @ rest"
    and "set sep \<subseteq> {CHR '' '', CHR '':''}"
    and "str_body dquote v"
  shows "sample_json_str_get json key = v"
  using assms by (rule get_string_literal)

theorem get_string_field_witness:
  "sample_json_str_get (quoted ''action'' @ '': '' @ quoted ''setup'' @ ''}'') ''action'' = ''setup''"
  by (rule get_string_field [where n = 0 and sep = "'': ''" and rest = "''}''"])
     (simp_all add: quoted_def)

lemma get_object_braces:
  assumes "str_find (quoted key) json = Some n"
    and "drop (n + length (quoted key)) json = sep @ ''{'' @ body @ rest"
    and "set sep \<subseteq> {CHR '' '', CHR '':''}"
    and "closes 1 body"
  shows "sample_json_str_get json key = ''{'' @ body"
proof -
  note sep = scan_separators_init [OF assms(3)]
  let ?s1 = "scan_step (CHR ''{'') (scan_text sep scan_init)"
  have s1: "status ?s1 = InObject" "key_val ?s1 = ''{''" "obj_flage ?s1 = 1"
    by (simp_all add: sep scan_step_def scan_outside_def push_def)
  then have s2: "status (scan_text body ?s1) = Finished" "scan_result (scan_text body ?s1) = ''{'' @ body"
    using scan_object_body [of ?s1 body] assms(4) by (simp_all add: scan_result_def)
  then have "scan_result (scan_text (sep @ ''{'' @ body @ rest) scan_init) = ''{'' @ body"
    using scan_result_Finished by simp
  with assms(1,2) show ?thesis by (simp add: sample_json_str_get_def)
qed

text \<open>A field whose value is an object is read back as the whole text of the object, up to the
  brace that balances the opening one; braces are counted wherever they stand, inside string
  literals too.\<close>

theorem get_object_field:
  assumes "str_find (quoted key) json = Some n"
    and "drop (n + length (quoted key)) json = sep @ ''{'' @ body @ rest"
    and "set sep \<subseteq> {CHR '' '', CHR '':''}"
    and "closes 1 body"
  shows "sample_json_str_get json key = ''{'' @ body"
  using assms by (rule get_object_braces)

theorem get_object_field_witness:
  "sample_json_str_get (quoted ''data'' @ '':{'' @ quoted ''a'' @ '':{}},'') ''data''
     = ''{'' @ quoted ''a'' @ '':{}}''"
  by (rule get_object_field [where n = 0 and sep = "'':''" and rest = "'',''"])
     (simp_all add: quoted_def brace_step_def)

text \<open>A number or a literal such as \<open>true\<close> is read back as it is written, when the comma or the
  brace that ends it follows at once.\<close>

theorem get_scalar_field:
  assumes "str_find (quoted key) json = Some n"
    and "drop (n + length (quoted key)) json = sep @ v @ e # rest"
    and "set sep = {CHR '':''} \<or> set sep = {CHR '' '', CHR '':''}"
    and "list_all plain_char v" and "e = CHR '','' \<or> e = CHR ''}''"
  shows "sample_json_str_get json key = v"
proof -
  have "set sep \<subseteq> {CHR '' '', CHR '':''}" "CHR '':'' \<in> set sep" using assms(3) by auto
  let ?s1 = "scan_text sep scan_init"
  have s1: "status ?s1 = Outside" "obj_flage ?s1 = 1" "key_val ?s1 = []"
    using scan_separators_init [OF \<open>set sep \<subseteq> _\<close>] \<open>CHR '':'' \<in> set sep\<close> by simp_all
  then have s2: "status (scan_text v ?s1) = Outside" "key_val (scan_text v ?s1) = v" "obj_flage (scan_text v ?s1) = 1"
    using scan_plain [of ?s1 v] assms(4) by simp_all
  then have "status (scan_step e (scan_text v ?s1)) = Finished" "scan_result (scan_step e (scan_text v ?s1)) = v"
    using assms(5) by (auto simp: scan_step_def scan_outside_def scan_result_def)
  then have "scan_result (scan_text (sep @ v @ e # rest) scan_init) = v"
    using scan_result_Finished by simp
  with assms(1,2) show ?thesis by (simp add: sample_json_str_get_def)
qed

theorem get_scalar_field_witness:
  "sample_json_str_get (quoted ''index'' @ '':12,'') ''index'' = ''12''"
  by (rule get_scalar_field [where n = 0 and sep = "'':''" and e = "CHR '',''" and rest = "[]"])
     (simp_all add: quoted_def plain_char_def)

text \<open>A text field that holds a closing brace cuts its object short: the scanner returns the
  object up to that brace, so the value a node receives as \<open>data\<close> is the same whatever follows the
  brace inside the string literal.\<close>

theorem brace_in_string_cuts_object:
  assumes "str_find (quoted key) json = Some n"
    and "drop (n + length (quoted key)) json
         = '':{'' @ quoted field @ '':'' @ [dquote] @ w @ ''}'' @ tail @ [dquote] @ ''}'' @ rest"
    and "CHR ''{'' \<notin> set (field @ w)" "CHR ''}'' \<notin> set (field @ w)"
  shows "sample_json_str_get json key = ''{'' @ quoted field @ '':'' @ [dquote] @ w @ ''}''"
proof -
  have closes_app: "closes 1 (v @ ''}'')" if "CHR ''{'' \<notin> set v" "CHR ''}'' \<notin> set v" for v
    using that by (induction v) (auto simp: brace_step_def)
  have "closes 1 ((quoted field @ '':'' @ [dquote] @ w) @ ''}'')"
    by (rule closes_app) (use assms(3,4) in \<open>auto simp: quoted_def\<close>)
  then show ?thesis
    using assms(1,2)
    by (intro get_object_braces [where sep = "'':''" and rest = "tail @ [dquote] @ ''}'' @ rest"]) auto
qed

theorem brace_in_string_cuts_object_witness:
  "sample_json_str_get (quoted ''data'' @ '':{'' @ quoted ''prompt'' @ '':'' @ quoted ''a } b'' @ ''}}'') ''data''
     = ''{'' @ quoted ''prompt'' @ '':'' @ [dquote] @ ''a }''"
  using brace_in_string_cuts_object [of "''data''"
      "quoted ''data'' @ '':{'' @ quoted ''prompt'' @ '':'' @ quoted ''a } b'' @ ''}}''"
      0 "''prompt''" "''a ''" "'' b''" "''}''"]
  by (simp add: quoted_def)

section \<open>Work ids: properties\<close>

lemma stoi_int_to_string:
  assumes "int_min \<le> n" "n \<le> int_max"
  shows "stoi (int_to_string n) = Inr n"
proof (cases "n < 0")
  case True
  let ?ds = "nat_to_string (nat (- n))"
  have "takeWhile is_digit ?ds = ?ds"
    using takeWhile_digits_append [of ?ds "[]"] by (simp add: nat_to_string_digits)
  moreover have "\<not> is_space (CHR ''-'')" by (simp add: is_space_def code_of_def)
  ultimately show ?thesis
    using True assms
    by (simp add: stoi_def int_to_string_def split_sign_def int_max_def Let_def
        del: takeWhile_eq_all_conv)
next
  case False
  then show ?thesis
    using assms stoi_nat_to_string [of "nat n"] by (simp add: int_to_string_def)
qed

lemma str_find_dot: "CHR ''.'' \<notin> set u \<Longrightarrow> str_find ''.'' (u @ ''.'' @ s) = Some (length u)"
  using str_find_skip [of "CHR ''.''" u "[]" "''.'' @ s"] str_find_prefix [of "''.''" s] by simp

text \<open>The number and the unit name of a work id built by \<open>sample_get_work_id\<close> are read back, for
  every \<open>int\<close> and every unit name without a dot.\<close>

theorem work_id_roundtrip:
  assumes "CHR ''.'' \<notin> set unit_name" "int_min \<le> n" "n \<le> int_max"
  shows "sample_get_work_id_num (sample_get_work_id n unit_name) = Inr n \<and>
         sample_get_work_id_name (sample_get_work_id n unit_name) = unit_name"
proof -
  have "int_to_string n \<noteq> []" by (simp add: int_to_string_def)
  then show ?thesis
    using assms str_find_dot [OF assms(1), of "int_to_string n"]
    by (simp add: sample_get_work_id_def sample_get_work_id_num_def sample_get_work_id_name_def
        stoi_int_to_string)
qed

theorem work_id_roundtrip_witness:
  "sample_get_work_id_num (sample_get_work_id 12 ''llm'') = Inr 12 \<and>
   sample_get_work_id_name (sample_get_work_id 12 ''llm'') = ''llm''"
  using work_id_roundtrip [of "''llm''" 12] by (simp add: int_min_def int_max_def)

section \<open>UTF-8: properties\<close>

text \<open>The reference decoder: payload bits of each byte, the lead byte giving the length.\<close>

definition utf8_payload :: "nat \<Rightarrow> 8 word \<Rightarrow> nat" where
  "utf8_payload n b = unat (take_bit n b)"

definition utf8_cont :: "8 word \<Rightarrow> bool" where
  "utf8_cont b \<longleftrightarrow> b AND 0xC0 = 0x80"

fun utf8_decode :: "8 word list \<Rightarrow> nat option" where
  "utf8_decode [a] = (if a AND 0x80 = 0 then Some (utf8_payload 7 a) else None)"
| "utf8_decode [a, b] =
     (if a AND 0xE0 = 0xC0 \<and> utf8_cont b then Some (utf8_payload 5 a * 64 + utf8_payload 6 b) else None)"
| "utf8_decode [a, b, c] =
     (if a AND 0xF0 = 0xE0 \<and> utf8_cont b \<and> utf8_cont c
      then Some ((utf8_payload 4 a * 64 + utf8_payload 6 b) * 64 + utf8_payload 6 c) else None)"
| "utf8_decode [a, b, c, d] =
     (if a AND 0xF8 = 0xF0 \<and> utf8_cont b \<and> utf8_cont c \<and> utf8_cont d
      then Some (((utf8_payload 3 a * 64 + utf8_payload 6 b) * 64 + utf8_payload 6 c) * 64
                 + utf8_payload 6 d) else None)"
| "utf8_decode _ = None"

lemma and_masks:
  fixes x :: "32 word"
  shows "x AND 0x7F = take_bit 7 x" "x AND 0x3F = take_bit 6 x" "x AND 0x1F = take_bit 5 x"
    "x AND 0x0F = take_bit 4 x" "x AND 0x07 = take_bit 3 x"
  by (simp_all add: take_bit_eq_mask mask_eq_exp_minus_1)

lemma take_bit_lead:
  fixes h x :: "32 word"
  assumes "n \<le> 8" "take_bit n h = 0"
  shows "take_bit n (ucast (h OR take_bit n x) :: 8 word) = ucast (take_bit n x)"
proof (rule bit_word_eqI)
  fix m assume "m < LENGTH(8)"
  have "m < n \<Longrightarrow> \<not> bit h m"
    using assms(2) by (metis bit_0_eq bit_take_bit_iff bot_apply bot_bool_def)
  with \<open>m < LENGTH(8)\<close> show "bit (take_bit n (ucast (h OR take_bit n x) :: 8 word)) m
      = bit (ucast (take_bit n x) :: 8 word) m"
    by (auto simp: bit_simps)
qed

lemma utf8_payload_lead:
  fixes h x :: "32 word"
  assumes "n \<le> 8" "take_bit n h = 0"
  shows "utf8_payload n (ucast (h OR take_bit n x)) = unat x mod 2 ^ n"
proof -
  have "unat x mod 2 ^ n < 2 ^ n" by simp
  also have "(2::nat) ^ n \<le> 2 ^ 8" using assms(1) by (rule power_increasing) simp
  finally have "unat x mod 2 ^ n < 256" by simp
  moreover have "unat (take_bit n x) = unat x mod 2 ^ n"
    unfolding unsigned_take_bit_eq by (rule take_bit_eq_mod)
  ultimately have "unat (ucast (take_bit n x) :: 8 word) = unat x mod 2 ^ n"
    by (simp only: unsigned_ucast_eq) (simp add: take_bit_eq_mod)
  with assms show ?thesis by (simp add: utf8_payload_def take_bit_lead)
qed

lemma utf8_cont_byte: "utf8_cont (ucast (0x80 OR (x AND 0x3F :: 32 word)))"
  by (simp add: utf8_cont_def unsigned_or_eq unsigned_and_eq bit.conj_disj_distrib2 and.assoc)

lemma utf8_lead_byte:
  fixes x :: "32 word"
  shows "ucast (0xC0 OR (x AND 0x1F)) AND 0xE0 = (0xC0 :: 8 word)"
    "ucast (0xE0 OR (x AND 0x0F)) AND 0xF0 = (0xE0 :: 8 word)"
    "ucast (0xF0 OR (x AND 0x07)) AND 0xF8 = (0xF0 :: 8 word)"
    "ucast (x AND 0x7F) AND 0x80 = (0 :: 8 word)"
  by (simp_all add: unsigned_or_eq unsigned_and_eq bit.conj_disj_distrib2 and.assoc)

lemma unat_drop_bit_div: "unat (drop_bit n (x :: 32 word)) = unat x div 2 ^ n"
  unfolding unat_drop_bit_eq by (rule drop_bit_eq_div)

lemma div_mod_64:
  fixes n :: nat
  shows "n div 64 * 64 + n mod 64 = n"
    "4096 * (n div 4096) + n div 64 mod 64 * 64 + n mod 64 = n"
    "262144 * (n div 262144) + 4096 * (n div 4096 mod 64) + n div 64 mod 64 * 64 + n mod 64 = n"
proof -
  have d: "n div 4096 = n div 64 div 64" "n div 262144 = n div 4096 div 64"
    using div_mult2_eq [of n 64 64] div_mult2_eq [of n 4096 64] by simp_all
  note m = mult_div_mod_eq [of 64 n] mult_div_mod_eq [of 64 "n div 64"]
    mult_div_mod_eq [of 64 "n div 4096"]
  show "n div 64 * 64 + n mod 64 = n"
    using m(1) by linarith
  show "4096 * (n div 4096) + n div 64 mod 64 * 64 + n mod 64 = n"
    using m d(1) by linarith
  show "262144 * (n div 262144) + 4096 * (n div 4096 mod 64) + n div 64 mod 64 * 64 + n mod 64 = n"
    using m d by linarith
qed

lemmas utf8_simps = utf8_cont_byte utf8_lead_byte and_masks utf8_payload_lead unat_drop_bit_div div_mod_64

text \<open>The bytes \<open>unicode_to_utf8\<close> writes decode to the code point it was given, for every code
  point up to U+10FFFF, and it writes none beyond.\<close>

theorem utf8_roundtrip:
  "if cp \<le> 0x10FFFF then utf8_decode (unicode_to_utf8 cp) = Some (unat cp)
   else unicode_to_utf8 cp = []"
proof -
  have le: "cp \<le> k \<longleftrightarrow> unat cp \<le> unat k" for k by (rule word_le_nat_alt)
  have pay7: "utf8_payload 7 (ucast (cp AND 0x7F)) = unat cp mod 128"
    using utf8_payload_lead [of 7 0 cp] by (simp add: and_masks)
  consider "cp \<le> 0x7F" | "\<not> cp \<le> 0x7F" "cp \<le> 0x7FF" | "\<not> cp \<le> 0x7F" "\<not> cp \<le> 0x7FF" "cp \<le> 0xFFFF"
    | "\<not> cp \<le> 0x7F" "\<not> cp \<le> 0x7FF" "\<not> cp \<le> 0xFFFF" by blast
  then show ?thesis
  proof cases
    case 1
    then have "cp \<le> 0x10FFFF" "unat cp < 128" by (auto simp: le)
    with 1 show ?thesis by (simp add: unicode_to_utf8_def pay7 utf8_lead_byte)
  next
    case 2
    then have "cp \<le> 0x10FFFF" "unat cp < 2048" by (auto simp: le)
    with 2 show ?thesis
      by (simp add: unicode_to_utf8_def utf8_lead_byte utf8_cont_byte)
         (simp add: utf8_simps)
  next
    case 3
    then have "cp \<le> 0x10FFFF" "unat cp < 65536" by (auto simp: le)
    with 3 show ?thesis
      by (simp add: unicode_to_utf8_def utf8_lead_byte utf8_cont_byte)
         (simp add: utf8_simps)
  next
    case 4
    show ?thesis
    proof (cases "cp \<le> 0x10FFFF")
      case True
      then have "unat cp < 2097152" by (auto simp: le)
      with 4 True show ?thesis
        by (simp add: unicode_to_utf8_def utf8_lead_byte utf8_cont_byte)
           (simp add: utf8_simps)
    next
      case False
      with 4 show ?thesis by (simp add: unicode_to_utf8_def)
    qed
  qed
qed

end
