(* ===== verification/JsonFloat.thy ===== *)
theory JsonFloat
  imports Prelude "HOL-Library.Signed_Division"
begin

unbundle bit_operations_syntax

text \<open>
  How the JSON library of \<open>utils/json.hpp\<close> prints a \<open>double\<close>: the namespace \<open>dtoa_impl\<close> (Grisu2) and
  \<open>to_chars\<close>. A double is its 64 IEEE bits. An \<open>int\<close> is an \<open>int\<close> here: the assertions keep exponents far below 32 bits.
  The digits are written into the bytes of the serializer's \<open>number_buffer\<close>; a write or a move past its end
  is undefined. JsonGrisu proves what the digits are, JsonDouble what the text is.
\<close>

type_synonym double = "64 word"

section \<open>Bytes\<close>

definition mem_write :: "nat \<Rightarrow> string \<Rightarrow> string \<Rightarrow> string res" where
  "mem_write i cs buf = (if i + length cs \<le> length buf then Inr (write_at buf i cs) else Inl Undefined)"

definition mem_set :: "nat \<Rightarrow> char \<Rightarrow> nat \<Rightarrow> string \<Rightarrow> string res" where
  "mem_set i c n = mem_write i (replicate n c)"

definition mem_move :: "nat \<Rightarrow> nat \<Rightarrow> nat \<Rightarrow> string \<Rightarrow> string res" where
  "mem_move dst src n buf =
     (if src + n \<le> length buf then mem_write dst (take n (drop src buf)) buf else Inl Undefined)"

section \<open>Numbers f * 2^e\<close>

record diyfp =
  fp_f :: "64 word"
  fp_e :: int

abbreviation diyfp :: "64 word \<Rightarrow> int \<Rightarrow> diyfp" where
  "diyfp f e \<equiv> \<lparr>fp_f = f, fp_e = e\<rparr>"

definition diyfp_sub :: "diyfp \<Rightarrow> diyfp \<Rightarrow> diyfp res" where
  "diyfp_sub x y =
     require (fp_e x = fp_e y) AssertFailed
       (require (fp_f y \<le> fp_f x) AssertFailed (Inr (diyfp (fp_f x - fp_f y) (fp_e x))))"

definition diyfp_mul :: "diyfp \<Rightarrow> diyfp \<Rightarrow> diyfp" where
  "diyfp_mul x y =
     (let u_lo = fp_f x AND 0xFFFFFFFF; u_hi = drop_bit 32 (fp_f x);
          v_lo = fp_f y AND 0xFFFFFFFF; v_hi = drop_bit 32 (fp_f y);
          p0 = u_lo * v_lo; p1 = u_lo * v_hi; p2 = u_hi * v_lo; p3 = u_hi * v_hi;
          p0_hi = drop_bit 32 p0;
          p1_lo = p1 AND 0xFFFFFFFF; p1_hi = drop_bit 32 p1;
          p2_lo = p2 AND 0xFFFFFFFF; p2_hi = drop_bit 32 p2;
          Q = p0_hi + p1_lo + p2_lo + push_bit 31 1
      in diyfp (p3 + p2_hi + p1_hi + drop_bit 32 Q) (fp_e x + fp_e y + 64))"

lemma normalize_step_less:
  assumes "f \<noteq> 0" "drop_bit 63 f = 0"
  shows "2 ^ 64 - unat (push_bit 1 f) < 2 ^ 64 - unat (f :: 64 word)"
proof -
  have "unat f div 2 ^ 63 = unat (drop_bit 63 f)" by (simp only: unat_drop_bit_eq) (simp only: drop_bit_eq_div)
  then have f: "unat f < 2 ^ 63" using assms(2) by (simp add: div_eq_0_iff)
  then have "unat (push_bit 1 f) = 2 * unat f"
    by (subst unsigned_push_bit_eq) (simp_all add: take_bit_nat_eq_self)
  moreover have "0 < unat f" using assms(1) by (simp add: unat_gt_0)
  ultimately show ?thesis using f by simp
qed

text \<open>The loop of \<open>normalize\<close>, which its assertion keeps from a zero.\<close>

function normalize_loop :: "64 word \<Rightarrow> int \<Rightarrow> diyfp" where
  "normalize_loop f e =
     (if f \<noteq> 0 \<and> drop_bit 63 f = 0 then normalize_loop (push_bit 1 f) (e - 1) else diyfp f e)"
  by pat_completeness auto
termination
  by (relation "measure (\<lambda>(f, _). 2 ^ 64 - unat f)", rule wf_measure, unfold in_measure prod.case)
    (elim conjE, rule normalize_step_less)

declare normalize_loop.simps [simp del]

definition diyfp_normalize :: "diyfp \<Rightarrow> diyfp res" where
  "diyfp_normalize x = require (fp_f x \<noteq> 0) AssertFailed (Inr (normalize_loop (fp_f x) (fp_e x)))"

text \<open>A shift by 64 or more is undefined.\<close>

definition normalize_to :: "diyfp \<Rightarrow> int \<Rightarrow> diyfp res" where
  "normalize_to x target_exponent =
     (let delta = fp_e x - target_exponent in
      require (0 \<le> delta) AssertFailed
        (require (delta < 64) Undefined
          (let f = push_bit (nat delta) (fp_f x) in
           require (drop_bit (nat delta) f = fp_f x) AssertFailed (Inr (diyfp f target_exponent)))))"

section \<open>A double and its boundaries\<close>

definition signbit :: "double \<Rightarrow> bool" where
  "signbit x \<longleftrightarrow> bit x 63"

definition isfinite :: "double \<Rightarrow> bool" where
  "isfinite x \<longleftrightarrow> drop_bit 52 x AND 0x7FF \<noteq> 0x7FF"

definition is_zero :: "double \<Rightarrow> bool" where
  "is_zero x \<longleftrightarrow> x AND 0x7FFFFFFFFFFFFFFF = 0"

definition negated :: "double \<Rightarrow> double" where
  "negated x = x XOR 0x8000000000000000"

text \<open>\<open>v > 0\<close> for a \<open>v\<close> that is not a NaN.\<close>

definition is_positive :: "double \<Rightarrow> bool" where
  "is_positive x \<longleftrightarrow> \<not> signbit x \<and> \<not> is_zero x"

record boundaries =
  b_w :: diyfp
  b_minus :: diyfp
  b_plus :: diyfp

definition kBias :: int where "kBias = 1075"
definition kHiddenBit :: "64 word" where "kHiddenBit = push_bit 52 1"

definition double_diyfp :: "double \<Rightarrow> diyfp" where
  "double_diyfp bits =
     (let E = drop_bit 52 bits; F = bits AND (kHiddenBit - 1) in
      if E = 0 then diyfp F (1 - kBias) else diyfp (F + kHiddenBit) (uint E - kBias))"

definition compute_boundaries :: "double \<Rightarrow> boundaries res" where
  "compute_boundaries bits =
     require (isfinite bits) AssertFailed (require (is_positive bits) AssertFailed
       (let E = drop_bit 52 bits; F = bits AND (kHiddenBit - 1);
            v = double_diyfp bits;
            lower_boundary_is_closer = (F = 0 \<and> 1 < E);
            m_plus = diyfp (2 * fp_f v + 1) (fp_e v - 1);
            m_minus = (if lower_boundary_is_closer then diyfp (4 * fp_f v - 1) (fp_e v - 2)
                       else diyfp (2 * fp_f v - 1) (fp_e v - 1))
        in rbind (diyfp_normalize m_plus) (\<lambda>w_plus.
           rbind (normalize_to m_minus (fp_e w_plus)) (\<lambda>w_minus.
           rbind (diyfp_normalize v) (\<lambda>w.
             Inr \<lparr>b_w = w, b_minus = w_minus, b_plus = w_plus\<rparr>)))))"

section \<open>Powers of ten\<close>

definition kAlpha :: int where "kAlpha = - 60"
definition kGamma :: int where "kGamma = - 32"

text \<open>The significand, the binary and the decimal exponent of each.\<close>

definition kCachedPowers :: "(64 word \<times> int \<times> int) list" where
  "kCachedPowers =
     [
      (0xAB70FE17C79AC6CA, - 1060, - 300),
      (0xFF77B1FCBEBCDC4F, - 1034, - 292),
      (0xBE5691EF416BD60C, - 1007, - 284),
      (0x8DD01FAD907FFC3C, - 980, - 276),
      (0xD3515C2831559A83, - 954, - 268),
      (0x9D71AC8FADA6C9B5, - 927, - 260),
      (0xEA9C227723EE8BCB, - 901, - 252),
      (0xAECC49914078536D, - 874, - 244),
      (0x823C12795DB6CE57, - 847, - 236),
      (0xC21094364DFB5637, - 821, - 228),
      (0x9096EA6F3848984F, - 794, - 220),
      (0xD77485CB25823AC7, - 768, - 212),
      (0xA086CFCD97BF97F4, - 741, - 204),
      (0xEF340A98172AACE5, - 715, - 196),
      (0xB23867FB2A35B28E, - 688, - 188),
      (0x84C8D4DFD2C63F3B, - 661, - 180),
      (0xC5DD44271AD3CDBA, - 635, - 172),
      (0x936B9FCEBB25C996, - 608, - 164),
      (0xDBAC6C247D62A584, - 582, - 156),
      (0xA3AB66580D5FDAF6, - 555, - 148),
      (0xF3E2F893DEC3F126, - 529, - 140),
      (0xB5B5ADA8AAFF80B8, - 502, - 132),
      (0x87625F056C7C4A8B, - 475, - 124),
      (0xC9BCFF6034C13053, - 449, - 116),
      (0x964E858C91BA2655, - 422, - 108),
      (0xDFF9772470297EBD, - 396, - 100),
      (0xA6DFBD9FB8E5B88F, - 369, - 92),
      (0xF8A95FCF88747D94, - 343, - 84),
      (0xB94470938FA89BCF, - 316, - 76),
      (0x8A08F0F8BF0F156B, - 289, - 68),
      (0xCDB02555653131B6, - 263, - 60),
      (0x993FE2C6D07B7FAC, - 236, - 52),
      (0xE45C10C42A2B3B06, - 210, - 44),
      (0xAA242499697392D3, - 183, - 36),
      (0xFD87B5F28300CA0E, - 157, - 28),
      (0xBCE5086492111AEB, - 130, - 20),
      (0x8CBCCC096F5088CC, - 103, - 12),
      (0xD1B71758E219652C, - 77, - 4),
      (0x9C40000000000000, - 50, 4),
      (0xE8D4A51000000000, - 24, 12),
      (0xAD78EBC5AC620000, 3, 20),
      (0x813F3978F8940984, 30, 28),
      (0xC097CE7BC90715B3, 56, 36),
      (0x8F7E32CE7BEA5C70, 83, 44),
      (0xD5D238A4ABE98068, 109, 52),
      (0x9F4F2726179A2245, 136, 60),
      (0xED63A231D4C4FB27, 162, 68),
      (0xB0DE65388CC8ADA8, 189, 76),
      (0x83C7088E1AAB65DB, 216, 84),
      (0xC45D1DF942711D9A, 242, 92),
      (0x924D692CA61BE758, 269, 100),
      (0xDA01EE641A708DEA, 295, 108),
      (0xA26DA3999AEF774A, 322, 116),
      (0xF209787BB47D6B85, 348, 124),
      (0xB454E4A179DD1877, 375, 132),
      (0x865B86925B9BC5C2, 402, 140),
      (0xC83553C5C8965D3D, 428, 148),
      (0x952AB45CFA97A0B3, 455, 156),
      (0xDE469FBD99A05FE3, 481, 164),
      (0xA59BC234DB398C25, 508, 172),
      (0xF6C69A72A3989F5C, 534, 180),
      (0xB7DCBF5354E9BECE, 561, 188),
      (0x88FCF317F22241E2, 588, 196),
      (0xCC20CE9BD35C78A5, 614, 204),
      (0x98165AF37B2153DF, 641, 212),
      (0xE2A0B5DC971F303A, 667, 220),
      (0xA8D9D1535CE3B396, 694, 228),
      (0xFB9B7CD9A4A7443C, 720, 236),
      (0xBB764C4CA7A44410, 747, 244),
      (0x8BAB8EEFB6409C1A, 774, 252),
      (0xD01FEF10A657842C, 800, 260),
      (0x9B10A4E5E9913129, 827, 268),
      (0xE7109BFBA19C0C9D, 853, 276),
      (0xAC2820D9623BF429, 880, 284),
      (0x80444B5E7AA7CF85, 907, 292),
      (0xBF21E44003ACDD2D, 933, 300),
      (0x8E679C2F5E44FF8F, 960, 308),
      (0xD433179D9C8CB841, 986, 316),
      (0x9E19DB92B4E31BA9, 1013, 324)
     ]"

definition get_cached_power_for_binary_exponent :: "int \<Rightarrow> (64 word \<times> int \<times> int) res" where
  "get_cached_power_for_binary_exponent e =
     require (- 1500 \<le> e) AssertFailed (require (e \<le> 1500) AssertFailed
       (let f = kAlpha - e - 1;
            k = (f * 78913) sdiv 2 ^ 18 + (if 0 < f then 1 else 0);
            index = (300 + k + (8 - 1)) sdiv 8
        in require (0 \<le> index) AssertFailed
             (require (nat index < length kCachedPowers) AssertFailed
               (let cached = kCachedPowers ! nat index; (_, c_e, _) = cached in
                require (kAlpha \<le> c_e + e + 64) AssertFailed
                  (require (c_e + e + 64 \<le> kGamma) AssertFailed (Inr cached))))))"

text \<open>The number of digits, and the power of ten of the first.\<close>

definition find_largest_pow10 :: "32 word \<Rightarrow> nat \<times> 32 word" where
  "find_largest_pow10 n =
     (if 1000000000 \<le> n then (10, 1000000000)
      else if 100000000 \<le> n then (9, 100000000)
      else if 10000000 \<le> n then (8, 10000000)
      else if 1000000 \<le> n then (7, 1000000)
      else if 100000 \<le> n then (6, 100000)
      else if 10000 \<le> n then (5, 10000)
      else if 1000 \<le> n then (4, 1000)
      else if 100 \<le> n then (3, 100)
      else if 10 \<le> n then (2, 10)
      else (1, 1))"

section \<open>Digits\<close>

definition char_dec :: "char \<Rightarrow> char" where
  "char_dec c = char_of (code_of c + 255)"

lemma byte_turns:
  "n < 256 \<Longrightarrow> (n + 255) mod 256 = (if n = 0 then 255 else n - 1)"
  "n < 256 \<Longrightarrow> (n + 208) mod 256 = (if n < 48 then n + 208 else n - 48)"
  for n :: nat
  by (auto simp: mod_if)

lemma code_of_char_dec: "code_of (char_dec c) = (if code_of c = 0 then 255 else code_of c - 1)"
  unfolding char_dec_def code_of_char_of by (rule byte_turns(1) [OF code_of_bound])

lemma char_dec_less:
  assumes "c \<noteq> CHR ''0''"
  shows "(code_of (char_dec c) + 208) mod 256 < (code_of c + 208) mod 256"
proof -
  have "code_of (CHR ''0'') = 48" by (simp add: code_of_def)
  then have "code_of c \<noteq> 48" using assms by (metis code_of_inject)
  then show ?thesis by (simp only: byte_turns(2) [OF code_of_bound]) (auto simp: code_of_char_dec)
qed

text \<open>The loop of \<open>grisu2_round\<close>, which takes units off the last digit.\<close>

function round_loop :: "string \<Rightarrow> nat \<Rightarrow> 64 word \<Rightarrow> 64 word \<Rightarrow> 64 word \<Rightarrow> 64 word \<Rightarrow> string res" where
  "round_loop buf len dist delta rest ten_k =
     (if rest < dist \<and> ten_k \<le> delta - rest \<and> (rest + ten_k < dist \<or> rest + ten_k - dist < dist - rest) then
        if length buf \<le> len - 1 then Inl Undefined
        else if buf ! (len - 1) = CHR ''0'' then Inl AssertFailed
        else round_loop (buf[len - 1 := char_dec (buf ! (len - 1))]) len dist delta (rest + ten_k) ten_k
      else Inr buf)"
  by pat_completeness auto
termination
  by (relation "measure (\<lambda>(buf, len, _). (code_of (buf ! (len - 1)) + 208) mod 256)", rule wf_measure,
      unfold in_measure prod.case not_le)
    (simp only: nth_list_update_eq char_dec_less not_False_eq_True)

declare round_loop.simps [simp del]

definition grisu2_round :: "string \<Rightarrow> nat \<Rightarrow> 64 word \<Rightarrow> 64 word \<Rightarrow> 64 word \<Rightarrow> 64 word \<Rightarrow> string res" where
  "grisu2_round buf len dist delta rest ten_k =
     require (1 \<le> len) AssertFailed (require (dist \<le> delta) AssertFailed
       (require (rest \<le> delta) AssertFailed (require (0 < ten_k) AssertFailed
         (round_loop buf len dist delta rest ten_k))))"

text \<open>What \<open>grisu2_digit_gen\<close> writes: the bytes, the number of digits, the decimal exponent.\<close>

type_synonym decimal = "string \<times> nat \<times> int"

text \<open>The digits of the integral part: \<open>n\<close> counts the digits left. \<open>Inl\<close> is the return from inside the loop.\<close>

fun int_digits ::
  "nat \<Rightarrow> 32 word \<Rightarrow> 32 word \<Rightarrow> nat \<Rightarrow> 64 word \<Rightarrow> 64 word \<Rightarrow> 64 word \<Rightarrow> decimal \<Rightarrow> (decimal + decimal) res" where
  "int_digits 0 p1 pow10 sh p2 dist delta out = Inr (Inr out)"
| "int_digits (Suc n) p1 pow10 sh p2 dist delta (buf, len, decimal_exponent) =
     require (pow10 \<noteq> 0) Undefined
       (let d = p1 div pow10; r = p1 mod pow10 in
        require (d \<le> 9) AssertFailed
          (rbind (mem_write len [digit_char (unat d)] buf) (\<lambda>buf1.
             let rest = push_bit sh (ucast r) + p2 in
             if rest \<le> delta then
               rbind (grisu2_round buf1 (len + 1) dist delta rest (push_bit sh (ucast pow10))) (\<lambda>buf2.
                 Inr (Inl (buf2, len + 1, decimal_exponent + int n)))
             else int_digits n r (pow10 div 10) sh p2 dist delta (buf1, len + 1, decimal_exponent))))"

text \<open>The digits of the fraction: \<open>m\<close> counts the digits made. A write past the buffer ends the loop at the latest.\<close>

function frac_digits ::
  "nat \<Rightarrow> 64 word \<Rightarrow> 64 word \<Rightarrow> 64 word \<Rightarrow> nat \<Rightarrow> decimal \<Rightarrow> decimal res" where
  "frac_digits sh p2 dist delta m (buf, len, decimal_exponent) =
     (if (- 1) div 10 < p2 then Inl AssertFailed
      else
        let d = drop_bit sh (p2 * 10); r = p2 * 10 AND (push_bit sh 1 - 1) in
        if 9 < d then Inl AssertFailed
        else if length buf \<le> len then Inl Undefined
        else
          let buf1 = buf[len := digit_char (unat d)] in
          if r \<le> delta * 10 then
            rbind (grisu2_round buf1 (len + 1) (dist * 10) (delta * 10) r (push_bit sh 1)) (\<lambda>buf2.
              Inr (buf2, len + 1, decimal_exponent - int (m + 1)))
          else frac_digits sh r (dist * 10) (delta * 10) (m + 1) (buf1, len + 1, decimal_exponent))"
  by pat_completeness auto
termination by (relation "measure (\<lambda>(_, _, _, _, _, buf, len, _). length buf - len)") auto

declare frac_digits.simps [simp del]

definition grisu2_digit_gen :: "diyfp \<Rightarrow> diyfp \<Rightarrow> diyfp \<Rightarrow> decimal \<Rightarrow> decimal res" where
  "grisu2_digit_gen M_minus w M_plus out =
     require (kAlpha \<le> fp_e M_plus) AssertFailed (require (fp_e M_plus \<le> kGamma) AssertFailed
       (rbind (diyfp_sub M_plus M_minus) (\<lambda>delta.
        rbind (diyfp_sub M_plus w) (\<lambda>dist.
          let sh = nat (- fp_e M_plus);
              p1 = ucast (drop_bit sh (fp_f M_plus)) :: 32 word;
              p2 = fp_f M_plus AND (push_bit sh 1 - 1)
          in require (0 < p1) AssertFailed
               (let (k, pow10) = find_largest_pow10 p1 in
                rbind (int_digits k p1 pow10 sh p2 (fp_f dist) (fp_f delta) out) (\<lambda>r.
                  case r of
                    Inl done \<Rightarrow> Inr done
                  | Inr out1 \<Rightarrow> require (fp_f delta < p2) AssertFailed
                                   (frac_digits sh p2 (fp_f dist) (fp_f delta) 0 out1)))))))"

definition grisu2_scaled :: "diyfp \<Rightarrow> diyfp \<Rightarrow> diyfp \<Rightarrow> string \<Rightarrow> nat \<Rightarrow> decimal res" where
  "grisu2_scaled m_minus v m_plus buf len =
     require (fp_e m_plus = fp_e m_minus) AssertFailed (require (fp_e m_plus = fp_e v) AssertFailed
       (rbind (get_cached_power_for_binary_exponent (fp_e m_plus)) (\<lambda>(c_f, c_e, c_k).
          let c_minus_k = diyfp c_f c_e;
              w = diyfp_mul v c_minus_k;
              w_minus = diyfp_mul m_minus c_minus_k;
              w_plus = diyfp_mul m_plus c_minus_k;
              M_minus = diyfp (fp_f w_minus + 1) (fp_e w_minus);
              M_plus = diyfp (fp_f w_plus - 1) (fp_e w_plus)
          in grisu2_digit_gen M_minus w M_plus (buf, len, - c_k))))"

definition grisu2 :: "string \<Rightarrow> nat \<Rightarrow> double \<Rightarrow> decimal res" where
  "grisu2 buf len value =
     require (isfinite value) AssertFailed (require (is_positive value) AssertFailed
       (rbind (compute_boundaries value) (\<lambda>w. grisu2_scaled (b_minus w) (b_w w) (b_plus w) buf len)))"

section \<open>Text\<close>

text \<open>The bytes and the index after the last one written.\<close>

definition append_exponent :: "nat \<Rightarrow> int \<Rightarrow> string \<Rightarrow> (string \<times> nat) res" where
  "append_exponent at e buf =
     require (- 1000 < e) AssertFailed (require (e < 1000) AssertFailed
       (let k = nat \<bar>e\<bar>;
            cs = (if e < 0 then ''-'' else ''+'') @
              (if k < 10 then [CHR ''0'', digit_char k]
               else if k < 100 then [digit_char (k div 10), digit_char (k mod 10)]
               else [digit_char (k div 100), digit_char (k mod 100 div 10), digit_char (k mod 100 mod 10)])
        in rbind (mem_write at cs buf) (\<lambda>buf1. Inr (buf1, at + length cs))))"

definition format_buffer :: "string \<Rightarrow> nat \<Rightarrow> int \<Rightarrow> int \<Rightarrow> int \<Rightarrow> (string \<times> nat) res" where
  "format_buffer buf len decimal_exponent min_exp max_exp =
     require (min_exp < 0) AssertFailed (require (0 < max_exp) AssertFailed
       (let k = len; n = int len + decimal_exponent in
        if int k \<le> n \<and> n \<le> max_exp then
          rbind (mem_set k (CHR ''0'') (nat n - k) buf) (\<lambda>b1.
          rbind (mem_write (nat n) ''.'' b1) (\<lambda>b2.
          rbind (mem_write (nat n + 1) ''0'' b2) (\<lambda>b3. Inr (b3, nat n + 2))))
        else if 0 < n \<and> n \<le> max_exp then
          require (n < int k) AssertFailed
            (rbind (mem_move (nat n + 1) (nat n) (k - nat n) buf) (\<lambda>b1.
             rbind (mem_write (nat n) ''.'' b1) (\<lambda>b2. Inr (b2, k + 1))))
        else if min_exp < n \<and> n \<le> 0 then
          rbind (mem_move (2 + nat (- n)) 0 k buf) (\<lambda>b1.
          rbind (mem_write 0 ''0'' b1) (\<lambda>b2.
          rbind (mem_write 1 ''.'' b2) (\<lambda>b3.
          rbind (mem_set 2 (CHR ''0'') (nat (- n)) b3) (\<lambda>b4. Inr (b4, 2 + nat (- n) + k)))))
        else if k = 1 then
          rbind (mem_write 1 ''e'' buf) (\<lambda>b1. append_exponent 2 (n - 1) b1)
        else
          rbind (mem_move 2 1 (k - 1) buf) (\<lambda>b1.
          rbind (mem_write 1 ''.'' b1) (\<lambda>b2.
          rbind (mem_write (1 + k) ''e'' b2) (\<lambda>b3. append_exponent (2 + k) (n - 1) b3)))))"

text \<open>
  \<open>to_chars\<close> on the bytes from \<open>first\<close> to \<open>last\<close>. After a minus sign the digits go to the bytes from
  the second on.
\<close>

definition to_chars_positive :: "string \<Rightarrow> double \<Rightarrow> (string \<times> nat) res" where
  "to_chars_positive buf value =
     (if is_zero value then rbind (mem_write 0 ''0.0'' buf) (\<lambda>b. Inr (b, 3))
      else
        require (17 \<le> length buf) AssertFailed
          (rbind (grisu2 buf 0 value) (\<lambda>(b1, len, decimal_exponent).
             require (len \<le> 17) AssertFailed
               (require (15 + 2 \<le> length b1) AssertFailed
                 (require (2 + (4 - 1) + 17 \<le> length b1) AssertFailed
                   (require (17 + 6 \<le> length b1) AssertFailed
                     (format_buffer b1 len decimal_exponent (- 4) 15)))))))"

definition to_chars :: "string \<Rightarrow> double \<Rightarrow> (string \<times> nat) res" where
  "to_chars buf value =
     require (isfinite value) AssertFailed
       (if signbit value then
          rbind (mem_write 0 ''-'' buf) (\<lambda>b.
          rbind (to_chars_positive (drop 1 b) (negated value)) (\<lambda>(b1, end). Inr (take 1 b @ b1, end + 1)))
        else to_chars_positive buf value)"

text \<open>The text \<open>to_chars\<close> writes into a buffer of 64 bytes.\<close>

definition float_text :: "double \<Rightarrow> string" where
  "float_text x = (case to_chars (replicate 64 nul) x of Inr (buf, n) \<Rightarrow> take n buf | Inl _ \<Rightarrow> [])"

section \<open>Conversion to an int\<close>

text \<open>\<open>static_cast<int>\<close>: the fraction is dropped; a value that no \<open>int\<close> holds is undefined.\<close>

definition double_trunc :: "double \<Rightarrow> int" where
  "double_trunc x =
     (let E = unat (drop_bit 52 x AND 0x7FF); F = unat (x AND (kHiddenBit - 1));
          m = (if E = 0 then F else F + 2 ^ 52);
          v = (if 1075 \<le> E then m * 2 ^ (E - 1075) else m div 2 ^ (1075 - max 1 E))
      in if signbit x then - int v else int v)"

definition double_to_int :: "double \<Rightarrow> int res" where
  "double_to_int x =
     require (isfinite x \<and> - (2 ^ 31) \<le> double_trunc x \<and> double_trunc x < 2 ^ 31) Undefined (Inr (double_trunc x))"

end
