(* ===== verification/Json.thy ===== *)
theory Json
  imports StackFlowUtil JsonFloat
begin

text \<open>
  The values of \<open>nlohmann::json\<close> (\<open>utils/json.hpp\<close>) the sources build and exchange, \<open>operator[]\<close> on an object (a
  \<open>std::map\<close>, so keys stay sorted by unsigned byte), and the text the compact \<open>dump()\<close> is meant to print, as one
  recursive function. The serializer itself is in JsonSerializer, which JsonText proves to print this text; the
  lexer and the parser are in JsonLexer and JsonParser, the digits of a double in JsonFloat.
\<close>

datatype json =
    JNull
  | JBool bool
  | JInt int
  | JFloat double
  | JStr string
  | JArr "json list"
  | JObj "(string \<times> json) list"

fun str_less :: "string \<Rightarrow> string \<Rightarrow> bool" where
  "str_less _ [] = False"
| "str_less [] (_ # _) = True"
| "str_less (a # as) (b # bs) = (code_of a < code_of b \<or> (a = b \<and> str_less as bs))"

fun obj_insert :: "string \<Rightarrow> json \<Rightarrow> (string \<times> json) list \<Rightarrow> (string \<times> json) list" where
  "obj_insert k v [] = [(k, v)]"
| "obj_insert k v ((k', v') # kvs) =
     (if k = k' then (k, v) # kvs
      else if str_less k k' then (k, v) # (k', v') # kvs
      else (k', v') # obj_insert k v kvs)"

text \<open>A sequence of assignments \<open>body["k"] = v\<close> on a fresh value.\<close>

definition json_object :: "(string \<times> json) list \<Rightarrow> json" where
  "json_object kvs = JObj (fold (\<lambda>(k, v) m. obj_insert k v m) kvs [])"

fun json_is_string :: "json \<Rightarrow> bool" where
  "json_is_string (JStr _) = True"
| "json_is_string _ = False"

fun json_field :: "json \<Rightarrow> string \<Rightarrow> json option" where
  "json_field (JObj kvs) k = map_of kvs k"
| "json_field _ _ = None"

section \<open>Printing\<close>

definition hex_char :: "nat \<Rightarrow> char" where
  "hex_char d = (if d < 10 then char_of (48 + d) else char_of (87 + d))"

definition escape_char :: "char \<Rightarrow> string" where
  "escape_char c =
     (if c = dquote then [bslash, dquote]
      else if c = bslash then [bslash, bslash]
      else if code_of c = 8 then [bslash, CHR ''b'']
      else if code_of c = 9 then [bslash, CHR ''t'']
      else if code_of c = 10 then [bslash, CHR ''n'']
      else if code_of c = 12 then [bslash, CHR ''f'']
      else if code_of c = 13 then [bslash, CHR ''r'']
      else if code_of c < 32 then
        [bslash, CHR ''u'', CHR ''0'', CHR ''0'', hex_char (code_of c div 16), hex_char (code_of c mod 16)]
      else [c])"

definition escape :: "string \<Rightarrow> string" where
  "escape s = concat (map escape_char s)"

fun join_with :: "string \<Rightarrow> string list \<Rightarrow> string" where
  "join_with sep [] = []"
| "join_with sep [x] = x"
| "join_with sep (x # y # ys) = x @ sep @ join_with sep (y # ys)"

lemma size_member [termination_simp]:
  "kv \<in> set kvs \<Longrightarrow> size (snd kv) < Suc (size_list (size_prod (\<lambda>_. 0) size) kvs)"
proof (induction kvs)
  case (Cons a kvs)
  then show ?case by (cases a) auto
qed simp

fun dump :: "json \<Rightarrow> string" where
  "dump JNull = ''null''"
| "dump (JBool b) = (if b then ''true'' else ''false'')"
| "dump (JInt i) = int_to_string i"
| "dump (JFloat x) = (if isfinite x then float_text x else ''null'')"
| "dump (JStr s) = quoted (escape s)"
| "dump (JArr xs) = ''['' @ join_with '','' (map dump xs) @ '']''"
| "dump (JObj kvs) = ''{'' @ join_with '','' (map (\<lambda>kv. quoted (escape (fst kv)) @ '':'' @ dump (snd kv)) kvs) @ ''}''"

section \<open>Lemmas\<close>

text \<open>Text that \<open>dump()\<close> prints unchanged: no quote, no backslash, no control character.\<close>

definition printable :: "string \<Rightarrow> bool" where
  "printable s \<longleftrightarrow> (\<forall>c \<in> set s. c \<noteq> dquote \<and> c \<noteq> bslash \<and> 32 \<le> code_of c)"

lemma escape_printable [simp]: "printable s \<Longrightarrow> escape s = s"
  by (induction s) (auto simp: printable_def escape_def escape_char_def)

lemma printable_plain_text: "printable s \<Longrightarrow> plain_text s"
  by (auto simp: printable_def plain_text_def)

lemma map_of_obj_insert: "map_of (obj_insert k v kvs) = (map_of kvs)(k \<mapsto> v)"
  by (induction kvs) (auto simp: fun_upd_twist)

lemma dquote_escape_str_body: "p \<noteq> bslash \<Longrightarrow> printable s \<Longrightarrow> str_body p (escape s)"
  by (simp add: plain_text_str_body printable_plain_text)

end
