(* ===== verification/SlotPool.thy ===== *)
theory SlotPool
  imports Prelude
begin

text \<open>
  The contract of an allocator that hands each owner a set of slots no other owner holds: what
  \<open>remote_server.cpp\<close> promises of the ports of its units. A request acquires slots for a new owner,
  releases those of an owner, or does something that gives no slots to anybody. Owners are numbered
  by a counter of bounded width, so freshness is promised for a budget of acquisitions. The lemmas
  hold of every sequence of requests.
\<close>

text \<open>Serving the requests one after the other; the first fault ends the run.\<close>

fun run_all :: "('q \<Rightarrow> 's \<Rightarrow> ('r \<times> 's) res) \<Rightarrow> 'q list \<Rightarrow> 's \<Rightarrow> 's res" where
  "run_all serve [] s = Inr s"
| "run_all serve (q # qs) s = rbind (serve q s) (\<lambda>(_, s'). run_all serve qs s')"

text \<open>No slot has two owners.\<close>

definition exclusive :: "('k \<Rightarrow> 'a set) \<Rightarrow> bool" where
  "exclusive h \<longleftrightarrow> (\<forall>j k. j \<noteq> k \<longrightarrow> h j \<inter> h k = {})"

lemma exclusiveD: "exclusive h \<Longrightarrow> j \<noteq> k \<Longrightarrow> h j \<inter> h k = {}"
  by (simp add: exclusive_def)

lemma exclusive_mono: "exclusive h \<Longrightarrow> (\<And>k. h' k \<subseteq> h k) \<Longrightarrow> exclusive h'"
  unfolding exclusive_def by blast

locale slot_pool =
  fixes serve :: "'q \<Rightarrow> 's \<Rightarrow> ('r \<times> 's) res"
    and inv :: "'s \<Rightarrow> bool"
    and budget :: "'s \<Rightarrow> nat"
    and cost :: "'q \<Rightarrow> nat"
    and holds :: "'s \<Rightarrow> 'k \<Rightarrow> int set"
  assumes inv_serve: "inv s \<Longrightarrow> exclusive (holds s) \<Longrightarrow> cost q \<le> budget s \<Longrightarrow> serve q s = Inr (r, s') \<Longrightarrow> inv s'"
    and budget_serve: "inv s \<Longrightarrow> cost q \<le> budget s \<Longrightarrow> serve q s = Inr (r, s') \<Longrightarrow> budget s \<le> budget s' + cost q"
    and holds_serve: "inv s \<Longrightarrow> cost q \<le> budget s \<Longrightarrow> serve q s = Inr (r, s') \<Longrightarrow>
      holds s' k \<subseteq> holds s k \<or> (\<forall>j. j \<noteq> k \<longrightarrow> holds s j \<inter> holds s' k = {} \<and> holds s' j \<subseteq> holds s j)"
begin

lemma exclusive_serve:
  assumes "inv s" "exclusive (holds s)" "cost q \<le> budget s" "serve q s = Inr (r, s')"
  shows "exclusive (holds s')"
proof -
  have "holds s' j \<inter> holds s' k = {}" if jk: "j \<noteq> k" for j k
  proof -
    note step = holds_serve [OF assms(1,3,4)]
    consider "holds s' j \<subseteq> holds s j" "holds s' k \<subseteq> holds s k"
      | "holds s k \<inter> holds s' j = {}" "holds s' k \<subseteq> holds s k"
      | "holds s j \<inter> holds s' k = {}" "holds s' j \<subseteq> holds s j"
      using step [of j] step [of k] jk by metis
    then show ?thesis
      using exclusiveD [OF assms(2) jk] by cases blast+
  qed
  then show ?thesis by (simp add: exclusive_def)
qed

theorem run_exclusive:
  assumes "run_all serve qs s = Inr s'" "inv s" "exclusive (holds s)" "sum_list (map cost qs) \<le> budget s"
  shows "inv s' \<and> exclusive (holds s')"
  using assms
proof (induction qs arbitrary: s)
  case (Cons q qs)
  then obtain r t where q: "serve q s = Inr (r, t)" "run_all serve qs t = Inr s'"
    by (auto simp: rbind_Inr_iff)
  have c: "cost q \<le> budget s" using Cons.prems by simp
  show ?case
    using Cons.IH [OF q(2)] inv_serve [OF Cons.prems(2,3) c q(1)]
      budget_serve [OF Cons.prems(2) c q(1)] exclusive_serve [OF Cons.prems(2,3) c q(1)]
      Cons.prems(4)
    by auto
qed auto

end

end
