(* ===== verification/UnitServer.thy ===== *)
theory UnitServer
  imports Pzmq Format Json SlotPool
begin

text \<open>
  The unit manager's data base and unit allocator: \<open>unit-manager/include/all.h\<close> (the \<open>key_sql\<close> map and
  its \<open>SAFE_*\<close> macros), \<open>unit_data.{h,cpp}\<close> and the allocation and RPC half of \<open>remote_server.cpp\<close>.
  A work unit owns two ports, one for its output URL and one for its inference URL; \<open>port_list\<close>
  marks the ports in use. The globals of the process are the record \<open>um_state\<close>.
\<close>

section \<open>State\<close>

record unit_data =
  ud_work_id :: string
  ud_output_url :: string
  ud_inference_url :: string
  ud_port :: int
  ud_channel :: "unit pzmq option"

text \<open>What a \<open>std::any\<close> of \<open>key_sql\<close> holds: an \<open>int\<close>, a \<open>std::string\<close>, a \<open>unit_data *\<close>.\<close>

datatype any_val = Any_int int | Any_string string | Any_unit unit_data

record um_state =
  key_sql :: "string \<Rightarrow> any_val option"
  work_id_number_counter :: int
  port_list_start :: int
  port_list :: "bool list"
  zmq_s_format :: string
  zmq_c_format :: string
  sent :: "(string \<times> string) list"
  rpc_sent :: "(string \<times> string \<times> string) list"
  unlinked :: "string list"

text \<open>\<open>SAFE_READING\<close> keeps the old value when the key is absent or holds another type.\<close>

definition safe_reading_int :: "int \<Rightarrow> string \<Rightarrow> um_state \<Rightarrow> int" where
  "safe_reading_int old key s = (case key_sql s key of Some (Any_int i) \<Rightarrow> i | _ \<Rightarrow> old)"

definition safe_reading_string :: "string \<Rightarrow> string \<Rightarrow> um_state \<Rightarrow> string" where
  "safe_reading_string old key s = (case key_sql s key of Some (Any_string t) \<Rightarrow> t | _ \<Rightarrow> old)"

definition safe_reading_unit :: "string \<Rightarrow> um_state \<Rightarrow> unit_data option" where
  "safe_reading_unit key s = (case key_sql s key of Some (Any_unit u) \<Rightarrow> Some u | _ \<Rightarrow> None)"

definition safe_setting :: "string \<Rightarrow> any_val \<Rightarrow> um_state \<Rightarrow> um_state" where
  "safe_setting key v s = s\<lparr>key_sql := (key_sql s)(key \<mapsto> v)\<rparr>"

definition safe_erase :: "string \<Rightarrow> um_state \<Rightarrow> um_state" where
  "safe_erase key s = s\<lparr>key_sql := (key_sql s)(key := None)\<rparr>"

definition sys_sql_select :: "string \<Rightarrow> um_state \<Rightarrow> string" where
  "sys_sql_select key s = safe_reading_string [] key s"

definition sys_sql_set :: "string \<Rightarrow> string \<Rightarrow> um_state \<Rightarrow> um_state" where
  "sys_sql_set key val s = safe_setting key (Any_string val) s"

definition sys_sql_unset :: "string \<Rightarrow> um_state \<Rightarrow> um_state" where
  "sys_sql_unset key s = safe_erase key s"

section \<open>Units\<close>

definition unit_init_zmq :: "zmq_env \<Rightarrow> string \<Rightarrow> unit_data \<Rightarrow> unit_data res" where
  "unit_init_zmq env url u =
     rbind (pzmq_socket env url ZMQ_PUB) (\<lambda>p. Inr (u\<lparr>ud_inference_url := url, ud_channel := Some p\<rparr>))"

definition unit_send_msg :: "zmq_env \<Rightarrow> string \<Rightarrow> unit_data \<Rightarrow> um_state \<Rightarrow> um_state res" where
  "unit_send_msg env json_str u s =
     (case ud_channel u of
        None \<Rightarrow> Inl Undefined
      | Some p \<Rightarrow> Inr (s\<lparr>sent := sent s @ [(zmq_url p, json_str)]\<rparr>))"

text \<open>\<open>delete unit_p\<close> closes the channel, which removes the socket file it was bound to.\<close>

definition unit_delete :: "zmq_env \<Rightarrow> unit_data \<Rightarrow> um_state \<Rightarrow> um_state" where
  "unit_delete env u s =
     (case ud_channel u of
        None \<Rightarrow> s
      | Some p \<Rightarrow> s\<lparr>unlinked := unlinked s @ removed (pzmq_destroy env p)\<rparr>)"

section \<open>Allocation\<close>

text \<open>
  The loop over \<open>port_list\<close>: the first free port, marked. When every port is taken the local
  variable \<open>port\<close> is never assigned, and using it is undefined.
\<close>

fun first_free :: "bool list \<Rightarrow> nat option" where
  "first_free [] = None"
| "first_free (b # bs) = (if b then map_option Suc (first_free bs) else Some 0)"

definition take_port :: "um_state \<Rightarrow> (int \<times> um_state) res" where
  "take_port s =
     (case first_free (port_list s) of
        None \<Rightarrow> Inl Undefined
      | Some i \<Rightarrow> Inr (to_int32 (port_list_start s + int i), s\<lparr>port_list := (port_list s)[i := True]\<rparr>))"

text \<open>The URL of a port; the unit name is appended to the format, before it is formatted.\<close>

definition unit_url :: "string \<Rightarrow> string \<Rightarrow> string \<Rightarrow> int \<Rightarrow> string res" where
  "unit_url fmt unit suffix port =
     (let zmq_format = (if str_contains ''sock'' fmt then fmt @ ''.'' @ unit @ suffix else fmt)
      in sprintf_buf (length zmq_format + length (int_to_string port)) zmq_format port)"

definition sys_allocate_unit :: "zmq_env \<Rightarrow> string \<Rightarrow> um_state \<Rightarrow> (unit_data \<times> um_state) res" where
  "sys_allocate_unit env unit s0 =
     (let n = work_id_number_counter s0;
          s1 = s0\<lparr>work_id_number_counter := to_int32 (n + 1)\<rparr>;
          wid = unit @ ''.'' @ int_to_string n
      in rbind (take_port s1) (\<lambda>(port1, s2).
         rbind (unit_url (zmq_s_format s2) unit ''.output_url'' port1) (\<lambda>out_url.
         rbind (take_port s2) (\<lambda>(port2, s3).
         rbind (unit_url (zmq_s_format s3) unit ''.inference_url'' port2) (\<lambda>inf_url.
         rbind (unit_init_zmq env inf_url
                  \<lparr>ud_work_id = wid, ud_output_url = out_url, ud_inference_url = [], ud_port = n,
                   ud_channel = None\<rparr>) (\<lambda>u.
         Inr (u, safe_setting (wid @ ''.out_port'') (Any_string out_url)
                   (safe_setting wid (Any_unit u) s3))))))))"

text \<open>
  \<open>sys_release_unit\<close> reads the two ports back out of the URLs. A failed \<open>sscanf\<close> leaves \<open>port\<close> as
  it was: unassigned the first time, the first port the second time.
\<close>

definition free_port :: "int \<Rightarrow> um_state \<Rightarrow> um_state res" where
  "free_port port s =
     (let i = port - port_list_start s
      in if i < 0 \<or> int (length (port_list s)) \<le> i then Inl Undefined
         else Inr (s\<lparr>port_list := (port_list s)[nat i := False]\<rparr>))"

definition sys_release_unit :: "zmq_env \<Rightarrow> string \<Rightarrow> um_state \<Rightarrow> (int \<times> um_state) res" where
  "sys_release_unit env unit s =
     (case safe_reading_unit unit s of
        None \<Rightarrow> Inr (- 1, s)
      | Some u \<Rightarrow>
          rbind (sscanf_i (zmq_s_format s) (ud_output_url u)) (\<lambda>r1.
          case r1 of None \<Rightarrow> Inl Undefined | Some port1 \<Rightarrow>
          rbind (free_port port1 s) (\<lambda>s1.
          rbind (sscanf_i (zmq_s_format s1) (ud_inference_url u)) (\<lambda>r2.
          rbind (free_port (case r2 of None \<Rightarrow> port1 | Some port2 \<Rightarrow> port2) s1) (\<lambda>s2.
          Inr (0, safe_erase (unit @ ''.out_port'') (safe_erase unit (unit_delete env u s2))))))))"

section \<open>RPC actions\<close>

datatype sys_action = Sql_select | Register_unit | Release_unit | Sql_set | Sql_unset

definition rpc_allocate_unit :: "zmq_env \<Rightarrow> string \<Rightarrow> um_state \<Rightarrow> (string \<times> um_state) res" where
  "rpc_allocate_unit env raw s =
     rbind (sys_allocate_unit env raw s) (\<lambda>(u, s').
       Inr (set_param (int_to_string (ud_port u)) (set_param (ud_output_url u) (ud_inference_url u)), s'))"

definition rpc_release_unit :: "zmq_env \<Rightarrow> string \<Rightarrow> um_state \<Rightarrow> (string \<times> um_state) res" where
  "rpc_release_unit env raw s = rbind (sys_release_unit env raw s) (\<lambda>(_, s'). Inr (''Success'', s'))"

definition rpc_sql_select :: "string \<Rightarrow> um_state \<Rightarrow> (string \<times> um_state) res" where
  "rpc_sql_select raw s = Inr (sys_sql_select raw s, s)"

definition rpc_sql_set :: "string \<Rightarrow> um_state \<Rightarrow> (string \<times> um_state) res" where
  "rpc_sql_set raw s =
     (let key = sample_json_str_get raw ''key''; val = sample_json_str_get raw ''val''
      in if key = [] then Inr (''False'', s) else Inr (''Success'', sys_sql_set key val s))"

definition rpc_sql_unset :: "string \<Rightarrow> um_state \<Rightarrow> (string \<times> um_state) res" where
  "rpc_sql_unset raw s = Inr (''Success'', sys_sql_unset raw s)"

fun run_action :: "zmq_env \<Rightarrow> sys_action \<Rightarrow> string \<Rightarrow> um_state \<Rightarrow> (string \<times> um_state) res" where
  "run_action env Sql_select raw s = rpc_sql_select raw s"
| "run_action env Register_unit raw s = rpc_allocate_unit env raw s"
| "run_action env Release_unit raw s = rpc_release_unit env raw s"
| "run_action env Sql_set raw s = rpc_sql_set raw s"
| "run_action env Sql_unset raw s = rpc_sql_unset raw s"

text \<open>
  \<open>remote_server_work\<close>: the counters from the configuration (\<open>port_list_end\<close> is a local without an
  initial value), the port list resized to the range, and the RPC server \<open>sys\<close> with its actions.
\<close>

definition resize_list :: "nat \<Rightarrow> 'a \<Rightarrow> 'a list \<Rightarrow> 'a list" where
  "resize_list n x xs = take n xs @ replicate (n - length xs) x"

definition sys_server :: "zmq_env \<Rightarrow> sys_action pzmq" where
  "sys_server env =
     fold (\<lambda>(name, h) p. snd (register_rpc_action env name h p))
       [(''sql_select'', Sql_select), (''register_unit'', Register_unit),
        (''release_unit'', Release_unit), (''sql_set'', Sql_set), (''sql_unset'', Sql_unset)]
       (pzmq_rpc ''sys'')"

definition remote_server_work :: "zmq_env \<Rightarrow> um_state \<Rightarrow> (sys_action pzmq \<times> um_state) res" where
  "remote_server_work env s =
     (let start = safe_reading_int (port_list_start s) ''config_zmq_min_port'' s;
          s' = s\<lparr>work_id_number_counter := safe_reading_int (work_id_number_counter s) ''config_work_id'' s,
                 port_list_start := start\<rparr>
      in case key_sql s ''config_zmq_max_port'' of
           Some (Any_int port_list_end) \<Rightarrow>
             (let n = port_list_end - start
              in if n < int_min \<or> int_max < n then Inl Undefined
                 else if n < 0 then Inl LengthError
                 else Inr (sys_server env,
                           s'\<lparr>port_list := resize_list (nat n) False (port_list s')\<rparr>))
         | _ \<Rightarrow> Inl Undefined)"

definition remote_server_stop_work :: "zmq_env \<Rightarrow> sys_action pzmq \<Rightarrow> um_state \<Rightarrow> um_state" where
  "remote_server_stop_work env p s = s\<lparr>unlinked := unlinked s @ removed (pzmq_destroy env p)\<rparr>"

section \<open>What the allocator keeps\<close>

text \<open>
  The URL format holds one \<open>%i\<close>, and what follows it does not extend a number: the shape of
  \<open>config_zmq_s_format\<close>, without which the ports could not be read back out of the URLs.
\<close>

definition format_ok :: "string \<Rightarrow> bool" where
  "format_ok fmt \<longleftrightarrow> (\<exists>pre post. one_conversion fmt pre post \<and> stops_number post)"

text \<open>The ports a unit's URLs name.\<close>

definition unit_ports :: "string \<Rightarrow> unit_data \<Rightarrow> int set" where
  "unit_ports fmt u =
     {p. sscanf_i fmt (ud_output_url u) = Inr (Some p) \<or> sscanf_i fmt (ud_inference_url u) = Inr (Some p)}"

definition holds :: "um_state \<Rightarrow> string \<Rightarrow> int set" where
  "holds s k = (case safe_reading_unit k s of None \<Rightarrow> {} | Some u \<Rightarrow> unit_ports (zmq_s_format s) u)"

definition port_marked :: "um_state \<Rightarrow> int \<Rightarrow> bool" where
  "port_marked s p \<longleftrightarrow>
     (\<exists>i < length (port_list s). p = port_list_start s + int i \<and> port_list s ! i)"

text \<open>
  A stored unit is named by a number below the counter and owns two marked ports of the range.
\<close>

definition unit_ok :: "um_state \<Rightarrow> string \<Rightarrow> unit_data \<Rightarrow> bool" where
  "unit_ok s k u \<longleftrightarrow>
     (\<exists>v n. k = v @ ''.'' @ nat_to_string n \<and> int n < work_id_number_counter s) \<and>
     (\<exists>p q. p \<noteq> q \<and> port_marked s p \<and> port_marked s q \<and>
        sscanf_i (zmq_s_format s) (ud_output_url u) = Inr (Some p) \<and>
        sscanf_i (zmq_s_format s) (ud_inference_url u) = Inr (Some q))"

definition pool_ok :: "um_state \<Rightarrow> bool" where
  "pool_ok s \<longleftrightarrow>
     format_ok (zmq_s_format s) \<and> 0 \<le> port_list_start s \<and>
     port_list_start s + int (length (port_list s)) \<le> int_max \<and>
     0 \<le> work_id_number_counter s \<and> work_id_number_counter s \<le> int_max \<and>
     (\<forall>k u. key_sql s k = Some (Any_unit u) \<longrightarrow> unit_ok s k u)"

definition id_budget :: "um_state \<Rightarrow> nat" where
  "id_budget s = nat (int_max - work_id_number_counter s)"

lemma safe_reading_unit_iff: "safe_reading_unit k s = Some u \<longleftrightarrow> key_sql s k = Some (Any_unit u)"
  by (auto simp: safe_reading_unit_def split: option.splits any_val.splits)

lemma unit_ports_ok:
  "unit_ok s k u \<Longrightarrow> \<exists>p q. p \<noteq> q \<and> port_marked s p \<and> port_marked s q \<and>
     sscanf_i (zmq_s_format s) (ud_output_url u) = Inr (Some p) \<and>
     sscanf_i (zmq_s_format s) (ud_inference_url u) = Inr (Some q) \<and>
     unit_ports (zmq_s_format s) u = {p, q}"
  by (fastforce simp: unit_ok_def unit_ports_def)

subsection \<open>Setting and erasing entries that are not units\<close>

definition is_unit_entry :: "any_val option \<Rightarrow> bool" where
  "is_unit_entry v = (case v of Some (Any_unit _) \<Rightarrow> True | _ \<Rightarrow> False)"

lemma ok_key_sql_update [simp]:
  "port_marked (s\<lparr>key_sql := m\<rparr>) = port_marked s" "unit_ok (s\<lparr>key_sql := m\<rparr>) = unit_ok s"
  by (simp_all add: port_marked_def unit_ok_def fun_eq_iff)

lemma pool_ok_forget:
  assumes "pool_ok s" "\<And>k. is_unit_entry (m k) \<Longrightarrow> m k = key_sql s k"
  shows "pool_ok (s\<lparr>key_sql := m\<rparr>)" "holds (s\<lparr>key_sql := m\<rparr>) k \<subseteq> holds s k"
proof -
  have m: "m k = Some (Any_unit u) \<Longrightarrow> key_sql s k = Some (Any_unit u)" for k u
    using assms(2) [of k] by (simp add: is_unit_entry_def)
  show "pool_ok (s\<lparr>key_sql := m\<rparr>)"
    using assms(1) m unfolding pool_ok_def by simp
  show "holds (s\<lparr>key_sql := m\<rparr>) k \<subseteq> holds s k"
    using m [of k] by (auto simp: holds_def safe_reading_unit_def split: option.splits any_val.splits)
qed

subsection \<open>Ports\<close>

lemma first_free_Some:
  "first_free bs = Some i \<Longrightarrow> i < length bs \<and> \<not> bs ! i \<and> (\<forall>j < i. bs ! j)"
  by (induction bs arbitrary: i) (auto simp: nth_Cons less_Suc_eq_0_disj split: if_splits nat.splits)

lemma first_free_None: "first_free bs = None \<longleftrightarrow> (\<forall>b \<in> set bs. b)"
  by (induction bs) auto

lemma take_port_ok:
  assumes "0 \<le> port_list_start s" "port_list_start s + int (length (port_list s)) \<le> int_max"
    "take_port s = Inr (p, s')"
  shows "\<exists>i < length (port_list s). \<not> port_list s ! i \<and> (\<forall>j < i. port_list s ! j) \<and> p = port_list_start s + int i \<and>
           s' = s\<lparr>port_list := (port_list s)[i := True]\<rparr>"
  using assms first_free_Some
  by (fastforce simp: take_port_def int_min_def intro!: to_int32_id split: option.splits)

lemma sprintf_url_scan:
  assumes "one_conversion fmt pre post" "stops_number post" "int n \<le> int_max"
    "sprintf_i (fmt @ x) (Some (int n)) = Inr r" "x = [] \<or> hd x = CHR ''.''"
  shows "sscanf_i fmt r = Inr (Some (int n))"
proof -
  have lit: "literal pre" "literal post" and fmt: "fmt = pre @ ''%i'' @ post"
    using assms(1) by (simp_all add: one_conversion_def)
  obtain r' where r': "sprintf_i x None = Inr r'" "r = pre @ nat_to_string n @ post @ r'"
    using assms(4) lit by (auto simp: fmt sprintf_i_prefix rbind_Inr_iff)
  have "r' = [] \<or> hd r' = CHR ''.''"
    using r'(1) assms(5) by (cases x) (auto simp: rbind_Inr_iff)
  then have "stops_number (post @ r')"
    using assms(2) by (cases post) (auto simp: stops_number_def is_digit_def code_of_def)
  then show ?thesis
    using sscanf_i_one [OF assms(1,3)] r'(2) by simp
qed

lemma unit_url_scan:
  assumes "format_ok fmt" "0 \<le> p" "p \<le> int_max" "unit_url fmt unit sfx p = Inr url"
  shows "sscanf_i fmt url = Inr (Some p)"
proof -
  obtain pre post where f: "one_conversion fmt pre post" "stops_number post"
    using assms(1) by (auto simp: format_ok_def)
  obtain x where x: "sprintf_i (fmt @ x) (Some p) = Inr url" "x = [] \<or> hd x = CHR ''.''"
  proof (cases "str_contains ''sock'' fmt")
    case True
    then show ?thesis
      using assms(4) that [of "''.'' @ unit @ sfx"]
      by (auto simp: unit_url_def sprintf_buf_def Let_def rbind_Inr_iff split: if_splits)
  next
    case False
    then show ?thesis
      using assms(4) that [of "[]"]
      by (auto simp: unit_url_def sprintf_buf_def Let_def rbind_Inr_iff split: if_splits)
  qed
  from x show ?thesis
    using sprintf_url_scan [OF f, of "nat p" x url] assms(2,3) by simp
qed


subsection \<open>Allocation\<close>

lemma sys_allocate_unit_struct:
  assumes "sys_allocate_unit env unit s = Inr (u, s')"
  obtains p q s1 s2 ch where
    "take_port (s\<lparr>work_id_number_counter := to_int32 (work_id_number_counter s + 1)\<rparr>) = Inr (p, s1)"
    "take_port s1 = Inr (q, s2)"
    "unit_url (zmq_s_format s1) unit ''.output_url'' p = Inr (ud_output_url u)"
    "unit_url (zmq_s_format s2) unit ''.inference_url'' q = Inr (ud_inference_url u)"
    "pzmq_socket env (ud_inference_url u) ZMQ_PUB = Inr ch" "ud_channel u = Some ch"
    "ud_port u = work_id_number_counter s"
    "ud_work_id u = unit @ ''.'' @ int_to_string (work_id_number_counter s)"
    "s' = safe_setting (ud_work_id u @ ''.out_port'') (Any_string (ud_output_url u))
            (safe_setting (ud_work_id u) (Any_unit u) s2)"
  using assms
  by (auto simp: sys_allocate_unit_def unit_init_zmq_def Let_def rbind_Inr_iff case_prod_beta)

lemma out_port_not_unit_key: "k @ ''.out_port'' \<noteq> v @ ''.'' @ nat_to_string n"
proof
  assume "k @ ''.out_port'' = v @ ''.'' @ nat_to_string n"
  then have "last (k @ ''.out_port'') = last (nat_to_string n)" by simp
  then have "CHR ''t'' \<in> set (nat_to_string n)"
    using last_in_set [OF nat_to_string_not_Nil, of n] by simp
  moreover have "\<not> is_digit (CHR ''t'')" by (simp add: is_digit_def code_of_def)
  ultimately show False using not_in_nat_to_string by blast
qed

lemma unit_key_number:
  assumes "u @ ''.'' @ nat_to_string m = v @ ''.'' @ nat_to_string n"
  shows "m = n"
proof -
  have nd: "\<not> is_digit (CHR ''.'')" by (simp add: is_digit_def code_of_def)
  have tw: "takeWhile is_digit (rev (w @ ''.'' @ nat_to_string k)) = rev (nat_to_string k)" for w k
    using nat_to_string_digits [of k] nd
    by (subst rev_append) (auto simp: list_all_iff intro!: takeWhile_digits_append [where ds = "rev (nat_to_string k)"])
  have "rev (nat_to_string m) = takeWhile is_digit (rev (u @ ''.'' @ nat_to_string m))"
    by (rule tw [symmetric])
  also have "\<dots> = rev (nat_to_string n)"
    unfolding assms by (rule tw)
  finally show ?thesis by simp
qed

text \<open>What an allocation does, in one lemma: two ports that were free, in the order they are found, a
  new name, the two URLs.\<close>

lemma sys_allocate_unit_ok:
  assumes "pool_ok s" "0 < id_budget s" "sys_allocate_unit env unit s = Inr (u, s')"
  defines "wid \<equiv> unit @ ''.'' @ nat_to_string (nat (work_id_number_counter s))"
  obtains i j where
    "i < j" "j < length (port_list s)" "\<not> port_list s ! i" "\<not> port_list s ! j"
    "port_list s' = (port_list s)[i := True, j := True]"
    "key_sql s' = (key_sql s)(wid \<mapsto> Any_unit u, wid @ ''.out_port'' \<mapsto> Any_string (ud_output_url u))"
    "sscanf_i (zmq_s_format s) (ud_output_url u) = Inr (Some (port_list_start s + int i))"
    "sscanf_i (zmq_s_format s) (ud_inference_url u) = Inr (Some (port_list_start s + int j))"
    "work_id_number_counter s' = work_id_number_counter s + 1"
    "port_list_start s' = port_list_start s" "zmq_s_format s' = zmq_s_format s"
    "ud_work_id u = wid"
proof -
  note ok = assms(1)[unfolded pool_ok_def]
  let ?n = "work_id_number_counter s"
  have cnt: "to_int32 (?n + 1) = ?n + 1"
    using assms(1,2) by (intro to_int32_id) (auto simp: pool_ok_def id_budget_def int_min_def)
  let ?s = "s\<lparr>work_id_number_counter := ?n + 1\<rparr>"
  obtain p q s1 s2 ch where st:
    "take_port ?s = Inr (p, s1)" "take_port s1 = Inr (q, s2)"
    "unit_url (zmq_s_format s1) unit ''.output_url'' p = Inr (ud_output_url u)"
    "unit_url (zmq_s_format s2) unit ''.inference_url'' q = Inr (ud_inference_url u)"
    "ud_work_id u = unit @ ''.'' @ int_to_string ?n"
    "s' = safe_setting (ud_work_id u @ ''.out_port'') (Any_string (ud_output_url u))
            (safe_setting (ud_work_id u) (Any_unit u) s2)"
    using sys_allocate_unit_struct [OF assms(3)] unfolding cnt by metis
  obtain i where i: "i < length (port_list s)" "\<not> port_list s ! i" "\<forall>k < i. port_list s ! k"
    "p = port_list_start s + int i" "s1 = ?s\<lparr>port_list := (port_list s)[i := True]\<rparr>"
    using take_port_ok [OF _ _ st(1)] ok by (auto simp: int_min_def)
  obtain j where j: "j < length (port_list s)" "\<not> (port_list s)[i := True] ! j"
    "\<forall>k < j. (port_list s)[i := True] ! k"
    "q = port_list_start s + int j" "s2 = s1\<lparr>port_list := (port_list s)[i := True, j := True]\<rparr>"
    using take_port_ok [OF _ _ st(2)] ok i(5) by auto
  have ij: "i < j"
  proof (rule ccontr)
    assume "\<not> i < j"
    moreover have "j \<noteq> i" using i(1) j(2) by auto
    ultimately show False using i(3) j(2) by (auto simp: nat_neq_iff)
  qed
  have wid: "ud_work_id u = wid"
    using ok st(5) by (simp add: wid_def int_to_string_def)
  have fmt: "format_ok (zmq_s_format s)" "0 \<le> p" "p \<le> int_max" "0 \<le> q" "q \<le> int_max"
    using ok i(1,4) j(1,4) by auto
  show thesis
  proof (rule that [OF ij j(1) i(2)])
    show "\<not> port_list s ! j" using j(2) ij by simp
    show "sscanf_i (zmq_s_format s) (ud_output_url u) = Inr (Some (port_list_start s + int i))"
      using unit_url_scan [OF fmt(1-3)] st(3) i(4,5) by simp
    show "sscanf_i (zmq_s_format s) (ud_inference_url u) = Inr (Some (port_list_start s + int j))"
      using unit_url_scan [OF fmt(1,4,5)] st(4) i(5) j(4,5) by simp
  qed (use st(6) i(5) j(5) wid in \<open>simp_all add: safe_setting_def\<close>)
qed

lemma holds_unit: "key_sql s k = Some (Any_unit u) \<Longrightarrow> holds s k = unit_ports (zmq_s_format s) u"
  by (simp add: holds_def safe_reading_unit_def)

lemma holds_no_unit: "\<not> is_unit_entry (key_sql s k) \<Longrightarrow> holds s k = {}"
  by (auto simp: holds_def safe_reading_unit_def is_unit_entry_def split: option.splits any_val.splits)

lemma holds_marked: "pool_ok s \<Longrightarrow> p \<in> holds s k \<Longrightarrow> port_marked s p"
  using unit_ports_ok
  by (fastforce simp: holds_def pool_ok_def safe_reading_unit_iff split: option.splits)

lemma sys_allocate_unit_step:
  assumes "pool_ok s" "0 < id_budget s" "sys_allocate_unit env unit s = Inr (u, s')"
  shows "pool_ok s'" "id_budget s \<le> id_budget s' + 1"
    "holds s' k \<subseteq> holds s k \<or> (\<forall>j. j \<noteq> k \<longrightarrow> holds s j \<inter> holds s' k = {} \<and> holds s' j \<subseteq> holds s j)"
proof -
  let ?n = "nat (work_id_number_counter s)"
  let ?wid = "unit @ ''.'' @ nat_to_string ?n"
  obtain i j where a: "i < j" "j < length (port_list s)" "\<not> port_list s ! i" "\<not> port_list s ! j"
    "port_list s' = (port_list s)[i := True, j := True]"
    "key_sql s' = (key_sql s)(?wid \<mapsto> Any_unit u, ?wid @ ''.out_port'' \<mapsto> Any_string (ud_output_url u))"
    "sscanf_i (zmq_s_format s) (ud_output_url u) = Inr (Some (port_list_start s + int i))"
    "sscanf_i (zmq_s_format s) (ud_inference_url u) = Inr (Some (port_list_start s + int j))"
    "work_id_number_counter s' = work_id_number_counter s + 1"
    "port_list_start s' = port_list_start s" "zmq_s_format s' = zmq_s_format s"
    using sys_allocate_unit_ok [OF assms] by metis
  let ?p = "port_list_start s + int i" and ?q = "port_list_start s + int j"
  note ok = assms(1)[unfolded pool_ok_def]
  have len: "length (port_list s') = length (port_list s)" by (simp add: a(5))
  have mono: "port_marked s' p" if "port_marked s p" for p
    using that a(1,2,5,10) unfolding port_marked_def by (force simp: nth_list_update)
  have new: "port_marked s' ?p" "port_marked s' ?q" "\<not> port_marked s ?p" "\<not> port_marked s ?q"
    using a(1-5,10) by (auto simp: port_marked_def nth_list_update)
  have keep: "unit_ok s' k v" if "unit_ok s k v" for k v
    using that mono a(9,11) by (fastforce simp: unit_ok_def)
  have old: "key_sql s k = Some (Any_unit v)" if "key_sql s' k = Some (Any_unit v)" "k \<noteq> ?wid" for k v
    using that by (auto simp: a(6) split: if_splits)
  have u: "unit_ok s' ?wid u"
    unfolding unit_ok_def
  proof (intro conjI exI)
    show "int ?n < work_id_number_counter s'" using ok by (simp add: a(9))
    show "?p \<noteq> ?q" using a(1) by simp
  qed (use a(7,8,11) new in simp_all)
  have "unit_ok s' k v" if "key_sql s' k = Some (Any_unit v)" for k v
  proof (cases "k = ?wid")
    case True
    with that u show ?thesis by (simp add: a(6))
  next
    case False
    with old [OF that] ok keep show ?thesis by blast
  qed
  then show "pool_ok s'"
    using ok assms(2) by (simp add: pool_ok_def a(9-11) len id_budget_def)
  show "id_budget s \<le> id_budget s' + 1"
    by (simp add: id_budget_def a(9))
  have others: "holds s' j \<subseteq> holds s j" if "j \<noteq> ?wid" for j
    using old [OF _ that] a(11)
    by (auto simp: holds_def safe_reading_unit_def split: option.splits any_val.splits)
  have mine: "holds s' ?wid = {?p, ?q}"
    using a(6-8,11) by (subst holds_unit [where u = u]) (auto simp: unit_ports_def)
  have "holds s j \<inter> {?p, ?q} = {}" for j
    using holds_marked [OF assms(1)] new(3,4) by blast
  with others mine show
    "holds s' k \<subseteq> holds s k \<or> (\<forall>j. j \<noteq> k \<longrightarrow> holds s j \<inter> holds s' k = {} \<and> holds s' j \<subseteq> holds s j)"
    by (cases "k = ?wid") auto
qed

subsection \<open>Release\<close>

lemma unit_delete_simps [simp]:
  "key_sql (unit_delete env u s) = key_sql s" "port_list (unit_delete env u s) = port_list s"
  "port_list_start (unit_delete env u s) = port_list_start s"
  "zmq_s_format (unit_delete env u s) = zmq_s_format s" "zmq_c_format (unit_delete env u s) = zmq_c_format s"
  "work_id_number_counter (unit_delete env u s) = work_id_number_counter s"
  "sent (unit_delete env u s) = sent s" "rpc_sent (unit_delete env u s) = rpc_sent s"
  by (simp_all add: unit_delete_def split: option.splits)

lemma sys_release_unit_ok:
  assumes "i < length (port_list s)" "j < length (port_list s)"
    "sscanf_i (zmq_s_format s) (ud_output_url u) = Inr (Some (port_list_start s + int i))"
    "sscanf_i (zmq_s_format s) (ud_inference_url u) = Inr (Some (port_list_start s + int j))"
    "key_sql s unit = Some (Any_unit u)"
  shows "\<exists>s'. sys_release_unit env unit s = Inr (0, s') \<and>
     port_list s' = (port_list s)[i := False, j := False] \<and>
     key_sql s' = (key_sql s)(unit := None, unit @ ''.out_port'' := None) \<and>
     port_list_start s' = port_list_start s \<and> zmq_s_format s' = zmq_s_format s \<and>
     work_id_number_counter s' = work_id_number_counter s"
proof -
  have "safe_reading_unit unit s = Some u" using assms(5) by (simp add: safe_reading_unit_iff)
  with assms show ?thesis
    by (simp add: sys_release_unit_def free_port_def safe_erase_def Let_def)
qed

lemma sys_release_unit_step:
  assumes "pool_ok s" "exclusive (holds s)" "sys_release_unit env unit s = Inr (r, s')"
  shows "pool_ok s'"
proof (cases "safe_reading_unit unit s")
  case None
  with assms(1,3) show ?thesis by (simp add: sys_release_unit_def)
next
  case (Some u)
  then have u: "key_sql s unit = Some (Any_unit u)" by (simp add: safe_reading_unit_iff)
  note ok = assms(1)[unfolded pool_ok_def]
  then have "unit_ok s unit u" using u by blast
  then obtain i j where ij: "i < length (port_list s)" "j < length (port_list s)"
    "sscanf_i (zmq_s_format s) (ud_output_url u) = Inr (Some (port_list_start s + int i))"
    "sscanf_i (zmq_s_format s) (ud_inference_url u) = Inr (Some (port_list_start s + int j))"
    unfolding unit_ok_def port_marked_def by metis
  then have s': "port_list s' = (port_list s)[i := False, j := False]"
    "key_sql s' = (key_sql s)(unit := None, unit @ ''.out_port'' := None)"
    "port_list_start s' = port_list_start s" "zmq_s_format s' = zmq_s_format s"
    "work_id_number_counter s' = work_id_number_counter s"
    using sys_release_unit_ok [OF ij u, of env] assms(3) by auto
  have mine: "port_list_start s + int i \<in> holds s unit" "port_list_start s + int j \<in> holds s unit"
    using ij holds_unit [OF u] by (simp_all add: unit_ports_def)
  have "unit_ok s' k v" if v: "key_sql s' k = Some (Any_unit v)" for k v
  proof -
    have k: "k \<noteq> unit" "key_sql s k = Some (Any_unit v)"
      using v by (auto simp: s'(2) split: if_splits)
    then have uv: "unit_ok s k v" using ok by blast
    have "holds s k \<inter> holds s unit = {}" using exclusiveD [OF assms(2) k(1)] .
    have keep: "port_marked s' p" if p: "port_marked s p" "p \<in> holds s k" for p
    proof -
      obtain m where m: "m < length (port_list s)" "p = port_list_start s + int m" "port_list s ! m"
        using p(1) by (auto simp: port_marked_def)
      then have "m \<noteq> i" "m \<noteq> j"
        using p(2) mine \<open>holds s k \<inter> holds s unit = {}\<close> by blast+
      with m show ?thesis by (auto simp: port_marked_def s'(1,3))
    qed
    obtain p q where pq: "p \<noteq> q" "port_marked s p" "port_marked s q"
      "sscanf_i (zmq_s_format s) (ud_output_url v) = Inr (Some p)"
      "sscanf_i (zmq_s_format s) (ud_inference_url v) = Inr (Some q)"
      "holds s k = {p, q}"
      using unit_ports_ok [OF uv] holds_unit [OF k(2)] by metis
    then have "port_marked s' p" "port_marked s' q" by (simp_all add: keep)
    with pq uv show ?thesis unfolding unit_ok_def s'(4,5) by metis
  qed
  then show ?thesis
    using ok by (simp add: pool_ok_def s'(1,3-5))
qed

lemma free_port_frame:
  "free_port p s = Inr s' \<Longrightarrow> key_sql s' = key_sql s \<and> zmq_s_format s' = zmq_s_format s \<and>
     work_id_number_counter s' = work_id_number_counter s"
  by (auto simp: free_port_def Let_def split: if_splits)

lemma sys_release_unit_frame:
  assumes "sys_release_unit env unit s = Inr (r, s')"
  shows "zmq_s_format s' = zmq_s_format s" "work_id_number_counter s' = work_id_number_counter s"
    "key_sql s' = key_sql s \<or> key_sql s' = (key_sql s)(unit := None, unit @ ''.out_port'' := None)"
  using assms free_port_frame
  by (fastforce simp: sys_release_unit_def safe_erase_def rbind_Inr_iff split: option.splits)+

lemma sys_release_unit_holds:
  assumes "sys_release_unit env unit s = Inr (r, s')"
  shows "holds s' k \<subseteq> holds s k"
proof -
  have "key_sql s' k = Some v \<Longrightarrow> key_sql s k = Some v" for v
    using sys_release_unit_frame(3) [OF assms] by (auto split: if_splits)
  then show ?thesis
    using sys_release_unit_frame(1) [OF assms]
    by (auto simp: holds_def safe_reading_unit_def split: option.splits any_val.splits)
qed

section \<open>The RPC server\<close>

text \<open>One request to the server \<open>sys\<close>: the action's name and its argument.\<close>

definition serve_sys :: "zmq_env \<Rightarrow> string \<times> string \<Rightarrow> um_state \<Rightarrow> (string \<times> um_state) res" where
  "serve_sys env q s = rpc_serve (run_action env) (sys_server env) (fst q) (snd q) s"

definition request_cost :: "string \<times> string \<Rightarrow> nat" where
  "request_cost q = (if fst q = ''register_unit'' then 1 else 0)"

lemma register_not_Nil [simp]: "zmq_fun (snd (register_rpc_action env a h p)) \<noteq> []"
  using register_table [of env a h p a] by auto

lemma sys_server_table:
  "map_of (zmq_fun (sys_server env)) =
     [''list_action'' \<mapsto> List_Action, ''sql_select'' \<mapsto> Handler Sql_select,
      ''register_unit'' \<mapsto> Handler Register_unit, ''release_unit'' \<mapsto> Handler Release_unit,
      ''sql_set'' \<mapsto> Handler Sql_set, ''sql_unset'' \<mapsto> Handler Sql_unset]"
proof -
  have "zmq_fun (pzmq_rpc ''sys'' :: sys_action pzmq) = []"
    by (simp add: pzmq_rpc_def pzmq_blank_def Let_def)
  then show ?thesis
    by (auto simp: sys_server_def register_table fun_eq_iff)
qed

lemma serve_sys_cases:
  assumes "serve_sys env q s = Inr (r, s')"
  shows "s' = s \<or> (\<exists>u. fst q = ''register_unit'' \<and> sys_allocate_unit env (snd q) s = Inr (u, s')) \<or>
     (\<exists>c. sys_release_unit env (snd q) s = Inr (c, s')) \<or>
     (\<exists>m. s' = s\<lparr>key_sql := m\<rparr> \<and> (\<forall>k. is_unit_entry (m k) \<longrightarrow> m k = key_sql s k))"
proof -
  obtain h where "s' = s \<or> (map_of (zmq_fun (sys_server env)) (fst q) = Some (Handler h) \<and>
      run_action env h (snd q) s = Inr (r, s'))"
    using assms by (auto simp: serve_sys_def rpc_serve_def split: option.splits rpc_entry.splits sum.splits if_splits)
  then consider "s' = s" | "run_action env h (snd q) s = Inr (r, s')" "h \<noteq> Register_unit"
    | "run_action env Register_unit (snd q) s = Inr (r, s')" "fst q = ''register_unit''"
    by (cases "h = Register_unit") (auto simp: sys_server_table split: if_splits)
  then show ?thesis
  proof cases
    case 2
    then show ?thesis
      by (cases h)
        (auto simp: rpc_release_unit_def rpc_sql_select_def rpc_sql_set_def rpc_sql_unset_def sys_sql_set_def
          sys_sql_unset_def safe_setting_def safe_erase_def is_unit_entry_def rbind_Inr_iff Let_def split: if_splits)
  next
    case 3
    then show ?thesis by (auto simp: rpc_allocate_unit_def rbind_Inr_iff)
  qed simp
qed

lemma serve_sys_step:
  assumes "pool_ok s" "request_cost q \<le> id_budget s" "serve_sys env q s = Inr (r, s')"
  shows "exclusive (holds s) \<Longrightarrow> pool_ok s'" "id_budget s \<le> id_budget s' + request_cost q"
    "holds s' k \<subseteq> holds s k \<or> (\<forall>j. j \<noteq> k \<longrightarrow> holds s j \<inter> holds s' k = {} \<and> holds s' j \<subseteq> holds s j)"
proof -
  consider (same) "s' = s"
    | (alloc) u where "fst q = ''register_unit''" "sys_allocate_unit env (snd q) s = Inr (u, s')"
    | (release) c where "sys_release_unit env (snd q) s = Inr (c, s')"
    | (set) m where "s' = s\<lparr>key_sql := m\<rparr>" "\<And>k. is_unit_entry (m k) \<Longrightarrow> m k = key_sql s k"
    using serve_sys_cases [OF assms(3)] by metis
  then have "(exclusive (holds s) \<longrightarrow> pool_ok s') \<and> id_budget s \<le> id_budget s' + request_cost q \<and>
    (holds s' k \<subseteq> holds s k \<or> (\<forall>j. j \<noteq> k \<longrightarrow> holds s j \<inter> holds s' k = {} \<and> holds s' j \<subseteq> holds s j))"
  proof cases
    case alloc
    then have "0 < id_budget s" using assms(2) by (simp add: request_cost_def)
    from sys_allocate_unit_step [OF assms(1) this alloc(2)] alloc(1) show ?thesis
      by (simp add: request_cost_def)
  next
    case release
    then show ?thesis
      using sys_release_unit_step [OF assms(1) _ release] sys_release_unit_holds [OF release, of k]
        sys_release_unit_frame(2) [OF release]
      by (simp add: id_budget_def)
  next
    case set
    then show ?thesis
      using pool_ok_forget [OF assms(1) set(2)] by (simp add: id_budget_def)
  qed (use assms in auto)
  then show "exclusive (holds s) \<Longrightarrow> pool_ok s'" "id_budget s \<le> id_budget s' + request_cost q"
    "holds s' k \<subseteq> holds s k \<or> (\<forall>j. j \<noteq> k \<longrightarrow> holds s j \<inter> holds s' k = {} \<and> holds s' j \<subseteq> holds s j)"
    by blast+
qed

text \<open>The port allocator behind the RPC server is a slot pool.\<close>

interpretation ports: slot_pool "serve_sys env" pool_ok id_budget request_cost holds
proof
  show "pool_ok s'" if "pool_ok s" "exclusive (holds s)" "request_cost q \<le> id_budget s" "serve_sys env q s = Inr (r, s')"
    for s q r s' using serve_sys_step(1) [OF that(1,3,4,2)] .
  show "id_budget s \<le> id_budget s' + request_cost q"
    if "pool_ok s" "request_cost q \<le> id_budget s" "serve_sys env q s = Inr (r, s')"
    for s q r s' using serve_sys_step(2) [OF that] .
  show "holds s' k \<subseteq> holds s k \<or> (\<forall>j. j \<noteq> k \<longrightarrow> holds s j \<inter> holds s' k = {} \<and> holds s' j \<subseteq> holds s j)"
    if "pool_ok s" "request_cost q \<le> id_budget s" "serve_sys env q s = Inr (r, s')"
    for s q r s' k using serve_sys_step(3) [OF that] .
qed

section \<open>Exact results\<close>

lemma unit_url_total:
  assumes "one_conversion fmt pre post" "literal unit" "literal sfx" "0 \<le> p"
  shows "unit_url fmt unit sfx p =
    Inr (pre @ nat_to_string (nat p) @ post @ (if str_contains ''sock'' fmt then ''.'' @ unit @ sfx else []))"
proof -
  have lit: "literal pre" "literal post" and fmt: "fmt = pre @ ''%i'' @ post"
    using assms(1) by (simp_all add: one_conversion_def)
  have "literal (post @ ''.'' @ unit @ sfx)" using lit assms(2,3) by simp
  with lit assms(4) show ?thesis
    using sprintf_buf_one [of pre "post @ ''.'' @ unit @ sfx" p] sprintf_buf_one [of pre post p]
    by (auto simp: unit_url_def fmt Let_def int_to_string_def)
qed

lemma pzmq_socket_total: "url \<noteq> [] \<Longrightarrow> \<exists>p. pzmq_socket env url md = Inr p"
  by (simp add: pzmq_socket_def Let_def)

lemma first_free_eq:
  assumes "i < length bs" "\<not> bs ! i" "\<And>k. k < i \<Longrightarrow> bs ! k"
  shows "first_free bs = Some i"
proof (cases "first_free bs")
  case None
  then have "bs ! i" using first_free_None nth_mem [OF assms(1)] by blast
  with assms(2) show ?thesis by contradiction
next
  case (Some i')
  then have f: "i' < length bs" "\<not> bs ! i'" "\<And>k. k < i' \<Longrightarrow> bs ! k"
    using first_free_Some by blast+
  have "\<not> i' < i" "\<not> i < i'" using assms(2) f(2) assms(3) f(3) by blast+
  then show ?thesis using Some by simp
qed

text \<open>The text of a unit's two URLs for the ports \<open>p\<close> of a format \<open>pre %i post\<close>.\<close>

definition url_text :: "string \<Rightarrow> string \<Rightarrow> string \<Rightarrow> string \<Rightarrow> string \<Rightarrow> int \<Rightarrow> string" where
  "url_text fmt pre post unit sfx p =
     pre @ nat_to_string (nat p) @ post @ (if str_contains ''sock'' fmt then ''.'' @ unit @ sfx else [])"

text \<open>C3: allocating a unit succeeds whenever two ports are free: it takes the two lowest free ports,
  names the unit after the counter, publishes exactly the two URLs the format gives for those ports
  (with the unit's name behind a socket path), and stores the unit and its output URL.\<close>

theorem allocate_unit_result:
  assumes "one_conversion (zmq_s_format s) pre post" "literal unit"
    "0 \<le> port_list_start s" "port_list_start s + int (length (port_list s)) \<le> int_max"
    "0 \<le> work_id_number_counter s" "work_id_number_counter s < int_max"
    "i < j" "j < length (port_list s)" "\<not> port_list s ! i" "\<not> port_list s ! j"
    "\<And>k. k < j \<Longrightarrow> k \<noteq> i \<Longrightarrow> port_list s ! k"
  shows "\<exists>u s'. sys_allocate_unit env unit s = Inr (u, s') \<and>
     ud_work_id u = unit @ ''.'' @ int_to_string (work_id_number_counter s) \<and>
     ud_port u = work_id_number_counter s \<and>
     ud_output_url u = url_text (zmq_s_format s) pre post unit ''.output_url'' (port_list_start s + int i) \<and>
     ud_inference_url u = url_text (zmq_s_format s) pre post unit ''.inference_url'' (port_list_start s + int j) \<and>
     port_list s' = (port_list s)[i := True, j := True] \<and>
     work_id_number_counter s' = work_id_number_counter s + 1 \<and>
     key_sql s' = (key_sql s)(ud_work_id u \<mapsto> Any_unit u,
                              ud_work_id u @ ''.out_port'' \<mapsto> Any_string (ud_output_url u))"
proof -
  let ?p = "port_list_start s + int i" and ?q = "port_list_start s + int j"
  have free: "first_free (port_list s) = Some i" "first_free ((port_list s)[i := True]) = Some j"
    using assms(7-11) by (auto intro!: first_free_eq simp: nth_list_update)
  have num: "to_int32 ?p = ?p" "to_int32 ?q = ?q"
    "to_int32 (work_id_number_counter s + 1) = work_id_number_counter s + 1"
    using assms(3-8) by (auto intro!: to_int32_id simp: int_min_def)
  have sfx: "literal ''.output_url''" "literal ''.inference_url''" by (simp_all add: literal_def)
  note url = unit_url_total [OF assms(1,2) sfx(1)] unit_url_total [OF assms(1,2) sfx(2)]
  let ?inf = "url_text (zmq_s_format s) pre post unit ''.inference_url'' ?q"
  obtain ch :: "unit pzmq" where ch: "pzmq_socket env ?inf ZMQ_PUB = Inr ch"
    using pzmq_socket_total [of ?inf env ZMQ_PUB] by (auto simp: url_text_def)
  then show ?thesis
    using assms(3)
    by (simp add: sys_allocate_unit_def take_port_def free num url url_text_def [symmetric] unit_init_zmq_def
        safe_setting_def Let_def)
qed

text \<open>C4: releasing a unit right after its allocation gives both ports back: the port list and the data
  base are those from before, up to entries the unit's own keys replaced; the number is not reused.\<close>

theorem release_restores_ports:
  assumes "pool_ok s" "0 < id_budget s" "sys_allocate_unit env unit s = Inr (u, s')"
  shows "\<exists>s''. sys_release_unit env (ud_work_id u) s' = Inr (0, s'') \<and> port_list s'' = port_list s \<and>
     key_sql s'' = (key_sql s)(ud_work_id u := None, ud_work_id u @ ''.out_port'' := None) \<and>
     work_id_number_counter s'' = work_id_number_counter s + 1"
proof -
  obtain i j where a: "i < j" "j < length (port_list s)" "\<not> port_list s ! i" "\<not> port_list s ! j"
    "port_list s' = (port_list s)[i := True, j := True]"
    "key_sql s' = (key_sql s)(ud_work_id u \<mapsto> Any_unit u, ud_work_id u @ ''.out_port'' \<mapsto> Any_string (ud_output_url u))"
    "sscanf_i (zmq_s_format s) (ud_output_url u) = Inr (Some (port_list_start s + int i))"
    "sscanf_i (zmq_s_format s) (ud_inference_url u) = Inr (Some (port_list_start s + int j))"
    "work_id_number_counter s' = work_id_number_counter s + 1"
    "port_list_start s' = port_list_start s" "zmq_s_format s' = zmq_s_format s"
    using sys_allocate_unit_ok [OF assms] by metis
  have "key_sql s' (ud_work_id u) = Some (Any_unit u)" by (simp add: a(6))
  then obtain s'' where r: "sys_release_unit env (ud_work_id u) s' = Inr (0, s'')"
    "port_list s'' = (port_list s')[i := False, j := False]"
    "key_sql s'' = (key_sql s')(ud_work_id u := None, ud_work_id u @ ''.out_port'' := None)"
    "work_id_number_counter s'' = work_id_number_counter s'"
    using sys_release_unit_ok [of i s' j u "ud_work_id u" env] a(1,2,5,7,8,10,11) by auto
  have "port_list s'' = port_list s"
    using a(1-5) r(2) by (auto simp: list_eq_iff_nth_eq nth_list_update)
  moreover have "key_sql s'' = (key_sql s)(ud_work_id u := None, ud_work_id u @ ''.out_port'' := None)"
    unfolding r(3) a(6) by (rule ext) simp
  ultimately show ?thesis using r(1,4) a(9) by simp
qed

section \<open>A concrete manager\<close>

text \<open>The formats of \<open>master_config.json\<close> and a range of four ports.\<close>

definition sample_format :: string where
  "sample_format = ''ipc:///tmp/llm/%i.sock''"

definition sample_config :: um_state where
  "sample_config =
     \<lparr>key_sql = [''config_zmq_min_port'' \<mapsto> Any_int 5010, ''config_zmq_max_port'' \<mapsto> Any_int 5014],
      work_id_number_counter = 0, port_list_start = 0, port_list = [], zmq_s_format = sample_format,
      zmq_c_format = sample_format, sent = [], rpc_sent = [], unlinked = []\<rparr>"

definition sample_env :: zmq_env where
  "sample_env = \<lparr>zmq_bind = \<lambda>_. 0, zmq_connect = \<lambda>_. 0, zmq_send = \<lambda>_ m. int (length m),
     path_exists = \<lambda>_. True, rpc_answer = \<lambda>_ _ _. ''Success''\<rparr>"

definition sample_state :: um_state where
  "sample_state = sample_config\<lparr>port_list_start := 5010, port_list := [False, False, False, False]\<rparr>"

lemma sample_one_conversion: "one_conversion sample_format ''ipc:///tmp/llm/'' ''.sock''"
  by (simp add: one_conversion_def sample_format_def is_space_def code_of_def literal_def)

lemma sample_format_ok: "format_ok sample_format"
  unfolding format_ok_def
  by (rule exI, rule exI, rule conjI, rule sample_one_conversion)
    (simp add: stops_number_def is_digit_def code_of_def)

lemma sample_state_simps [simp]:
  "zmq_s_format sample_state = sample_format" "port_list_start sample_state = 5010"
  "port_list sample_state = [False, False, False, False]" "work_id_number_counter sample_state = 0"
  "key_sql sample_state = [''config_zmq_min_port'' \<mapsto> Any_int 5010, ''config_zmq_max_port'' \<mapsto> Any_int 5014]"
  by (simp_all add: sample_state_def sample_config_def)

lemma sample_pool_ok: "pool_ok sample_state"
  by (simp add: pool_ok_def sample_format_ok int_max_def)

lemma sample_start: "remote_server_work sample_env sample_config = Inr (sys_server sample_env, sample_state)"
  by (simp add: remote_server_work_def sample_state_def sample_config_def safe_reading_int_def resize_list_def
      int_min_def int_max_def Let_def eval_nat_numeral)

lemma sample_numbers:
  "nat_to_string 0 = ''0''" "nat_to_string 5010 = ''5010''" "nat_to_string 5011 = ''5011''"
  "nat_to_string 5012 = ''5012''" "nat_to_string 5013 = ''5013''" "nat_to_string (Suc 0) = ''1''"
  "str_contains ''sock'' sample_format"
  by (simp_all add: nat_to_string_eval str_contains_def sample_format_def)

theorem allocate_unit_result_witness:
  "\<exists>u s'. sys_allocate_unit sample_env ''llm'' sample_state = Inr (u, s') \<and> ud_work_id u = ''llm.0'' \<and>
     ud_output_url u = ''ipc:///tmp/llm/5010.sock.llm.output_url'' \<and>
     ud_inference_url u = ''ipc:///tmp/llm/5011.sock.llm.inference_url'' \<and>
     port_list s' = [True, True, False, False]"
  using allocate_unit_result [of sample_state "''ipc:///tmp/llm/''" "''.sock''" "''llm''" 0 1 sample_env,
      simplified, OF sample_one_conversion]
  by (simp add: int_max_def int_to_string_def url_text_def sample_numbers) blast

lemma sample_unit_url:
  assumes "literal unit" "literal sfx" "0 \<le> p"
  shows "unit_url sample_format unit sfx p =
    Inr (''ipc:///tmp/llm/'' @ nat_to_string (nat p) @ ''.sock.'' @ unit @ sfx)"
  using unit_url_total [OF sample_one_conversion assms] by (simp add: sample_numbers)

lemmas sample_run = sys_allocate_unit_def take_port_def unit_init_zmq_def pzmq_socket_def to_int32_def
  sample_unit_url safe_setting_def int_to_string_def sample_numbers

lemma sample_allocated: "\<exists>u s'. sys_allocate_unit sample_env ''llm'' sample_state = Inr (u, s')"
  by (simp add: sample_run Let_def)

theorem release_restores_ports_witness:
  "\<exists>u s' s''. sys_allocate_unit sample_env ''llm'' sample_state = Inr (u, s') \<and>
     sys_release_unit sample_env (ud_work_id u) s' = Inr (0, s'') \<and>
     port_list s'' = [False, False, False, False]"
proof -
  obtain u s' where a: "sys_allocate_unit sample_env ''llm'' sample_state = Inr (u, s')"
    using sample_allocated by blast
  have "0 < id_budget sample_state" by (simp add: id_budget_def int_max_def)
  with release_restores_ports [OF sample_pool_ok _ a] a show ?thesis by auto
qed

lemma start_pool_ok:
  assumes "remote_server_work env s0 = Inr (srv, s)" "\<And>k. \<not> is_unit_entry (key_sql s0 k)" "format_ok (zmq_s_format s0)"
    "port_list s0 = []" "0 \<le> port_list_start s" "port_list_start s + int (length (port_list s)) \<le> int_max"
    "0 \<le> work_id_number_counter s" "work_id_number_counter s \<le> int_max"
  shows "pool_ok s" "holds s k = {}"
proof -
  have "key_sql s = key_sql s0" "zmq_s_format s = zmq_s_format s0"
    using assms(1) by (auto simp: remote_server_work_def Let_def split: option.splits any_val.splits if_splits)
  moreover have "key_sql s0 k \<noteq> Some (Any_unit u)" for k u
    using assms(2) [of k] by (auto simp: is_unit_entry_def)
  ultimately show "pool_ok s" "holds s k = {}"
    using assms by (simp_all add: pool_ok_def holds_no_unit)
qed

text \<open>C1: whatever requests the RPC server answers after its start (units registered and released,
  entries of the data base set and erased under any key, unknown actions), two live units never own
  a common port and never publish on a common URL, for up to \<open>2 ^ 31 - 1\<close> registrations.\<close>

theorem live_units_share_nothing:
  assumes "remote_server_work env s0 = Inr (srv, s)" "\<And>k. \<not> is_unit_entry (key_sql s0 k)" "format_ok (zmq_s_format s0)"
    "port_list s0 = []" "0 \<le> port_list_start s" "port_list_start s + int (length (port_list s)) \<le> int_max"
    "0 \<le> work_id_number_counter s" "work_id_number_counter s \<le> int_max"
    "run_all (serve_sys env) qs s = Inr s'" "sum_list (map request_cost qs) \<le> id_budget s"
    "key_sql s' k = Some (Any_unit u)" "key_sql s' l = Some (Any_unit v)" "k \<noteq> l"
  shows "unit_ports (zmq_s_format s') u \<inter> unit_ports (zmq_s_format s') v = {} \<and>
     {ud_output_url u, ud_inference_url u} \<inter> {ud_output_url v, ud_inference_url v} = {}"
proof -
  note start = start_pool_ok [OF assms(1-8)]
  have "exclusive (holds s)" by (simp add: exclusive_def start(2))
  then have r: "pool_ok s'" "exclusive (holds s')"
    using ports.run_exclusive [OF assms(9) start(1) _ assms(10)] by blast+
  then have disj: "unit_ports (zmq_s_format s') u \<inter> unit_ports (zmq_s_format s') v = {}"
    using exclusiveD [OF r(2) assms(13)] assms(11,12) by (simp add: holds_unit)
  have "unit_ok s' k u" "unit_ok s' l v"
    using r(1) assms(11,12) by (simp_all add: pool_ok_def)
  then obtain p q p' q' where
    "sscanf_i (zmq_s_format s') (ud_output_url u) = Inr (Some p)"
    "sscanf_i (zmq_s_format s') (ud_inference_url u) = Inr (Some q)"
    "sscanf_i (zmq_s_format s') (ud_output_url v) = Inr (Some p')"
    "sscanf_i (zmq_s_format s') (ud_inference_url v) = Inr (Some q')"
    "unit_ports (zmq_s_format s') u = {p, q}" "unit_ports (zmq_s_format s') v = {p', q'}"
    using unit_ports_ok by metis
  with disj show ?thesis by auto
qed

theorem live_units_share_nothing_witness:
  "\<exists>s' u v. run_all (serve_sys sample_env) [(''register_unit'', ''llm''), (''register_unit'', ''asr'')] sample_state = Inr s' \<and>
     key_sql s' ''llm.0'' = Some (Any_unit u) \<and> key_sql s' ''asr.1'' = Some (Any_unit v) \<and>
     unit_ports (zmq_s_format s') u \<inter> unit_ports (zmq_s_format s') v = {}"
proof -
  let ?qs = "[(''register_unit'', ''llm''), (''register_unit'', ''asr'')]"
  have srv: "rpc_serve run (sys_server sample_env) ''register_unit'' raw s =
      (case run Register_unit raw s of Inl f \<Rightarrow> if is_exception f then Inr (''NotAction'', s) else Inl f | Inr r \<Rightarrow> Inr r)"
    for run raw s by (simp add: rpc_serve_def sys_server_table)
  have "\<exists>s' u v. run_all (serve_sys sample_env) ?qs sample_state = Inr s' \<and>
      key_sql s' ''llm.0'' = Some (Any_unit u) \<and> key_sql s' ''asr.1'' = Some (Any_unit v)"
    by (simp add: serve_sys_def srv rpc_allocate_unit_def sample_run Let_def)
  then obtain s' u v where r: "run_all (serve_sys sample_env) ?qs sample_state = Inr s'"
    "key_sql s' ''llm.0'' = Some (Any_unit u)" "key_sql s' ''asr.1'' = Some (Any_unit v)"
    by blast
  have c: "zmq_s_format sample_config = sample_format" "port_list sample_config = []"
    "\<not> is_unit_entry (key_sql sample_config k)" for k
    by (simp_all add: sample_config_def is_unit_entry_def)
  have "sum_list (map request_cost ?qs) \<le> id_budget sample_state"
    by (simp add: id_budget_def int_max_def request_cost_def)
  with live_units_share_nothing [OF sample_start c(3) _ c(2) _ _ _ _ r(1) _ r(2,3)] r show ?thesis
    by (auto simp: c(1) sample_format_ok int_max_def)
qed

text \<open>With fewer than two ports free an allocation reads the local variable \<open>port\<close> before anything
  was stored in it, whatever the request: no error is reported to the caller.\<close>

theorem allocate_without_ports:
  assumes "length (filter Not (port_list s)) < 2" "0 \<le> port_list_start s"
    "port_list_start s + int (length (port_list s)) \<le> int_max"
    "one_conversion (zmq_s_format s) pre post" "literal unit"
  shows "sys_allocate_unit env unit s = Inl Undefined"
proof -
  have sfx: "literal ''.output_url''" by (simp add: literal_def)
  show ?thesis
  proof (cases "first_free (port_list s)")
    case None
    then show ?thesis by (simp add: sys_allocate_unit_def take_port_def Let_def)
  next
    case (Some i)
    then have i: "i < length (port_list s)" "\<not> port_list s ! i" using first_free_Some by blast+
    have num: "to_int32 (port_list_start s + int i) = port_list_start s + int i"
      using assms(2,3) i(1) by (intro to_int32_id) (simp_all add: int_min_def)
    have "port_list s = take i (port_list s) @ False # drop (Suc i) (port_list s)"
      using i id_take_nth_drop [of i "port_list s"] by simp
    then have "length (filter Not (take i (port_list s) @ False # drop (Suc i) (port_list s))) < 2"
      using assms(1) by simp
    then have "filter Not ((port_list s)[i := True]) = []"
      using i(1) by (simp add: upd_conv_take_nth_drop)
    then have "first_free ((port_list s)[i := True]) = None"
      by (simp add: first_free_None filter_empty_conv)
    moreover have "0 \<le> port_list_start s + int i" using assms(2) by simp
    ultimately show ?thesis
      using Some num unit_url_total [OF assms(4,5) sfx, of "port_list_start s + int i"]
      by (simp add: sys_allocate_unit_def take_port_def Let_def)
  qed
qed

theorem allocate_without_ports_witness:
  "sys_allocate_unit sample_env ''llm'' (sample_state\<lparr>port_list := [True, True, False, True]\<rparr>) = Inl Undefined"
  using allocate_without_ports [of "sample_state\<lparr>port_list := [True, True, False, True]\<rparr>"
      "''ipc:///tmp/llm/''" "''.sock''" "''llm''" sample_env] sample_one_conversion
  by (simp add: int_max_def)

section \<open>Ports without an owner\<close>

definition no_leak :: "um_state \<Rightarrow> bool" where
  "no_leak s \<longleftrightarrow> (\<forall>p. port_marked s p \<longrightarrow> (\<exists>k. p \<in> holds s k))"

lemma pool_ok_unit: "pool_ok s \<Longrightarrow> key_sql s k = Some (Any_unit u) \<Longrightarrow> unit_ok s k u"
  by (simp add: pool_ok_def)

lemma pool_ok_key:
  "pool_ok s \<Longrightarrow> key_sql s k = Some (Any_unit u) \<Longrightarrow>
   \<exists>v n. k = v @ ''.'' @ nat_to_string n \<and> int n < work_id_number_counter s"
  using pool_ok_unit [of s k u] by (simp add: unit_ok_def)

lemma sys_allocate_unit_no_leak:
  assumes "pool_ok s" "no_leak s" "0 < id_budget s" "sys_allocate_unit env unit s = Inr (u, s')"
  shows "no_leak s'"
proof -
  let ?n = "nat (work_id_number_counter s)"
  let ?wid = "unit @ ''.'' @ nat_to_string ?n"
  obtain i j where a: "i < j" "j < length (port_list s)" "\<not> port_list s ! i" "\<not> port_list s ! j"
    "port_list s' = (port_list s)[i := True, j := True]"
    "key_sql s' = (key_sql s)(?wid \<mapsto> Any_unit u, ?wid @ ''.out_port'' \<mapsto> Any_string (ud_output_url u))"
    "sscanf_i (zmq_s_format s) (ud_output_url u) = Inr (Some (port_list_start s + int i))"
    "sscanf_i (zmq_s_format s) (ud_inference_url u) = Inr (Some (port_list_start s + int j))"
    "port_list_start s' = port_list_start s" "zmq_s_format s' = zmq_s_format s"
    using sys_allocate_unit_ok [OF assms(1,3,4)] by metis
  have mine: "holds s' ?wid = {port_list_start s + int i, port_list_start s + int j}"
    using a(6-8,10) by (subst holds_unit [where u = u]) (auto simp: unit_ports_def)
  have others: "holds s k \<subseteq> holds s' k" for k
  proof (cases "safe_reading_unit k s")
    case None
    then show ?thesis by (simp add: holds_def)
  next
    case (Some v)
    then have k: "key_sql s k = Some (Any_unit v)" by (simp add: safe_reading_unit_iff)
    then obtain w n where w: "k = w @ ''.'' @ nat_to_string n" "int n < work_id_number_counter s"
      using pool_ok_key [OF assms(1)] by metis
    then have "n \<noteq> ?n" by arith
    then have "k \<noteq> ?wid" using unit_key_number [of w n unit ?n] w(1) by metis
    moreover have "k \<noteq> ?wid @ ''.out_port''"
      using out_port_not_unit_key [of ?wid w n] w(1) by metis
    ultimately have "key_sql s' k = Some (Any_unit v)" using k by (simp add: a(6))
    then show ?thesis using k a(10) by (simp add: holds_unit)
  qed
  show ?thesis
    unfolding no_leak_def
  proof (intro allI impI)
    fix p assume "port_marked s' p"
    then obtain m where m: "m < length (port_list s)" "p = port_list_start s + int m" "port_list s' ! m"
      using a(5,9) by (auto simp: port_marked_def)
    show "\<exists>k. p \<in> holds s' k"
    proof (cases "m = i \<or> m = j")
      case True
      with m(2) mine show ?thesis by blast
    next
      case False
      then have "port_marked s p" using m a(5) by (auto simp: port_marked_def)
      with assms(2) obtain k where "p \<in> holds s k" by (auto simp: no_leak_def)
      with others [of k] show ?thesis by blast
    qed
  qed
qed

lemma sys_release_unit_no_leak:
  assumes "pool_ok s" "no_leak s" "sys_release_unit env unit s = Inr (r, s')"
  shows "no_leak s'"
proof (cases "safe_reading_unit unit s")
  case None
  with assms(2,3) show ?thesis by (simp add: sys_release_unit_def)
next
  case (Some u)
  then have u: "key_sql s unit = Some (Any_unit u)" by (simp add: safe_reading_unit_iff)
  then have uk: "unit_ok s unit u" using assms(1) by (simp add: pool_ok_def)
  then obtain i j where ij: "i < length (port_list s)" "j < length (port_list s)"
    "sscanf_i (zmq_s_format s) (ud_output_url u) = Inr (Some (port_list_start s + int i))"
    "sscanf_i (zmq_s_format s) (ud_inference_url u) = Inr (Some (port_list_start s + int j))"
    unfolding unit_ok_def port_marked_def by metis
  then have s': "port_list s' = (port_list s)[i := False, j := False]"
    "key_sql s' = (key_sql s)(unit := None, unit @ ''.out_port'' := None)"
    "port_list_start s' = port_list_start s" "zmq_s_format s' = zmq_s_format s"
    using sys_release_unit_ok [OF ij u, of env] assms(3) by auto
  have mine: "holds s unit = {port_list_start s + int i, port_list_start s + int j}"
    using ij holds_unit [OF u] by (auto simp: unit_ports_def)
  show ?thesis
    unfolding no_leak_def
  proof (intro allI impI)
    fix p assume "port_marked s' p"
    then obtain m where n: "m < length (port_list s)" "p = port_list_start s + int m"
      "(port_list s)[i := False, j := False] ! m"
      unfolding port_marked_def s'(1,3) by auto
    then have mj: "m \<noteq> j" by auto
    then have mi: "m \<noteq> i" using n by auto
    have m: "m < length (port_list s)" "p = port_list_start s + int m" "port_list s ! m" "m \<noteq> i" "m \<noteq> j"
      using n mi mj by auto
    then have "port_marked s p" by (auto simp: port_marked_def)
    then obtain k where k: "p \<in> holds s k" using assms(2) by (auto simp: no_leak_def)
    then obtain v where v: "key_sql s k = Some (Any_unit v)"
      by (auto simp: holds_def safe_reading_unit_iff split: option.splits)
    have "k \<noteq> unit" using k m(2,4,5) mine by auto
    moreover obtain w n where "k = w @ ''.'' @ nat_to_string n"
      using pool_ok_key [OF assms(1) v] by metis
    then have "k \<noteq> unit @ ''.out_port''" using out_port_not_unit_key [of unit w n] by metis
    ultimately have "key_sql s' k = Some (Any_unit v)" using v by (simp add: s'(2))
    then show "\<exists>k. p \<in> holds s' k" using k v s'(4) by (metis holds_unit)
  qed
qed

text \<open>Requests that change the data base only by registering and releasing units.\<close>

definition unit_request :: "string \<times> string \<Rightarrow> bool" where
  "unit_request q \<longleftrightarrow> fst q \<noteq> ''sql_set'' \<and> fst q \<noteq> ''sql_unset''"

lemma serve_sys_no_leak:
  assumes "pool_ok s" "no_leak s" "request_cost q \<le> id_budget s" "unit_request q" "serve_sys env q s = Inr (r, s')"
  shows "no_leak s'"
proof -
  obtain h where "s' = s \<or> (map_of (zmq_fun (sys_server env)) (fst q) = Some (Handler h) \<and>
      run_action env h (snd q) s = Inr (r, s'))"
    using assms(5) by (auto simp: serve_sys_def rpc_serve_def split: option.splits rpc_entry.splits sum.splits if_splits)
  then consider "s' = s" | u where "fst q = ''register_unit''" "sys_allocate_unit env (snd q) s = Inr (u, s')"
    | c where "sys_release_unit env (snd q) s = Inr (c, s')"
    using assms(4)
    by (cases h) (auto simp: sys_server_table unit_request_def rpc_allocate_unit_def rpc_release_unit_def
        rpc_sql_select_def rbind_Inr_iff split: if_splits)
  then show ?thesis
  proof cases
    case 2
    then have "0 < id_budget s" using assms(3) by (simp add: request_cost_def)
    then show ?thesis using sys_allocate_unit_no_leak [OF assms(1,2) _ 2(2)] by blast
  qed (use assms sys_release_unit_no_leak in auto)
qed

lemma run_no_leak:
  "run_all (serve_sys env) qs s = Inr s' \<Longrightarrow> pool_ok s \<Longrightarrow> exclusive (holds s) \<Longrightarrow> no_leak s \<Longrightarrow>
   sum_list (map request_cost qs) \<le> id_budget s \<Longrightarrow> list_all unit_request qs \<Longrightarrow> no_leak s' \<and> pool_ok s'"
proof (induction qs arbitrary: s)
  case (Cons q qs)
  then obtain r t where q: "serve_sys env q s = Inr (r, t)" "run_all (serve_sys env) qs t = Inr s'"
    by (auto simp: rbind_Inr_iff)
  have c: "request_cost q \<le> id_budget s" using Cons.prems by simp
  have "unit_request q" using Cons.prems(6) by simp
  note leak = serve_sys_no_leak [OF Cons.prems(2,4) c this q(1)]
  have "sum_list (map request_cost qs) \<le> id_budget t"
    using serve_sys_step(2) [OF Cons.prems(2) c q(1)] Cons.prems(5) by simp
  then show ?case
    using Cons.IH [OF q(2) serve_sys_step(1) [OF Cons.prems(2) c q(1) Cons.prems(3)]
        ports.exclusive_serve [OF Cons.prems(2,3) c q(1)] leak] Cons.prems(6) by simp
qed auto

text \<open>C2: as long as nobody erases or overwrites entries of the data base behind the allocator's back,
  the ports marked in \<open>port_list\<close> are exactly those of the live units: no port is lost.\<close>

theorem marked_ports_are_owned:
  assumes "remote_server_work env s0 = Inr (srv, s)" "\<And>k. \<not> is_unit_entry (key_sql s0 k)" "format_ok (zmq_s_format s0)"
    "port_list s0 = []" "0 \<le> port_list_start s" "port_list_start s + int (length (port_list s)) \<le> int_max"
    "0 \<le> work_id_number_counter s" "work_id_number_counter s \<le> int_max"
    "run_all (serve_sys env) qs s = Inr s'" "sum_list (map request_cost qs) \<le> id_budget s"
    "list_all unit_request qs"
  shows "port_marked s' p \<longleftrightarrow>
     (\<exists>k u. key_sql s' k = Some (Any_unit u) \<and> p \<in> unit_ports (zmq_s_format s') u)"
proof -
  note start = start_pool_ok [OF assms(1-8)]
  have ex: "exclusive (holds s)" by (simp add: exclusive_def start(2))
  have "port_list s = replicate (length (port_list s)) False"
    using assms(1,4)
    by (auto simp: remote_server_work_def resize_list_def Let_def split: option.splits any_val.splits if_splits)
  then have "\<not> port_marked s q" for q
    unfolding port_marked_def by (metis nth_replicate)
  then have "no_leak s" by (simp add: no_leak_def)
  from run_no_leak [OF assms(9) start(1) ex this assms(10,11)]
  have r: "no_leak s'" "pool_ok s'" by simp_all
  have "port_marked s' p \<longleftrightarrow> (\<exists>k. p \<in> holds s' k)"
    using r holds_marked by (auto simp: no_leak_def)
  also have "\<dots> \<longleftrightarrow> (\<exists>k u. key_sql s' k = Some (Any_unit u) \<and> p \<in> unit_ports (zmq_s_format s') u)"
    by (auto simp: holds_def safe_reading_unit_iff split: option.splits)
  finally show ?thesis .
qed

theorem marked_ports_are_owned_witness:
  "\<exists>s'. run_all (serve_sys sample_env) [(''register_unit'', ''llm'')] sample_state = Inr s' \<and>
     (\<exists>k u. key_sql s' k = Some (Any_unit u) \<and> 5011 \<in> unit_ports (zmq_s_format s') u)"
proof -
  let ?qs = "[(''register_unit'', ''llm'')]"
  have "\<exists>s'. run_all (serve_sys sample_env) ?qs sample_state = Inr s' \<and> port_list_start s' = 5010 \<and>
      port_list s' = [True, True, False, False]"
    by (simp add: serve_sys_def rpc_serve_def sys_server_table rpc_allocate_unit_def sample_run Let_def)
  then obtain s' where r: "run_all (serve_sys sample_env) ?qs sample_state = Inr s'" "port_list_start s' = 5010"
    "port_list s' = [True, True, False, False]" by blast
  have c: "zmq_s_format sample_config = sample_format" "port_list sample_config = []"
    "\<not> is_unit_entry (key_sql sample_config k)" for k
    by (simp_all add: sample_config_def is_unit_entry_def)
  have "port_marked s' 5011" using r(2,3) by (auto simp: port_marked_def intro!: exI [of _ 1])
  moreover have "sum_list (map request_cost ?qs) \<le> id_budget sample_state"
    by (simp add: id_budget_def int_max_def request_cost_def)
  ultimately show ?thesis
    using marked_ports_are_owned [OF sample_start c(3) _ c(2) _ _ _ _ r(1), of 5011] r(1)
    by (auto simp: c(1) sample_format_ok int_max_def unit_request_def)
qed

text \<open>Erasing a live unit's entry with \<open>sql_unset\<close> is answered with success and loses its two ports
  for good: they stay marked, no unit owns them, and releasing the unit fails.\<close>

theorem sql_unset_loses_ports:
  assumes "pool_ok s" "exclusive (holds s)" "key_sql s k = Some (Any_unit u)"
  shows "\<exists>s'. serve_sys env (''sql_unset'', k) s = Inr (''Success'', s') \<and>
     card (unit_ports (zmq_s_format s) u) = 2 \<and>
     (\<forall>p \<in> unit_ports (zmq_s_format s) u. port_marked s' p \<and> (\<forall>j. p \<notin> holds s' j)) \<and>
     sys_release_unit env k s' = Inr (- 1, s')"
proof -
  let ?s' = "safe_erase k s"
  have "card (unit_ports (zmq_s_format s) u) = 2"
    using unit_ports_ok [OF pool_ok_unit [OF assms(1,3)]] by (auto simp: card_insert_if)
  moreover have "port_marked ?s' p" if "p \<in> unit_ports (zmq_s_format s) u" for p
    using holds_marked [OF assms(1), of p k] that holds_unit [OF assms(3)] by (simp add: safe_erase_def)
  moreover have "p \<notin> holds ?s' j" if "p \<in> unit_ports (zmq_s_format s) u" for p j
  proof (cases "j = k")
    case True
    then show ?thesis by (simp add: holds_def safe_reading_unit_def safe_erase_def)
  next
    case False
    then have "holds ?s' j = holds s j"
      by (simp add: holds_def safe_reading_unit_def safe_erase_def split: option.splits)
    then show ?thesis using exclusiveD [OF assms(2) False] that holds_unit [OF assms(3)] by blast
  qed
  ultimately show ?thesis
    by (simp add: serve_sys_def rpc_serve_def sys_server_table rpc_sql_unset_def sys_sql_unset_def)
      (simp add: sys_release_unit_def safe_reading_unit_def safe_erase_def)
qed

theorem sql_unset_loses_ports_witness:
  "\<exists>u s s'. sys_allocate_unit sample_env ''llm'' sample_state = Inr (u, s) \<and>
     serve_sys sample_env (''sql_unset'', ''llm.0'') s = Inr (''Success'', s') \<and>
     sys_release_unit sample_env ''llm.0'' s' = Inr (- 1, s')"
proof -
  have "\<exists>u s. sys_allocate_unit sample_env ''llm'' sample_state = Inr (u, s) \<and>
      key_sql s ''llm.0'' = Some (Any_unit u)"
    by (simp add: sample_run Let_def)
  then obtain u s where a: "sys_allocate_unit sample_env ''llm'' sample_state = Inr (u, s)"
    "key_sql s ''llm.0'' = Some (Any_unit u)" by blast
  have b: "0 < id_budget sample_state" by (simp add: id_budget_def int_max_def)
  have "holds sample_state k = {}" for k
    by (rule holds_no_unit) (simp add: is_unit_entry_def)
  then have "holds s i \<inter> holds s j = {}" if "i \<noteq> j" for i j
    using sys_allocate_unit_step(3) [OF sample_pool_ok b a(1), of j] that by auto
  then have "exclusive (holds s)" by (simp add: exclusive_def)
  from sql_unset_loses_ports [OF sys_allocate_unit_step(1) [OF sample_pool_ok b a(1)] this a(2), of sample_env] a(1)
  show ?thesis by blast
qed

section \<open>The data base\<close>

text \<open>The text a node sends to set an entry.\<close>

definition sql_request :: "string \<Rightarrow> string \<Rightarrow> string" where
  "sql_request k v = ''{'' @ quoted ''key'' @ '':'' @ quoted k @ '','' @ quoted ''val'' @ '':'' @ quoted v @ ''}''"

lemma sql_request_key: "plain_text k \<Longrightarrow> sample_json_str_get (sql_request k v) ''key'' = k"
  by (rule get_string_literal [where n = 1 and sep = "'':''" and rest = "'','' @ quoted ''val'' @ '':'' @ quoted v @ ''}''"])
    (simp_all add: sql_request_def quoted_def plain_text_str_body)

lemma quoted_prefix: "dquote \<notin> set k \<Longrightarrow> dquote \<notin> set w \<Longrightarrow>
  take (length (quoted w)) (quoted k @ s) = quoted w \<longleftrightarrow> k = w"
proof (induction k arbitrary: w)
  case Nil
  then show ?case by (cases w) (auto simp: quoted_def)
next
  case (Cons c k)
  then show ?case by (cases w) (auto simp: quoted_def)
qed

lemma str_find_quoted_skip:
  assumes "dquote \<notin> set k" "dquote \<notin> set w" "k \<noteq> w"
  shows "str_find (quoted w) (quoted k @ s)
       = map_option ((+) (Suc (length k))) (str_find (quoted w) (dquote # s))"
proof -
  have "str_find (quoted w) (quoted k @ s) = map_option Suc (str_find (quoted w) (k @ dquote # s))"
    using quoted_prefix [OF assms(1,2), of s] assms(3) by (simp add: quoted_def)
  also have "str_find (quoted w) (k @ dquote # s) = map_option ((+) (length k)) (str_find (quoted w) (dquote # s))"
    using str_find_skip [OF assms(1), of "w @ [dquote]" "dquote # s"] by (simp add: quoted_def)
  finally show ?thesis by (simp add: option.map_comp comp_def)
qed

lemma sql_request_val:
  assumes "plain_text k" "k \<noteq> ''val''" "str_body dquote v"
  shows "sample_json_str_get (sql_request k v) ''val'' = v"
proof (rule get_string_literal [where n = "length k + 10" and sep = "'':''" and rest = "''}''"])
  have "dquote \<notin> set k" using assms(1) by (simp add: plain_text_def)
  then have "str_find (quoted ''val'') (quoted k @ CHR '','' # quoted ''val'' @ s) = Some (length k + 3)" for s
    using str_find_quoted_skip [of k "''val''" "CHR '','' # quoted ''val'' @ s"] assms(2)
    by (simp add: quoted_def)
  then show "str_find (quoted ''val'') (sql_request k v) = Some (length k + 10)"
    by (simp add: sql_request_def) (simp add: quoted_def)
  let ?pre = "''{'' @ quoted ''key'' @ '':'' @ quoted k @ '','' @ quoted ''val''"
  have "sql_request k v = ?pre @ '':'' @ quoted v @ ''}''" by (simp add: sql_request_def)
  moreover have "length k + 10 + length (quoted ''val'') = length ?pre" by (simp add: quoted_def)
  ultimately show "drop (length k + 10 + length (quoted ''val'')) (sql_request k v) = '':'' @ quoted v @ ''}''"
    by (simp only: drop_length_append)
qed (use assms in auto)

lemma serve_sys_simps:
  "serve_sys env (''sql_set'', raw) s = rpc_sql_set raw s"
  "serve_sys env (''sql_select'', raw) s = rpc_sql_select raw s"
  "serve_sys env (''sql_unset'', raw) s = rpc_sql_unset raw s"
  by (simp_all add: serve_sys_def rpc_serve_def sys_server_table rpc_sql_set_def rpc_sql_select_def
      rpc_sql_unset_def Let_def split: if_splits)

text \<open>An entry set over RPC is what a later select returns, no other entry changes, and erasing it
  makes the select return the empty string: for every key without quotes and backslashes except
  \<open>val\<close>, whose own value is then taken for the field name, so that the empty string is stored.\<close>

theorem sql_set_select:
  assumes "plain_text k" "k \<noteq> []" "str_body dquote v"
  shows "\<exists>s'. serve_sys env (''sql_set'', sql_request k v) s = Inr (''Success'', s') \<and>
     serve_sys env (''sql_select'', k) s' = Inr (if k = ''val'' then [] else v, s') \<and>
     (\<forall>j. j \<noteq> k \<longrightarrow> serve_sys env (''sql_select'', j) s' = Inr (sys_sql_select j s, s')) \<and>
     (\<exists>s''. serve_sys env (''sql_unset'', k) s' = Inr (''Success'', s'') \<and>
        serve_sys env (''sql_select'', k) s'' = Inr ([], s''))"
proof -
  have "sample_json_str_get (sql_request ''val'' v) ''val'' = []"
    by (simp add: sample_json_str_get_def sql_request_def quoted_def scan_step_def scan_init_def
        scan_outside_def Let_def) (simp add: scan_result_def scan_Finished)
  then have "sample_json_str_get (sql_request k v) ''val'' = (if k = ''val'' then [] else v)"
    using sql_request_val [OF assms(1) _ assms(3)] by auto
  with sql_request_key [OF assms(1)] assms(2) show ?thesis
    by (simp add: serve_sys_simps rpc_sql_set_def rpc_sql_select_def rpc_sql_unset_def sys_sql_set_def
        sys_sql_select_def sys_sql_unset_def safe_setting_def safe_erase_def safe_reading_string_def Let_def)
qed

theorem sql_set_select_witness:
  "\<exists>s'. serve_sys sample_env (''sql_set'', sql_request ''llm.model'' ''qwen'') sample_state = Inr (''Success'', s') \<and>
     serve_sys sample_env (''sql_select'', ''llm.model'') s' = Inr (''qwen'', s')"
  using sql_set_select [of "''llm.model''" "''qwen''" sample_env sample_state] by (auto simp: plain_text_def)

end
