(* ===== verification/JsonLexer.thy ===== *)
theory JsonLexer
  imports Json
begin

unbundle bit_operations_syntax

text \<open>
  The lexer of the JSON library the repository carries as \<open>utils/json.hpp\<close>: classes \<open>lexer_base\<close> and
  \<open>lexer\<close>. The input adapter is the list of bytes not read yet, the end of the input is \<open>None\<close>. Every
  \<open>scan_\<close> function takes the lexer and returns the token and the lexer after it. \<open>strtod\<close> is a
  parameter: it maps the text of a number to its double. No call sets a locale, so the decimal point is a dot.
\<close>

section \<open>State\<close>

datatype token_type =
    Uninitialized | Literal_true | Literal_false | Literal_null | Value_string | Value_unsigned | Value_integer
  | Value_float | Begin_array | Begin_object | End_array | End_object | Name_separator | Value_separator
  | Parse_error | End_of_input | Literal_or_value

abbreviation squote :: char where "squote \<equiv> CHR 0x27"

fun token_type_name :: "token_type \<Rightarrow> string" where
  "token_type_name Uninitialized = ''<uninitialized>''"
| "token_type_name Literal_true = ''true literal''"
| "token_type_name Literal_false = ''false literal''"
| "token_type_name Literal_null = ''null literal''"
| "token_type_name Value_string = ''string literal''"
| "token_type_name Value_unsigned = ''number literal''"
| "token_type_name Value_integer = ''number literal''"
| "token_type_name Value_float = ''number literal''"
| "token_type_name Begin_array = [squote, CHR ''['', squote]"
| "token_type_name Begin_object = [squote, CHR ''{'', squote]"
| "token_type_name End_array = [squote, CHR '']'', squote]"
| "token_type_name End_object = [squote, CHR ''}'', squote]"
| "token_type_name Name_separator = [squote, CHR '':'', squote]"
| "token_type_name Value_separator = [squote, CHR '','', squote]"
| "token_type_name Parse_error = ''<parse error>''"
| "token_type_name End_of_input = ''end of input''"
| "token_type_name Literal_or_value =
     [squote, CHR ''['', squote] @ '', '' @ [squote, CHR ''{'', squote] @ '', or a literal''"

record position_t =
  chars_read_total :: nat
  chars_read_current_line :: nat
  lines_read :: nat

record lexer =
  ia :: string
  ignore_comments :: bool
  lx_current :: "char option"
  next_unget :: bool
  lx_position :: position_t
  token_string :: string
  token_buffer :: string
  error_message :: string
  value_integer :: int
  value_unsigned :: nat
  value_float :: double

definition lexer_new :: "string \<Rightarrow> bool \<Rightarrow> lexer" where
  "lexer_new text comments =
     \<lparr>ia = text, ignore_comments = comments, lx_current = None, next_unget = False,
      lx_position = \<lparr>chars_read_total = 0, chars_read_current_line = 0, lines_read = 0\<rparr>, token_string = [],
      token_buffer = [], error_message = [], value_integer = 0, value_unsigned = 0, value_float = 0\<rparr>"

section \<open>Input\<close>

definition lx_reset :: "lexer \<Rightarrow> lexer" where
  "lx_reset l = l\<lparr>token_buffer := [], token_string := (case lx_current l of None \<Rightarrow> [char_of (255::nat)] | Some c \<Rightarrow> [c])\<rparr>"

definition lx_get :: "lexer \<Rightarrow> lexer" where
  "lx_get l =
     (let p = lx_position l;
          p1 = p\<lparr>chars_read_total := chars_read_total p + 1,
                 chars_read_current_line := chars_read_current_line p + 1\<rparr>;
          c = (if next_unget l then lx_current l else case ia l of [] \<Rightarrow> None | c # _ \<Rightarrow> Some c);
          p2 = (if c = Some newline then p1\<lparr>lines_read := lines_read p1 + 1, chars_read_current_line := 0\<rparr> else p1)
      in l\<lparr>ia := (if next_unget l then ia l else tl (ia l)), next_unget := False, lx_current := c, lx_position := p2,
           token_string := token_string l @ (case c of None \<Rightarrow> [] | Some c' \<Rightarrow> [c'])\<rparr>)"

text \<open>Only called after a \<open>lx_get\<close>, so the total is positive and the token string ends with the byte.\<close>

definition lx_unget :: "lexer \<Rightarrow> lexer" where
  "lx_unget l =
     (let p = lx_position l;
          p1 = p\<lparr>chars_read_total := chars_read_total p - 1\<rparr>;
          p2 = (if chars_read_current_line p1 = 0
                then if 0 < lines_read p1 then p1\<lparr>lines_read := lines_read p1 - 1\<rparr> else p1
                else p1\<lparr>chars_read_current_line := chars_read_current_line p1 - 1\<rparr>)
      in l\<lparr>next_unget := True, lx_position := p2,
           token_string := (if lx_current l = None then token_string l else butlast (token_string l))\<rparr>)"

definition lx_add :: "char \<Rightarrow> lexer \<Rightarrow> lexer" where
  "lx_add c l = l\<lparr>token_buffer := token_buffer l @ [c]\<rparr>"

definition lx_error :: "string \<Rightarrow> lexer \<Rightarrow> token_type \<times> lexer" where
  "lx_error msg l = (Parse_error, l\<lparr>error_message := msg\<rparr>)"

definition upper_hex :: "nat \<Rightarrow> char" where
  "upper_hex d = (if d < 10 then char_of (48 + d) else char_of (55 + d))"

definition get_token_string :: "lexer \<Rightarrow> string" where
  "get_token_string l =
     concat (map (\<lambda>c. if code_of c \<le> 0x1F
                       then ''<U+00'' @ [upper_hex (code_of c div 16), upper_hex (code_of c mod 16)] @ ''>''
                       else [c]) (token_string l))"

text \<open>How many bytes \<open>lx_get\<close> can still return.\<close>

definition lx_size :: "lexer \<Rightarrow> nat" where
  "lx_size l = length (ia l) + (if next_unget l \<and> lx_current l \<noteq> None then 1 else 0)"

lemma lx_size_get_Some: "lx_current (lx_get l) = Some c \<Longrightarrow> lx_size (lx_get l) < lx_size l"
  by (auto simp: lx_size_def lx_get_def Let_def split: list.splits if_splits)

lemma lx_size_get: "lx_size (lx_get l) \<le> lx_size l"
  by (auto simp: lx_size_def lx_get_def Let_def split: list.splits)

lemma lx_size_simps [simp]:
  "lx_size (lx_add c l) = lx_size l" "lx_size (lx_reset l) = lx_size l"
  "lx_size (snd (lx_error msg l)) = lx_size l" "lx_size (l\<lparr>error_message := msg\<rparr>) = lx_size l"
  by (simp_all add: lx_size_def lx_add_def lx_reset_def lx_error_def)

lemma lx_size_unget: "lx_size (lx_unget (lx_get l)) \<le> lx_size l"
  by (auto simp: lx_size_def lx_get_def lx_unget_def Let_def split: list.splits)

section \<open>Strings\<close>

definition hex_value :: "char \<Rightarrow> nat option" where
  "hex_value c =
     (let n = code_of c in
      if 48 \<le> n \<and> n \<le> 57 then Some (n - 0x30)
      else if 65 \<le> n \<and> n \<le> 70 then Some (n - 0x37)
      else if 97 \<le> n \<and> n \<le> 102 then Some (n - 0x57)
      else None)"

text \<open>\<open>None\<close> is the result -1.\<close>

fun codepoint_loop :: "nat list \<Rightarrow> nat \<Rightarrow> lexer \<Rightarrow> nat option \<times> lexer" where
  "codepoint_loop [] codepoint l = (Some codepoint, l)"
| "codepoint_loop (factor # factors) codepoint l =
     (let l1 = lx_get l in
      case Option.bind (lx_current l1) hex_value of
        None \<Rightarrow> (None, l1)
      | Some d \<Rightarrow> codepoint_loop factors (codepoint + push_bit factor d) l1)"

definition get_codepoint :: "lexer \<Rightarrow> nat option \<times> lexer" where
  "get_codepoint l = codepoint_loop [12, 8, 4, 0] 0 l"

fun byte_ranges :: "(nat \<times> nat) list \<Rightarrow> lexer \<Rightarrow> bool \<times> lexer" where
  "byte_ranges [] l = (True, l)"
| "byte_ranges ((lo, hi) # ranges) l =
     (let l1 = lx_get l in
      case lx_current l1 of
        Some c \<Rightarrow>
          if lo \<le> code_of c \<and> code_of c \<le> hi then byte_ranges ranges (lx_add c l1)
          else (False, l1\<lparr>error_message := ''invalid string: ill-formed UTF-8 byte''\<rparr>)
      | None \<Rightarrow> (False, l1\<lparr>error_message := ''invalid string: ill-formed UTF-8 byte''\<rparr>))"

definition next_byte_in_range :: "(nat \<times> nat) list \<Rightarrow> char \<Rightarrow> lexer \<Rightarrow> bool \<times> lexer" where
  "next_byte_in_range ranges current l = byte_ranges ranges (lx_add current l)"

text \<open>The bytes of a code point.\<close>

definition codepoint_bytes :: "nat \<Rightarrow> string" where
  "codepoint_bytes cp =
     map char_of
       (if cp < 0x80 then [cp]
        else if cp \<le> 0x7FF then [0xC0 OR drop_bit 6 cp, 0x80 OR (cp AND 0x3F)]
        else if cp \<le> 0xFFFF then
          [0xE0 OR drop_bit 12 cp, 0x80 OR (drop_bit 6 cp AND 0x3F), 0x80 OR (cp AND 0x3F)]
        else
          [0xF0 OR drop_bit 18 cp, 0x80 OR (drop_bit 12 cp AND 0x3F), 0x80 OR (drop_bit 6 cp AND 0x3F),
           0x80 OR (cp AND 0x3F)])"

definition hex_error :: string where
  "hex_error = ''invalid string: '' @ [squote, bslash] @ ''u'' @ [squote] @ '' must be followed by 4 hex digits''"

definition high_error :: string where
  "high_error = ''invalid string: surrogate U+D800..U+DBFF must be followed by U+DC00..U+DFFF''"

definition low_error :: string where
  "low_error = ''invalid string: surrogate U+DC00..U+DFFF must follow U+D800..U+DBFF''"

text \<open>
  A step inside a string either ends the scan (\<open>Inl\<close>) or goes on (\<open>Inr\<close>). The second half of a
  surrogate pair: the number the two make.
\<close>

definition low_surrogate :: "nat \<Rightarrow> lexer \<Rightarrow> (token_type \<times> lexer) + (nat \<times> lexer)" where
  "low_surrogate codepoint1 l =
     (let l1 = lx_get l; l2 = lx_get l1 in
      if lx_current l1 \<noteq> Some bslash then Inl (lx_error high_error l1)
      else if lx_current l2 \<noteq> Some (CHR ''u'') then Inl (lx_error high_error l2)
      else case get_codepoint l2 of
             (None, l3) \<Rightarrow> Inl (lx_error hex_error l3)
           | (Some codepoint2, l3) \<Rightarrow>
               if 0xDC00 \<le> codepoint2 \<and> codepoint2 \<le> 0xDFFF
               then Inr (push_bit 10 codepoint1 + codepoint2 - 0x35FDC00, l3)
               else Inl (lx_error high_error l3))"

definition unicode_escape :: "lexer \<Rightarrow> (token_type \<times> lexer) + lexer" where
  "unicode_escape l =
     (case get_codepoint l of
        (None, l1) \<Rightarrow> Inl (lx_error hex_error l1)
      | (Some codepoint1, l1) \<Rightarrow>
          (case (if 0xD800 \<le> codepoint1 \<and> codepoint1 \<le> 0xDBFF then low_surrogate codepoint1 l1
                 else if 0xDC00 \<le> codepoint1 \<and> codepoint1 \<le> 0xDFFF then Inl (lx_error low_error l1)
                 else Inr (codepoint1, l1)) of
             Inl r \<Rightarrow> Inl r
           | Inr (codepoint, l2) \<Rightarrow> Inr (fold lx_add (codepoint_bytes codepoint) l2)))"

definition escape_step :: "lexer \<Rightarrow> (token_type \<times> lexer) + lexer" where
  "escape_step l =
     (let l1 = lx_get l; forbidden = lx_error ''invalid string: forbidden character after backslash'' l1 in
      case lx_current l1 of
        None \<Rightarrow> Inl forbidden
      | Some c \<Rightarrow>
          if c = dquote \<or> c = bslash \<or> c = CHR ''/'' then Inr (lx_add c l1)
          else if c = CHR ''b'' then Inr (lx_add (char_of (8::nat)) l1)
          else if c = CHR ''f'' then Inr (lx_add (char_of (12::nat)) l1)
          else if c = CHR ''n'' then Inr (lx_add (char_of (10::nat)) l1)
          else if c = CHR ''r'' then Inr (lx_add (char_of (13::nat)) l1)
          else if c = CHR ''t'' then Inr (lx_add (char_of (9::nat)) l1)
          else if c = CHR ''u'' then unicode_escape l1
          else Inl forbidden)"

text \<open>The message of a control character names it and its escapes.\<close>

definition control_names :: "string list" where
  "control_names =
     [''NUL'', ''SOH'', ''STX'', ''ETX'', ''EOT'', ''ENQ'', ''ACK'', ''BEL'', ''BS'', ''HT'', ''LF'', ''VT'', ''FF'', ''CR'',
      ''SO'', ''SI'', ''DLE'', ''DC1'', ''DC2'', ''DC3'', ''DC4'', ''NAK'', ''SYN'', ''ETB'', ''CAN'', ''EM'', ''SUB'',
      ''ESC'', ''FS'', ''GS'', ''RS'', ''US'']"

definition control_message :: "nat \<Rightarrow> string" where
  "control_message n =
     (let code = ''00'' @ [upper_hex (n div 16), upper_hex (n mod 16)];
          short = (\<lambda>c. '' or '' @ [bslash, c])
      in ''invalid string: control character U+'' @ code @ '' ('' @ control_names ! n @ '') must be escaped to '' @
         [bslash] @ ''u'' @ code @
         (if n = 8 then short (CHR ''b'') else if n = 9 then short (CHR ''t'') else if n = 10 then short (CHR ''n'')
          else if n = 12 then short (CHR ''f'') else if n = 13 then short (CHR ''r'') else []))"

text \<open>The bytes that may follow a lead byte, \<open>None\<close> for a byte that is no lead byte.\<close>

definition utf8_follow :: "nat \<Rightarrow> (nat \<times> nat) list option" where
  "utf8_follow n =
     (if 0xC2 \<le> n \<and> n \<le> 0xDF then Some [(0x80, 0xBF)]
      else if n = 0xE0 then Some [(0xA0, 0xBF), (0x80, 0xBF)]
      else if 0xE1 \<le> n \<and> n \<le> 0xEC \<or> n = 0xEE \<or> n = 0xEF then Some [(0x80, 0xBF), (0x80, 0xBF)]
      else if n = 0xED then Some [(0x80, 0x9F), (0x80, 0xBF)]
      else if n = 0xF0 then Some [(0x90, 0xBF), (0x80, 0xBF), (0x80, 0xBF)]
      else if 0xF1 \<le> n \<and> n \<le> 0xF3 then Some [(0x80, 0xBF), (0x80, 0xBF), (0x80, 0xBF)]
      else if n = 0xF4 then Some [(0x80, 0x8F), (0x80, 0xBF), (0x80, 0xBF)]
      else None)"

definition string_step :: "lexer \<Rightarrow> (token_type \<times> lexer) + lexer" where
  "string_step l0 =
     (let l = lx_get l0 in
      case lx_current l of
        None \<Rightarrow> Inl (lx_error ''invalid string: missing closing quote'' l)
      | Some c \<Rightarrow>
          if c = dquote then Inl (Value_string, l)
          else if c = bslash then escape_step l
          else if code_of c \<le> 0x1F then Inl (lx_error (control_message (code_of c)) l)
          else if code_of c \<le> 0x7F then Inr (lx_add c l)
          else case utf8_follow (code_of c) of
                 Some ranges \<Rightarrow>
                   (case next_byte_in_range ranges c l of
                      (True, l1) \<Rightarrow> Inr l1
                    | (False, l1) \<Rightarrow> Inl (Parse_error, l1))
               | None \<Rightarrow> Inl (lx_error ''invalid string: ill-formed UTF-8 byte'' l))"

lemma lx_size_codepoint: "codepoint_loop fs cp l = (r, l') \<Longrightarrow> lx_size l' \<le> lx_size l"
  by (induction fs arbitrary: cp l)
    (auto simp: Let_def split: option.splits intro: order.trans [OF _ lx_size_get] dest: lx_size_get [THEN order.trans])

lemma lx_size_get_codepoint: "get_codepoint l = (r, l') \<Longrightarrow> lx_size l' \<le> lx_size l"
  unfolding get_codepoint_def by (rule lx_size_codepoint)

lemma lx_size_ranges: "byte_ranges rs l = (r, l') \<Longrightarrow> lx_size l' \<le> lx_size l"
  by (induction rs l rule: byte_ranges.induct)
    (auto simp: Let_def split: option.splits if_splits intro: order.trans [OF _ lx_size_get])

lemma lx_size_fold_add [simp]: "lx_size (fold lx_add cs l) = lx_size l"
  by (induction cs arbitrary: l) simp_all

lemma lx_size_escape: "escape_step l = Inr l' \<Longrightarrow> lx_size l' \<le> lx_size l"
proof -
  have low: "low_surrogate cp k = Inr (n, k') \<Longrightarrow> lx_size k' \<le> lx_size k" for cp k n k'
    using lx_size_get [of k] lx_size_get [of "lx_get k"]
    by (auto simp: low_surrogate_def Let_def lx_error_def
        split: if_splits prod.splits option.splits dest!: lx_size_get_codepoint)
  have uni: "unicode_escape k = Inr k' \<Longrightarrow> lx_size k' \<le> lx_size k" for k k'
    by (fastforce simp: unicode_escape_def lx_error_def
        split: if_splits prod.splits option.splits sum.splits dest!: lx_size_get_codepoint low)
  assume "escape_step l = Inr l'"
  then show ?thesis
    using lx_size_get [of l] by (auto simp: escape_step_def Let_def lx_error_def split: option.splits if_splits dest!: uni)
qed

lemma lx_size_string_step: "string_step l = Inr l' \<Longrightarrow> lx_size l' < lx_size l"
proof -
  have range: "byte_ranges rs (lx_add c (lx_get l)) = (b, l') \<Longrightarrow> lx_size l' \<le> lx_size (lx_get l)" for rs c b l'
    by (drule lx_size_ranges) simp
  assume "string_step l = Inr l'"
  then show ?thesis
    using lx_size_get_Some [of l]
    by (fastforce simp: string_step_def next_byte_in_range_def Let_def lx_error_def
        split: option.splits if_splits prod.splits bool.splits dest!: range dest: lx_size_escape)
qed

function scan_string_loop :: "lexer \<Rightarrow> token_type \<times> lexer" where
  "scan_string_loop l = (case string_step l of Inl r \<Rightarrow> r | Inr l1 \<Rightarrow> scan_string_loop l1)"
  by pat_completeness auto
termination by (relation "measure lx_size") (simp_all add: lx_size_string_step)

declare scan_string_loop.simps [simp del]

definition scan_string :: "lexer \<Rightarrow> token_type \<times> lexer" where
  "scan_string l = scan_string_loop (lx_reset l)"

section \<open>Comments\<close>

function line_comment :: "lexer \<Rightarrow> bool \<times> lexer" where
  "line_comment l =
     (let l1 = lx_get l in
      case lx_current l1 of
        None \<Rightarrow> (True, l1)
      | Some c \<Rightarrow> if c = newline \<or> code_of c = 13 \<or> c = nul then (True, l1) else line_comment l1)"
  by pat_completeness auto
termination by (relation "measure lx_size") (simp_all add: lx_size_get_Some)

function block_comment :: "lexer \<Rightarrow> bool \<times> lexer" where
  "block_comment l =
     (let l1 = lx_get l;
          missing = (False, l1\<lparr>error_message := ''invalid comment; missing closing '' @ [squote] @ ''*/'' @ [squote]\<rparr>)
      in case lx_current l1 of
           None \<Rightarrow> missing
         | Some c \<Rightarrow>
             if c = nul then missing
             else if c = CHR ''*'' then
               (let l2 = lx_get l1
                in if lx_current l2 = Some (CHR ''/'') then (True, l2) else block_comment (lx_unget l2))
             else block_comment l1)"
  by pat_completeness auto
termination
  by (relation "measure lx_size") (auto simp: lx_size_get_Some intro: order.strict_trans1 [OF lx_size_unget])

declare line_comment.simps [simp del] block_comment.simps [simp del]

definition scan_comment :: "lexer \<Rightarrow> bool \<times> lexer" where
  "scan_comment l =
     (let l1 = lx_get l in
      if lx_current l1 = Some (CHR ''/'') then line_comment l1
      else if lx_current l1 = Some (CHR ''*'') then block_comment l1
      else (False, l1\<lparr>error_message := ''invalid comment; expecting '' @ [squote] @ ''/'' @ [squote] @ '' or '' @
              [squote] @ ''*'' @ [squote] @ '' after '' @ [squote] @ ''/'' @ [squote]\<rparr>))"

section \<open>Numbers\<close>

text \<open>The labels of the state machine. A label reads a byte and adds it, stops before it, or fails.\<close>

datatype num_state = Minus | Zero | Any1 | Decimal1 | Decimal2 | Exponent | Sign | Any2

datatype num_next = Goto num_state | Done | Failed string

definition digit19 :: "char \<Rightarrow> bool" where
  "digit19 c \<longleftrightarrow> 49 \<le> code_of c \<and> code_of c \<le> 57"

definition is_exp :: "char \<Rightarrow> bool" where
  "is_exp c \<longleftrightarrow> c = CHR ''e'' \<or> c = CHR ''E''"

definition scan_number_minus :: "char \<Rightarrow> num_next" where
  "scan_number_minus c =
     (if c = CHR ''0'' then Goto Zero else if digit19 c then Goto Any1
      else Failed (''invalid number; expected digit after '' @ [squote] @ ''-'' @ [squote]))"

definition scan_number_zero :: "char \<Rightarrow> num_next" where
  "scan_number_zero c = (if c = CHR ''.'' then Goto Decimal1 else if is_exp c then Goto Exponent else Done)"

definition scan_number_any1 :: "char \<Rightarrow> num_next" where
  "scan_number_any1 c =
     (if is_digit c then Goto Any1 else if c = CHR ''.'' then Goto Decimal1
      else if is_exp c then Goto Exponent else Done)"

definition scan_number_decimal1 :: "char \<Rightarrow> num_next" where
  "scan_number_decimal1 c =
     (if is_digit c then Goto Decimal2
      else Failed (''invalid number; expected digit after '' @ [squote] @ ''.'' @ [squote]))"

definition scan_number_decimal2 :: "char \<Rightarrow> num_next" where
  "scan_number_decimal2 c = (if is_digit c then Goto Decimal2 else if is_exp c then Goto Exponent else Done)"

definition scan_number_exponent :: "char \<Rightarrow> num_next" where
  "scan_number_exponent c =
     (if c = CHR ''+'' \<or> c = CHR ''-'' then Goto Sign else if is_digit c then Goto Any2
      else Failed (''invalid number; expected '' @ [squote] @ ''+'' @ [squote] @ '', '' @ [squote] @ ''-'' @ [squote] @
             '', or digit after exponent''))"

definition scan_number_sign :: "char \<Rightarrow> num_next" where
  "scan_number_sign c =
     (if is_digit c then Goto Any2 else Failed ''invalid number; expected digit after exponent sign'')"

definition scan_number_any2 :: "char \<Rightarrow> num_next" where
  "scan_number_any2 c = (if is_digit c then Goto Any2 else Done)"

fun number_label :: "num_state \<Rightarrow> char \<Rightarrow> num_next" where
  "number_label Minus = scan_number_minus"
| "number_label Zero = scan_number_zero"
| "number_label Any1 = scan_number_any1"
| "number_label Decimal1 = scan_number_decimal1"
| "number_label Decimal2 = scan_number_decimal2"
| "number_label Exponent = scan_number_exponent"
| "number_label Sign = scan_number_sign"
| "number_label Any2 = scan_number_any2"

text \<open>Label \<open>minus\<close> makes the number signed, \<open>decimal1\<close> and \<open>exponent\<close> make it a float.\<close>

definition label_type :: "num_state \<Rightarrow> token_type \<Rightarrow> token_type" where
  "label_type st ty =
     (if st = Minus then Value_integer else if st = Decimal1 \<or> st = Exponent then Value_float else ty)"

definition strtoull :: "string \<Rightarrow> nat option" where
  "strtoull s = (let n = digits_val s in if n < 2 ^ 64 then Some n else None)"

definition strtoll :: "string \<Rightarrow> int option" where
  "strtoll s =
     (let n = int (digits_val (tl s)) in if n \<le> 2 ^ 63 then Some (- n) else None)"

text \<open>
  \<open>scan_number_done\<close>: \<open>strtoull\<close> reads a run of digits, \<open>strtoll\<close> one after a minus sign; both report a
  range error (\<open>None\<close>), and then the text is read as a float.
\<close>

definition scan_number_done :: "(string \<Rightarrow> double) \<Rightarrow> token_type \<Rightarrow> lexer \<Rightarrow> token_type \<times> lexer" where
  "scan_number_done strtod ty l0 =
     (let l = lx_unget l0;
          fl = (Value_float, l\<lparr>value_float := strtod (token_buffer l)\<rparr>)
      in if ty = Value_unsigned then
           (case strtoull (token_buffer l) of Some x \<Rightarrow> (Value_unsigned, l\<lparr>value_unsigned := x\<rparr>) | None \<Rightarrow> fl)
         else if ty = Value_integer then
           (case strtoll (token_buffer l) of Some x \<Rightarrow> (Value_integer, l\<lparr>value_integer := x\<rparr>) | None \<Rightarrow> fl)
         else fl)"

lemma number_label_nul: "number_label st nul \<noteq> Goto st'"
  by (cases st) (simp_all add: scan_number_minus_def scan_number_zero_def scan_number_any1_def scan_number_decimal1_def
      scan_number_decimal2_def scan_number_exponent_def scan_number_sign_def scan_number_any2_def is_digit_def
      digit19_def is_exp_def code_of_def)

text \<open>The end of the input takes the \<open>default\<close> case of every label, as the byte 0 does.\<close>

function scan_number_from ::
  "(string \<Rightarrow> double) \<Rightarrow> num_state \<Rightarrow> token_type \<Rightarrow> lexer \<Rightarrow> token_type \<times> lexer" where
  "scan_number_from strtod st ty l =
     (let l1 = lx_get l;
          c = (case lx_current l1 of None \<Rightarrow> nul | Some c \<Rightarrow> c)
      in case number_label st c of
           Goto st' \<Rightarrow> scan_number_from strtod st' (label_type st ty) (lx_add c l1)
         | Done \<Rightarrow> scan_number_done strtod (label_type st ty) l1
         | Failed msg \<Rightarrow> lx_error msg l1)"
  by pat_completeness auto

termination
  by (relation "measure (\<lambda>(_, _, _, l). lx_size l)")
    (auto simp: number_label_nul split: option.splits intro: lx_size_get_Some)

declare scan_number_from.simps [simp del]

definition scan_number :: "(string \<Rightarrow> double) \<Rightarrow> char \<Rightarrow> lexer \<Rightarrow> token_type \<times> lexer" where
  "scan_number strtod current l =
     (let l1 = lx_add current (lx_reset l) in
      scan_number_from strtod
        (if current = CHR ''-'' then Minus else if current = CHR ''0'' then Zero else Any1) Value_unsigned l1)"

section \<open>Tokens\<close>

text \<open>The rest of a literal, whose first byte was read.\<close>

fun scan_literal :: "string \<Rightarrow> token_type \<Rightarrow> lexer \<Rightarrow> token_type \<times> lexer" where
  "scan_literal [] ty l = (ty, l)"
| "scan_literal (c # cs) ty l =
     (let l1 = lx_get l in
      if lx_current l1 = Some c then scan_literal cs ty l1 else lx_error ''invalid literal'' l1)"

definition skip_bom :: "lexer \<Rightarrow> bool \<times> lexer" where
  "skip_bom l =
     (let l1 = lx_get l; l2 = lx_get l1; l3 = lx_get l2 in
      if lx_current l1 = Some (char_of (0xEF::nat)) then
        if lx_current l2 = Some (char_of (0xBB::nat)) then (lx_current l3 = Some (char_of (0xBF::nat)), l3)
        else (False, l2)
      else (True, lx_unget l1))"

definition is_ws :: "char \<Rightarrow> bool" where
  "is_ws c \<longleftrightarrow> code_of c = 32 \<or> code_of c = 9 \<or> code_of c = 10 \<or> code_of c = 13"

function skip_whitespace :: "lexer \<Rightarrow> lexer" where
  "skip_whitespace l =
     (let l1 = lx_get l in
      case lx_current l1 of None \<Rightarrow> l1 | Some c \<Rightarrow> if is_ws c then skip_whitespace l1 else l1)"
  by pat_completeness auto
termination by (relation "measure lx_size") (simp_all add: lx_size_get_Some)

declare skip_whitespace.simps [simp del]

lemma lx_size_skip_whitespace: "lx_size (skip_whitespace l) \<le> lx_size l"
proof (induction l rule: skip_whitespace.induct)
  case (1 l)
  show ?case
    using 1 lx_size_get [of l]
    by (subst skip_whitespace.simps) (force simp: Let_def split: option.splits)
qed

lemma lx_size_line_comment: "lx_size (snd (line_comment l)) \<le> lx_size l"
proof (induction l rule: line_comment.induct)
  case (1 l)
  show ?case
    using 1 lx_size_get [of l]
    by (subst line_comment.simps) (force simp: Let_def split: option.splits)
qed

lemma lx_size_block_comment: "lx_size (snd (block_comment l)) \<le> lx_size l"
proof (induction l rule: block_comment.induct)
  case (1 l)
  show ?case
    using 1 lx_size_get [of l] lx_size_get [of "lx_get l"] lx_size_unget [of "lx_get l"]
    by (subst block_comment.simps) (force simp: Let_def split: option.splits)
qed

lemma lx_size_scan_comment: "scan_comment l = (True, l') \<Longrightarrow> lx_size l' < lx_size l"
  using lx_size_get_Some [of l] lx_size_line_comment [of "lx_get l"] lx_size_block_comment [of "lx_get l"]
  by (force simp: scan_comment_def Let_def split: if_splits)

function skip_comments :: "lexer \<Rightarrow> bool \<times> lexer" where
  "skip_comments l =
     (if ignore_comments l \<and> lx_current l = Some (CHR ''/'') then
        (case scan_comment l of
           (False, l1) \<Rightarrow> (False, l1)
         | (True, l1) \<Rightarrow> skip_comments (skip_whitespace l1))
      else (True, l))"
  by pat_completeness auto
termination
  by (relation "measure lx_size")
    (auto dest!: lx_size_scan_comment [OF sym] intro: le_less_trans [OF lx_size_skip_whitespace])

declare skip_comments.simps [simp del]

definition scan_token :: "(string \<Rightarrow> double) \<Rightarrow> lexer \<Rightarrow> token_type \<times> lexer" where
  "scan_token strtod l =
     (case lx_current l of
        None \<Rightarrow> (End_of_input, l)
      | Some c \<Rightarrow>
          if c = CHR ''['' then (Begin_array, l)
          else if c = CHR '']'' then (End_array, l)
          else if c = CHR ''{'' then (Begin_object, l)
          else if c = CHR ''}'' then (End_object, l)
          else if c = CHR '':'' then (Name_separator, l)
          else if c = CHR '','' then (Value_separator, l)
          else if c = CHR ''t'' then scan_literal ''rue'' Literal_true l
          else if c = CHR ''f'' then scan_literal ''alse'' Literal_false l
          else if c = CHR ''n'' then scan_literal ''ull'' Literal_null l
          else if c = dquote then scan_string l
          else if c = CHR ''-'' \<or> is_digit c then scan_number strtod c l
          else if c = nul then (End_of_input, l)
          else lx_error ''invalid literal'' l)"

definition scan :: "(string \<Rightarrow> double) \<Rightarrow> lexer \<Rightarrow> token_type \<times> lexer" where
  "scan strtod l =
     (case (if chars_read_total (lx_position l) = 0 then skip_bom l else (True, l)) of
        (False, l1) \<Rightarrow> lx_error ''invalid BOM; must be 0xEF 0xBB 0xBF if given'' l1
      | (True, l1) \<Rightarrow>
          (case skip_comments (skip_whitespace l1) of
             (False, l2) \<Rightarrow> (Parse_error, l2)
           | (True, l2) \<Rightarrow> scan_token strtod l2))"

section \<open>Progress\<close>

lemma lx_size_escape_Inl: "escape_step l = Inl (t, l') \<Longrightarrow> lx_size l' \<le> lx_size l"
proof -
  have low: "low_surrogate cp k = Inl (t, k') \<Longrightarrow> lx_size k' \<le> lx_size k" for cp k t k'
    using lx_size_get [of k] lx_size_get [of "lx_get k"]
    by (auto simp: low_surrogate_def Let_def lx_error_def
        split: if_splits prod.splits option.splits dest!: lx_size_get_codepoint)
  have uni: "unicode_escape k = Inl (t, k') \<Longrightarrow> lx_size k' \<le> lx_size k" for k t k'
    by (fastforce simp: unicode_escape_def lx_error_def
        split: if_splits prod.splits option.splits sum.splits dest!: lx_size_get_codepoint low)
  assume "escape_step l = Inl (t, l')"
  then show ?thesis
    using lx_size_get [of l] by (auto simp: escape_step_def Let_def lx_error_def split: option.splits if_splits dest!: uni)
qed

lemma lx_size_string_Inl: "string_step l = Inl (t, l') \<Longrightarrow> lx_size l' \<le> lx_size l"
proof -
  have range: "byte_ranges rs (lx_add c (lx_get l)) = (b, l') \<Longrightarrow> lx_size l' \<le> lx_size (lx_get l)" for rs c b l'
    by (drule lx_size_ranges) simp
  assume "string_step l = Inl (t, l')"
  then show ?thesis
    using lx_size_get [of l]
    by (fastforce simp: string_step_def next_byte_in_range_def Let_def lx_error_def
        split: option.splits if_splits prod.splits bool.splits dest!: range dest: lx_size_escape_Inl)
qed

lemma lx_size_string_loop: "lx_size (snd (scan_string_loop l)) \<le> lx_size l"
proof (induction l rule: scan_string_loop.induct)
  case (1 l)
  show ?case
  proof (cases "string_step l")
    case (Inl r)
    then show ?thesis
      by (subst scan_string_loop.simps) (cases r, simp add: lx_size_string_Inl)
  next
    case (Inr l1)
    with 1 [OF Inr] lx_size_string_step [OF Inr] show ?thesis
      by (subst scan_string_loop.simps) simp
  qed
qed

lemma lx_size_number_from: "lx_size (snd (scan_number_from strtod st ty l)) \<le> lx_size l"
proof (induction strtod st ty l rule: scan_number_from.induct)
  case (1 strtod st ty l)
  have "lx_size (snd (scan_number_done strtod ty' (lx_get l))) \<le> lx_size l" for ty'
    using lx_size_unget [of l]
    by (auto simp: scan_number_done_def Let_def lx_size_def split: option.splits)
  with 1 lx_size_get [of l] show ?case
    by (subst scan_number_from.simps) (force simp: Let_def split: num_next.splits)
qed

lemma lx_size_literal: "lx_size (snd (scan_literal cs ty l)) \<le> lx_size l"
  by (induction cs ty l rule: scan_literal.induct) (auto simp: Let_def intro: order.trans [OF _ lx_size_get] lx_size_get)

lemma if_size:
  "lx_size (snd a) \<le> n \<Longrightarrow> lx_size (snd b) \<le> n \<Longrightarrow> lx_size (snd (if c then a else b)) \<le> n"
  by simp

lemma lx_size_scan_string: "lx_size (snd (scan_string l)) \<le> lx_size l"
  using lx_size_string_loop [of "lx_reset l"] by (simp add: scan_string_def)

lemma lx_size_scan_number: "lx_size (snd (scan_number strtod c l)) \<le> lx_size l"
  unfolding scan_number_def Let_def by (rule order.trans [OF lx_size_number_from]) simp

lemma lx_size_scan_token: "lx_size (snd (scan_token strtod l)) \<le> lx_size l"
proof (cases "lx_current l")
  case (Some c)
  show ?thesis
    unfolding scan_token_def Some option.case
    by (intro if_size lx_size_literal lx_size_scan_string lx_size_scan_number) simp_all
qed (simp add: scan_token_def)

lemma lx_size_skip_comments: "lx_size (snd (skip_comments l)) \<le> lx_size l"
proof (induction l rule: skip_comments.induct)
  case (1 l)
  have c: "lx_size (snd (scan_comment l)) \<le> lx_size l"
    using lx_size_get [of l] lx_size_line_comment [of "lx_get l"] lx_size_block_comment [of "lx_get l"]
    by (auto simp: scan_comment_def Let_def)
  show ?case
  proof (cases "ignore_comments l \<and> lx_current l = Some (CHR ''/'')")
    case True
    obtain b l1 where s: "scan_comment l = (b, l1)" by force
    have eq: "skip_comments l = (if b then skip_comments (skip_whitespace l1) else (False, l1))"
      using True s by (subst skip_comments.simps) (simp split: bool.splits)
    show ?thesis
    proof (cases b)
      case b: True
      then show ?thesis
        using 1 [OF True s [symmetric]] c s eq lx_size_skip_whitespace [of l1] by (simp add: b)
    qed (use c s eq in simp)
  next
    case False
    then have "skip_comments l = (True, l)" by (simp only: skip_comments.simps [of l] if_False)
    then show ?thesis by simp
  qed
qed

text \<open>A token other than the end or an error takes at least one byte.\<close>

definition ends :: "token_type \<Rightarrow> bool" where
  "ends t \<longleftrightarrow> t = End_of_input \<or> t = Parse_error"

lemma lx_size_ws_Some: "lx_current (skip_whitespace l) = Some c \<Longrightarrow> lx_size (skip_whitespace l) < lx_size l"
proof (induction l rule: skip_whitespace.induct)
  case (1 l)
  have eq: "skip_whitespace l = (case lx_current (lx_get l) of None \<Rightarrow> lx_get l
      | Some d \<Rightarrow> if is_ws d then skip_whitespace (lx_get l) else lx_get l)"
    by (subst skip_whitespace.simps) (simp add: Let_def)
  show ?case
  proof (cases "lx_current (lx_get l)")
    case (Some d)
    have "lx_size (lx_get l) < lx_size l" using Some by (rule lx_size_get_Some)
    moreover have "is_ws d \<Longrightarrow> lx_size (skip_whitespace (lx_get l)) < lx_size (lx_get l)"
      using 1 Some eq by simp
    ultimately show ?thesis using Some eq by auto
  qed (use 1 eq in simp)
qed

lemma lx_size_skip_comments_Some:
  "skip_comments l = (True, l') \<Longrightarrow> lx_current l' = Some c \<Longrightarrow> l' = l \<or> lx_size l' < lx_size l"
proof (induction l arbitrary: l' rule: skip_comments.induct)
  case (1 l)
  show ?case
  proof (cases "ignore_comments l \<and> lx_current l = Some (CHR ''/'')")
    case True
    obtain b l1 where s: "scan_comment l = (b, l1)" by force
    have eq: "skip_comments l = (if b then skip_comments (skip_whitespace l1) else (False, l1))"
      using True s by (subst skip_comments.simps) (simp split: bool.splits)
    with "1.prems"(1) have b: b by (simp split: if_splits)
    then have "lx_size l1 < lx_size l" using s lx_size_scan_comment [of l l1] by simp
    moreover have "lx_size l' \<le> lx_size (skip_whitespace l1)"
      using lx_size_skip_comments [of "skip_whitespace l1"] "1.prems"(1) eq b by simp
    ultimately show ?thesis using lx_size_skip_whitespace [of l1] by linarith
  next
    case False
    then have "skip_comments l = (True, l)" by (simp only: skip_comments.simps [of l] if_False)
    then show ?thesis using "1.prems" by simp
  qed
qed

lemma lx_size_skip_bom: "lx_size (snd (skip_bom l)) \<le> lx_size l"
  using lx_size_get [of l] lx_size_get [of "lx_get l"] lx_size_get [of "lx_get (lx_get l)"] lx_size_unget [of l]
  by (auto simp: skip_bom_def Let_def)

lemma lx_size_scan: "scan strtod l = (t, l') \<Longrightarrow> lx_size l' \<le> lx_size l \<and> (\<not> ends t \<longrightarrow> lx_size l' < lx_size l)"
proof -
  assume a: "scan strtod l = (t, l')"
  obtain b l1 where b: "(if chars_read_total (lx_position l) = 0 then skip_bom l else (True, l)) = (b, l1)" by force
  have 1: "lx_size l1 \<le> lx_size l" using b lx_size_skip_bom [of l] by (auto split: if_splits)
  obtain d l2 where d: "skip_comments (skip_whitespace l1) = (d, l2)" by force
  have 2: "lx_size l2 \<le> lx_size l1"
    using d lx_size_skip_comments [of "skip_whitespace l1"] lx_size_skip_whitespace [of l1] by simp
  have eq: "scan strtod l = (if b then if d then scan_token strtod l2 else (Parse_error, l2)
      else lx_error ''invalid BOM; must be 0xEF 0xBB 0xBF if given'' l1)"
    unfolding scan_def b by (simp add: d split: bool.splits)
  show ?thesis
  proof (cases "b \<and> d")
    case True
    then have t: "scan_token strtod l2 = (t, l')" using eq a by simp
    have 3: "lx_size l' \<le> lx_size l2" using lx_size_scan_token [of strtod l2] t by simp
    have "lx_size l2 < lx_size l1" if "\<not> ends t"
    proof (cases "lx_current l2")
      case None
      then show ?thesis using t that by (simp add: scan_token_def ends_def)
    next
      case (Some c)
      then show ?thesis
        using True d lx_size_skip_comments_Some [of "skip_whitespace l1" l2 c] lx_size_skip_whitespace [of l1]
          lx_size_ws_Some [of l1 c] by fastforce
    qed
    with 1 2 3 show ?thesis by linarith
  next
    case False
    then show ?thesis using eq a 1 2 by (auto simp: lx_error_def ends_def split: if_splits)
  qed
qed

end
