(* ===== verification/JsonParser.thy ===== *)
theory JsonParser
  imports JsonLexer
begin

text \<open>
  The parser of \<open>utils/json.hpp\<close>: the SAX loop of class \<open>parser\<close>, the handler \<open>json_sax_dom_parser\<close> that
  builds the value, and the exceptions with their texts. A pointer into the value under construction is a
  \<open>ref\<close>, the path from the root to the element. \<open>json_parse\<close> is \<open>basic_json::parse\<close> on a string, without
  callback, with exceptions and without comments, the way the repository calls it: a thrown exception is
  \<open>Inl\<close> in its result, a failed assertion a fault.
\<close>

section \<open>Exceptions\<close>

record json_error =
  err_id :: nat
  err_byte :: nat
  err_what :: string

definition exception_name :: "string \<Rightarrow> nat \<Rightarrow> string" where
  "exception_name ename n = ''[json.exception.'' @ ename @ ''.'' @ nat_to_string n @ ''] ''"

definition position_string :: "position_t \<Rightarrow> string" where
  "position_string p = '' at line '' @ nat_to_string (lines_read p + 1) @ '', column '' @
     nat_to_string (chars_read_current_line p)"

definition parse_error_create :: "nat \<Rightarrow> position_t \<Rightarrow> string \<Rightarrow> json_error" where
  "parse_error_create n pos what_arg =
     \<lparr>err_id = n, err_byte = chars_read_total pos,
      err_what = exception_name ''parse_error'' n @ ''parse error'' @ position_string pos @ '': '' @ what_arg\<rparr>"

definition out_of_range_create :: "nat \<Rightarrow> string \<Rightarrow> json_error" where
  "out_of_range_create n what_arg =
     \<lparr>err_id = n, err_byte = 0, err_what = exception_name ''out_of_range'' n @ what_arg\<rparr>"

section \<open>Building the value\<close>

datatype ref_step = Index nat | Key string

type_synonym ref = "ref_step list"

fun json_at :: "ref \<Rightarrow> json \<Rightarrow> json option" where
  "json_at [] j = Some j"
| "json_at (Index n # p) (JArr xs) = (if n < length xs then json_at p (xs ! n) else None)"
| "json_at (Key k # p) (JObj kvs) = (case map_of kvs k of None \<Rightarrow> None | Some v \<Rightarrow> json_at p v)"
| "json_at _ _ = None"

fun json_update :: "ref \<Rightarrow> (json \<Rightarrow> json) \<Rightarrow> json \<Rightarrow> json" where
  "json_update [] f j = f j"
| "json_update (Index n # p) f (JArr xs) = JArr (xs[n := json_update p f (xs ! n)])"
| "json_update (Key k # p) f (JObj kvs) =
     JObj (map (\<lambda>(k', v). (k', if k' = k then json_update p f v else v)) kvs)"
| "json_update _ f j = j"

text \<open>\<open>ref_stack\<close> has its back first.\<close>

record json_dom =
  dom_root :: json
  ref_stack :: "ref list"
  object_element :: "ref option"

definition dom_new :: json_dom where
  "dom_new = \<lparr>dom_root = JNull, ref_stack = [], object_element = None\<rparr>"

fun append_element :: "json \<Rightarrow> json \<Rightarrow> json" where
  "append_element v (JArr xs) = JArr (xs @ [v])"
| "append_element v j = j"

text \<open>\<open>operator[]\<close> on an object: the element of the key, a null if there is none.\<close>

fun access_key :: "string \<Rightarrow> json \<Rightarrow> json" where
  "access_key k (JObj kvs) = JObj (if map_of kvs k = None then obj_insert k JNull kvs else kvs)"
| "access_key k j = j"

definition handle_value :: "json \<Rightarrow> json_dom \<Rightarrow> (ref \<times> json_dom) res" where
  "handle_value v d =
     (case ref_stack d of
        [] \<Rightarrow> Inr ([], d\<lparr>dom_root := v\<rparr>)
      | p # _ \<Rightarrow>
          (case json_at p (dom_root d) of
             Some (JArr xs) \<Rightarrow>
               Inr (p @ [Index (length xs)], d\<lparr>dom_root := json_update p (append_element v) (dom_root d)\<rparr>)
           | Some (JObj kvs) \<Rightarrow>
               (case object_element d of
                  None \<Rightarrow> Inl AssertFailed
                | Some q \<Rightarrow> Inr (q, d\<lparr>dom_root := json_update q (\<lambda>_. v) (dom_root d)\<rparr>))
           | _ \<Rightarrow> Inl AssertFailed))"

definition start_container :: "json \<Rightarrow> json_dom \<Rightarrow> json_dom res" where
  "start_container v d = rbind (handle_value v d) (\<lambda>(p, d'). Inr (d'\<lparr>ref_stack := p # ref_stack d'\<rparr>))"

definition start_object :: "json_dom \<Rightarrow> json_dom res" where
  "start_object d = start_container (JObj []) d"

definition start_array :: "json_dom \<Rightarrow> json_dom res" where
  "start_array d = start_container (JArr []) d"

definition dom_key :: "string \<Rightarrow> json_dom \<Rightarrow> json_dom res" where
  "dom_key k d =
     (case ref_stack d of
        [] \<Rightarrow> Inl AssertFailed
      | p # _ \<Rightarrow>
          (case json_at p (dom_root d) of
             Some (JObj kvs) \<Rightarrow>
               Inr (d\<lparr>dom_root := json_update p (access_key k) (dom_root d), object_element := Some (p @ [Key k])\<rparr>)
           | _ \<Rightarrow> Inl AssertFailed))"

definition end_object :: "json_dom \<Rightarrow> json_dom res" where
  "end_object d =
     (case ref_stack d of
        [] \<Rightarrow> Inl AssertFailed
      | p # ps \<Rightarrow>
          (case json_at p (dom_root d) of
             Some (JObj kvs) \<Rightarrow> Inr (d\<lparr>ref_stack := ps\<rparr>)
           | _ \<Rightarrow> Inl AssertFailed))"

definition end_array :: "json_dom \<Rightarrow> json_dom res" where
  "end_array d =
     (case ref_stack d of
        [] \<Rightarrow> Inl AssertFailed
      | p # ps \<Rightarrow>
          (case json_at p (dom_root d) of
             Some (JArr xs) \<Rightarrow> Inr (d\<lparr>ref_stack := ps\<rparr>)
           | _ \<Rightarrow> Inl AssertFailed))"

section \<open>The loop\<close>

text \<open>\<open>states\<close> has its back first; \<open>True\<close> is an array. \<open>skip\<close> is \<open>skip_to_state_evaluation\<close>.\<close>

record parser =
  last_token :: token_type
  m_lexer :: lexer
  p_dom :: json_dom
  states :: "bool list"
  skip :: bool

definition get_token :: "(string \<Rightarrow> double) \<Rightarrow> parser \<Rightarrow> parser" where
  "get_token strtod p = (let (t, l) = scan strtod (m_lexer p) in p\<lparr>last_token := t, m_lexer := l\<rparr>)"

definition parser_new :: "(string \<Rightarrow> double) \<Rightarrow> string \<Rightarrow> parser" where
  "parser_new strtod text =
     get_token strtod
       \<lparr>last_token = Uninitialized, m_lexer = lexer_new text False, p_dom = dom_new, states = [], skip = False\<rparr>"

definition exception_message :: "token_type \<Rightarrow> string \<Rightarrow> parser \<Rightarrow> string" where
  "exception_message expected context p =
     ''syntax error '' @ (if context = [] then [] else ''while parsing '' @ context @ '' '') @ ''- '' @
     (if last_token p = Parse_error
      then error_message (m_lexer p) @ ''; last read: '' @ [squote] @ get_token_string (m_lexer p) @ [squote]
      else ''unexpected '' @ token_type_name (last_token p)) @
     (if expected = Uninitialized then [] else ''; expected '' @ token_type_name expected)"

text \<open>
  How a part of the loop's body ends: it goes on to the state evaluation, starts the next iteration,
  returns, or throws.
\<close>

datatype flow = Break parser | Continue parser | Return parser | Throw json_error

definition syntax_error :: "token_type \<Rightarrow> string \<Rightarrow> parser \<Rightarrow> flow" where
  "syntax_error expected context p =
     Throw (parse_error_create 101 (lx_position (m_lexer p)) (exception_message expected context p))"

definition on_dom :: "(json_dom \<Rightarrow> json_dom res) \<Rightarrow> parser \<Rightarrow> (parser \<Rightarrow> flow res) \<Rightarrow> flow res" where
  "on_dom f p k = rbind (f (p_dom p)) (\<lambda>d. k (p\<lparr>p_dom := d\<rparr>))"

definition sax_value :: "json \<Rightarrow> parser \<Rightarrow> flow res" where
  "sax_value v p = on_dom (\<lambda>d. rbind (handle_value v d) (\<lambda>(_, d'). Inr d')) p (\<lambda>p'. Inr (Break p'))"

text \<open>A key was read: store it, require the separator, read the first token of the value.\<close>

definition parse_key :: "(string \<Rightarrow> double) \<Rightarrow> (parser \<Rightarrow> parser) \<Rightarrow> parser \<Rightarrow> flow res" where
  "parse_key strtod enter p =
     (if last_token p \<noteq> Value_string then Inr (syntax_error Value_string ''object key'' p)
      else on_dom (dom_key (token_buffer (m_lexer p))) p (\<lambda>p1.
        let p2 = get_token strtod p1 in
        if last_token p2 \<noteq> Name_separator then Inr (syntax_error Name_separator ''object separator'' p2)
        else Inr (Continue (get_token strtod (enter p2)))))"

definition value_step :: "(string \<Rightarrow> double) \<Rightarrow> parser \<Rightarrow> flow res" where
  "value_step strtod p =
     (case last_token p of
        Begin_object \<Rightarrow>
          on_dom start_object p (\<lambda>p1.
            let p2 = get_token strtod p1 in
            if last_token p2 = End_object then on_dom end_object p2 (\<lambda>p3. Inr (Break p3))
            else parse_key strtod (\<lambda>p. p\<lparr>states := False # states p\<rparr>) p2)
      | Begin_array \<Rightarrow>
          on_dom start_array p (\<lambda>p1.
            let p2 = get_token strtod p1 in
            if last_token p2 = End_array then on_dom end_array p2 (\<lambda>p3. Inr (Break p3))
            else Inr (Continue (p2\<lparr>states := True # states p2\<rparr>)))
      | Value_float \<Rightarrow>
          (let res = value_float (m_lexer p) in
           if \<not> isfinite res then
             Inr (Throw (out_of_range_create 406
               (''number overflow parsing '' @ [squote] @ get_token_string (m_lexer p) @ [squote])))
           else sax_value (JFloat res) p)
      | Literal_false \<Rightarrow> sax_value (JBool False) p
      | Literal_null \<Rightarrow> sax_value JNull p
      | Literal_true \<Rightarrow> sax_value (JBool True) p
      | Value_integer \<Rightarrow> sax_value (JInt (value_integer (m_lexer p))) p
      | Value_string \<Rightarrow> sax_value (JStr (token_buffer (m_lexer p))) p
      | Value_unsigned \<Rightarrow> sax_value (JInt (int (value_unsigned (m_lexer p)))) p
      | Parse_error \<Rightarrow> Inr (syntax_error Uninitialized ''value'' p)
      | End_of_input \<Rightarrow>
          if chars_read_total (lx_position (m_lexer p)) = 1 then
            Inr (Throw (parse_error_create 101 (lx_position (m_lexer p))
              ''attempting to parse an empty input; check that your input string or stream contains the expected JSON''))
          else Inr (syntax_error Literal_or_value ''value'' p)
      | _ \<Rightarrow> Inr (syntax_error Literal_or_value ''value'' p))"

definition state_step :: "(string \<Rightarrow> double) \<Rightarrow> parser \<Rightarrow> flow res" where
  "state_step strtod p =
     (case states p of
        [] \<Rightarrow> Inr (Return p)
      | True # rest \<Rightarrow>
          (let p1 = get_token strtod p in
           if last_token p1 = Value_separator then Inr (Continue (get_token strtod p1))
           else if last_token p1 = End_array then
             on_dom end_array p1 (\<lambda>p2. Inr (Continue (p2\<lparr>states := rest, skip := True\<rparr>)))
           else Inr (syntax_error End_array ''array'' p1))
      | False # rest \<Rightarrow>
          (let p1 = get_token strtod p in
           if last_token p1 = Value_separator then parse_key strtod (\<lambda>p. p) (get_token strtod p1)
           else if last_token p1 = End_object then
             on_dom end_object p1 (\<lambda>p2. Inr (Continue (p2\<lparr>states := rest, skip := True\<rparr>)))
           else Inr (syntax_error End_object ''object'' p1)))"

definition sax_step :: "(string \<Rightarrow> double) \<Rightarrow> parser \<Rightarrow> flow res" where
  "sax_step strtod p =
     (if skip p then state_step strtod (p\<lparr>skip := False\<rparr>)
      else rbind (value_step strtod p) (\<lambda>fl. case fl of Break p' \<Rightarrow> state_step strtod p' | _ \<Rightarrow> Inr fl))"

text \<open>The bytes left, and whether the token waiting to be looked at takes none.\<close>

definition left :: "parser \<Rightarrow> nat" where
  "left p = lx_size (m_lexer p)"

definition parse_measure :: "parser \<Rightarrow> nat" where
  "parse_measure p = 2 * left p + (if ends (last_token p) then 0 else 1)"

lemma left_simps [simp]:
  "left (p\<lparr>p_dom := d\<rparr>) = left p" "left (p\<lparr>states := ss\<rparr>) = left p" "left (p\<lparr>skip := b\<rparr>) = left p"
  by (simp_all add: left_def)

lemma left_get_token:
  "left (get_token strtod p) \<le> left p"
  "\<not> ends (last_token (get_token strtod p)) \<Longrightarrow> left (get_token strtod p) < left p"
  using lx_size_scan [of strtod "m_lexer p"] by (auto simp: get_token_def left_def split: prod.splits)

lemma on_dom_Inr: "on_dom f p k = Inr r \<longleftrightarrow> (\<exists>d. f (p_dom p) = Inr d \<and> k (p\<lparr>p_dom := d\<rparr>) = Inr r)"
  by (simp add: on_dom_def rbind_Inr_iff)

lemma left_parse_key:
  assumes "parse_key strtod enter p = Inr (Continue p')" "\<And>q. left (enter q) = left q"
  shows "left p' \<le> left p \<and> last_token p = Value_string"
proof -
  obtain d where d: "last_token p = Value_string" "p' = get_token strtod (enter (get_token strtod (p\<lparr>p_dom := d\<rparr>)))"
    using assms(1) by (auto simp: parse_key_def on_dom_Inr Let_def syntax_error_def split: if_splits)
  have "left p' \<le> left (enter (get_token strtod (p\<lparr>p_dom := d\<rparr>)))" unfolding d(2) by (rule left_get_token(1))
  also have "\<dots> \<le> left (p\<lparr>p_dom := d\<rparr>)" unfolding assms(2) by (rule left_get_token(1))
  finally show ?thesis using d(1) by simp
qed

lemma left_sax_value: "sax_value v p = Inr fl \<Longrightarrow> \<exists>p'. fl = Break p' \<and> left p' = left p"
  by (auto simp: sax_value_def on_dom_Inr)

lemma left_state_step: "state_step strtod p = Inr (Continue p') \<Longrightarrow> left p' < left p"
proof -
  assume a: "state_step strtod p = Inr (Continue p')"
  then obtain b rest where s: "states p = b # rest" by (auto simp: state_step_def split: list.splits)
  let ?p1 = "get_token strtod p"
  consider (sep) "last_token ?p1 = Value_separator" | (close) "last_token ?p1 = End_array \<or> last_token ?p1 = End_object"
    | (other) "last_token ?p1 \<noteq> Value_separator" "last_token ?p1 \<noteq> End_array" "last_token ?p1 \<noteq> End_object" by blast
  then show ?thesis
  proof cases
    case sep
    then have l: "left ?p1 < left p" by (intro left_get_token(2)) (simp add: ends_def)
    have k: "left p' \<le> left (get_token strtod ?p1)"
      if "parse_key strtod (\<lambda>p. p) (get_token strtod ?p1) = Inr (Continue p')"
      using left_parse_key [OF that] by simp
    show ?thesis
      using a l k left_get_token(1) [of strtod ?p1] sep by (cases b) (auto simp: state_step_def s Let_def)
  next
    case close
    then have l: "left ?p1 < left p" by (intro left_get_token(2)) (auto simp: ends_def)
    show ?thesis
      using a l close by (cases b) (auto simp: state_step_def s Let_def on_dom_Inr syntax_error_def split: if_splits)
  next
    case other
    then show ?thesis using a by (cases b) (simp_all add: state_step_def s Let_def syntax_error_def)
  qed
qed

lemma left_value_step:
  assumes "value_step strtod p = Inr fl"
  shows "(case fl of Continue p' \<Rightarrow> \<not> ends (last_token p) \<and> parse_measure p' < parse_measure p
    | Break p' \<Rightarrow> \<not> ends (last_token p) \<and> left p' \<le> left p | _ \<Rightarrow> True)"
proof (cases "last_token p")
  case Begin_object
  then obtain d where d: "p_dom p1 = d \<Longrightarrow> True" "(let p2 = get_token strtod (p\<lparr>p_dom := d\<rparr>) in
      if last_token p2 = End_object then on_dom end_object p2 (\<lambda>p3. Inr (Break p3))
      else parse_key strtod (\<lambda>p. p\<lparr>states := False # states p\<rparr>) p2) = Inr fl" for p1
    using assms by (auto simp: value_step_def on_dom_Inr)
  let ?p2 = "get_token strtod (p\<lparr>p_dom := d\<rparr>)"
  have l: "left ?p2 \<le> left p" using left_get_token(1) [of strtod "p\<lparr>p_dom := d\<rparr>"] by simp
  show ?thesis
  proof (cases "last_token ?p2 = End_object")
    case True
    then show ?thesis using d(2) l Begin_object by (auto simp: Let_def on_dom_Inr ends_def)
  next
    case False
    then have k: "parse_key strtod (\<lambda>p. p\<lparr>states := False # states p\<rparr>) ?p2 = Inr fl" using d(2) by (simp add: Let_def)
    show ?thesis
    proof (cases fl)
      case (Continue p')
      with left_parse_key [of strtod _ ?p2 p'] k have "left p' \<le> left ?p2" "last_token ?p2 = Value_string" by auto
      moreover from this(2) have "left ?p2 < left p" using left_get_token(2) [of strtod "p\<lparr>p_dom := d\<rparr>"] by (simp add: ends_def)
      ultimately show ?thesis using Begin_object Continue by (simp add: parse_measure_def ends_def)
    qed (use k in \<open>auto simp: parse_key_def on_dom_Inr Let_def syntax_error_def split: if_splits\<close>)
  qed
next
  case Begin_array
  then obtain d where d: "(let p2 = get_token strtod (p\<lparr>p_dom := d\<rparr>) in
      if last_token p2 = End_array then on_dom end_array p2 (\<lambda>p3. Inr (Break p3))
      else Inr (Continue (p2\<lparr>states := True # states p2\<rparr>))) = Inr fl"
    using assms by (auto simp: value_step_def on_dom_Inr)
  have "left (get_token strtod (p\<lparr>p_dom := d\<rparr>)) \<le> left p"
    "\<not> ends (last_token (get_token strtod (p\<lparr>p_dom := d\<rparr>))) \<Longrightarrow> left (get_token strtod (p\<lparr>p_dom := d\<rparr>)) < left p"
    using left_get_token [of strtod "p\<lparr>p_dom := d\<rparr>"] by simp_all
  then show ?thesis
    using d Begin_array by (auto simp: Let_def on_dom_Inr parse_measure_def ends_def split: if_splits)
next
  case Value_float
  then show ?thesis
    using assms by (auto simp: value_step_def ends_def Let_def split: if_splits dest!: left_sax_value)
qed (use assms in \<open>auto simp: value_step_def syntax_error_def ends_def split: if_splits dest!: left_sax_value\<close>)

lemma sax_step_progress:
  assumes "sax_step strtod p = Inr (Continue p')"
  shows "parse_measure p' < parse_measure p"
proof -
  have state: "parse_measure p' < 2 * left q" if "state_step strtod q = Inr (Continue p')" for q
    using left_state_step [OF that] by (auto simp: parse_measure_def)
  show ?thesis
  proof (cases "skip p")
    case True
    with assms state [of "p\<lparr>skip := False\<rparr>"] show ?thesis by (simp add: sax_step_def parse_measure_def)
  next
    case False
    with assms obtain fl where fl: "value_step strtod p = Inr fl"
      "(case fl of Break p' \<Rightarrow> state_step strtod p' | _ \<Rightarrow> Inr fl) = Inr (Continue p')"
      by (auto simp: sax_step_def rbind_Inr_iff)
    show ?thesis
      using left_value_step [OF fl(1)] fl(2) state by (cases fl) (fastforce simp: parse_measure_def)+
  qed
qed

function sax_parse_internal :: "(string \<Rightarrow> double) \<Rightarrow> parser \<Rightarrow> flow res" where
  "sax_parse_internal strtod p =
     (case sax_step strtod p of
        Inr (Continue p') \<Rightarrow> sax_parse_internal strtod p'
      | r \<Rightarrow> r)"
  by pat_completeness auto
termination by (relation "measure (\<lambda>(_, p). parse_measure p)") (simp_all add: sax_step_progress)

declare sax_parse_internal.simps [simp del]

text \<open>The loop ends only with a \<open>return\<close> or a \<open>throw\<close>, so the last case below is never reached.\<close>

definition parser_parse :: "(string \<Rightarrow> double) \<Rightarrow> bool \<Rightarrow> parser \<Rightarrow> (json_error + json) res" where
  "parser_parse strtod strict p =
     rbind (sax_parse_internal strtod p) (\<lambda>fl.
       case fl of
         Throw e \<Rightarrow> Inr (Inl e)
       | Return p1 \<Rightarrow>
           (let p2 = (if strict then get_token strtod p1 else p1) in
            if strict \<and> last_token p2 \<noteq> End_of_input
            then Inr (Inl (parse_error_create 101 (lx_position (m_lexer p2)) (exception_message End_of_input ''value'' p2)))
            else Inr (Inr (dom_root (p_dom p2))))
       | _ \<Rightarrow> Inl Undefined)"

definition json_parse :: "(string \<Rightarrow> double) \<Rightarrow> string \<Rightarrow> (json_error + json) res" where
  "json_parse strtod text = parser_parse strtod True (parser_new strtod text)"

text \<open>\<open>operator>>\<close> reads a value from the front of a stream; what follows it stays unread.\<close>

definition json_read :: "(string \<Rightarrow> double) \<Rightarrow> string \<Rightarrow> (json_error + json) res" where
  "json_read strtod text = parser_parse strtod False (parser_new strtod text)"

text \<open>The callers of \<open>parse\<close> see a value or the exception, which none of them looks into beyond its type.\<close>

definition json_parse_throw :: "(string \<Rightarrow> double) \<Rightarrow> string \<Rightarrow> json res" where
  "json_parse_throw strtod text =
     rbind (json_parse strtod text) (\<lambda>r. case r of Inl e \<Rightarrow> Inl JsonError | Inr j \<Rightarrow> Inr j)"

lemma json_parse_throw_Inr: "json_parse_throw strtod text = Inr j \<longleftrightarrow> json_parse strtod text = Inr (Inr j)"
  by (simp add: json_parse_throw_def rbind_def split: sum.split)

end
