(* ===== verification/JsonSerializer.thy ===== *)
theory JsonSerializer
  imports Json
begin

unbundle bit_operations_syntax

text \<open>
  The printer of the JSON library in \<open>utils/json.hpp\<close>: class \<open>serializer\<close>. Strings go through its decoder of
  UTF-8 and a buffer of 512 bytes, integers through a buffer of 64. A write past a buffer is undefined. A
  value is what the repository builds: no binary and no discarded values. The digits of
  a double are those of JsonFloat. The exception \<open>dump\<close> throws for invalid UTF-8 is \<open>JsonError\<close>; nobody reads its text.
\<close>

section \<open>UTF-8\<close>

definition UTF8_ACCEPT :: nat where "UTF8_ACCEPT = 0"
definition UTF8_REJECT :: nat where "UTF8_REJECT = 1"

definition utf8d :: "nat list" where
  "utf8d =
     [
      0, 0, 0, 0, 0, 0, 0, 0, 0, 0, 0, 0, 0, 0, 0, 0, 0, 0, 0, 0, 0, 0, 0, 0, 0, 0, 0, 0, 0, 0, 0, 0,
      0, 0, 0, 0, 0, 0, 0, 0, 0, 0, 0, 0, 0, 0, 0, 0, 0, 0, 0, 0, 0, 0, 0, 0, 0, 0, 0, 0, 0, 0, 0, 0,
      0, 0, 0, 0, 0, 0, 0, 0, 0, 0, 0, 0, 0, 0, 0, 0, 0, 0, 0, 0, 0, 0, 0, 0, 0, 0, 0, 0, 0, 0, 0, 0,
      0, 0, 0, 0, 0, 0, 0, 0, 0, 0, 0, 0, 0, 0, 0, 0, 0, 0, 0, 0, 0, 0, 0, 0, 0, 0, 0, 0, 0, 0, 0, 0,
      1, 1, 1, 1, 1, 1, 1, 1, 1, 1, 1, 1, 1, 1, 1, 1, 9, 9, 9, 9, 9, 9, 9, 9, 9, 9, 9, 9, 9, 9, 9, 9,
      7, 7, 7, 7, 7, 7, 7, 7, 7, 7, 7, 7, 7, 7, 7, 7, 7, 7, 7, 7, 7, 7, 7, 7, 7, 7, 7, 7, 7, 7, 7, 7,
      8, 8, 2, 2, 2, 2, 2, 2, 2, 2, 2, 2, 2, 2, 2, 2, 2, 2, 2, 2, 2, 2, 2, 2, 2, 2, 2, 2, 2, 2, 2, 2,
      10, 3, 3, 3, 3, 3, 3, 3, 3, 3, 3, 3, 3, 4, 3, 3,
      11, 6, 6, 6, 5, 8, 8, 8, 8, 8, 8, 8, 8, 8, 8, 8,
      0, 1, 2, 3, 5, 8, 7, 1, 1, 1, 4, 6, 1, 1, 1, 1,
      1, 1, 1, 1, 1, 1, 1, 1, 1, 1, 1, 1, 1, 1, 1, 1, 1, 0, 1, 1, 1, 1, 1, 0, 1, 0, 1, 1, 1, 1, 1, 1,
      1, 2, 1, 1, 1, 1, 1, 2, 1, 2, 1, 1, 1, 1, 1, 1, 1, 1, 1, 1, 1, 1, 1, 2, 1, 1, 1, 1, 1, 1, 1, 1,
      1, 2, 1, 1, 1, 1, 1, 1, 1, 2, 1, 1, 1, 1, 1, 1, 1, 1, 1, 1, 1, 1, 1, 3, 1, 3, 1, 1, 1, 1, 1, 1,
      1, 3, 1, 1, 1, 1, 1, 3, 1, 3, 1, 1, 1, 1, 1, 1, 1, 3, 1, 1, 1, 1, 1, 1, 1, 1, 1, 1, 1, 1, 1, 1]"

text \<open>The state and the code point after a byte.\<close>

definition decode :: "nat \<Rightarrow> 32 word \<Rightarrow> char \<Rightarrow> nat \<times> 32 word" where
  "decode state codep byte =
     (let b = code_of byte;
          type = utf8d ! b;
          codep' = (if state \<noteq> UTF8_ACCEPT then (word_of_nat b AND 0x3f) OR push_bit 6 codep
                    else drop_bit type 0xFF AND word_of_nat b)
      in (utf8d ! (256 + state * 16 + type), codep'))"

section \<open>Strings\<close>

datatype error_handler_t = Strict | Replace | Ignore

record escaper =
  es_out :: string
  es_buf :: string
  es_after :: nat
  es_undumped :: nat
  es_state :: nat
  es_codepoint :: "32 word"

text \<open>
  \<open>es_buf\<close> is the part of \<open>string_buffer\<close> up to the index \<open>bytes\<close>. \<open>snprintf\<close> also writes a zero byte,
  which the next write replaces: it needs \<open>room\<close> for one more.
\<close>

definition buf_put :: "nat \<Rightarrow> string \<Rightarrow> escaper \<Rightarrow> escaper res" where
  "buf_put room cs e =
     (if length (es_buf e) + length cs + room \<le> 512 then Inr (e\<lparr>es_buf := es_buf e @ cs\<rparr>) else Inl Undefined)"

definition buf_flush :: "escaper \<Rightarrow> escaper" where
  "buf_flush e = (if 512 - length (es_buf e) < 13 then e\<lparr>es_out := es_out e @ es_buf e, es_buf := []\<rparr> else e)"

definition hex4 :: "16 word \<Rightarrow> string" where
  "hex4 w = map (\<lambda>k. hex_char (unat (drop_bit k w AND 0xF))) [12, 8, 4, 0]"

definition u_escape :: "16 word \<Rightarrow> string" where
  "u_escape w = [bslash, CHR ''u''] @ hex4 w"

text \<open>What a complete code point adds; \<open>c\<close> is its last byte.\<close>

definition put_codepoint :: "bool \<Rightarrow> char \<Rightarrow> escaper \<Rightarrow> escaper res" where
  "put_codepoint ensure_ascii c e =
     (let cp = es_codepoint e in
      if cp = 0x08 then buf_put 0 [bslash, CHR ''b''] e
      else if cp = 0x09 then buf_put 0 [bslash, CHR ''t''] e
      else if cp = 0x0A then buf_put 0 [bslash, CHR ''n''] e
      else if cp = 0x0C then buf_put 0 [bslash, CHR ''f''] e
      else if cp = 0x0D then buf_put 0 [bslash, CHR ''r''] e
      else if cp = 0x22 then buf_put 0 [bslash, dquote] e
      else if cp = 0x5C then buf_put 0 [bslash, bslash] e
      else if cp \<le> 0x1F \<or> ensure_ascii \<and> 0x7F \<le> cp then
        if cp \<le> 0xFFFF then buf_put 1 (u_escape (ucast cp)) e
        else buf_put 1 (u_escape (ucast (0xD7C0 + drop_bit 10 cp)) @ u_escape (ucast (0xDC00 + (cp AND 0x3FF)))) e
      else buf_put 0 [c] e)"

definition replacement :: "bool \<Rightarrow> string" where
  "replacement ensure_ascii =
     (if ensure_ascii then [bslash] @ ''ufffd'' else map char_of [0xEF, 0xBF, 0xBD :: nat])"

text \<open>An invalid byte, when no exception is thrown.\<close>

definition skip_invalid :: "error_handler_t \<Rightarrow> bool \<Rightarrow> escaper \<Rightarrow> escaper res" where
  "skip_invalid eh ensure_ascii e =
     (let e1 = e\<lparr>es_buf := take (es_after e) (es_buf e)\<rparr> in
      rbind (if eh = Replace
             then rbind (buf_put 0 (replacement ensure_ascii) e1) (\<lambda>e2.
                    let e3 = buf_flush e2 in Inr (e3\<lparr>es_after := length (es_buf e3)\<rparr>))
             else Inr e1)
        (\<lambda>e4. Inr (e4\<lparr>es_undumped := 0, es_state := UTF8_ACCEPT\<rparr>)))"

lemma skip_invalid_undumped: "skip_invalid eh ensure_ascii e = Inr e' \<Longrightarrow> es_undumped e' = 0"
  by (auto simp: skip_invalid_def rbind_Inr_iff Let_def)

function escape_loop :: "error_handler_t \<Rightarrow> bool \<Rightarrow> string \<Rightarrow> escaper \<Rightarrow> escaper res" where
  "escape_loop eh ensure_ascii [] e = Inr e"
| "escape_loop eh ensure_ascii (c # cs) e =
     (let (st, cp) = decode (es_state e) (es_codepoint e) c;
          e1 = e\<lparr>es_state := st, es_codepoint := cp\<rparr>
      in if st = UTF8_ACCEPT then
           (case put_codepoint ensure_ascii c e1 of
              Inl f \<Rightarrow> Inl f
            | Inr e2 \<Rightarrow>
                let e3 = buf_flush e2
                in escape_loop eh ensure_ascii cs (e3\<lparr>es_after := length (es_buf e3), es_undumped := 0\<rparr>))
         else if st = UTF8_REJECT then
           (if eh = Strict then Inl JsonError
            else case skip_invalid eh ensure_ascii e1 of
                   Inl f \<Rightarrow> Inl f
                 | Inr e2 \<Rightarrow> escape_loop eh ensure_ascii (if 0 < es_undumped e1 then c # cs else cs) e2)
         else
           (case (if ensure_ascii then Inr e1 else buf_put 0 [c] e1) of
              Inl f \<Rightarrow> Inl f
            | Inr e2 \<Rightarrow> escape_loop eh ensure_ascii cs (e2\<lparr>es_undumped := es_undumped e2 + 1\<rparr>)))"
  by pat_completeness auto

termination
  by (relation "measure (\<lambda>(_, _, cs, e). 2 * length cs + (if 0 < es_undumped e then 1 else 0))")
    (auto dest: skip_invalid_undumped)

declare escape_loop.simps [simp del]

definition escaper_new :: "string \<Rightarrow> escaper" where
  "escaper_new out = \<lparr>es_out = out, es_buf = [], es_after = 0, es_undumped = 0, es_state = UTF8_ACCEPT, es_codepoint = 0\<rparr>"

text \<open>The output afterwards.\<close>

definition dump_escaped :: "error_handler_t \<Rightarrow> bool \<Rightarrow> string \<Rightarrow> string \<Rightarrow> string res" where
  "dump_escaped eh ensure_ascii s out =
     rbind (escape_loop eh ensure_ascii s (escaper_new out)) (\<lambda>e.
       if es_state e = UTF8_ACCEPT then Inr (es_out e @ es_buf e)
       else case eh of
              Strict \<Rightarrow> Inl JsonError
            | Ignore \<Rightarrow> Inr (es_out e @ take (es_after e) (es_buf e))
            | Replace \<Rightarrow> Inr (es_out e @ take (es_after e) (es_buf e) @ replacement ensure_ascii))"

section \<open>Integers\<close>

function count_digits :: "nat \<Rightarrow> nat" where
  "count_digits x =
     (if x < 10 then 1 else if x < 100 then 2 else if x < 1000 then 3 else if x < 10000 then 4
      else count_digits (x div 10000) + 4)"
  by pat_completeness auto
termination by (relation "measure id") auto

declare count_digits.simps [simp del]

definition digits_to_99 :: "(char \<times> char) list" where
  "digits_to_99 = concat (map (\<lambda>a. map (\<lambda>b. (a, b)) ''0123456789'') ''0123456789'')"

text \<open>\<open>buffer_ptr\<close> is an index into \<open>number_buffer\<close>; below its start a write is undefined.\<close>

definition buffer_put :: "char \<Rightarrow> string \<times> nat \<Rightarrow> (string \<times> nat) res" where
  "buffer_put c bp =
     (if 0 < snd bp \<and> snd bp \<le> length (fst bp) then Inr ((fst bp)[snd bp - 1 := c], snd bp - 1) else Inl Undefined)"

definition put_pair :: "nat \<Rightarrow> string \<times> nat \<Rightarrow> (string \<times> nat) res" where
  "put_pair i bp = rbind (buffer_put (snd (digits_to_99 ! i)) bp) (buffer_put (fst (digits_to_99 ! i)))"

function write_digits :: "nat \<Rightarrow> string \<times> nat \<Rightarrow> (string \<times> nat) res" where
  "write_digits abs_value bp =
     (if 100 \<le> abs_value then
        (case put_pair (abs_value mod 100) bp of
           Inl f \<Rightarrow> Inl f
         | Inr bp' \<Rightarrow> write_digits (abs_value div 100) bp')
      else if 10 \<le> abs_value then put_pair abs_value bp
      else buffer_put (char_of (48 + abs_value)) bp)"
  by pat_completeness auto
termination by (relation "measure fst") auto

declare write_digits.simps [simp del]

definition remove_sign :: "int \<Rightarrow> nat" where
  "remove_sign x = nat (- (x + 1)) + 1"

section \<open>Output\<close>

text \<open>
  What a serializer keeps while it prints: the output, \<open>indent_string\<close>, and the 64 bytes of \<open>number_buffer\<close>,
  whose digits stay there from one number to the next.
\<close>

record dump_state =
  ds_out :: string
  ds_indent :: string
  ds_numbers :: string

definition write_text :: "string \<Rightarrow> dump_state \<Rightarrow> dump_state" where
  "write_text t st = st\<lparr>ds_out := ds_out st @ t\<rparr>"

definition dump_integer :: "int \<Rightarrow> dump_state \<Rightarrow> dump_state res" where
  "dump_integer x st =
     (if x = 0 then Inr (write_text ''0'' st)
      else
        let abs_value = (if x < 0 then remove_sign x else nat x);
            n_chars = (if x < 0 then 1 + count_digits abs_value else count_digits abs_value);
            buf = (if x < 0 then (ds_numbers st)[0 := CHR ''-''] else ds_numbers st)
        in require (n_chars < 63) AssertFailed
             (rbind (write_digits abs_value (buf, n_chars)) (\<lambda>(buf', _).
                Inr (write_text (take n_chars buf') (st\<lparr>ds_numbers := buf'\<rparr>)))))"

text \<open>
  \<open>dump_float\<close>. A \<open>double\<close> is an IEEE double, so the overload for such numbers is the one called.
\<close>

definition dump_float :: "double \<Rightarrow> dump_state \<Rightarrow> dump_state res" where
  "dump_float x st =
     (if \<not> isfinite x then Inr (write_text ''null'' st)
      else rbind (to_chars (ds_numbers st) x) (\<lambda>(buf, n). Inr (write_text (take n buf) (st\<lparr>ds_numbers := buf\<rparr>))))"

section \<open>Values\<close>

record dumper =
  d_pretty :: bool
  d_ascii :: bool
  d_step :: nat
  d_handler :: error_handler_t

text \<open>
  \<open>write_characters(indent_string.c_str(), n)\<close>, and the indentation of a container's elements: the string
  is doubled once when it is too short. Reading past its terminating zero is undefined. The indentation is
  a number here; the code's wraps at 32 bits.
\<close>

definition write_indent :: "nat \<Rightarrow> dump_state \<Rightarrow> dump_state res" where
  "write_indent n st =
     (if n \<le> length (ds_indent st) + 1 then Inr (write_text (take n (ds_indent st @ [nul])) st) else Inl Undefined)"

definition grow_indent :: "nat \<Rightarrow> dump_state \<Rightarrow> dump_state" where
  "grow_indent n st =
     (if length (ds_indent st) < n
      then st\<lparr>ds_indent := ds_indent st @ replicate (length (ds_indent st)) (CHR '' '')\<rparr> else st)"

definition write_escaped :: "dumper \<Rightarrow> string \<Rightarrow> dump_state \<Rightarrow> dump_state res" where
  "write_escaped d s st = rbind (dump_escaped (d_handler d) (d_ascii d) s (ds_out st)) (\<lambda>out. Inr (st\<lparr>ds_out := out\<rparr>))"

text \<open>The key of a member with its colon, and the space of a pretty print.\<close>

definition dump_key :: "dumper \<Rightarrow> string \<Rightarrow> dump_state \<Rightarrow> dump_state res" where
  "dump_key d k st =
     rbind (write_escaped d k (write_text [dquote] st)) (\<lambda>o1.
       Inr (write_text ([dquote] @ '':'' @ (if d_pretty d then '' '' else [])) o1))"

definition open_container :: "dumper \<Rightarrow> char \<Rightarrow> nat \<Rightarrow> dump_state \<Rightarrow> dump_state" where
  "open_container d c new_indent st =
     (if d_pretty d then grow_indent new_indent (write_text [c, newline] st) else write_text [c] st)"

definition close_container :: "dumper \<Rightarrow> char \<Rightarrow> nat \<Rightarrow> dump_state \<Rightarrow> dump_state res" where
  "close_container d c cur st =
     (if d_pretty d
      then rbind (write_indent cur (write_text [newline] st)) (\<lambda>o1. Inr (write_text [c] o1))
      else Inr (write_text [c] st))"

definition before_element :: "dumper \<Rightarrow> nat \<Rightarrow> dump_state \<Rightarrow> dump_state res" where
  "before_element d new_indent st = (if d_pretty d then write_indent new_indent st else Inr st)"

definition between_elements :: "dumper \<Rightarrow> dump_state \<Rightarrow> dump_state" where
  "between_elements d st = write_text (if d_pretty d then [CHR '','', newline] else '','') st"

text \<open>\<open>cur\<close> is \<open>current_indent\<close>.\<close>

function serialize :: "dumper \<Rightarrow> json \<Rightarrow> nat \<Rightarrow> dump_state \<Rightarrow> dump_state res"
  and dump_elements :: "dumper \<Rightarrow> json list \<Rightarrow> nat \<Rightarrow> dump_state \<Rightarrow> dump_state res"
  and dump_members :: "dumper \<Rightarrow> (string \<times> json) list \<Rightarrow> nat \<Rightarrow> dump_state \<Rightarrow> dump_state res" where
  "serialize d (JObj kvs) cur st =
     (if kvs = [] then Inr (write_text ''{}'' st)
      else rbind (dump_members d kvs (cur + d_step d) (open_container d (CHR ''{'') (cur + d_step d) st))
             (close_container d (CHR ''}'') cur))"
| "serialize d (JArr xs) cur st =
     (if xs = [] then Inr (write_text ''[]'' st)
      else rbind (dump_elements d xs (cur + d_step d) (open_container d (CHR ''['') (cur + d_step d) st))
             (close_container d (CHR '']'') cur))"
| "serialize d (JStr s) cur st =
     rbind (write_escaped d s (write_text [dquote] st)) (\<lambda>o1.
       Inr (write_text [dquote] o1))"
| "serialize d (JBool b) cur st = Inr (write_text (if b then ''true'' else ''false'') st)"
| "serialize d (JInt i) cur st = dump_integer i st"
| "serialize d (JFloat x) cur st = dump_float x st"
| "serialize d JNull cur st = Inr (write_text ''null'' st)"
| "dump_elements d [] new_indent st = Inr st"
| "dump_elements d (x # xs) new_indent st =
     rbind (before_element d new_indent st) (\<lambda>o1.
     rbind (serialize d x new_indent o1) (\<lambda>o2.
       if xs = [] then Inr o2 else dump_elements d xs new_indent (between_elements d o2)))"
| "dump_members d [] new_indent st = Inr st"
| "dump_members d ((k, v) # kvs) new_indent st =
     rbind (before_element d new_indent st) (\<lambda>o1.
     rbind (dump_key d k o1) (\<lambda>o2.
     rbind (serialize d v new_indent o2) (\<lambda>o3.
       if kvs = [] then Inr o3 else dump_members d kvs new_indent (between_elements d o3))))"
  by pat_completeness auto
termination
  by (relation "measure (\<lambda>x. case x of Inl (_, j, _) \<Rightarrow> size j
      | Inr (Inl (_, xs, _)) \<Rightarrow> size_list size xs
      | Inr (Inr (_, kvs, _)) \<Rightarrow> size_list (size_prod (\<lambda>_. 0) size) kvs)") auto

text \<open>\<open>basic_json::dump\<close>, and its call without arguments, the way the repository prints.\<close>

definition dump_with :: "int \<Rightarrow> char \<Rightarrow> bool \<Rightarrow> error_handler_t \<Rightarrow> json \<Rightarrow> string res" where
  "dump_with indent indent_char ensure_ascii eh j =
     rbind (serialize \<lparr>d_pretty = 0 \<le> indent, d_ascii = ensure_ascii, d_step = (if 0 \<le> indent then nat indent else 0),
                       d_handler = eh\<rparr> j 0
              \<lparr>ds_out = [], ds_indent = replicate 512 indent_char, ds_numbers = replicate 64 nul\<rparr>)
       (\<lambda>st. Inr (ds_out st))"

definition json_dump :: "json \<Rightarrow> string res" where
  "json_dump j = dump_with (- 1) (CHR '' '') False Strict j"

end
