(* ===== verification/JsonUtf8.thy ===== *)
theory JsonUtf8
  imports JsonParser JsonSerializer
begin

text \<open>
  UTF-8 in the JSON library: the lexer checks a string by the ranges of the bytes that follow a lead byte, the
  serializer by the table of its decoder. The lemmas show that the states of the decoder are the lists of
  ranges still due, so that the two accept the same strings.
\<close>

section \<open>UTF-8\<close>

text \<open>Well-formed UTF-8 as RFC 3629 lists it: a lead byte and the ranges of the bytes that follow.\<close>

definition in_range :: "nat \<times> nat \<Rightarrow> char \<Rightarrow> bool" where
  "in_range r c \<longleftrightarrow> fst r \<le> code_of c \<and> code_of c \<le> snd r"

fun follows :: "(nat \<times> nat) list \<Rightarrow> string \<Rightarrow> bool" where
  "follows [] cs = True"
| "follows (r # rs) [] = False"
| "follows (r # rs) (c # cs) = (in_range r c \<and> follows rs cs)"

definition lead_ranges :: "char \<Rightarrow> (nat \<times> nat) list option" where
  "lead_ranges c = (if code_of c \<le> 0x7F then Some [] else utf8_follow (code_of c))"

text \<open>The rest of a text after the ranges still due.\<close>

fun utf8_from :: "(nat \<times> nat) list \<Rightarrow> string \<Rightarrow> bool" where
  "utf8_from [] [] = True"
| "utf8_from (r # rs) [] = False"
| "utf8_from [] (c # cs) = (case lead_ranges c of None \<Rightarrow> False | Some rs \<Rightarrow> utf8_from rs cs)"
| "utf8_from (r # rs) (c # cs) = (in_range r c \<and> utf8_from rs cs)"

definition utf8 :: "string \<Rightarrow> bool" where
  "utf8 s = utf8_from [] s"

lemma utf8_from_split:
  "utf8_from rs s \<Longrightarrow> \<exists>bs t. s = bs @ t \<and> list_all2 in_range rs bs \<and> utf8_from [] t"
proof (induction rs arbitrary: s)
  case (Cons r rs)
  then obtain c s' where s: "s = c # s'" "in_range r c" "utf8_from rs s'" by (cases s) auto
  from Cons.IH [OF this(3)] obtain bs t where "s' = bs @ t" "list_all2 in_range rs bs" "utf8_from [] t" by blast
  with s have "s = (c # bs) @ t \<and> list_all2 in_range (r # rs) (c # bs) \<and> utf8_from [] t" by simp
  then show ?case by blast
qed simp

section \<open>The decoder's table\<close>

definition utf8_rows :: "nat list" where
  "utf8_rows = drop 256 utf8d"

lemma replicate_numeral: "replicate (numeral k) x = x # replicate (pred_numeral k) x"
  by (simp add: numeral_eq_Suc)

fun block_at :: "(nat \<times> 'a) list \<Rightarrow> nat \<Rightarrow> nat \<Rightarrow> 'a option" where
  "block_at [] start i = None"
| "block_at ((n, x) # bs) start i = (if i < start + n then Some x else block_at bs (start + n) i)"

lemma nth_blocks:
  "start \<le> i \<Longrightarrow> block_at bs start i = Some x \<Longrightarrow> (concat (map (\<lambda>(n, x). replicate n x) bs) @ ys) ! (i - start) = x"
proof (induction bs arbitrary: start)
  case (Cons b bs)
  obtain n y where b: "b = (n, y)" by force
  show ?case
  proof (cases "i < start + n")
    case True
    with Cons.prems b show ?thesis by (simp add: nth_append) (metis less_diff_conv2 nth_replicate add.commute)
  next
    case False
    then have "\<not> i - start < n" "i - start - n = i - (start + n)" using Cons.prems(1) by auto
    then have "(replicate n y @ zs) ! (i - start) = zs ! (i - (start + n))" for zs by (simp add: nth_append)
    with False Cons.prems b Cons.IH [of "start + n"] show ?thesis by simp
  qed
qed simp

definition utf8_blocks :: "(nat \<times> nat) list" where
  "utf8_blocks = [(128, 0), (16, 1), (16, 9), (32, 7), (2, 8), (30, 2), (1, 10), (12, 3), (1, 4), (2, 3), (1, 11),
     (3, 6), (1, 5), (11, 8)]"

lemma utf8d_blocks: "utf8d = concat (map (\<lambda>(n, x). replicate n x) utf8_blocks) @ utf8_rows"
  by (simp add: utf8d_def utf8_rows_def utf8_blocks_def replicate_numeral)

lemma utf8d_type:
  assumes "b < 256"
  shows "utf8d ! b = the (block_at utf8_blocks 0 b)"
proof -
  have "block_at utf8_blocks 0 b \<noteq> None" using assms by (simp add: utf8_blocks_def)
  then show ?thesis using nth_blocks [of 0 b utf8_blocks _ utf8_rows] by (auto simp flip: utf8d_blocks)
qed

lemma utf8d_next: "utf8d ! (256 + k) = utf8_rows ! k"
proof -
  have "length (concat (map (\<lambda>(n, x). replicate n x) utf8_blocks)) = (256 :: nat)"
    by (simp add: utf8_blocks_def)
  then show ?thesis unfolding utf8d_blocks by (simp add: nth_append)
qed

abbreviation cont :: "nat \<times> nat" where "cont \<equiv> (0x80, 0xBF)"

definition state_ranges :: "nat \<Rightarrow> (nat \<times> nat) list" where
  "state_ranges st =
     [[], [], [cont], [cont, cont], [(0xA0, 0xBF), cont], [(0x80, 0x9F), cont], [(0x90, 0xBF), cont, cont],
      [cont, cont, cont], [(0x80, 0x8F), cont, cont]] ! st"

definition state_live :: "nat \<Rightarrow> bool" where
  "state_live st \<longleftrightarrow> st < 9 \<and> st \<noteq> UTF8_REJECT"

text \<open>The states of the decoder are the lists of ranges still due.\<close>

lemma decode_type:
  "fst (decode st cp c) = utf8_rows ! (st * 16 + the (block_at utf8_blocks 0 (code_of c)))"
  by (simp add: decode_def Let_def utf8d_type utf8d_next add.assoc)

definition utf8_row :: "nat list list" where
  "utf8_row =
     [[0, 1, 2, 3, 5, 8, 7, 1, 1, 1, 4, 6, 1, 1, 1, 1], replicate 16 1, [1, 0, 1, 1, 1, 1, 1, 0, 1, 0, 1, 1, 1, 1, 1, 1],
      [1, 2, 1, 1, 1, 1, 1, 2, 1, 2, 1, 1, 1, 1, 1, 1], [1, 1, 1, 1, 1, 1, 1, 2, 1, 1, 1, 1, 1, 1, 1, 1],
      [1, 2, 1, 1, 1, 1, 1, 1, 1, 2, 1, 1, 1, 1, 1, 1], [1, 1, 1, 1, 1, 1, 1, 3, 1, 3, 1, 1, 1, 1, 1, 1],
      [1, 3, 1, 1, 1, 1, 1, 3, 1, 3, 1, 1, 1, 1, 1, 1], [1, 3, 1, 1, 1, 1, 1, 1, 1, 1, 1, 1, 1, 1, 1, 1]]"

lemma nth_concat_rows:
  "\<forall>r \<in> set rs. length r = n \<Longrightarrow> i < length rs \<Longrightarrow> j < n \<Longrightarrow> concat rs ! (i * n + j) = rs ! i ! j"
proof (induction rs arbitrary: i)
  case (Cons r rs)
  then show ?case by (cases i) (simp_all add: nth_append add.assoc)
qed simp

lemma utf8_rows_eq: "utf8_rows = concat utf8_row"
  by (simp add: utf8_rows_def utf8d_def utf8_row_def replicate_numeral)

lemma utf8_rows_nth: "st < 9 \<Longrightarrow> t < 16 \<Longrightarrow> utf8_rows ! (st * 16 + t) = utf8_row ! st ! t"
  unfolding utf8_rows_eq by (rule nth_concat_rows) (simp_all add: utf8_row_def)

text \<open>The types the table gives to the bytes.\<close>

lemma byte_type:
  fixes c
  defines "b \<equiv> code_of c" and "t \<equiv> the (block_at utf8_blocks 0 (code_of c))"
  shows "t = 0 \<and> b \<le> 0x7F \<or> t = 1 \<and> 0x80 \<le> b \<and> b < 0x90 \<or> t = 9 \<and> 0x90 \<le> b \<and> b < 0xA0
    \<or> t = 7 \<and> 0xA0 \<le> b \<and> b < 0xC0 \<or> t = 8 \<and> 0xC0 \<le> b \<and> b < 0xC2 \<or> t = 8 \<and> 0xF5 \<le> b
    \<or> t = 2 \<and> 0xC2 \<le> b \<and> b < 0xE0 \<or> t = 10 \<and> b = 0xE0 \<or> t = 3 \<and> 0xE1 \<le> b \<and> b \<le> 0xEC
    \<or> t = 3 \<and> b = 0xEE \<or> t = 3 \<and> b = 0xEF \<or> t = 4 \<and> b = 0xED \<or> t = 11 \<and> b = 0xF0
    \<or> t = 6 \<and> 0xF1 \<le> b \<and> b \<le> 0xF3 \<or> t = 5 \<and> b = 0xF4"
proof -
  have "b < 0x80 \<or> 0x80 \<le> b \<and> b < 0x90 \<or> 0x90 \<le> b \<and> b < 0xA0 \<or> 0xA0 \<le> b \<and> b < 0xC0 \<or> 0xC0 \<le> b \<and> b < 0xC2
    \<or> 0xC2 \<le> b \<and> b < 0xE0 \<or> b = 0xE0 \<or> 0xE1 \<le> b \<and> b \<le> 0xEC \<or> b = 0xED \<or> b = 0xEE \<or> b = 0xEF \<or> b = 0xF0
    \<or> 0xF1 \<le> b \<and> b \<le> 0xF3 \<or> b = 0xF4 \<or> 0xF5 \<le> b \<and> b < 256"
    using code_of_bound [of c] unfolding b_def by presburger
  then show ?thesis
    unfolding t_def b_def [symmetric] utf8_blocks_def block_at.simps by (elim disjE conjE; simp)
qed

lemma decode_next:
  assumes "st < 9"
  shows "fst (decode st cp c) = utf8_row ! st ! the (block_at utf8_blocks 0 (code_of c))"
proof -
  have "the (block_at utf8_blocks 0 (code_of c)) < 16"
    using byte_type [of c] by (elim disjE conjE) simp_all
  then show ?thesis unfolding decode_type by (rule utf8_rows_nth [OF assms])
qed

lemma decode_lead:
  "case lead_ranges c of
     None \<Rightarrow> fst (decode 0 cp c) = UTF8_REJECT
   | Some rs \<Rightarrow> state_live (fst (decode 0 cp c)) \<and> state_ranges (fst (decode 0 cp c)) = rs"
  using byte_type [of c]
  by (elim disjE conjE; simp add: decode_next utf8_row_def lead_ranges_def utf8_follow_def state_live_def state_ranges_def
      UTF8_ACCEPT_def UTF8_REJECT_def)

lemma live_cases: "state_live st \<Longrightarrow> st = 0 \<or> st = 2 \<or> st = 3 \<or> st = 4 \<or> st = 5 \<or> st = 6 \<or> st = 7 \<or> st = 8"
  by (auto simp: state_live_def UTF8_REJECT_def)

lemma decode_cont:
  assumes "state_live st" "state_ranges st = r # rs"
  shows "if in_range r c then state_live (fst (decode st cp c)) \<and> state_ranges (fst (decode st cp c)) = rs
    else fst (decode st cp c) = UTF8_REJECT"
proof -
  define t where "t = the (block_at utf8_blocks 0 (code_of c))"
  have d: "fst (decode st cp c) = utf8_row ! st ! t"
    using assms(1) unfolding t_def by (intro decode_next) (simp add: state_live_def)
  have st: "st = 2 \<and> r = cont \<and> rs = [] \<or> st = 3 \<and> r = cont \<and> rs = [cont]
    \<or> st = 4 \<and> r = (0xA0, 0xBF) \<and> rs = [cont] \<or> st = 5 \<and> r = (0x80, 0x9F) \<and> rs = [cont]
    \<or> st = 6 \<and> r = (0x90, 0xBF) \<and> rs = [cont, cont] \<or> st = 7 \<and> r = cont \<and> rs = [cont, cont]
    \<or> st = 8 \<and> r = (0x80, 0x8F) \<and> rs = [cont, cont]"
    using live_cases [OF assms(1)] assms(2) by (elim disjE; simp add: state_ranges_def; blast)
  consider "t = 0" "code_of c < 0x80" | "t = 1" "0x80 \<le> code_of c" "code_of c < 0x90"
    | "t = 9" "0x90 \<le> code_of c" "code_of c < 0xA0" | "t = 7" "0xA0 \<le> code_of c" "code_of c < 0xC0"
    | "0xC0 \<le> code_of c" "t = 2 \<or> t = 3 \<or> t = 4 \<or> t = 5 \<or> t = 6 \<or> t = 8 \<or> t = 10 \<or> t = 11"
    using byte_type [of c] unfolding t_def [symmetric] by linarith
  then show ?thesis
  proof cases
    case 1
    then show ?thesis
      using st unfolding d by (elim disjE conjE; simp add: utf8_row_def in_range_def state_live_def state_ranges_def UTF8_REJECT_def)
  next
    case 2
    then show ?thesis
      using st unfolding d by (elim disjE conjE; simp add: utf8_row_def in_range_def state_live_def state_ranges_def UTF8_REJECT_def)
  next
    case 3
    then show ?thesis
      using st unfolding d by (elim disjE conjE; simp add: utf8_row_def in_range_def state_live_def state_ranges_def UTF8_REJECT_def)
  next
    case 4
    then show ?thesis
      using st unfolding d by (elim disjE conjE; simp add: utf8_row_def in_range_def state_live_def state_ranges_def UTF8_REJECT_def)
  next
    case 5
    then have "\<not> in_range r c" using st by (auto simp: in_range_def)
    moreover have "utf8_row ! st ! t = UTF8_REJECT"
      using 5(2) st by (elim disjE conjE; simp add: utf8_row_def UTF8_REJECT_def replicate_numeral)
    ultimately show ?thesis by (simp add: d)
  qed
qed

end
