(* ===== verification/JsonDiyfp.thy ===== *)
theory JsonDiyfp
  imports JsonFloat Complex_Main
begin

unbundle bit_operations_syntax

text \<open>
  The numbers the printer of doubles computes with (JsonFloat): the product of two \<open>diyfp\<close> is the exact product rounded to
  64 bits, and \<open>compute_boundaries\<close> scales a double and the midpoints to its neighbours to 64 bits.
\<close>

section \<open>Words as numbers\<close>

lemma unat_low32: "unat (x AND 0xFFFFFFFF :: 64 word) = unat x mod 2 ^ 32"
proof -
  have "x AND 0xFFFFFFFF = take_bit 32 x" by (simp add: take_bit_eq_mask mask_eq_exp_minus_1)
  then show ?thesis by (simp add: unsigned_take_bit_eq take_bit_nat_def)
qed

lemma unat_drop: "unat (drop_bit n x) = unat (x :: 'a::len word) div 2 ^ n"
  by (simp only: unat_drop_bit_eq) (simp only: drop_bit_eq_div)

lemma unat_push: "unat x * 2 ^ n < 2 ^ LENGTH('a) \<Longrightarrow> unat (push_bit n (x :: 'a::len word)) = unat x * 2 ^ n"
  by (simp only: unsigned_push_bit_eq) (simp only: push_bit_eq_mult take_bit_nat_eq_self)

lemma unat_plus: "unat x + unat y < 2 ^ 64 \<Longrightarrow> unat (x + y :: 64 word) = unat x + unat y"
  by (simp add: unat_word_ariths)

lemma unat_times: "unat x * unat y < 2 ^ 64 \<Longrightarrow> unat (x * y :: 64 word) = unat x * unat y"
  by (simp add: unat_word_ariths)

lemma unat_minus: "y \<le> x \<Longrightarrow> unat (x - y :: 64 word) = unat x - unat y"
  by (rule unat_sub)

lemma unat_less64: "unat (x :: 64 word) < 2 ^ 64"
  using unsigned_less [of x, where 'a = nat] by simp

lemma word_eq_unat: "w = v \<longleftrightarrow> unat w = unat v" for w v :: "64 word"
  by (rule word_unat_eq_iff)

lemma powi_shift: "m \<le> n \<Longrightarrow> (2::real) powi n = 2 ^ nat (n - m) * 2 powi m"
  by (subst power_int_add [symmetric] power_int_of_nat [symmetric])+ (simp_all add: power_int_add [symmetric])

section \<open>Multiplication\<close>

lemma mult_less: "a < 2 ^ 32 \<Longrightarrow> b < 2 ^ 32 \<Longrightarrow> a * b \<le> (2 ^ 32 - 1) * (2 ^ 32 - 1)" for a b :: nat
  by (intro mult_mono) simp_all

lemma carry:
  fixes B :: nat
  assumes "p0 = a0 * B + r0" "p1 = a1 * B + r1" "p2 = a2 * B + r2" "a0 + r1 + r2 + h = q * B + rq"
  shows "p3 * (B * B) + (p1 + p2) * B + p0 + h * B = (p3 + a2 + a1 + q) * (B * B) + (rq * B + r0)"
proof -
  have "(a0 + r1 + r2 + h) * B = (q * B + rq) * B" using assms(4) by simp
  then show ?thesis unfolding assms(1-3) by (simp add: algebra_simps)
qed

lemma quotient: "n = h * m + r \<Longrightarrow> r < m \<Longrightarrow> h = n div m" for n h m r :: nat
  by simp

lemma mul_parts:
  fixes u v :: nat
  defines "p0 \<equiv> (u mod 2 ^ 32) * (v mod 2 ^ 32)" and "p1 \<equiv> (u mod 2 ^ 32) * (v div 2 ^ 32)"
    and "p2 \<equiv> (u div 2 ^ 32) * (v mod 2 ^ 32)" and "p3 \<equiv> (u div 2 ^ 32) * (v div 2 ^ 32)"
  shows "p3 + p2 div 2 ^ 32 + p1 div 2 ^ 32 + (p0 div 2 ^ 32 + p1 mod 2 ^ 32 + p2 mod 2 ^ 32 + 2 ^ 31) div 2 ^ 32 =
    (u * v + 2 ^ 63) div 2 ^ 64" (is "?h = _")
proof -
  let ?B = "2 ^ 32 :: nat" and ?Q = "p0 div 2 ^ 32 + p1 mod 2 ^ 32 + p2 mod 2 ^ 32 + 2 ^ 31"
  have "(a * B + b) * (c * B + d) = a * c * (B * B) + (b * c + a * d) * B + b * d" for a b c d B :: nat
    by (simp add: algebra_simps)
  from this [of "u div ?B" ?B "u mod ?B" "v div ?B" "v mod ?B"]
  have uv: "u * v = p3 * (?B * ?B) + (p1 + p2) * ?B + p0"
    unfolding p0_def p1_def p2_def p3_def div_mult_mod_eq .
  have "p3 * (?B * ?B) + (p1 + p2) * ?B + p0 + 2 ^ 31 * ?B =
      (p3 + p2 div ?B + p1 div ?B + ?Q div ?B) * (?B * ?B) + (?Q mod ?B * ?B + p0 mod ?B)"
    by (rule carry [of _ "p0 div ?B" _ _ _ _ "p1 mod ?B" _ _ "p2 mod ?B"]) (simp_all only: div_mult_mod_eq)
  then have "u * v + 2 ^ 63 = ?h * 2 ^ 64 + (?Q mod ?B * ?B + p0 mod ?B)"
    unfolding uv by (simp only: power_add [symmetric]) simp
  moreover have "?Q mod ?B * ?B + p0 mod ?B < 2 ^ 64"
  proof -
    have "a * B + b < B * B" if "a < B" "b < B" for a b B :: nat
      using mult_le_mono1 [OF Suc_leI [OF that(1)], of B] that(2) by simp
    from this [of "?Q mod ?B" ?B "p0 mod ?B"] have "?Q mod ?B * ?B + p0 mod ?B < ?B * ?B"
      by (simp only: mod_less_divisor zero_less_power zero_less_numeral)
    then show ?thesis by (simp only: power_add [symmetric]) simp
  qed
  ultimately show ?thesis by (rule quotient)
qed

lemma diyfp_mul_rounds:
  "unat (fp_f (diyfp_mul x y)) = (unat (fp_f x) * unat (fp_f y) + 2 ^ 63) div 2 ^ 64"
  "fp_e (diyfp_mul x y) = fp_e x + fp_e y + 64"
proof -
  define u v where "u = unat (fp_f x)" and "v = unat (fp_f y)"
  have uv: "u < 2 ^ 64" "v < 2 ^ 64" unfolding u_def v_def by (rule unat_less64)+
  define p0 p1 p2 p3 where "p0 = (u mod 2 ^ 32) * (v mod 2 ^ 32)" and "p1 = (u mod 2 ^ 32) * (v div 2 ^ 32)"
    and "p2 = (u div 2 ^ 32) * (v mod 2 ^ 32)" and "p3 = (u div 2 ^ 32) * (v div 2 ^ 32)"
  note p = this
  have m: "a mod 2 ^ 32 < 2 ^ 32" for a :: nat by simp
  have d: "a < 2 ^ 64 \<Longrightarrow> a div 2 ^ 32 < 2 ^ 32" for a :: nat by (simp add: less_mult_imp_div_less)
  have b: "p0 < 2 ^ 64" "p1 < 2 ^ 64" "p2 < 2 ^ 64" "p3 < 2 ^ 64"
    unfolding p by (rule le_less_trans [OF mult_less [OF m m]] le_less_trans [OF mult_less [OF m d [OF uv(2)]]]
      le_less_trans [OF mult_less [OF d [OF uv(1)] m]] le_less_trans [OF mult_less [OF d [OF uv(1)] d [OF uv(2)]]]; simp)+
  define u_lo u_hi v_lo v_hi where "u_lo = fp_f x AND 0xFFFFFFFF" and "u_hi = drop_bit 32 (fp_f x)"
    and "v_lo = fp_f y AND 0xFFFFFFFF" and "v_hi = drop_bit 32 (fp_f y)"
  note w = this
  have n: "unat (u_lo * v_lo) = p0" "unat (u_lo * v_hi) = p1" "unat (u_hi * v_lo) = p2" "unat (u_hi * v_hi) = p3"
    using b unfolding w p u_def v_def by (subst unat_times; simp only: unat_low32 unat_drop)+
  define Q where "Q = drop_bit 32 (u_lo * v_lo) + (u_lo * v_hi AND 0xFFFFFFFF) + (u_hi * v_lo AND 0xFFFFFFFF) + push_bit 31 1"
  define q where "q = p0 div 2 ^ 32 + p1 mod 2 ^ 32 + p2 mod 2 ^ 32 + 2 ^ 31"
  have small: "p0 div 2 ^ 32 < 2 ^ 32" "p1 mod 2 ^ 32 < 2 ^ 32" "p2 mod 2 ^ 32 < 2 ^ 32" using d [OF b(1)] m by blast+
  have "unat (push_bit 31 1 :: 64 word) = 2 ^ 31" by simp
  then have Q: "unat Q = q" unfolding Q_def q_def using small by (simp add: unat_plus unat_low32 unat_drop n)
  have h: "p3 + p2 div 2 ^ 32 + p1 div 2 ^ 32 + q div 2 ^ 32 = (u * v + 2 ^ 63) div 2 ^ 64"
    unfolding q_def p by (rule mul_parts)
  have "u * v \<le> (2 ^ 64 - 1) * (2 ^ 64 - 1)" using uv by (intro mult_mono) simp_all
  then have "(u * v + 2 ^ 63) div 2 ^ 64 < 2 ^ 64" by (simp add: less_mult_imp_div_less)
  then have s: "p3 + p2 div 2 ^ 32 + p1 div 2 ^ 32 + q div 2 ^ 32 < 2 ^ 64" unfolding h .
  have "fp_f (diyfp_mul x y) = u_hi * v_hi + drop_bit 32 (u_hi * v_lo) + drop_bit 32 (u_lo * v_hi) + drop_bit 32 Q"
    by (simp add: diyfp_mul_def Let_def w Q_def)
  then show "unat (fp_f (diyfp_mul x y)) = (unat (fp_f x) * unat (fp_f y) + 2 ^ 63) div 2 ^ 64"
    using s h by (simp add: unat_plus unat_drop n Q u_def v_def)
  show "fp_e (diyfp_mul x y) = fp_e x + fp_e y + 64" by (simp add: diyfp_mul_def Let_def)
qed

section \<open>The boundaries\<close>

text \<open>What IEEE 754 says of the bits: the magnitude of a double is \<open>significand * 2 ^ exponent\<close>.\<close>

definition significand :: "double \<Rightarrow> nat" where
  "significand x = unat x mod 2 ^ 52 + (if unat x div 2 ^ 52 mod 2 ^ 11 = 0 then 0 else 2 ^ 52)"

definition exponent :: "double \<Rightarrow> int" where
  "exponent x = (if unat x div 2 ^ 52 mod 2 ^ 11 = 0 then - 1074 else int (unat x div 2 ^ 52 mod 2 ^ 11) - 1075)"

definition magnitude :: "double \<Rightarrow> real" where
  "magnitude x = real (significand x) * 2 powi exponent x"

text \<open>The double below is nearer when the significand is the least of its exponent and the exponent is not the least.\<close>

definition closer_below :: "double \<Rightarrow> bool" where
  "closer_below x \<longleftrightarrow> unat x mod 2 ^ 52 = 0 \<and> 1 < unat x div 2 ^ 52 mod 2 ^ 11"

definition upper :: "double \<Rightarrow> real" where
  "upper x = (real (significand x) + 1 / 2) * 2 powi exponent x"

definition lower :: "double \<Rightarrow> real" where
  "lower x = (real (significand x) - (if closer_below x then 1 / 4 else 1 / 2)) * 2 powi exponent x"

lemma signbit_unat: "signbit x \<longleftrightarrow> 2 ^ 63 \<le> unat x"
proof -
  have "bit x 63 \<longleftrightarrow> bit (unat x) 63" by (simp add: bit_unsigned_iff)
  also have "\<dots> \<longleftrightarrow> odd (unat x div 2 ^ 63)" by (rule bit_iff_odd)
  also have "\<dots> \<longleftrightarrow> 2 ^ 63 \<le> unat x"
  proof (cases "2 ^ 63 \<le> unat x")
    case True
    then have "unat x div 2 ^ 63 = 1" using unat_less64 [of x] by (intro div_nat_eqI) simp_all
    then show ?thesis using True by simp
  next
    case False
    then show ?thesis by (simp only: div_less not_le) simp
  qed
  finally show ?thesis unfolding signbit_def .
qed

lemma isfinite_unat: "isfinite x \<longleftrightarrow> unat x div 2 ^ 52 mod 2 ^ 11 \<noteq> 2047"
proof -
  have "drop_bit 52 x AND 0x7FF = take_bit 11 (drop_bit 52 x)" by (simp add: take_bit_eq_mask mask_eq_exp_minus_1)
  then have "unat (drop_bit 52 x AND 0x7FF) = unat x div 2 ^ 52 mod 2 ^ 11"
    by (simp only: unsigned_take_bit_eq take_bit_nat_def unat_drop)
  moreover have "drop_bit 52 x AND 0x7FF = 0x7FF \<longleftrightarrow> unat (drop_bit 52 x AND 0x7FF) = 2047"
    by (subst word_eq_unat) simp
  ultimately show ?thesis by (simp only: isfinite_def)
qed

lemma is_zero_unat: "is_zero x \<longleftrightarrow> unat x mod 2 ^ 63 = 0"
proof -
  have "x AND 0x7FFFFFFFFFFFFFFF = take_bit 63 x" by (simp add: take_bit_eq_mask mask_eq_exp_minus_1)
  then have "unat (x AND 0x7FFFFFFFFFFFFFFF) = unat x mod 2 ^ 63"
    by (simp only: unsigned_take_bit_eq take_bit_nat_def)
  then show ?thesis unfolding is_zero_def by (subst word_eq_unat) (simp only: unat_0)
qed

lemma is_positive_unat: "is_positive x \<longleftrightarrow> 0 < unat x \<and> unat x < 2 ^ 63"
  unfolding is_positive_def signbit_unat is_zero_unat by auto

lemma unat_fraction: "unat (x AND (kHiddenBit - 1)) = unat x mod 2 ^ 52"
proof -
  have "x AND (kHiddenBit - 1) = take_bit 52 x" by (simp add: kHiddenBit_def take_bit_eq_mask mask_eq_exp_minus_1)
  then show ?thesis by (simp only: unsigned_take_bit_eq take_bit_nat_def)
qed

text \<open>The range of the significand and the exponent of a positive finite double.\<close>

lemma double_range:
  assumes "is_positive x" "isfinite x"
  shows "0 < significand x" "significand x < 2 ^ 53" "- 1074 \<le> exponent x" "exponent x \<le> 971"
    "closer_below x \<Longrightarrow> significand x = 2 ^ 52 \<and> - 1073 \<le> exponent x"
proof -
  let ?n = "unat x"
  have n: "0 < ?n" "?n < 2 ^ 63" using assms(1) by (simp_all add: is_positive_unat)
  have E: "?n div 2 ^ 52 mod 2 ^ 11 \<noteq> 2047" "?n div 2 ^ 52 mod 2 ^ 11 < 2 ^ 11" "?n mod 2 ^ 52 < 2 ^ 52"
    using assms(2) by (simp_all add: isfinite_unat)
  have "?n div 2 ^ 52 < 2 ^ 11" using n(2) by (simp add: less_mult_imp_div_less)
  then have "?n div 2 ^ 52 mod 2 ^ 11 = 0 \<Longrightarrow> ?n mod 2 ^ 52 \<noteq> 0"
    using n(1) div_mult_mod_eq [of ?n "2 ^ 52"] by auto
  then show "0 < significand x" by (auto simp: significand_def)
  have "(if ?n div 2 ^ 52 mod 2 ^ 11 = 0 then 0 else 2 ^ 52) \<le> (2 ^ 52 :: nat)" by simp
  then have "significand x < 2 ^ 52 + 2 ^ 52" unfolding significand_def by (rule add_less_le_mono [OF E(3)])
  then show "significand x < 2 ^ 53" by simp
  show "- 1074 \<le> exponent x" by (simp add: exponent_def)
  have "?n div 2 ^ 52 mod 2 ^ 11 \<le> 2046" using E(1,2) by simp
  then show "exponent x \<le> 971" by (auto simp: exponent_def)
  show "closer_below x \<Longrightarrow> significand x = 2 ^ 52 \<and> - 1073 \<le> exponent x"
    unfolding closer_below_def significand_def exponent_def by auto
qed

lemma double_diyfp_parts:
  assumes "is_positive x" "isfinite x"
  shows "unat (fp_f (double_diyfp x)) = significand x" "fp_e (double_diyfp x) = exponent x"
    "x AND (kHiddenBit - 1) = 0 \<and> 1 < drop_bit 52 x \<longleftrightarrow> closer_below x"
proof -
  let ?n = "unat x"
  have "?n < 2 ^ 63" using assms(1) by (simp add: is_positive_unat)
  then have d: "?n div 2 ^ 52 mod 2 ^ 11 = ?n div 2 ^ 52" by (simp add: less_mult_imp_div_less)
  have z: "drop_bit 52 x = 0 \<longleftrightarrow> ?n div 2 ^ 52 = 0" by (subst word_eq_unat) (simp only: unat_drop unat_0)
  have h: "unat kHiddenBit = 2 ^ 52" by (simp add: kHiddenBit_def)
  have s: "unat (x AND (kHiddenBit - 1)) + unat kHiddenBit < 2 ^ 64"
    using mod_less_divisor [of "2 ^ 52" ?n] unfolding h unat_fraction by simp
  show "unat (fp_f (double_diyfp x)) = significand x"
    unfolding double_diyfp_def Let_def z significand_def d by (simp only: if_distrib diyfp.simps unat_plus [OF s] h unat_fraction) simp
  have u: "uint (drop_bit 52 x) = int (?n div 2 ^ 52)" by (simp only: uint_nat unat_drop)
  show "fp_e (double_diyfp x) = exponent x"
    unfolding double_diyfp_def Let_def z exponent_def d by (simp add: kBias_def u)
  have "x AND (kHiddenBit - 1) = 0 \<longleftrightarrow> ?n mod 2 ^ 52 = 0" by (subst word_eq_unat) (simp only: unat_fraction unat_0)
  moreover have "1 < drop_bit 52 x \<longleftrightarrow> 1 < ?n div 2 ^ 52" unfolding word_less_nat_alt unat_drop unat_1 ..
  ultimately show "x AND (kHiddenBit - 1) = 0 \<and> 1 < drop_bit 52 x \<longleftrightarrow> closer_below x" by (simp only: closer_below_def d)
qed

lemma normalize_loop_result:
  assumes "0 < unat f"
  shows "\<exists>s. unat (fp_f (normalize_loop f e)) = unat f * 2 ^ s \<and> fp_e (normalize_loop f e) = e - int s \<and>
    2 ^ 63 \<le> unat f * 2 ^ s \<and> unat f * 2 ^ s < 2 ^ 64"
  using assms
proof (induction f e rule: normalize_loop.induct)
  case (1 f e)
  have nz: "f \<noteq> 0" using 1(2) by (simp add: unat_gt_0)
  have d: "drop_bit 63 f = 0 \<longleftrightarrow> unat f < 2 ^ 63" by (subst word_eq_unat) (simp only: unat_drop unat_0 div_eq_0_iff, simp)
  show ?case
  proof (cases "unat f < 2 ^ 63")
    case True
    then have u: "unat (push_bit 1 f) = unat f * 2" using unat_push [of f 1] by simp
    have l: "normalize_loop f e = normalize_loop (push_bit 1 f) (e - 1)"
      by (subst normalize_loop.simps) (simp only: nz d True simp_thms if_True)
    obtain s where s: "unat (fp_f (normalize_loop (push_bit 1 f) (e - 1))) = unat (push_bit 1 f) * 2 ^ s"
      "fp_e (normalize_loop (push_bit 1 f) (e - 1)) = e - 1 - int s"
      "2 ^ 63 \<le> unat (push_bit 1 f) * 2 ^ s" "unat (push_bit 1 f) * 2 ^ s < 2 ^ 64"
      using 1(1) nz d True 1(2) u by auto
    show ?thesis unfolding l using s unfolding u by (intro exI [of _ "Suc s"]) (simp add: mult.assoc)
  next
    case False
    then have "normalize_loop f e = diyfp f e" by (subst normalize_loop.simps) (simp only: d simp_thms if_False)
    then show ?thesis using False unat_less64 [of f] by (intro exI [of _ 0]) simp
  qed
qed

lemma normalize_to_exact:
  assumes "n < 64" "unat g * 2 ^ n < 2 ^ 64"
  shows "\<exists>w. normalize_to (diyfp g (e + int n)) e = Inr w \<and> fp_e w = e \<and> unat (fp_f w) = unat g * 2 ^ n"
proof -
  have u: "unat (push_bit n g) = unat g * 2 ^ n" using assms(2) by (intro unat_push) simp
  then have "drop_bit n (push_bit n g) = g" by (subst word_eq_unat) (simp only: unat_drop, simp)
  then show ?thesis using assms(1) u by (simp add: normalize_to_def Let_def)
qed

lemma normalized_shifts:
  fixes m :: nat
  assumes "0 < m" "2 ^ 63 \<le> m * 2 ^ s" "m * 2 ^ s < 2 ^ 64" "2 ^ 63 \<le> (2 * m + 1) * 2 ^ t" "(2 * m + 1) * 2 ^ t < 2 ^ 64"
  shows "s = Suc t"
proof -
  have low: False if "s \<le> t"
  proof -
    have "m * 2 ^ s \<le> m * 2 ^ t" using that by simp
    moreover have "(2 * m + 1) * 2 ^ t = 2 * (m * 2 ^ t) + 2 ^ t" by (simp add: algebra_simps)
    moreover have "(0::nat) < 2 ^ t" by simp
    moreover have "a \<le> b \<Longrightarrow> c = 2 * b + d \<Longrightarrow> 0 < d \<Longrightarrow> 2 ^ 63 \<le> a \<Longrightarrow> \<not> c < 2 ^ 64" for a b c d :: nat by simp
    ultimately show False using assms(2,5) by blast
  qed
  have high: False if "Suc (Suc t) \<le> s"
  proof -
    have "m * 2 ^ Suc (Suc t) \<le> m * 2 ^ s" using that by (intro mult_le_mono2 power_increasing) simp_all
    then have "m * 2 ^ Suc (Suc t) < 2 ^ 64" using assms(3) by (rule le_less_trans)
    then have l: "m * 2 ^ Suc t < 2 ^ 63" by simp
    have "2 ^ Suc t < (2::nat) ^ 63" using le_less_trans [OF _ l, of "2 ^ Suc t"] assms(1) by simp
    then have "Suc t < 63" by (rule power_less_imp_less_exp [rotated]) simp
    then have "(2::nat) ^ 63 = 2 ^ (63 - Suc t) * 2 ^ Suc t" by (simp only: power_add [symmetric]) simp
    then have "Suc m * 2 ^ Suc t \<le> 2 ^ 63" using l by (metis Suc_leI mult_le_mono1 mult_less_cancel2)
    moreover have "Suc m * 2 ^ Suc t = (2 * m + 1) * 2 ^ t + 2 ^ t" by (simp add: algebra_simps)
    moreover have "a + b \<le> c \<Longrightarrow> 0 < b \<Longrightarrow> \<not> c \<le> a" for a b c :: nat by simp
    ultimately show False using assms(4) by (metis zero_less_numeral zero_less_power)
  qed
  show ?thesis using low high by (metis le_antisym not_less_eq_eq)
qed

text \<open>
  The significands share an exponent \<open>s\<close> below the double's: the double is shifted to 64 bits, the boundaries are
  half a unit of the double away, or a quarter below a power of two.
\<close>

lemma compute_boundaries_result:
  assumes "is_positive x" "isfinite x"
  shows "\<exists>b s. compute_boundaries x = Inr b \<and> 11 \<le> s \<and> s \<le> 63 \<and>
    fp_e (b_w b) = exponent x - int s \<and> fp_e (b_minus b) = exponent x - int s \<and> fp_e (b_plus b) = exponent x - int s \<and>
    unat (fp_f (b_w b)) = significand x * 2 ^ s \<and>
    unat (fp_f (b_plus b)) = significand x * 2 ^ s + 2 ^ (s - 1) \<and>
    unat (fp_f (b_minus b)) + (if closer_below x then 2 ^ (s - 2) else 2 ^ (s - 1)) = significand x * 2 ^ s \<and>
    2 ^ 63 \<le> significand x * 2 ^ s"
proof -
  note r = double_range [OF assms] and p = double_diyfp_parts [OF assms]
  define v where "v = double_diyfp x"
  let ?m = "significand x" and ?e = "exponent x"
  have v: "unat (fp_f v) = ?m" "fp_e v = ?e" using p(1,2) by (simp_all add: v_def)
  have m: "0 < ?m" "?m < 2 ^ 53" using r(1,2) .
  define f where "f = fp_f v"
  have f: "unat f = ?m" using v by (simp add: f_def)
  have "unat (2 * f) = 2 * ?m" using m(2) f by (subst unat_times) simp_all
  then have plus: "unat (2 * f + 1) = 2 * ?m + 1" using m(2) by (subst unat_plus) simp_all
  have two: "unat (2 * f - 1) = 2 * ?m - 1"
    using \<open>unat (2 * f) = 2 * ?m\<close> m(1) by (subst unat_minus) (simp_all add: word_le_nat_alt)
  have "unat (4 * f) = 4 * ?m" using m(2) f by (subst unat_times) simp_all
  then have four: "unat (4 * f - 1) = 4 * ?m - 1" using m(1) by (subst unat_minus) (simp_all add: word_le_nat_alt)
  obtain t where t: "unat (fp_f (normalize_loop (2 * f + 1) (?e - 1))) = (2 * ?m + 1) * 2 ^ t"
    "fp_e (normalize_loop (2 * f + 1) (?e - 1)) = ?e - 1 - int t" "2 ^ 63 \<le> (2 * ?m + 1) * 2 ^ t" "(2 * ?m + 1) * 2 ^ t < 2 ^ 64"
    using normalize_loop_result [of "2 * f + 1" "?e - 1"] plus by auto
  obtain s where s: "unat (fp_f (normalize_loop f ?e)) = ?m * 2 ^ s"
    "fp_e (normalize_loop f ?e) = ?e - int s" "2 ^ 63 \<le> ?m * 2 ^ s" "?m * 2 ^ s < 2 ^ 64"
    using normalize_loop_result [of f ?e] f m(1) by auto
  have ts: "s = Suc t" by (rule normalized_shifts [OF m(1) s(3,4) t(3,4)])
  have "2 ^ s \<le> ?m * 2 ^ s" using m(1) by simp
  then have "(2::nat) ^ s < 2 ^ 64" using s(4) by (rule le_less_trans)
  then have "s < 64" by (rule power_less_imp_less_exp [rotated]) simp
  then have hi: "s \<le> 63" by simp
  have "?m * 2 ^ s < 2 ^ 53 * 2 ^ s" using m(2) by simp
  then have "(2::nat) ^ 63 < 2 ^ (53 + s)" using s(3) unfolding power_add by linarith
  then have "63 < 53 + s" by (rule power_less_imp_less_exp [rotated]) simp
  then have lo: "11 \<le> s" by simp
  define d where "d = (if closer_below x then diyfp (4 * f - 1) (?e - 2) else diyfp (2 * f - 1) (?e - 1))"
  have minus: "\<exists>w. normalize_to d (?e - int s) = Inr w \<and> fp_e w = ?e - int s \<and>
      unat (fp_f w) + (if closer_below x then 2 ^ (s - 2) else 2 ^ (s - 1)) = ?m * 2 ^ s"
  proof (cases "closer_below x")
    case True
    have "s = Suc (Suc (s - 2))" using lo by simp
    from arg_cong [OF this, of "\<lambda>n. 2 ^ n :: nat"] have "2 ^ s = 4 * (2 ^ (s - 2) :: nat)" by simp
    then have e: "(4 * ?m - 1) * 2 ^ (s - 2) + 2 ^ (s - 2) = ?m * 2 ^ s" using m(1) by (cases ?m) (simp_all add: algebra_simps)
    then have b: "unat (4 * f - 1) * 2 ^ (s - 2) < 2 ^ 64" using s(4) unfolding four by linarith
    have "s - 2 < 64" using hi by simp
    from normalize_to_exact [OF this b, of "?e - int s"] obtain w where
      w: "normalize_to (diyfp (4 * f - 1) (?e - int s + int (s - 2))) (?e - int s) = Inr w" "fp_e w = ?e - int s"
      "unat (fp_f w) = (4 * ?m - 1) * 2 ^ (s - 2)" unfolding four by blast
    moreover have "?e - int s + int (s - 2) = ?e - 2" using lo by simp
    ultimately show ?thesis using e True by (intro exI [of _ w]) (simp only: d_def if_True if_False)
  next
    case False
    have "s = Suc (s - 1)" using lo by simp
    from arg_cong [OF this, of "\<lambda>n. 2 ^ n :: nat"] have "2 ^ s = 2 * (2 ^ (s - 1) :: nat)" by simp
    then have e: "(2 * ?m - 1) * 2 ^ (s - 1) + 2 ^ (s - 1) = ?m * 2 ^ s" using m(1) by (cases ?m) (simp_all add: algebra_simps)
    then have b: "unat (2 * f - 1) * 2 ^ (s - 1) < 2 ^ 64" using s(4) unfolding two by linarith
    have "s - 1 < 64" using hi by simp
    from normalize_to_exact [OF this b, of "?e - int s"] obtain w where
      w: "normalize_to (diyfp (2 * f - 1) (?e - int s + int (s - 1))) (?e - int s) = Inr w" "fp_e w = ?e - int s"
      "unat (fp_f w) = (2 * ?m - 1) * 2 ^ (s - 1)" unfolding two by blast
    moreover have "?e - int s + int (s - 1) = ?e - 1" using lo by simp
    ultimately show ?thesis using e False by (intro exI [of _ w]) (simp only: d_def if_True if_False)
  qed
  then obtain w where w: "normalize_to d (?e - int s) = Inr w" "fp_e w = ?e - int s"
      "unat (fp_f w) + (if closer_below x then 2 ^ (s - 2) else 2 ^ (s - 1)) = ?m * 2 ^ s" by blast
  have ne: "f \<noteq> 0" "2 * f + 1 \<noteq> 0" using f plus m(1) by (auto simp: word_eq_unat)
  have es: "fp_e (normalize_loop (2 * f + 1) (?e - 1)) = ?e - int s" using t(2) ts by simp
  have x: "x AND (kHiddenBit - 1) = 0 \<and> 1 < drop_bit 52 x \<longleftrightarrow> closer_below x" by (rule p(3))
  have "compute_boundaries x = Inr \<lparr>b_w = normalize_loop f ?e, b_minus = w, b_plus = normalize_loop (2 * f + 1) (?e - 1)\<rparr>"
    using assms w(1) es ne
    unfolding compute_boundaries_def Let_def v_def [symmetric] f_def [symmetric] v(2) x d_def [symmetric]
    by (simp add: diyfp_normalize_def v(2) flip: f_def)
  moreover have "(2 * ?m + 1) * 2 ^ t = ?m * 2 ^ s + 2 ^ (s - 1)" using ts by (simp add: algebra_simps)
  ultimately show ?thesis using s t w hi lo ts by (intro exI [of _ s] exI conjI) (assumption | simp)+
qed

text \<open>
  What the boundaries are: the double after \<open>x\<close> has the next bit pattern, and the boundary between the two is their
  midpoint. So every number strictly between the boundaries of a double is nearer to it than to any other.
\<close>

lemma boundaries_are_midpoints:
  assumes "is_positive x" "isfinite x" "isfinite (x + 1)"
  shows "upper x = (magnitude x + magnitude (x + 1)) / 2 \<and> lower (x + 1) = upper x"
proof -
  define n where "n = unat x"
  define E F where "E = n div 2 ^ 52" and "F = n mod 2 ^ 52"
  have "n < 2 ^ 63" using assms(1) unfolding is_positive_unat n_def by blast
  moreover have "n = E * 2 ^ 52 + F" unfolding E_def F_def by (simp only: div_mult_mod_eq)
  moreover have "F < 2 ^ 52" unfolding F_def by simp
  ultimately have n: "n < 2 ^ 63" "n = E * 2 ^ 52 + F" "F < 2 ^ 52" .
  have E: "E < 2 ^ 11" using n(1) unfolding E_def by (simp add: less_mult_imp_div_less)
  have "E \<noteq> 2047" using assms(2) E unfolding isfinite_unat n_def [symmetric] E_def [symmetric] by simp
  then have E: "E mod 2 ^ 11 = E" "Suc E mod 2 ^ 11 = Suc E" using E by simp_all
  have u: "unat (x + 1) = n + 1" using n(1) unfolding n_def by (subst unat_plus) simp_all
  have x: "significand x = F + (if E = 0 then 0 else 2 ^ 52)" "exponent x = (if E = 0 then - 1074 else int E - 1075)"
    unfolding significand_def exponent_def n_def [symmetric] E_def [symmetric] F_def [symmetric] E by simp_all
  show ?thesis
  proof (cases "Suc F < 2 ^ 52")
    case True
    have "(n + 1) div 2 ^ 52 = E \<and> (n + 1) mod 2 ^ 52 = Suc F"
      using True unfolding n(2) by (metis add_Suc_right Suc_eq_plus1 div_mult_self3 div_less add.right_neutral mod_mult_self3 mod_less power_not_zero zero_neq_numeral)
    then have d: "unat (x + 1) div 2 ^ 52 = E" "unat (x + 1) mod 2 ^ 52 = Suc F" unfolding u by blast+
    have y: "significand (x + 1) = Suc F + (if E = 0 then 0 else 2 ^ 52)" "exponent (x + 1) = exponent x"
      unfolding significand_def exponent_def d E E_def [symmetric] n_def [symmetric] by (rule refl)+
    have "\<not> closer_below (x + 1)" unfolding closer_below_def d by simp
    note y = y this
    show ?thesis using y(3) unfolding upper_def lower_def magnitude_def y x(1) by (simp add: algebra_simps)
  next
    case False
    then have F: "Suc F = 2 ^ 52" using n(3) by linarith
    then have "n + 1 = Suc E * 2 ^ 52" unfolding n(2) by simp
    then have d: "unat (x + 1) div 2 ^ 52 = Suc E" "unat (x + 1) mod 2 ^ 52 = 0"
      unfolding u by (simp_all only: nonzero_mult_div_cancel_right mod_mult_self2_is_0) simp
    have y: "significand (x + 1) = 2 ^ 52" "exponent (x + 1) = int E - 1074" "closer_below (x + 1) \<longleftrightarrow> E \<noteq> 0"
      unfolding significand_def exponent_def closer_below_def d E by simp_all
    have F: "F = 2 ^ 52 - 1" using F by simp
    show ?thesis
    proof (cases "E = 0")
      case True
      then show ?thesis unfolding upper_def lower_def magnitude_def y x F by simp
    next
      case False
      have "(2::real) powi (int E - 1074) = 2 * 2 powi (int E - 1075)"
        using powi_shift [of "int E - 1075" "int E - 1074"] by simp
      with False show ?thesis unfolding upper_def lower_def magnitude_def y x F by simp
    qed
  qed
qed

lemma finite_below:
  assumes "n < (2 :: nat) ^ 63"
  shows "n div 2 ^ 52 mod 2 ^ 11 \<noteq> 2047 \<longleftrightarrow> n < 2047 * 2 ^ 52"
proof -
  have d: "n div 2 ^ 52 < 2 ^ 11" using assms by (simp add: less_mult_imp_div_less)
  then have "n div 2 ^ 52 mod 2 ^ 11 = n div 2 ^ 52" by simp
  moreover have "n div 2 ^ 52 < 2047 \<longleftrightarrow> n < 2047 * 2 ^ 52" by (rule div_less_iff_less_mult) simp
  moreover have "n div 2 ^ 52 < 2048" using d by simp
  ultimately show ?thesis by linarith
qed

lemma positive_finite: "is_positive x \<and> isfinite x \<longleftrightarrow> 0 < unat x \<and> unat x < 2047 * 2 ^ 52"
  using finite_below [of "unat x"] unfolding is_positive_unat isfinite_unat by auto

lemma lower_upper:
  assumes "is_positive x" "isfinite x"
  shows "0 < lower x" "lower x < upper x"
  using double_range(1) [OF assms] by (auto simp: lower_def upper_def intro!: mult_strict_right_mono)

text \<open>The intervals of different doubles do not overlap.\<close>

lemma upper_le_lower:
  assumes "is_positive x" "isfinite x" "unat y = unat x + Suc d" "isfinite y" "\<not> signbit y"
  shows "upper x \<le> lower y"
  using assms(3-5)
proof (induction d arbitrary: y)
  case 0
  have "unat x < 2047 * 2 ^ 52" using assms(1,2) positive_finite by blast
  then have "unat (x + 1) = unat x + 1" by (subst unat_plus) simp_all
  then have "y = x + 1" using 0(1) by (simp add: word_unat_eq_iff)
  then show ?case using boundaries_are_midpoints [OF assms(1,2)] 0 by simp
next
  case (Suc d)
  have "unat y < 2 ^ 63" using Suc.prems(3) by (simp add: signbit_unat)
  then have y: "unat y < 2047 * 2 ^ 52" using Suc.prems(2) finite_below isfinite_unat by blast
  define z where "z = y - 1"
  have "y \<noteq> 0" using Suc.prems(1) by (intro notI) simp
  then have uz: "unat z = unat x + Suc d" using Suc.prems(1) unfolding z_def by (subst unat_minus_one) simp_all
  then have z: "is_positive z" "isfinite z" using positive_finite [of z] y Suc.prems(1) by simp_all
  have "z + 1 = y" by (simp add: z_def)
  then have "upper z = lower y" using boundaries_are_midpoints [OF z] Suc.prems(2) by simp
  moreover have "upper x \<le> lower z" using Suc.IH [OF uz z(2)] z(1) by (simp add: is_positive_def)
  ultimately show ?case using lower_upper [OF z] by simp
qed

end
