(* ===== verification/JsonPowers.thy ===== *)
theory JsonPowers
  imports JsonDiyfp
begin

text \<open>
  The table \<open>kCachedPowers\<close> of JsonFloat: each entry is the 64-bit number nearest to its power of ten, and
  \<open>get_cached_power_for_binary_exponent\<close> finds one that fits for every exponent of a double.
\<close>

section \<open>The powers of ten\<close>

text \<open>The significand is normalized, and the power is the number nearest to the power of ten it stands for.\<close>

definition near_power :: "64 word \<times> int \<times> int \<Rightarrow> bool" where
  "near_power c \<longleftrightarrow> (case c of (f, ce, k) \<Rightarrow>
     2 ^ 63 \<le> unat f \<and> \<bar>real (unat f) * 2 powi ce - 10 powi k\<bar> \<le> 2 powi ce / 2)"

text \<open>
  The check walks up and down from \<open>10 ^ 4\<close>, which is exact: \<open>lo\<close> and \<open>hi\<close> times \<open>2 ^ (ce - 21)\<close> bound the
  power of ten, 20 bits finer than the significand.
\<close>

definition entry_within :: "int \<Rightarrow> int \<Rightarrow> 64 word \<Rightarrow> bool" where
  "entry_within lo hi f \<longleftrightarrow>
     2 ^ 63 \<le> uint f \<and> (2 * uint f - 1) * 2 ^ 20 \<le> lo \<and> hi \<le> (2 * uint f + 1) * 2 ^ 20"

fun powers_up :: "int \<Rightarrow> int \<Rightarrow> (64 word \<times> int \<times> int) list \<Rightarrow> bool" where
  "powers_up lo hi [] \<longleftrightarrow> True"
| "powers_up lo hi [(f, ce, k)] \<longleftrightarrow> entry_within lo hi f"
| "powers_up lo hi ((f, ce, k) # (f', ce', k') # cs) \<longleftrightarrow>
     entry_within lo hi f \<and> k' = k + 8 \<and> ce < ce' \<and>
     powers_up (lo * 100000000 div 2 ^ nat (ce' - ce)) (hi * 100000000 div 2 ^ nat (ce' - ce) + 1) ((f', ce', k') # cs)"

fun powers_down :: "int \<Rightarrow> int \<Rightarrow> (64 word \<times> int \<times> int) list \<Rightarrow> bool" where
  "powers_down lo hi [] \<longleftrightarrow> True"
| "powers_down lo hi [(f, ce, k)] \<longleftrightarrow> entry_within lo hi f"
| "powers_down lo hi ((f, ce, k) # (f', ce', k') # cs) \<longleftrightarrow>
     entry_within lo hi f \<and> k' = k - 8 \<and> ce' < ce \<and>
     powers_down (lo * 2 ^ nat (ce - ce') div 100000000) (hi * 2 ^ nat (ce - ce') div 100000000 + 1) ((f', ce', k') # cs)"

definition power_between :: "int \<Rightarrow> int \<Rightarrow> int \<Rightarrow> int \<Rightarrow> bool" where
  "power_between lo hi ce k \<longleftrightarrow>
     real_of_int lo * 2 powi (ce - 21) \<le> 10 powi k \<and> 10 powi k \<le> real_of_int hi * 2 powi (ce - 21)"

lemma int_div_bounds:
  assumes "0 < d"
  shows "real_of_int (n div d) * real_of_int d \<le> real_of_int n" "real_of_int n \<le> real_of_int (n div d + 1) * real_of_int d"
proof -
  have "n div d * d \<le> n" "n \<le> (n div d + 1) * d"
    using div_mult_mod_eq [of n d] pos_mod_bound [OF assms, of n] pos_mod_sign [OF assms, of n]
    by (simp_all only: distrib_right mult_1)
  then show "real_of_int (n div d) * real_of_int d \<le> real_of_int n" "real_of_int n \<le> real_of_int (n div d + 1) * real_of_int d"
    unfolding of_int_mult [symmetric] of_int_le_iff by auto
qed

lemma power_between_up:
  assumes "power_between lo hi ce k" "ce < ce'"
  shows "power_between (lo * 100000000 div 2 ^ nat (ce' - ce)) (hi * 100000000 div 2 ^ nat (ce' - ce) + 1) ce' (k + 8)"
proof -
  let ?d = "2 ^ nat (ce' - ce) :: int"
  have t: "(10::real) powi (k + 8) = 100000000 * 10 powi k" by (simp add: power_int_add)
  have e: "(2::real) powi (ce' - 21) = ?d * 2 powi (ce - 21)" using powi_shift [of "ce - 21" "ce' - 21"] assms(2) by simp
  have p: "(0::real) < 2 powi (ce - 21)" by simp
  have "(lo * 100000000 div ?d) * 2 powi (ce' - 21) = (lo * 100000000 div ?d) * real_of_int ?d * 2 powi (ce - 21)"
    unfolding e by simp
  also have "\<dots> \<le> real_of_int (lo * 100000000) * 2 powi (ce - 21)"
    using int_div_bounds(1) [of ?d "lo * 100000000"] p by (intro mult_right_mono) simp_all
  also have "\<dots> \<le> 10 powi (k + 8)" using assms(1) unfolding t power_between_def by simp
  finally have l: "(lo * 100000000 div ?d) * 2 powi (ce' - 21) \<le> (10::real) powi (k + 8)" .
  have "10 powi (k + 8) \<le> real_of_int (hi * 100000000) * 2 powi (ce - 21)" using assms(1) unfolding t power_between_def by simp
  also have "\<dots> \<le> real_of_int (hi * 100000000 div ?d + 1) * real_of_int ?d * 2 powi (ce - 21)"
    using int_div_bounds(2) [of ?d "hi * 100000000"] p by (intro mult_right_mono) simp_all
  also have "\<dots> = real_of_int (hi * 100000000 div ?d + 1) * 2 powi (ce' - 21)" unfolding e by simp
  finally show ?thesis using l unfolding power_between_def by simp
qed

lemma power_between_down:
  assumes "power_between lo hi ce k" "ce' < ce"
  shows "power_between (lo * 2 ^ nat (ce - ce') div 100000000) (hi * 2 ^ nat (ce - ce') div 100000000 + 1) ce' (k - 8)"
proof -
  let ?d = "2 ^ nat (ce - ce') :: int"
  have t: "(10::real) powi k = 100000000 * 10 powi (k - 8)" by (simp add: power_int_diff)
  have e: "(2::real) powi (ce - 21) = ?d * 2 powi (ce' - 21)" using powi_shift [of "ce' - 21" "ce - 21"] assms(2) by simp
  have p: "(0::real) < 2 powi (ce' - 21)" by simp
  have "(lo * ?d div 100000000) * 100000000 * 2 powi (ce' - 21) \<le> real_of_int (lo * ?d) * 2 powi (ce' - 21)"
    using int_div_bounds(1) [of 100000000 "lo * ?d"] p by (intro mult_right_mono) simp_all
  also have "\<dots> = lo * 2 powi (ce - 21)" unfolding e by simp
  also have "\<dots> \<le> 10 powi k" using assms(1) unfolding power_between_def by simp
  finally have l: "(lo * ?d div 100000000) * 2 powi (ce' - 21) \<le> (10::real) powi (k - 8)" unfolding t by simp
  have "10 powi k \<le> real_of_int hi * 2 powi (ce - 21)" using assms(1) unfolding power_between_def by simp
  also have "\<dots> = real_of_int (hi * ?d) * 2 powi (ce' - 21)" unfolding e by simp
  also have "\<dots> \<le> real_of_int (hi * ?d div 100000000 + 1) * 100000000 * 2 powi (ce' - 21)"
    using int_div_bounds(2) [of 100000000 "hi * ?d"] p by (intro mult_right_mono) simp_all
  finally have "100000000 * 10 powi (k - 8) \<le> 100000000 * (real_of_int (hi * ?d div 100000000 + 1) * 2 powi (ce' - 21))"
    unfolding t by (simp only: mult_ac)
  then have "10 powi (k - 8) \<le> real_of_int (hi * ?d div 100000000 + 1) * 2 powi (ce' - 21)"
    by (rule mult_left_le_imp_le) simp
  with l show ?thesis unfolding power_between_def by simp
qed

lemma entry_near:
  assumes "power_between lo hi ce k" "entry_within lo hi f"
  shows "near_power (f, ce, k)"
proof -
  let ?u = "real (unat f)" and ?p = "(2::real) powi ce"
  have u: "real_of_int (uint f) = ?u" by simp
  have e: "?p = 2 ^ 21 * 2 powi (ce - 21)" using powi_shift [of "ce - 21" ce] by simp
  have p: "(0::real) < 2 powi (ce - 21)" by simp
  have "(2 * ?u - 1) * 2 ^ 20 \<le> real_of_int lo" "real_of_int hi \<le> (2 * ?u + 1) * 2 ^ 20"
    using assms(2) unfolding entry_within_def u [symmetric] by (simp_all only: of_int_le_iff [symmetric, where 'a = real]) simp_all
  then have "(2 * ?u - 1) * 2 ^ 20 * 2 powi (ce - 21) \<le> real_of_int lo * 2 powi (ce - 21)"
    "real_of_int hi * 2 powi (ce - 21) \<le> (2 * ?u + 1) * 2 ^ 20 * 2 powi (ce - 21)"
    using p by (simp_all only: mult_le_cancel_right_pos)
  then have "(2 * ?u - 1) * 2 ^ 20 * 2 powi (ce - 21) \<le> 10 powi k" "10 powi k \<le> (2 * ?u + 1) * 2 ^ 20 * 2 powi (ce - 21)"
    using assms(1) unfolding power_between_def by linarith+
  moreover have "(2 * ?u - 1) * 2 ^ 20 * 2 powi (ce - 21) = ?u * ?p - ?p / 2" "(2 * ?u + 1) * 2 ^ 20 * 2 powi (ce - 21) = ?u * ?p + ?p / 2"
    unfolding e by (simp_all add: algebra_simps)
  ultimately have "\<bar>?u * ?p - 10 powi k\<bar> \<le> ?p / 2" by linarith
  moreover have "2 ^ 63 \<le> unat f"
  proof -
    have "2 ^ 63 \<le> uint f" using assms(2) by (simp add: entry_within_def)
    then have "nat (2 ^ 63) \<le> nat (uint f)" by (rule nat_mono)
    then show ?thesis by simp
  qed
  ultimately show ?thesis by (simp add: near_power_def)
qed

lemma powers_up_near:
  "powers_up lo hi cs \<Longrightarrow> (cs \<noteq> [] \<Longrightarrow> power_between lo hi (fst (snd (hd cs))) (snd (snd (hd cs)))) \<Longrightarrow> list_all near_power cs"
  by (induction lo hi cs rule: powers_up.induct) (auto intro: entry_near power_between_up)

lemma powers_down_near:
  "powers_down lo hi cs \<Longrightarrow> (cs \<noteq> [] \<Longrightarrow> power_between lo hi (fst (snd (hd cs))) (snd (snd (hd cs)))) \<Longrightarrow> list_all near_power cs"
  by (induction lo hi cs rule: powers_down.induct) (auto intro: entry_near power_between_down)

lemma powers_checked:
  "powers_up (10 ^ 4 * 2 ^ 71) (10 ^ 4 * 2 ^ 71) (drop 38 kCachedPowers)"
  "powers_down (10 ^ 4 * 2 ^ 71) (10 ^ 4 * 2 ^ 71) (rev (take 39 kCachedPowers))"
  by code_simp+

theorem cached_powers_near: "list_all near_power kCachedPowers"
proof -
  have b: "power_between (10 ^ 4 * 2 ^ 71) (10 ^ 4 * 2 ^ 71) (- 50) 4"
    by (simp add: power_between_def power_int_def power_one_over)
  have h: "hd (drop 38 kCachedPowers) = (0x9C40000000000000, - 50, 4)" "hd (rev (take 39 kCachedPowers)) = (0x9C40000000000000, - 50, 4)"
    by (simp_all add: kCachedPowers_def)
  have "list_all near_power (drop 38 kCachedPowers)" "list_all near_power (rev (take 39 kCachedPowers))"
    using powers_up_near [OF powers_checked(1)] powers_down_near [OF powers_checked(2)] b h by simp_all
  moreover have "set kCachedPowers = set (take 38 kCachedPowers) \<union> set (drop 38 kCachedPowers)"
    unfolding set_append [symmetric] by simp
  moreover have "set (take 38 kCachedPowers) \<subseteq> set (rev (take 39 kCachedPowers))"
    unfolding set_rev by (rule set_take_subset_set_take) simp
  ultimately show ?thesis by (auto simp: list_all_iff)
qed

text \<open>Every exponent of a normalized double has a power that brings the product into the range the digits need.\<close>

lemma sdiv_bounds:
  fixes a b :: int
  assumes "0 < b"
  defines "k \<equiv> a sdiv b + (if 0 < a then 1 else 0)"
  shows "(k - 1) * b \<le> a" "a \<le> k * b"
proof -
  have q: "n div b * b \<le> n" "n < (n div b + 1) * b" for n
    using div_mult_mod_eq [of n b] pos_mod_bound [OF assms(1), of n] pos_mod_sign [OF assms(1), of n]
    by (simp_all only: distrib_right mult_1)
  consider "0 < a" "k = a div b + 1" | "a \<le> 0" "k = - ((- a) div b)"
    using assms(1) unfolding k_def signed_divide_int_def by (cases "0 < a"; cases "a = 0") auto
  then have "(k - 1) * b \<le> a \<and> a \<le> k * b"
  proof cases
    case 1
    then show ?thesis using q(1,2) [of a] by simp
  next
    case 2
    have "(k - 1) * b = - (- a div b * b) - b" "k * b = - (- a div b * b)" unfolding 2(2) by (simp_all add: algebra_simps)
    moreover have "(- a div b + 1) * b = - a div b * b + b" by (simp add: algebra_simps)
    ultimately show ?thesis using q [of "- a"] by linarith
  qed
  then show "(k - 1) * b \<le> a" "a \<le> k * b" by blast+
qed

lemma cached_exponents:
  "list_all (\<lambda>i. case kCachedPowers ! i of (f, ce, k) \<Rightarrow>
     k = 8 * int i - 300 \<and> (ce + 34) * 78913 < (k - 8) * 2 ^ 18 \<and> k * 2 ^ 18 < (ce + 64) * 78913) [0..<79]"
  by code_simp

theorem cached_power_found:
  assumes "- 1137 \<le> e" "e \<le> 960"
  shows "\<exists>f ce k. get_cached_power_for_binary_exponent e = Inr (f, ce, k) \<and> near_power (f, ce, k) \<and>
    - 60 \<le> ce + e + 64 \<and> ce + e + 64 \<le> - 32 \<and> - 300 \<le> k \<and> k \<le> 324"
proof -
  define x where "x = kAlpha - e - 1"
  define K where "K = (x * 78913) sdiv 2 ^ 18 + (if 0 < x then 1 else 0)"
  have x: "- 1021 \<le> x" "x \<le> 1076" "e = - 61 - x" using assms by (simp_all add: x_def kAlpha_def)
  have pos: "0 < x * 78913 \<longleftrightarrow> 0 < x" by simp
  have K: "(K - 1) * 2 ^ 18 \<le> x * 78913" "x * 78913 \<le> K * 2 ^ 18"
    using sdiv_bounds [of "2 ^ 18" "x * 78913"] unfolding K_def pos by simp_all
  have r: "- 307 \<le> K" "K \<le> 324" using K x(1,2) by simp_all
  define i where "i = nat ((307 + K) div 8)"
  have s: "(300 + K + (8 - 1)) sdiv 8 = (307 + K) div 8" using r by (cases "K = - 307") (simp_all add: signed_divide_int_def)
  have i: "(307 + K) div 8 = int i" "i < 79" "8 * int i - 307 \<le> K" "K \<le> 8 * int i - 300"
    using r div_mult_mod_eq [of "307 + K" 8] pos_mod_bound [of 8 "307 + K"] pos_mod_sign [of 8 "307 + K"]
    unfolding i_def by linarith+
  obtain f ce k where c: "kCachedPowers ! i = (f, ce, k)" by (cases "kCachedPowers ! i")
  have t: "k = 8 * int i - 300" "(ce + 34) * 78913 < (k - 8) * 2 ^ 18" "k * 2 ^ 18 < (ce + 64) * 78913"
    using cached_exponents [unfolded list_all_iff, rule_format, of i] i(2) unfolding c prod.case by simp_all
  have l: "length kCachedPowers = 79" by (simp add: kCachedPowers_def)
  have b: "- 60 \<le> ce + e + 64" "ce + e + 64 \<le> - 32" using K t i(3,4) x(3) by simp_all
  have "(f, ce, k) \<in> set kCachedPowers" using nth_mem [of i kCachedPowers] i(2) l c by simp
  then have n: "near_power (f, ce, k)" using cached_powers_near by (simp add: list_all_iff)
  have "get_cached_power_for_binary_exponent e = Inr (f, ce, k)"
    using assms i b unfolding get_cached_power_for_binary_exponent_def x_def [symmetric] Let_def K_def [symmetric] s
    by (simp add: l c kAlpha_def kGamma_def)
  then show ?thesis using n b t(1) i(2) by auto
qed


end
