(* ===== verification/JsonGrisu.thy ===== *)
theory JsonGrisu
  imports JsonPowers
begin

unbundle bit_operations_syntax

text \<open>
  Grisu2 (JsonFloat) is correct: for every positive finite double it returns without a failed assertion or a write
  past the buffer, and its digits, at most 17, denote a number strictly between the boundaries of the
  double, so a reader that rounds correctly gets the same double.
\<close>

section \<open>Digits in a buffer\<close>

text \<open>The first \<open>len\<close> bytes are digits, the first of them not a zero.\<close>

definition digits_in :: "string \<Rightarrow> nat \<Rightarrow> bool" where
  "digits_in buf len \<longleftrightarrow>
     0 < len \<and> len \<le> length buf \<and> list_all is_digit (take len buf) \<and> 10 ^ (len - 1) \<le> digits_val (take len buf)"

abbreviation value_in :: "string \<Rightarrow> nat \<Rightarrow> nat" where
  "value_in buf len \<equiv> digits_val (take len buf)"

lemma digit_char_inject: "a < 10 \<Longrightarrow> b < 10 \<Longrightarrow> digit_char a = digit_char b \<longleftrightarrow> a = b"
  by (metis digit_val_digit_char)

lemma char_dec_digit: "0 < d \<Longrightarrow> d < 10 \<Longrightarrow> char_dec (digit_char d) = digit_char (d - 1)"
  by (subst code_of_inject [symmetric], subst code_of_char_dec) (simp add: code_of_digit_char)

lemma zero_char: "CHR ''0'' = digit_char 0"
  by (simp add: digit_char_def char_of_def bit_0)

lemma take_put: "len < length buf \<Longrightarrow> take (Suc len) (buf[len := c]) = take len buf @ [c]"
  by (simp add: take_Suc_conv_app_nth)

lemma mem_write_digit: "len < length buf \<Longrightarrow> mem_write len [c] buf = Inr (buf[len := c])"
  by (simp add: mem_write_def write_at_def upd_conv_take_nth_drop)

lemma digits_in_put:
  assumes "len < length buf" "d < 10" "list_all is_digit (take len buf)"
    "if len = 0 then 0 < d else 10 ^ (len - 1) \<le> value_in buf len"
  shows "digits_in (buf[len := digit_char d]) (Suc len)"
    "value_in (buf[len := digit_char d]) (Suc len) = 10 * value_in buf len + d"
proof -
  have "(10::nat) ^ len \<le> 10 * value_in buf len + d"
  proof (cases len)
    case 0
    then show ?thesis using assms(4) by simp
  next
    case (Suc n)
    then have "10 ^ n \<le> value_in buf len" using assms(4) by simp
    then show ?thesis unfolding Suc power_Suc by simp
  qed
  then show "digits_in (buf[len := digit_char d]) (Suc len)"
    using assms(1-3) by (simp add: digits_in_def take_put is_digit_digit_char digit_val_digit_char)
  show "value_in (buf[len := digit_char d]) (Suc len) = 10 * value_in buf len + d"
    using assms(1,2) by (simp add: take_put digit_val_digit_char)
qed

section \<open>Rounding\<close>

text \<open>Rounding takes \<open>j\<close> units off the last digit, which stays above zero, and stays inside the interval.\<close>

lemma round_loop_result:
  assumes "unat rest \<le> unat delta" "unat delta < unat rest + d * unat ten_k" "d < 10" "len < length buf"
    "buf ! len = digit_char d"
  shows "\<exists>j. round_loop buf (Suc len) dst delta rest ten_k = Inr (buf[len := digit_char (d - j)]) \<and> j < d \<and>
    unat rest + j * unat ten_k \<le> unat delta"
  using assms
proof (induction d arbitrary: buf rest)
  case 0
  then show ?case by simp
next
  case (Suc d)
  show ?case
  proof (cases "rest < dst \<and> ten_k \<le> delta - rest \<and> (rest + ten_k < dst \<or> rest + ten_k - dst < dst - rest)")
    case False
    then have "round_loop buf (Suc len) dst delta rest ten_k = Inr buf" by (subst round_loop.simps) (simp only: False if_False)
    then show ?thesis using Suc.prems(1,5) by (intro exI [of _ 0]) (metis list_update_id diff_zero zero_less_Suc add.right_neutral mult_0)
  next
    case True
    have "unat (delta - rest) = unat delta - unat rest" using Suc.prems(1) by (intro unat_minus) (simp add: word_le_nat_alt)
    moreover have "unat ten_k \<le> unat (delta - rest)" using True unfolding word_le_nat_alt by blast
    ultimately have t: "unat rest + unat ten_k \<le> unat delta" using Suc.prems(1) by linarith
    then have u: "unat (rest + ten_k) = unat rest + unat ten_k" using unat_less64 [of delta] by (intro unat_plus) simp
    have nz: "buf ! len \<noteq> CHR ''0''" using Suc.prems(3,5) by (simp add: zero_char digit_char_inject)
    have dec: "char_dec (buf ! len) = digit_char d" using char_dec_digit [of "Suc d"] Suc.prems(3,5) by simp
    have r: "round_loop buf (Suc len) dst delta rest ten_k =
        round_loop (buf[len := digit_char d]) (Suc len) dst delta (rest + ten_k) ten_k"
      using True nz dec Suc.prems(4) by (subst round_loop.simps) simp
    have "\<exists>j. round_loop (buf[len := digit_char d]) (Suc len) dst delta (rest + ten_k) ten_k =
        Inr ((buf[len := digit_char d])[len := digit_char (d - j)]) \<and> j < d \<and> unat (rest + ten_k) + j * unat ten_k \<le> unat delta"
      using t Suc.prems(2-4) by (intro Suc.IH) (simp_all add: u)
    then obtain j where "round_loop (buf[len := digit_char d]) (Suc len) dst delta (rest + ten_k) ten_k =
        Inr (buf[len := digit_char (d - j)])" "j < d" "unat (rest + ten_k) + j * unat ten_k \<le> unat delta" by auto
    then show ?thesis unfolding r u by (intro exI [of _ "Suc j"]) simp
  qed
qed

lemma grisu2_round_result:
  assumes "unat dst \<le> unat delta" "unat rest \<le> unat delta" "unat delta < unat rest + d * unat ten_k" "d < 10" "len < length buf"
    "list_all is_digit (take len buf)" "if len = 0 then True else 10 ^ (len - 1) \<le> value_in buf len"
  shows "\<exists>buf'. grisu2_round (buf[len := digit_char d]) (Suc len) dst delta rest ten_k = Inr buf' \<and>
    length buf' = length buf \<and> digits_in buf' (Suc len) \<and>
    (\<exists>j. value_in buf' (Suc len) + j = 10 * value_in buf len + d \<and> unat rest + j * unat ten_k \<le> unat delta)"
proof -
  let ?b = "buf[len := digit_char d]"
  have "0 < unat ten_k" using assms(2,3) by (cases "unat ten_k") simp_all
  then have "grisu2_round ?b (Suc len) dst delta rest ten_k = round_loop ?b (Suc len) dst delta rest ten_k"
    using assms(1,2) by (simp add: grisu2_round_def word_le_nat_alt word_less_nat_alt)
  moreover obtain j where j: "round_loop ?b (Suc len) dst delta rest ten_k = Inr (?b[len := digit_char (d - j)])" "j < d"
    "unat rest + j * unat ten_k \<le> unat delta"
    using round_loop_result [of rest delta d ten_k len ?b dst] assms(2-5) by auto
  moreover have "digits_in (buf[len := digit_char (d - j)]) (Suc len)"
    "value_in (buf[len := digit_char (d - j)]) (Suc len) = 10 * value_in buf len + (d - j)"
    using assms(4-7) j(2) by (intro digits_in_put; simp split: if_splits)+
  moreover have "10 * value_in buf len + (d - j) + j = 10 * value_in buf len + d" using j(2) by simp
  ultimately show ?thesis by (intro exI [of _ "buf[len := digit_char (d - j)]"] conjI exI [of _ j]) simp_all
qed

section \<open>The digits\<close>

text \<open>
  What \<open>grisu2_digit_gen\<close> makes of the interval from \<open>lo\<close> to \<open>hi\<close>, both in units of which \<open>one\<close> is 1: a number
  in it, \<open>value_in buf len * 10 ^ n / 10 ^ m\<close>, whose last digit is not much finer than the interval.
\<close>

definition generated :: "nat \<Rightarrow> nat \<Rightarrow> nat \<Rightarrow> string \<Rightarrow> nat \<Rightarrow> nat \<Rightarrow> nat \<Rightarrow> bool" where
  "generated lo hi one buf len n m \<longleftrightarrow>
     digits_in buf len \<and>
     lo * 10 ^ m \<le> value_in buf len * (10 ^ n * one) \<and> value_in buf len * (10 ^ n * one) \<le> hi * 10 ^ m \<and>
     (hi - lo) * 10 ^ m < 10 * (10 ^ n * one)"

text \<open>The number is at most 17 digits long when the interval is not too small.\<close>

lemma generated_short:
  assumes "generated lo hi one buf len n m" "hi \<le> 10 ^ 16 * (hi - lo)"
  shows "len \<le> 17"
proof -
  have d: "10 ^ (len - 1) \<le> value_in buf len" "value_in buf len * (10 ^ n * one) \<le> hi * 10 ^ m"
    "(hi - lo) * 10 ^ m < 10 * (10 ^ n * one)"
    using assms(1) by (auto simp: generated_def digits_in_def)
  have "10 ^ (len - 1) * ((hi - lo) * 10 ^ m) < 10 ^ (len - 1) * (10 * (10 ^ n * one))" using d(3) by simp
  also have "\<dots> \<le> 10 * (value_in buf len * (10 ^ n * one))" using mult_le_mono1 [OF d(1), of "10 * (10 ^ n * one)"] by (simp only: mult_ac)
  also have "\<dots> \<le> 10 * (hi * 10 ^ m)" using d(2) by simp
  also have "\<dots> \<le> 10 * (10 ^ 16 * (hi - lo) * 10 ^ m)" using assms(2) by (intro mult_le_mono2 mult_le_mono1)
  also have "\<dots> = 10 ^ 17 * ((hi - lo) * 10 ^ m)" by (simp add: mult.assoc)
  finally have "(10::nat) ^ (len - 1) < 10 ^ 17" by (simp only: mult_less_cancel2)
  then have "len - 1 < 17" by (rule power_less_imp_less_exp [rotated]) simp
  then show ?thesis by simp
qed

lemma unat_ucast_up: "unat (ucast (w :: 32 word) :: 64 word) = unat w"
  using unsigned_less [of w, where 'a = nat] by (simp add: unsigned_ucast_eq take_bit_nat_eq_self_iff)

lemma digit_split:
  fixes p :: nat
  assumes "p = d * N + r"
  shows "V * (10 * N) * B + (p * B + q) = (10 * V + d) * N * B + (r * B + q)" "p * B + q = (r * B + q) + d * (N * B)"
  unfolding assms by (simp_all add: algebra_simps)

text \<open>The digits of the integral part: they stop inside the interval, or the fraction alone is still outside.\<close>

lemma int_digits_result:
  assumes "hi = value_in buf len * 10 ^ n * 2 ^ sh + (unat p1 * 2 ^ sh + unat p2)" "unat p1 < 10 ^ n"
    "0 < n \<Longrightarrow> unat pow10 = 10 ^ (n - 1)" "0 < n \<Longrightarrow> 10 ^ (n - 1) * 2 ^ sh < (2::nat) ^ 64" "unat p2 < 2 ^ sh" "hi < 2 ^ 64"
    "unat delta < unat p1 * 2 ^ sh + unat p2" "unat delta = hi - lo" "lo \<le> hi" "unat dst \<le> unat delta"
    "len + n \<le> length buf" "list_all is_digit (take len buf)"
    "if len = 0 then 0 < n \<and> 10 ^ (n - 1) \<le> unat p1 else 10 ^ (len - 1) \<le> value_in buf len"
  shows "\<exists>buf' len' n'. length buf' = length buf \<and>
    (int_digits n p1 pow10 sh p2 dst delta (buf, len, e) = Inr (Inl (buf', len', e + int n')) \<and>
       generated lo hi (2 ^ sh) buf' len' n' 0 \<or>
     int_digits n p1 pow10 sh p2 dst delta (buf, len, e) = Inr (Inr (buf', len', e)) \<and> digits_in buf' len' \<and>
       hi = value_in buf' len' * 2 ^ sh + unat p2 \<and> unat delta < unat p2)"
  using assms
proof (induction n arbitrary: p1 pow10 buf len)
  case 0
  then have "digits_in buf len" by (simp add: digits_in_def split: if_splits)
  then show ?case using "0.prems" by (intro exI [of _ buf] exI [of _ len]) simp
next
  case (Suc n)
  let ?one = "2 ^ sh :: nat" and ?d = "unat p1 div 10 ^ n" and ?r = "unat p1 mod 10 ^ n" and ?V = "value_in buf len"
  have pow: "unat pow10 = 10 ^ n" "pow10 \<noteq> 0" using Suc.prems(3) by (auto simp: word_unat_eq_iff)
  have d: "unat (p1 div pow10) = ?d" "unat (p1 mod pow10) = ?r" by (simp_all only: unat_div_distrib unat_mod_distrib pow)
  have d9: "?d < 10" using Suc.prems(2) by (simp add: less_mult_imp_div_less)
  then have d9': "p1 div pow10 \<le> 9" unfolding word_le_nat_alt d by simp
  have r10: "?r < 10 ^ n" by simp
  have split: "unat p1 = ?d * 10 ^ n + ?r" by (rule div_mult_mod_eq [symmetric])
  have hi: "hi = (10 * ?V + ?d) * 10 ^ n * ?one + (?r * ?one + unat p2)"
    unfolding Suc.prems(1) power_Suc by (rule digit_split(1) [OF split])
  have len: "len < length buf" using Suc.prems(11) by simp
  let ?b = "buf[len := digit_char ?d]"
  have lead: "if len = 0 then 0 < ?d else 10 ^ (len - 1) \<le> ?V"
    using Suc.prems(13) by (auto simp: div_greater_zero_iff split: if_splits)
  note put = digits_in_put [OF len d9 Suc.prems(12) lead]
  define rest where "rest = push_bit sh (ucast (p1 mod pow10)) + p2"
  have small: "?r * ?one + unat p2 < 2 ^ 64" using Suc.prems(6) unfolding hi by linarith
  then have "unat (push_bit sh (ucast (p1 mod pow10) :: 64 word)) = ?r * ?one"
    using unat_push [of "ucast (p1 mod pow10) :: 64 word" sh] by (simp add: unat_ucast_up d(2))
  then have rest: "unat rest = ?r * ?one + unat p2" using small unfolding rest_def by (subst unat_plus) simp_all
  define ten where "ten = push_bit sh (ucast pow10 :: 64 word)"
  have ten: "unat ten = 10 ^ n * ?one"
    using unat_push [of "ucast pow10 :: 64 word" sh] Suc.prems(4) unfolding ten_def by (simp add: unat_ucast_up pow(1))
  have whole: "unat p1 * ?one + unat p2 = unat rest + ?d * unat ten"
    unfolding rest ten by (rule digit_split(2) [OF split])
  have step: "int_digits (Suc n) p1 pow10 sh p2 dst delta (buf, len, e) =
      (if rest \<le> delta then rbind (grisu2_round ?b (Suc len) dst delta rest ten) (\<lambda>b. Inr (Inl (b, Suc len, e + int n)))
       else int_digits n (p1 mod pow10) (pow10 div 10) sh p2 dst delta (?b, Suc len, e))"
    using pow(2) d9' len unfolding int_digits.simps Let_def d(1) mem_write_digit [OF len] rest_def [symmetric] ten_def [symmetric]
    by simp
  show ?case
  proof (cases "rest \<le> delta")
    case True
    then have le: "unat rest \<le> unat delta" by (simp add: word_le_nat_alt)
    have lt: "unat delta < unat rest + ?d * unat ten" using Suc.prems(7) unfolding whole .
    obtain buf' j where b: "grisu2_round ?b (Suc len) dst delta rest ten = Inr buf'" "length buf' = length buf"
      "digits_in buf' (Suc len)" "value_in buf' (Suc len) + j = 10 * ?V + ?d" "unat rest + j * unat ten \<le> unat delta"
      using grisu2_round_result [OF Suc.prems(10) le lt d9 len Suc.prems(12)] lead by (auto split: if_splits)
    have "hi = value_in buf' (Suc len) * (10 ^ n * ?one) + (j * unat ten + unat rest)"
      unfolding hi b(4) [symmetric] ten rest by (simp add: algebra_simps)
    moreover have "unat delta < 10 * (10 ^ n * ?one)"
    proof -
      have "Suc (unat p1) * ?one \<le> 10 ^ Suc n * ?one" using Suc.prems(2) by (intro mult_le_mono1) simp
      then show ?thesis using Suc.prems(5,7) by (simp add: algebra_simps)
    qed
    ultimately have "generated lo hi ?one buf' (Suc len) n 0"
      using b(3,5) Suc.prems(8,9) unfolding generated_def by simp
    then show ?thesis using b(1,2) True unfolding step by auto
  next
    case False
    have "\<exists>buf' len' n'. length buf' = length ?b \<and>
      (int_digits n (p1 mod pow10) (pow10 div 10) sh p2 dst delta (?b, Suc len, e) = Inr (Inl (buf', len', e + int n')) \<and>
         generated lo hi ?one buf' len' n' 0 \<or>
       int_digits n (p1 mod pow10) (pow10 div 10) sh p2 dst delta (?b, Suc len, e) = Inr (Inr (buf', len', e)) \<and>
         digits_in buf' len' \<and> hi = value_in buf' len' * ?one + unat p2 \<and> unat delta < unat p2)"
    proof (rule Suc.IH)
      show "hi = value_in ?b (Suc len) * 10 ^ n * ?one + (unat (p1 mod pow10) * ?one + unat p2)" unfolding put(2) d(2) by (rule hi)
      show "unat (p1 mod pow10) < 10 ^ n" unfolding d(2) by (rule r10)
      show "unat (pow10 div 10) = 10 ^ (n - 1)" if "0 < n" using that by (cases n) (simp_all add: unat_div_distrib pow(1))
      show "10 ^ (n - 1) * 2 ^ sh < (2::nat) ^ 64" if "0 < n"
      proof -
        have "10 ^ (n - 1) * 2 ^ sh \<le> 10 ^ n * (2 ^ sh :: nat)" by (intro mult_le_mono1 power_increasing) simp_all
        also have "\<dots> < 2 ^ 64" using Suc.prems(4) [OF zero_less_Suc] by simp
        finally show ?thesis .
      qed
      show "unat delta < unat (p1 mod pow10) * ?one + unat p2" using False unfolding d(2) rest [symmetric] by (simp add: word_le_nat_alt)
      show "Suc len + n \<le> length ?b" using Suc.prems(11) by simp
      show "list_all is_digit (take (Suc len) ?b)" using put(1) by (simp add: digits_in_def)
      show "if Suc len = 0 then 0 < n \<and> 10 ^ (n - 1) \<le> unat (p1 mod pow10) else 10 ^ (Suc len - 1) \<le> value_in ?b (Suc len)"
        using put(1) by (simp add: digits_in_def)
    qed (use Suc.prems in simp_all)
    then show ?thesis using False unfolding step by simp
  qed
qed

text \<open>The digits of the fraction.\<close>

lemma room_for_digit:
  assumes "digits_in buf len" "hi * 10 ^ m = value_in buf len * one + p" "(hi - lo) * 10 ^ m < one" "hi \<le> 10 ^ 16 * (hi - lo)"
  shows "len \<le> 16"
proof -
  have d: "10 ^ (len - 1) \<le> value_in buf len" using assms(1) by (simp add: digits_in_def)
  have "10 ^ (len - 1) * ((hi - lo) * 10 ^ m) < 10 ^ (len - 1) * one" using assms(3) by simp
  also have "\<dots> \<le> value_in buf len * one" using d by (rule mult_le_mono1)
  also have "\<dots> \<le> hi * 10 ^ m" unfolding assms(2) by simp
  also have "\<dots> \<le> 10 ^ 16 * (hi - lo) * 10 ^ m" using assms(4) by (rule mult_le_mono1)
  also have "\<dots> = 10 ^ 16 * ((hi - lo) * 10 ^ m)" by (rule mult.assoc)
  finally have "(10::nat) ^ (len - 1) < 10 ^ 16" by (simp only: mult_less_cancel2)
  then have "len - 1 < 16" by (rule power_less_imp_less_exp [rotated]) simp
  then show ?thesis by simp
qed

lemma generated_fraction:
  assumes "hi * 10 ^ m = value_in buf len * one + x" "digits_in buf len" "x \<le> w" "w = (hi - lo) * 10 ^ m" "w < 10 * one" "lo \<le> hi"
  shows "generated lo hi one buf len 0 m"
proof -
  have "hi * 10 ^ m = lo * 10 ^ m + (hi - lo) * 10 ^ m" unfolding add_mult_distrib [symmetric] using assms(6) by simp
  then have "lo * 10 ^ m \<le> value_in buf len * one" "value_in buf len * one \<le> hi * 10 ^ m" using assms(1,3,4) by linarith+
  then show ?thesis using assms(2,4,5) by (simp add: generated_def)
qed

lemma frac_digits_result:
  assumes "hi * 10 ^ m = value_in buf len * 2 ^ sh + unat p2" "unat p2 < 2 ^ sh" "unat delta = (hi - lo) * 10 ^ m"
    "unat delta < unat p2" "lo \<le> hi" "unat dst \<le> unat delta" "sh \<le> 60" "digits_in buf len" "hi \<le> 10 ^ 16 * (hi - lo)"
    "17 \<le> length buf"
  shows "\<exists>buf' len' m'. frac_digits sh p2 dst delta m (buf, len, e) = Inr (buf', len', e - int m') \<and>
    length buf' = length buf \<and> generated lo hi (2 ^ sh) buf' len' 0 m'"
  using assms
proof (induction sh p2 dst delta m "(buf, len, e)" arbitrary: buf len rule: frac_digits.induct)
  case (1 sh p2 dst delta m buf len)
  note prems = 1(2-11)
  let ?one = "2 ^ sh :: nat" and ?d = "unat p2 * 10 div 2 ^ sh" and ?r = "unat p2 * 10 mod 2 ^ sh" and ?V = "value_in buf len"
  have one: "?one \<le> 2 ^ 60" using prems(7) by (rule power_increasing) simp
  have p10: "unat (p2 * 10) = unat p2 * 10" and q10: "unat (delta * 10) = unat delta * 10" and s10: "unat (dst * 10) = unat dst * 10"
    using prems(2,4,6) one by (subst unat_times; simp)+
  have d: "unat (drop_bit sh (p2 * 10)) = ?d" by (simp only: unat_drop p10)
  have "p2 * 10 AND (push_bit sh 1 - 1) = take_bit sh (p2 * 10)" by (simp add: take_bit_eq_mask mask_eq_exp_minus_1 push_bit_eq_mult)
  then have r: "unat (p2 * 10 AND (push_bit sh 1 - 1)) = ?r" by (simp only: unsigned_take_bit_eq take_bit_nat_def p10)
  have ten: "unat (push_bit sh 1 :: 64 word) = ?one" using unat_push [of "1 :: 64 word" sh] one by simp
  have d9: "?d < 10" using prems(2) by (simp add: less_mult_imp_div_less)
  have len: "len < length buf" using room_for_digit [OF prems(8,1) _ prems(9)] prems(2-4,10) by simp
  let ?b = "buf[len := digit_char ?d]"
  have digits: "list_all is_digit (take len buf)" "0 < len" "10 ^ (len - 1) \<le> ?V" using prems(8) by (simp_all add: digits_in_def)
  then have lead: "if len = 0 then 0 < ?d else 10 ^ (len - 1) \<le> ?V" by simp
  note put = digits_in_put [OF len d9 digits(1) lead]
  have split: "unat p2 * 10 = ?d * ?one + ?r" by (rule div_mult_mod_eq [symmetric])
  have hi: "hi * 10 ^ Suc m = (10 * ?V + ?d) * ?one + ?r" using prems(1) split by (simp add: algebra_simps)
  have guard: "\<not> (- 1) div 10 < p2"
    using prems(2) one unfolding word_less_nat_alt unat_div_distrib by (simp add: unsigned_minus_1_eq_mask mask_eq_exp_minus_1)
  have le9: "\<not> 9 < drop_bit sh (p2 * 10)" using d9 by (simp add: word_less_nat_alt d)
  have nl: "\<not> length buf \<le> len" using len by simp
  have step: "frac_digits sh p2 dst delta m (buf, len, e) =
      (if p2 * 10 AND (push_bit sh 1 - 1) \<le> delta * 10 then
         rbind (grisu2_round ?b (Suc len) (dst * 10) (delta * 10) (p2 * 10 AND (push_bit sh 1 - 1)) (push_bit sh 1))
           (\<lambda>b. Inr (b, Suc len, e - int (Suc m)))
       else frac_digits sh (p2 * 10 AND (push_bit sh 1 - 1)) (dst * 10) (delta * 10) (Suc m) (?b, Suc len, e))"
    unfolding Suc_eq_plus1 by (subst frac_digits.simps) (simp only: guard le9 nl Let_def d if_False)
  show ?case
  proof (cases "p2 * 10 AND (push_bit sh 1 - 1) \<le> delta * 10")
    case True
    then have le: "?r \<le> unat delta * 10" unfolding word_le_nat_alt r q10 .
    have lt: "unat delta * 10 < ?r + ?d * ?one" using prems(4) split by simp
    obtain buf' j where b: "grisu2_round ?b (Suc len) (dst * 10) (delta * 10) (p2 * 10 AND (push_bit sh 1 - 1)) (push_bit sh 1) = Inr buf'"
      "length buf' = length buf" "digits_in buf' (Suc len)" "value_in buf' (Suc len) + j = 10 * ?V + ?d" "?r + j * ?one \<le> unat delta * 10"
      using grisu2_round_result [of "dst * 10" "delta * 10" "p2 * 10 AND (push_bit sh 1 - 1)" ?d "push_bit sh 1" len buf]
        prems(6) le lt d9 len digits lead unfolding r q10 s10 ten by auto
    have "hi * 10 ^ Suc m = value_in buf' (Suc len) * ?one + (?r + j * ?one)" unfolding hi b(4) [symmetric] by (simp add: algebra_simps)
    then have "generated lo hi ?one buf' (Suc len) 0 (Suc m)"
    proof (rule generated_fraction)
      show "digits_in buf' (Suc len)" by (rule b(3))
      show "?r + j * ?one \<le> unat delta * 10" by (rule b(5))
      show "unat delta * 10 = (hi - lo) * 10 ^ Suc m" unfolding prems(3) by simp
      show "unat delta * 10 < 10 * ?one" using prems(2,4) by simp
    qed (rule prems(5))
    then show ?thesis using b(1,2) True unfolding step
      by (intro exI [of _ buf'] exI [of _ "Suc len"] exI [of _ "Suc m"]) simp
  next
    case False
    have "\<exists>buf' len' m'. frac_digits sh (p2 * 10 AND (push_bit sh 1 - 1)) (dst * 10) (delta * 10) (Suc m) (?b, Suc len, e) =
        Inr (buf', len', e - int m') \<and> length buf' = length ?b \<and> generated lo hi (2 ^ sh) buf' len' 0 m'"
      unfolding Suc_eq_plus1 d [symmetric]
    proof (rule 1(1) [OF guard refl refl le9 nl refl])
      show "\<not> p2 * 10 AND (push_bit sh 1 - 1) \<le> delta * 10" by (rule False)
      show "hi * 10 ^ (m + 1) = value_in (buf[len := digit_char (unat (drop_bit sh (p2 * 10)))]) (len + 1) * 2 ^ sh + unat (p2 * 10 AND (push_bit sh 1 - 1))"
        using hi put(2) unfolding d r Suc_eq_plus1 by simp
      show "unat (p2 * 10 AND (push_bit sh 1 - 1)) < 2 ^ sh" unfolding r by simp
      show "unat (delta * 10) < unat (p2 * 10 AND (push_bit sh 1 - 1))" using False by (simp only: word_less_nat_alt [symmetric] not_le)
      show "digits_in (buf[len := digit_char (unat (drop_bit sh (p2 * 10)))]) (len + 1)" using put(1) unfolding d Suc_eq_plus1 .
      show "unat (dst * 10) \<le> unat (delta * 10)" unfolding q10 s10 using prems(6) by simp
      show "unat (delta * 10) = (hi - lo) * 10 ^ (m + 1)" unfolding q10 prems(3) by simp
    qed (use prems in simp_all)
    then show ?thesis using False unfolding step by simp
  qed
qed

text \<open>Both parts together.\<close>

lemma find_largest_pow10_result:
  assumes "0 < n"
  shows "\<exists>k pow10. find_largest_pow10 n = (k, pow10) \<and> 0 < k \<and> k \<le> 10 \<and> unat pow10 = 10 ^ (k - 1) \<and>
    10 ^ (k - 1) \<le> unat n \<and> unat n < 10 ^ k"
proof -
  have "0 < unat n" using assms by (simp add: word_less_nat_alt)
  moreover have "unat n < 2 ^ 32" using unsigned_less [of n, where 'a = nat] by simp
  ultimately show ?thesis unfolding find_largest_pow10_def word_le_nat_alt by simp
qed

theorem grisu2_digit_gen_result:
  assumes "fp_e M_plus = - int sh" "fp_e M_minus = - int sh" "fp_e w = - int sh" "32 \<le> sh" "sh \<le> 60"
    "M_minus_f = unat (fp_f M_minus)" "M_plus_f = unat (fp_f M_plus)"
    "M_minus_f \<le> unat (fp_f w)" "unat (fp_f w) \<le> M_plus_f" "0 < M_minus_f" "2 ^ 60 \<le> M_plus_f"
    "M_plus_f \<le> 10 ^ 16 * (M_plus_f - M_minus_f)" "17 \<le> length buf"
  shows "\<exists>buf' len n m. grisu2_digit_gen M_minus w M_plus (buf, 0, e) = Inr (buf', len, e + int n - int m) \<and>
    length buf' = length buf \<and> len \<le> 17 \<and> generated M_minus_f M_plus_f (2 ^ sh) buf' len n m"
proof -
  let ?one = "2 ^ sh :: nat"
  define lo hi where "lo = M_minus_f" and "hi = M_plus_f"
  define delta dst where "delta = fp_f M_plus - fp_f M_minus" and "dst = fp_f M_plus - fp_f w"
  define p1 where "p1 = (ucast (drop_bit sh (fp_f M_plus)) :: 32 word)"
  define p2 where "p2 = fp_f M_plus AND (push_bit sh 1 - 1)"
  have hi64: "hi < 2 ^ 64" unfolding hi_def assms(7) by (rule unat_less64)
  have one: "?one \<le> 2 ^ 60" "2 ^ 32 \<le> ?one" using assms(4,5) by (intro power_increasing; simp)+
  have le: "lo \<le> hi" using assms(8,9) unfolding lo_def hi_def by simp
  have sub: "fp_f M_minus \<le> fp_f M_plus" "fp_f w \<le> fp_f M_plus"
    using le assms(6,7,9) unfolding lo_def hi_def word_le_nat_alt by simp_all
  have delta: "unat delta = hi - lo" "unat dst \<le> unat delta"
    using sub assms(6-8) unfolding delta_def dst_def lo_def hi_def by (simp_all add: unat_minus)
  have "hi div ?one < 2 ^ 32"
  proof -
    have "hi < 2 ^ 32 * ?one" using hi64 one(2) by simp
    then show ?thesis by (rule less_mult_imp_div_less)
  qed
  then have p1: "unat p1 = hi div ?one"
    unfolding p1_def hi_def assms(7) by (simp add: unsigned_ucast_eq unat_drop take_bit_nat_eq_self)
  have "p2 = take_bit sh (fp_f M_plus)" unfolding p2_def by (simp add: take_bit_eq_mask mask_eq_exp_minus_1 push_bit_eq_mult)
  then have p2: "unat p2 = hi mod ?one" unfolding hi_def assms(7) by (simp only: unsigned_take_bit_eq take_bit_nat_def)
  have split: "hi = unat p1 * ?one + unat p2" unfolding p1 p2 by (rule div_mult_mod_eq [symmetric])
  have "0 < unat p1" unfolding p1 using one(1) assms(11) unfolding hi_def by (simp add: div_greater_zero_iff)
  then have pos: "0 < p1" by (simp add: word_less_nat_alt)
  obtain k pow10 where k: "find_largest_pow10 p1 = (k, pow10)" "0 < k" "k \<le> 10" "unat pow10 = 10 ^ (k - 1)"
    "10 ^ (k - 1) \<le> unat p1" "unat p1 < 10 ^ k" using find_largest_pow10_result [OF pos] by blast
  have gen: "grisu2_digit_gen M_minus w M_plus (buf, 0, e) =
      rbind (int_digits k p1 pow10 sh p2 dst delta (buf, 0, e))
        (\<lambda>r. case r of Inl done \<Rightarrow> Inr done
           | Inr out1 \<Rightarrow> require (delta < p2) AssertFailed (frac_digits sh p2 dst delta 0 out1))"
    using assms(1-5) sub pos k(1) unfolding delta_def dst_def p2_def
    by (simp add: grisu2_digit_gen_def diyfp_sub_def kAlpha_def kGamma_def Let_def p1_def [symmetric] del: push_bit_of_1)
  have "10 ^ (k - 1) * 2 ^ sh \<le> hi" using mult_le_mono1 [OF k(5), of ?one] unfolding split by linarith
  then have big: "10 ^ (k - 1) * 2 ^ sh < (2::nat) ^ 64" using hi64 by (rule le_less_trans)
  have "\<exists>buf' len' n'. length buf' = length buf \<and>
    (int_digits k p1 pow10 sh p2 dst delta (buf, 0, e) = Inr (Inl (buf', len', e + int n')) \<and>
       generated lo hi (2 ^ sh) buf' len' n' 0 \<or>
     int_digits k p1 pow10 sh p2 dst delta (buf, 0, e) = Inr (Inr (buf', len', e)) \<and> digits_in buf' len' \<and>
       hi = value_in buf' len' * 2 ^ sh + unat p2 \<and> unat delta < unat p2)"
  proof (rule int_digits_result)
    show "hi = value_in buf 0 * 10 ^ k * 2 ^ sh + (unat p1 * 2 ^ sh + unat p2)" using split by (simp add: digits_val_def)
    show "unat p2 < 2 ^ sh" unfolding p2 by simp
    show "unat delta < unat p1 * 2 ^ sh + unat p2" unfolding split [symmetric] delta(1) using assms(10) le unfolding lo_def by simp
  qed (use k delta le big hi64 assms(13) in simp_all)
  then obtain buf1 len1 n1 where b1: "length buf1 = length buf"
    "int_digits k p1 pow10 sh p2 dst delta (buf, 0, e) = Inr (Inl (buf1, len1, e + int n1)) \<and>
       generated lo hi (2 ^ sh) buf1 len1 n1 0 \<or>
     int_digits k p1 pow10 sh p2 dst delta (buf, 0, e) = Inr (Inr (buf1, len1, e)) \<and> digits_in buf1 len1 \<and>
       hi = value_in buf1 len1 * 2 ^ sh + unat p2 \<and> unat delta < unat p2" by blast
  have short: "generated lo hi (2 ^ sh) b l n m \<Longrightarrow> l \<le> 17" for b l n m
    using generated_short assms(12) unfolding lo_def hi_def by blast
  from b1(2) show ?thesis
  proof (elim disjE conjE)
    assume "int_digits k p1 pow10 sh p2 dst delta (buf, 0, e) = Inr (Inl (buf1, len1, e + int n1))" "generated lo hi (2 ^ sh) buf1 len1 n1 0"
    then show ?thesis using b1(1) short unfolding gen lo_def hi_def
      by - (rule exI [of _ buf1], rule exI [of _ len1], rule exI [of _ n1], rule exI [of _ 0], simp)
  next
    assume a: "int_digits k p1 pow10 sh p2 dst delta (buf, 0, e) = Inr (Inr (buf1, len1, e))" "digits_in buf1 len1"
      "hi = value_in buf1 len1 * 2 ^ sh + unat p2" "unat delta < unat p2"
    have "\<exists>buf' len' m'. frac_digits sh p2 dst delta 0 (buf1, len1, e) = Inr (buf', len', e - int m') \<and>
      length buf' = length buf1 \<and> generated lo hi (2 ^ sh) buf' len' 0 m'"
      using a(2-4) delta le assms(5,12,13) b1(1) p2 unfolding lo_def [symmetric] hi_def [symmetric]
      by (intro frac_digits_result) simp_all
    then obtain buf' len' m' where "frac_digits sh p2 dst delta 0 (buf1, len1, e) = Inr (buf', len', e - int m')"
      "length buf' = length buf1" "generated lo hi (2 ^ sh) buf' len' 0 m'" by blast
    then show ?thesis using b1(1) short a(1,4) unfolding gen lo_def hi_def
      by - (rule exI [of _ buf'], rule exI [of _ len'], rule exI [of _ 0], rule exI [of _ m'], simp add: word_less_nat_alt)
  qed
qed

section \<open>Grisu2\<close>

text \<open>The rounded products of the boundaries and the value by the power of ten.\<close>

definition scaled :: "nat \<Rightarrow> nat \<Rightarrow> nat" where
  "scaled c n = (n * c + 2 ^ 63) div 2 ^ 64"

lemma scaled_bounds: "scaled c n * 2 ^ 64 \<le> n * c + 2 ^ 63" "n * c < scaled c n * 2 ^ 64 + 2 ^ 63"
  using div_mult_mod_eq [of "n * c + 2 ^ 63" "2 ^ 64"] mod_less_divisor [of "2 ^ 64" "n * c + 2 ^ 63"]
  unfolding scaled_def by simp_all

lemma scaled_apart:
  assumes "2 ^ 63 \<le> c" "m + 2 ^ (k + 1) \<le> n"
  shows "scaled c m + 2 ^ k \<le> scaled c n"
proof -
  have "m * c + 2 ^ (k + 1) * 2 ^ 63 \<le> m * c + 2 ^ (k + 1) * c" using assms(1) by simp
  also have "\<dots> \<le> n * c" unfolding add_mult_distrib [symmetric] using assms(2) by (rule mult_le_mono1)
  finally have "m * c + 2 ^ k * 2 ^ 64 \<le> n * c" by simp
  then have "scaled c m * 2 ^ 64 + 2 ^ k * 2 ^ 64 < scaled c n * 2 ^ 64 + 2 ^ 64"
    using scaled_bounds(1) [of c m] scaled_bounds(2) [of n c] by simp
  then have "(scaled c m + 2 ^ k) * 2 ^ 64 < (scaled c n + 1) * 2 ^ 64" by (simp add: add_mult_distrib)
  then have "scaled c m + 2 ^ k < scaled c n + 1" by (simp only: mult_less_cancel2)
  then show ?thesis by simp
qed

lemma scaled_wide:
  assumes "2 ^ 63 \<le> c" "m + 2 ^ 10 \<le> n" "n \<le> 2 ^ 53 * (n - m)"
  shows "scaled c n - 1 \<le> 10 ^ 16 * ((scaled c n - 1) - (scaled c m + 1))"
proof -
  let ?q = "(n - m) * c" and ?d = "(scaled c n - 1) - (scaled c m + 1)"
  have apart: "scaled c m + 2 ^ 9 \<le> scaled c n" using scaled_apart [OF assms(1), of m 9 n] assms(2) by simp
  have "n * c = m * c + ?q" unfolding add_mult_distrib [symmetric] using assms(2) by simp
  then have d: "?q < (?d + 3) * 2 ^ 64"
    using apart scaled_bounds(1) [of c m] scaled_bounds(2) [of n c] by simp
  have "2 ^ 10 * 2 ^ 63 \<le> ?q" using assms(1,2) by (intro mult_le_mono) simp_all
  then have big: "2 ^ 9 \<le> ?d + 3" using d by simp
  have "n * c \<le> 2 ^ 53 * ?q" using mult_le_mono1 [OF assms(3), of c] by (simp only: mult.assoc)
  have "scaled c n * 2 ^ 64 \<le> n * c + 2 ^ 63" by (rule scaled_bounds)
  also have "\<dots> \<le> 2 ^ 53 * ?q + 2 ^ 63" using \<open>n * c \<le> 2 ^ 53 * ?q\<close> by (rule add_right_mono)
  also have "\<dots> \<le> 2 ^ 53 * ((?d + 3) * 2 ^ 64) + 2 ^ 63" using d by (intro add_right_mono mult_le_mono2) (rule less_imp_le)
  finally have "scaled c n \<le> 2 ^ 53 * (?d + 3) + 1" by simp
  then show ?thesis using big by simp
qed

text \<open>Back from the scaled integers to the double: the error of the power and of the product is less than the unit put in.\<close>

lemma scaled_inside:
  assumes "near_power (f, ce, k)" "c = unat f" "n < 2 ^ 64"
  shows "(real (scaled c n) - 1) * 2 powi (e + ce + 64) < real n * 2 powi e * 10 powi k"
    "real n * 2 powi e * 10 powi k < (real (scaled c n) + 1) * 2 powi (e + ce + 64)"
proof -
  let ?p = "(2::real) powi (e + ce)" and ?s = "real (scaled c n)"
  have p: "0 < ?p" by simp
  have e: "(2::real) powi (e + ce + 64) = 2 ^ 64 * ?p" using powi_shift [of "e + ce" "e + ce + 64"] by simp
  have ten: "(real c - 1 / 2) * 2 powi ce \<le> 10 powi k" "10 powi k \<le> (real c + 1 / 2) * 2 powi ce"
  proof -
    have "\<bar>real c * 2 powi ce - 10 powi k\<bar> \<le> 2 powi ce / 2" using assms(1) unfolding near_power_def prod.case assms(2) by blast
    then have "real c * 2 powi ce - 2 powi ce / 2 \<le> 10 powi k" "10 powi k \<le> real c * 2 powi ce + 2 powi ce / 2"
      by (simp_all only: abs_le_iff) linarith+
    then show "(real c - 1 / 2) * 2 powi ce \<le> 10 powi k" "10 powi k \<le> (real c + 1 / 2) * 2 powi ce"
      by (simp_all add: left_diff_distrib distrib_right)
  qed
  have mul: "2 powi e * 2 powi ce = ?p" by (simp add: power_int_add)
  have "real n * 2 powi e * ((real c - 1 / 2) * 2 powi ce) \<le> real n * 2 powi e * 10 powi k"
    "real n * 2 powi e * 10 powi k \<le> real n * 2 powi e * ((real c + 1 / 2) * 2 powi ce)"
    using ten by (auto intro!: mult_left_mono)
  then have b: "(real n * real c - real n / 2) * ?p \<le> real n * 2 powi e * 10 powi k"
    "real n * 2 powi e * 10 powi k \<le> (real n * real c + real n / 2) * ?p"
    unfolding mul [symmetric] by (simp_all add: algebra_simps)
  have "real (scaled c n * 2 ^ 64) \<le> real (n * c + 2 ^ 63)" "real (n * c) < real (scaled c n * 2 ^ 64 + 2 ^ 63)"
    using scaled_bounds(1) [of c n] scaled_bounds(2) [of n c] by (simp_all only: of_nat_le_iff of_nat_less_iff)
  then have s: "?s * 2 ^ 64 \<le> real n * real c + 2 ^ 63" "real n * real c < ?s * 2 ^ 64 + 2 ^ 63" by simp_all
  have "real n < real (2 ^ 64)" using assms(3) unfolding of_nat_less_iff .
  then have n: "real n < 2 ^ 64" by simp
  have "(?s - 1) * 2 ^ 64 < real n * real c - real n / 2" "real n * real c + real n / 2 < (?s + 1) * 2 ^ 64"
    using s n by (simp_all add: algebra_simps)
  then have "(?s - 1) * 2 ^ 64 * ?p < (real n * real c - real n / 2) * ?p" "(real n * real c + real n / 2) * ?p < (?s + 1) * 2 ^ 64 * ?p"
    using p by (simp_all only: mult_less_cancel_right_pos)
  then show "(?s - 1) * 2 powi (e + ce + 64) < real n * 2 powi e * 10 powi k"
    "real n * 2 powi e * 10 powi k < (?s + 1) * 2 powi (e + ce + 64)"
    using b unfolding e by (simp_all only: mult.assoc)
qed

lemma boundary_gaps:
  fixes sig p m s :: nat
  assumes "sig < 2 ^ 53" "11 \<le> s" "p = sig * 2 ^ s + 2 ^ (s - 1)" "m + (if near then 2 ^ (s - 2) else 2 ^ (s - 1)) = sig * 2 ^ s"
    "near \<Longrightarrow> sig = 2 ^ 52"
  shows "sig * 2 ^ s + 2 ^ 10 \<le> p" "m + 2 ^ 9 \<le> sig * 2 ^ s" "m + 2 ^ 10 \<le> p" "p \<le> 2 ^ 53 * (p - m)"
proof -
  define r where "r = s - 2"
  have r: "s = r + 2" "9 \<le> r" using assms(2) unfolding r_def by simp_all
  let ?q = "2 ^ r :: nat"
  have q: "2 ^ 9 \<le> ?q" using r(2) by (rule power_increasing) simp
  have s: "2 ^ s = 4 * ?q" "2 ^ (s - 1) = 2 * ?q" "2 ^ (s - 2) = ?q" unfolding r(1) by simp_all
  note facts = assms(3,4) [unfolded s]
  show "sig * 2 ^ s + 2 ^ 10 \<le> p" using q unfolding facts(1) s by simp
  show "m + 2 ^ 9 \<le> sig * 2 ^ s" "m + 2 ^ 10 \<le> p" using q facts unfolding s by (simp_all split: if_splits)
  show "p \<le> 2 ^ 53 * (p - m)"
  proof (cases near)
    case True
    then have "p = 2 ^ 52 * (4 * ?q) + 2 * ?q" "p - m = 3 * ?q" using facts assms(5) by simp_all
    then show ?thesis by simp
  next
    case False
    then have d: "p - m = 4 * ?q" using facts by simp
    have "p \<le> Suc sig * (4 * ?q)" unfolding facts(1) by simp
    also have "\<dots> \<le> 2 ^ 53 * (4 * ?q)" using assms(1) by (intro mult_le_mono1) simp
    finally show ?thesis unfolding d .
  qed
qed

lemma real_boundaries:
  fixes sig p m s :: nat
  assumes "11 \<le> s" "p = sig * 2 ^ s + 2 ^ (s - 1)" "m + (if near then 2 ^ (s - 2) else 2 ^ (s - 1)) = sig * 2 ^ s"
  shows "real p = (real sig + 1 / 2) * 2 ^ s" "real m = (real sig - (if near then 1 / 4 else 1 / 2)) * 2 ^ s"
proof -
  define r where "r = s - 2"
  have r: "s = r + 2" using assms(1) unfolding r_def by simp
  have s: "(2::real) ^ s = 4 * 2 ^ r" "2 ^ (s - 1) = 2 * (2::real) ^ r" "2 ^ (s - 2) = (2::real) ^ r" unfolding r by simp_all
  have "real p = real sig * 2 ^ s + 2 ^ (s - 1)" unfolding assms(2) by simp
  then show "real p = (real sig + 1 / 2) * 2 ^ s" unfolding s by (simp add: algebra_simps)
  have "real m + (if near then 2 ^ (s - 2) else 2 ^ (s - 1)) = real sig * 2 ^ s"
    using arg_cong [OF assms(3), of real] by (simp split: if_splits)
  then show "real m = (real sig - (if near then 1 / 4 else 1 / 2)) * 2 ^ s" unfolding s by (simp add: algebra_simps split: if_splits)
qed

lemma generated_value:
  assumes "generated lo hi one buf len n m" "real one = 2 powi (- t)"
  shows "real lo * 2 powi t \<le> value_in buf len * 10 powi (int n - int m)"
    "value_in buf len * 10 powi (int n - int m) \<le> real hi * 2 powi t"
proof -
  let ?V = "real (value_in buf len)"
  have "real (lo * 10 ^ m) \<le> real (value_in buf len * (10 ^ n * one))" "real (value_in buf len * (10 ^ n * one)) \<le> real (hi * 10 ^ m)"
    using assms(1) unfolding generated_def of_nat_le_iff by blast+
  then have b: "real lo * 10 ^ m \<le> ?V * 10 ^ n * real one" "?V * 10 ^ n * real one \<le> real hi * 10 ^ m" by (simp_all add: mult.assoc)
  have one: "real one * 2 powi t = 1" unfolding assms(2) by (simp add: power_int_minus)
  have ten: "?V * 10 powi (int n - int m) = ?V * 10 ^ n * real one * 2 powi t / 10 ^ m" using one by (simp add: power_int_diff mult.assoc)
  have p: "(0::real) < 2 powi t" by simp
  have "real lo * 10 ^ m * 2 powi t \<le> ?V * 10 ^ n * real one * 2 powi t" "?V * 10 ^ n * real one * 2 powi t \<le> real hi * 10 ^ m * 2 powi t"
    using b p by (simp_all only: mult_le_cancel_right_pos)
  then show "real lo * 2 powi t \<le> ?V * 10 powi (int n - int m)" "?V * 10 powi (int n - int m) \<le> real hi * 2 powi t"
    unfolding ten by (simp_all add: pos_le_divide_eq pos_divide_le_eq mult_ac)
qed

theorem grisu2_correct:
  assumes "is_positive x" "isfinite x" "17 \<le> length buf"
  shows "\<exists>buf' len k. grisu2 buf 0 x = Inr (buf', len, k) \<and> length buf' = length buf \<and> digits_in buf' len \<and> len \<le> 17 \<and>
    lower x < value_in buf' len * 10 powi k \<and> value_in buf' len * 10 powi k < upper x"
proof -
  let ?m = "significand x" and ?e = "exponent x"
  note range = double_range [OF assms(1,2)]
  obtain b s where b: "compute_boundaries x = Inr b" "11 \<le> s" "s \<le> 63"
    "fp_e (b_w b) = ?e - int s" "fp_e (b_minus b) = ?e - int s" "fp_e (b_plus b) = ?e - int s"
    "unat (fp_f (b_w b)) = ?m * 2 ^ s" "unat (fp_f (b_plus b)) = ?m * 2 ^ s + 2 ^ (s - 1)"
    "unat (fp_f (b_minus b)) + (if closer_below x then 2 ^ (s - 2) else 2 ^ (s - 1)) = ?m * 2 ^ s" "2 ^ 63 \<le> ?m * 2 ^ s"
    using compute_boundaries_result [OF assms(1,2)] by blast
  define E where "E = ?e - int s"
  have E: "- 1137 \<le> E" "E \<le> 960" using range(3,4) b(2,3) unfolding E_def by linarith+
  obtain f ce k where c: "get_cached_power_for_binary_exponent E = Inr (f, ce, k)" "near_power (f, ce, k)"
    "- 60 \<le> ce + E + 64" "ce + E + 64 \<le> - 32" "- 300 \<le> k" "k \<le> 324"
    using cached_power_found [OF E] by blast
  define p v m c where "p = unat (fp_f (b_plus b))" and "v = unat (fp_f (b_w b))" and "m = unat (fp_f (b_minus b))" and "c = unat f"
  define sh where "sh = nat (- (ce + E + 64))"
  have sh: "32 \<le> sh" "sh \<le> 60" "ce + E + 64 = - int sh" using c(3,4) unfolding sh_def by linarith+
  have c63: "2 ^ 63 \<le> c" using c(2) unfolding near_power_def c_def prod.case by blast
  have p64: "p < 2 ^ 64" "m < 2 ^ 64" unfolding p_def m_def by (rule unat_less64)+
  have closer: "closer_below x \<Longrightarrow> ?m = 2 ^ 52" using range(5) by blast
  note gaps = boundary_gaps [OF range(2) b(2) b(8,9) closer, folded p_def m_def b(7), folded v_def]
  have apart: "scaled c v + 2 ^ 9 \<le> scaled c p" "scaled c m + 2 ^ 8 \<le> scaled c v"
    using scaled_apart [OF c63, of v 9 p] scaled_apart [OF c63, of m 8 v] gaps(1,2) by simp_all
  define cp where "cp = diyfp f ce"
  define M_minus where "M_minus = diyfp (fp_f (diyfp_mul (b_minus b) cp) + 1) (fp_e (diyfp_mul (b_minus b) cp))"
  define w where "w = diyfp_mul (b_w b) cp"
  define M_plus where "M_plus = diyfp (fp_f (diyfp_mul (b_plus b) cp) - 1) (fp_e (diyfp_mul (b_plus b) cp))"
  have mul: "unat (fp_f (diyfp_mul y cp)) = scaled c (unat (fp_f y))" for y
    unfolding diyfp_mul_rounds cp_def scaled_def c_def by simp
  have plus: "unat (fp_f M_plus) = scaled c p - 1"
    unfolding M_plus_def using apart(1) by (simp add: unat_minus mul p_def word_le_nat_alt)
  have "scaled c p < 2 ^ 64" unfolding p_def mul [symmetric] by (rule unat_less64)
  then have minus: "unat (fp_f M_minus) = scaled c m + 1"
    unfolding M_minus_def using apart by (simp add: unat_plus mul m_def)
  have es: "fp_e M_plus = - int sh" "fp_e M_minus = - int sh" "fp_e w = - int sh"
    using b(4-6) sh(3) unfolding M_plus_def M_minus_def w_def by (simp_all add: diyfp_mul_rounds(2) cp_def E_def)
  have "2 ^ 63 \<le> p" using b(8,10) unfolding p_def by linarith
  then have "2 ^ 63 * 2 ^ 63 \<le> p * c" using c63 by (rule mult_le_mono)
  then have big: "2 ^ 60 \<le> scaled c p - 1" using scaled_bounds(2) [of p c] by simp
  have "\<exists>buf' len n1 m1. grisu2_digit_gen M_minus w M_plus (buf, 0, - k) = Inr (buf', len, - k + int n1 - int m1) \<and>
    length buf' = length buf \<and> len \<le> 17 \<and> generated (scaled c m + 1) (scaled c p - 1) (2 ^ sh) buf' len n1 m1"
  proof (rule grisu2_digit_gen_result [OF es sh(1,2) minus [symmetric] plus [symmetric] _ _ _ big])
    show "scaled c m + 1 \<le> unat (fp_f w)" using apart(2) unfolding w_def mul v_def by simp
    show "unat (fp_f w) \<le> scaled c p - 1" using apart(1) unfolding w_def mul v_def by simp
    show "scaled c p - 1 \<le> 10 ^ 16 * (scaled c p - 1 - (scaled c m + 1))" by (rule scaled_wide [OF c63 gaps(3,4)])
  qed (use assms(3) in simp_all)
  then obtain buf' len n1 m1 where r: "grisu2_digit_gen M_minus w M_plus (buf, 0, - k) = Inr (buf', len, - k + int n1 - int m1)"
    "length buf' = length buf" "len \<le> 17" "generated (scaled c m + 1) (scaled c p - 1) (2 ^ sh) buf' len n1 m1" by blast
  have run: "grisu2 buf 0 x = Inr (buf', len, - k + int n1 - int m1)"
    using assms(1,2) b(1,4-6) c(1) r(1)
    by (simp add: grisu2_def grisu2_scaled_def Let_def E_def [symmetric] M_minus_def w_def M_plus_def cp_def)
  let ?V = "real (value_in buf' len)"
  have one: "real (2 ^ sh) = 2 powi (- (E + ce + 64))" using sh(3) by (simp add: add.commute)
  note in_scaled = generated_value [OF r(4) one]
  have ten: "?V * 10 powi (int n1 - int m1) = ?V * 10 powi (- k + int n1 - int m1) * 10 powi k"
    by (simp add: power_int_add [symmetric] mult.assoc)
  have e: "(2::real) powi ?e = 2 ^ s * 2 powi E" using powi_shift [of E ?e] unfolding E_def by simp
  have up: "upper x = real p * 2 powi E" and lo: "lower x = real m * 2 powi E"
    using real_boundaries [OF b(2,8,9)] unfolding upper_def lower_def e p_def m_def by (simp_all add: mult.assoc [symmetric])
  have pos: "(0::real) < 10 powi k" by simp
  have units: "real (scaled c m) + 1 = real (scaled c m + 1)" "real (scaled c p) - 1 = real (scaled c p - 1)"
    using apart(1) by (simp_all add: of_nat_diff)
  have "lower x * 10 powi k < ?V * 10 powi (- k + int n1 - int m1) * 10 powi k" unfolding lo ten [symmetric]
    using scaled_inside(2) [OF c(2) c_def p64(2), of E] in_scaled(1) unfolding units by (rule less_le_trans)
  moreover have "?V * 10 powi (- k + int n1 - int m1) * 10 powi k < upper x * 10 powi k" unfolding up ten [symmetric]
    using in_scaled(2) scaled_inside(1) [OF c(2) c_def p64(1), of E] unfolding units by (rule le_less_trans)
  ultimately have "lower x < ?V * 10 powi (- k + int n1 - int m1)" "?V * 10 powi (- k + int n1 - int m1) < upper x"
    using pos by (simp_all only: mult_less_cancel_right_pos)
  then show ?thesis using run r(2-4) unfolding generated_def by blast
qed

end
