(* ===== verification/JsonDouble.thy ===== *)
theory JsonDouble
  imports JsonGrisu
begin

unbundle bit_operations_syntax

section \<open>The bytes the buffer held before\<close>

text \<open>Two buffers that agree on the digits so far.\<close>

definition agree :: "decimal \<Rightarrow> decimal \<Rightarrow> bool" where
  "agree a b \<longleftrightarrow> (case (a, b) of ((buf1, len1, e1), (buf2, len2, e2)) \<Rightarrow>
     len1 = len2 \<and> e1 = e2 \<and> length buf1 = length buf2 \<and> take len1 buf1 = take len1 buf2)"

definition agree_to :: "nat \<Rightarrow> string \<Rightarrow> string \<Rightarrow> bool" where
  "agree_to len buf1 buf2 \<longleftrightarrow> length buf1 = length buf2 \<and> take len buf1 = take len buf2"

lemma rel_rbind:
  "rel_sum (=) A m1 m2 \<Longrightarrow> (\<And>x y. A x y \<Longrightarrow> rel_sum (=) B (f x) (g y)) \<Longrightarrow> rel_sum (=) B (rbind m1 f) (rbind m2 g)"
  by (cases m1; cases m2) simp_all

lemma rel_require: "(b \<Longrightarrow> rel_sum (=) A m1 m2) \<Longrightarrow> rel_sum (=) A (require b e m1) (require b e m2)"
  by (cases b) simp_all

lemma rel_if: "(b \<Longrightarrow> rel_sum A B m1 m2) \<Longrightarrow> (\<not> b \<Longrightarrow> rel_sum A B k1 k2) \<Longrightarrow> rel_sum A B (if b then m1 else k1) (if b then m2 else k2)"
  by simp

lemma agree_to_nth: "agree_to len buf1 buf2 \<Longrightarrow> i < len \<Longrightarrow> i < length buf1 \<Longrightarrow> buf1 ! i = buf2 ! i"
  unfolding agree_to_def by (metis nth_take)

lemma agree_to_put: "agree_to len buf1 buf2 \<Longrightarrow> agree_to (Suc len) (buf1[len := c]) (buf2[len := c])"
  by (cases "len < length buf1") (auto simp: agree_to_def take_Suc_conv_app_nth)

lemma agree_to_update: "agree_to len buf1 buf2 \<Longrightarrow> agree_to len (buf1[i := c]) (buf2[i := c])"
  by (simp add: agree_to_def take_update_swap)

lemma round_loop_agree:
  "agree_to (Suc len) buf1 buf2 \<Longrightarrow>
   rel_sum (=) (agree_to (Suc len)) (round_loop buf1 (Suc len) dst delta rest ten_k) (round_loop buf2 (Suc len) dst delta rest ten_k)"
proof (induction buf1 "Suc len" dst delta rest ten_k arbitrary: buf2 rule: round_loop.induct)
  case (1 buf1 dst delta rest ten_k)
  let ?c = "rest < dst \<and> ten_k \<le> delta - rest \<and> (rest + ten_k < dst \<or> rest + ten_k - dst < dst - rest)"
  have l: "length buf2 = length buf1" using 1(2) by (simp add: agree_to_def)
  show ?case
  proof (cases "?c \<and> len < length buf1 \<and> buf1 ! len \<noteq> CHR ''0''")
    case True
    then have n: "buf2 ! len = buf1 ! len" using agree_to_nth [OF 1(2), of len] by simp
    have "rel_sum (=) (agree_to (Suc len))
      (round_loop (buf1[len := char_dec (buf1 ! len)]) (Suc len) dst delta (rest + ten_k) ten_k)
      (round_loop (buf2[len := char_dec (buf1 ! len)]) (Suc len) dst delta (rest + ten_k) ten_k)"
      using 1(1) [of "buf2[len := char_dec (buf1 ! len)]"] True agree_to_update [OF 1(2)] by simp
    then show ?thesis using True n l by (subst (1 2) round_loop.simps) simp
  next
    case False
    then show ?thesis using 1(2) l agree_to_nth [OF 1(2), of len] by (subst (1 2) round_loop.simps) (auto simp del: round_loop.simps)
  qed
qed

lemma grisu2_round_agree:
  "agree_to (Suc len) buf1 buf2 \<Longrightarrow>
   rel_sum (=) (agree_to (Suc len)) (grisu2_round buf1 (Suc len) dst delta rest ten_k) (grisu2_round buf2 (Suc len) dst delta rest ten_k)"
  unfolding grisu2_round_def by (intro rel_require round_loop_agree)

lemma mem_write_agree:
  "agree_to len buf1 buf2 \<Longrightarrow> rel_sum (=) (agree_to (Suc len)) (mem_write len [c] buf1) (mem_write len [c] buf2)"
  using mem_write_digit [of len buf1 c] mem_write_digit [of len buf2 c] agree_to_put [of len buf1 buf2 c]
  by (cases "len < length buf1") (auto simp: agree_to_def mem_write_def)

lemma int_digits_agree:
  "agree_to len buf1 buf2 \<Longrightarrow> rel_sum (=) (rel_sum agree agree)
     (int_digits n p1 pow10 sh p2 dst delta (buf1, len, e)) (int_digits n p1 pow10 sh p2 dst delta (buf2, len, e))"
proof (induction n arbitrary: p1 pow10 buf1 buf2 len)
  case 0
  then show ?case by (simp add: agree_def agree_to_def)
next
  case (Suc n)
  show ?case
    unfolding int_digits.simps Let_def Suc_eq_plus1 [symmetric]
  proof (intro rel_require rel_rbind [where A = "agree_to (Suc len)"] mem_write_agree Suc.prems)
    fix c1 c2
    assume a: "agree_to (Suc len) c1 c2"
    show "rel_sum (=) (rel_sum agree agree)
      (if push_bit sh (ucast (p1 mod pow10)) + p2 \<le> delta
       then rbind (grisu2_round c1 (Suc len) dst delta (push_bit sh (ucast (p1 mod pow10)) + p2) (push_bit sh (ucast pow10)))
              (\<lambda>buf2. Inr (Inl (buf2, Suc len, e + int n)))
       else int_digits n (p1 mod pow10) (pow10 div 10) sh p2 dst delta (c1, Suc len, e))
      (if push_bit sh (ucast (p1 mod pow10)) + p2 \<le> delta
       then rbind (grisu2_round c2 (Suc len) dst delta (push_bit sh (ucast (p1 mod pow10)) + p2) (push_bit sh (ucast pow10)))
              (\<lambda>buf2. Inr (Inl (buf2, Suc len, e + int n)))
       else int_digits n (p1 mod pow10) (pow10 div 10) sh p2 dst delta (c2, Suc len, e))"
      by (rule rel_if; (intro rel_rbind [OF grisu2_round_agree [OF a]] Suc.IH [OF a])?) (simp add: agree_def agree_to_def)
  qed
qed

lemma frac_digits_agree:
  "agree_to len buf1 buf2 \<Longrightarrow> rel_sum (=) agree
     (frac_digits sh p2 dst delta m (buf1, len, e)) (frac_digits sh p2 dst delta m (buf2, len, e))"
proof (induction sh p2 dst delta m "(buf1, len, e)" arbitrary: buf1 buf2 len rule: frac_digits.induct)
  case (1 sh p2 dst delta m buf1 len)
  have l: "length buf2 = length buf1" using 1(2) by (simp add: agree_to_def)
  let ?d = "drop_bit sh (p2 * 10)" and ?r = "p2 * 10 AND (push_bit sh 1 - 1)"
  have put: "agree_to (len + 1) (buf1[len := c]) (buf2[len := c])" for c using agree_to_put [OF 1(2)] by simp
  show ?case
  proof (cases "\<not> (- 1) div 10 < p2 \<and> \<not> 9 < ?d \<and> \<not> length buf1 \<le> len \<and> \<not> ?r \<le> delta * 10")
    case True
    have "rel_sum (=) agree
      (frac_digits sh ?r (dst * 10) (delta * 10) (m + 1) (buf1[len := digit_char (unat ?d)], len + 1, e))
      (frac_digits sh ?r (dst * 10) (delta * 10) (m + 1) (buf2[len := digit_char (unat ?d)], len + 1, e))"
      using True by (intro 1(1) [OF _ refl refl _ _ refl] put) simp_all
    then show ?thesis using True l by (subst (1 2) frac_digits.simps) (simp only: Let_def if_False)
  next
    case False
    have "rel_sum (=) agree
      (rbind (grisu2_round (buf1[len := digit_char (unat ?d)]) (len + 1) (dst * 10) (delta * 10) ?r (push_bit sh 1))
         (\<lambda>buf2. Inr (buf2, len + 1, e - int (m + 1))))
      (rbind (grisu2_round (buf2[len := digit_char (unat ?d)]) (len + 1) (dst * 10) (delta * 10) ?r (push_bit sh 1))
         (\<lambda>buf2. Inr (buf2, len + 1, e - int (m + 1))))"
      using put unfolding Suc_eq_plus1 [symmetric]
      by (intro rel_rbind [where A = "agree_to (Suc len)"] grisu2_round_agree) (auto simp: agree_def agree_to_def)
    with False l show ?thesis
      by (subst (1 2) frac_digits.simps, unfold Let_def l) (intro rel_if; (simp; fail)?; blast)
  qed
qed

lemma grisu2_agree:
  assumes "length buf1 = length buf2"
  shows "rel_sum (=) agree (grisu2 buf1 0 x) (grisu2 buf2 0 x)"
proof -
  have a: "agree_to 0 buf1 buf2" using assms by (simp add: agree_to_def)
  have gen: "rel_sum (=) agree (grisu2_digit_gen M_minus w M_plus (buf1, 0, e)) (grisu2_digit_gen M_minus w M_plus (buf2, 0, e))"
    for M_minus w M_plus e
    unfolding grisu2_digit_gen_def Let_def
    by (intro rel_require rel_rbind [where A = "(=)"]; simp add: sum.rel_eq split: prod.split)
      (intro allI impI rel_require rel_rbind [OF int_digits_agree [OF a]];
        auto simp: agree_def agree_to_def intro!: rel_require frac_digits_agree elim!: rel_sum.cases split: sum.splits prod.splits)
  show ?thesis
    unfolding grisu2_def grisu2_scaled_def Let_def
    by (intro rel_require rel_rbind [where A = "(=)"]; simp add: sum.rel_eq split: prod.split)
      (intro allI impI rel_require rel_rbind [where A = "(=)"]; simp add: sum.rel_eq gen split: prod.split)
qed

section \<open>Text\<close>

text \<open>The text of a decimal exponent, and of the number \<open>ds * 10 ^ k\<close>, whose digits are \<open>ds\<close>.\<close>

definition exponent_text :: "int \<Rightarrow> string" where
  "exponent_text e = (if e < 0 then ''-'' else ''+'') @ (if \<bar>e\<bar> < 10 then ''0'' else []) @ nat_to_string (nat \<bar>e\<bar>)"

definition decimal_text :: "string \<Rightarrow> int \<Rightarrow> string" where
  "decimal_text ds k =
     (let n = int (length ds) + k in
      if int (length ds) \<le> n \<and> n \<le> 15 then ds @ replicate (nat k) (CHR ''0'') @ ''.0''
      else if 0 < n \<and> n \<le> 15 then take (nat n) ds @ ''.'' @ drop (nat n) ds
      else if - 4 < n \<and> n \<le> 0 then ''0.'' @ replicate (nat (- n)) (CHR ''0'') @ ds
      else take 1 ds @ (if length ds = 1 then [] else ''.'' @ drop 1 ds) @ ''e'' @ exponent_text (n - 1))"

text \<open>A buffer that starts with a text.\<close>

definition starts :: "string \<Rightarrow> nat \<Rightarrow> string \<Rightarrow> bool" where
  "starts s room buf \<longleftrightarrow> length buf = room \<and> length s \<le> room \<and> take (length s) buf = s"

lemma mem_write_replaces:
  assumes "starts (a @ b @ c) room buf" "length b' = length b"
  shows "\<exists>buf'. mem_write (length a) b' buf = Inr buf' \<and> starts (a @ b' @ c) room buf'"
proof -
  have "buf = (a @ b @ c) @ drop (length (a @ b @ c)) buf" using assms(1) unfolding starts_def by (metis append_take_drop_id)
  then obtain rest where "buf = a @ b @ c @ rest" by auto
  then show ?thesis using assms by (auto simp: mem_write_def write_at_def starts_def)
qed

lemma mem_write_appends:
  assumes "starts a room buf" "length (a @ b) \<le> room"
  shows "\<exists>buf'. mem_write (length a) b buf = Inr buf' \<and> starts (a @ b) room buf'"
proof -
  have "buf = a @ drop (length a) buf" using assms(1) unfolding starts_def by (metis append_take_drop_id)
  then obtain rest where "buf = a @ rest" by auto
  then show ?thesis using assms by (auto simp: mem_write_def write_at_def starts_def)
qed

text \<open>A move of the last part of the text to the right; what stays in the gap is overwritten next.\<close>

lemma mem_move_right:
  assumes "starts (a @ b) room buf" "length a \<le> i" "i \<le> length (a @ b) \<or> a = []" "i + length b \<le> room"
  shows "\<exists>buf' gap. mem_move i (length a) (length b) buf = Inr buf' \<and> length gap = i - length a \<and> starts (a @ gap @ b) room buf'"
proof -
  have "buf = (a @ b) @ drop (length (a @ b)) buf" using assms(1) unfolding starts_def by (metis append_take_drop_id)
  then obtain rest where buf: "buf = a @ b @ rest" by auto
  then have r: "length a + length b + length rest = room" using assms(1) by (simp add: starts_def)
  let ?gap = "take (i - length a) (b @ rest)"
  have "mem_move i (length a) (length b) buf = Inr (write_at buf i b)"
    using r assms(4) by (simp add: mem_move_def mem_write_def buf)
  moreover have "starts (a @ ?gap @ b) room (write_at buf i b)" "length ?gap = i - length a"
    using r assms(2,4) by (auto simp: starts_def write_at_def buf)
  ultimately show ?thesis by blast
qed

lemma short_numbers:
  "n < 10 \<Longrightarrow> nat_to_string n = [digit_char n]"
  "10 \<le> n \<Longrightarrow> n < 100 \<Longrightarrow> nat_to_string n = [digit_char (n div 10), digit_char (n mod 10)]"
  "100 \<le> n \<Longrightarrow> n < 1000 \<Longrightarrow> nat_to_string n = [digit_char (n div 100), digit_char (n div 10 mod 10), digit_char (n mod 10)]"
proof -
  have one: "nat_to_string m = [digit_char m]" if "m < 10" for m using that by (subst nat_to_string.simps) simp
  have two: "nat_to_string m = [digit_char (m div 10), digit_char (m mod 10)]" if "10 \<le> m" "m < 100" for m
    using that one [of "m div 10"] by (subst nat_to_string.simps) simp
  show "n < 10 \<Longrightarrow> nat_to_string n = [digit_char n]" by (rule one)
  show "10 \<le> n \<Longrightarrow> n < 100 \<Longrightarrow> nat_to_string n = [digit_char (n div 10), digit_char (n mod 10)]" by (rule two)
  show "100 \<le> n \<Longrightarrow> n < 1000 \<Longrightarrow> nat_to_string n = [digit_char (n div 100), digit_char (n div 10 mod 10), digit_char (n mod 10)]"
    using two [of "n div 10"] by (subst nat_to_string.simps) (simp add: div_mult2_eq [symmetric])
qed

lemma append_exponent_text:
  assumes "starts a room buf" "length a + 5 \<le> room" "- 1000 < e" "e < 1000"
  shows "\<exists>buf'. append_exponent (length a) e buf = Inr (buf', length (a @ exponent_text e)) \<and> starts (a @ exponent_text e) room buf'"
proof -
  let ?k = "nat \<bar>e\<bar>"
  have k: "?k < 1000" using assms(3,4) by simp
  have digits: "(if ?k < 10 then [CHR ''0'', digit_char ?k] else if ?k < 100 then [digit_char (?k div 10), digit_char (?k mod 10)]
      else [digit_char (?k div 100), digit_char (?k mod 100 div 10), digit_char (?k mod 100 mod 10)]) =
      (if \<bar>e\<bar> < 10 then ''0'' else []) @ nat_to_string ?k"
  proof -
    have small: "\<bar>e\<bar> < 10 \<longleftrightarrow> ?k < 10" by linarith
    have m: "n mod 100 div 10 = n div 10 mod 10" "n mod 100 mod 10 = n mod 10" for n :: nat
      using mod_mult2_eq [of n 10 10] by (simp_all add: mod_mod_cancel)
    consider "?k < 10" | "\<not> ?k < 10" "?k < 100" | "\<not> ?k < 10" "\<not> ?k < 100" by blast
    then show ?thesis
    proof cases
      case 1
      then show ?thesis by (simp only: small short_numbers(1) if_True append.simps)
    next
      case 2
      moreover from this have "nat_to_string ?k = [digit_char (?k div 10), digit_char (?k mod 10)]" by (intro short_numbers(2)) linarith+
      ultimately show ?thesis by (simp only: small if_True if_False append.simps)
    next
      case 3
      moreover from this k have "nat_to_string ?k = [digit_char (?k div 100), digit_char (?k div 10 mod 10), digit_char (?k mod 10)]"
        by (intro short_numbers(3)) linarith+
      ultimately show ?thesis by (simp only: small if_False append.simps m)
    qed
  qed
  have "length (nat_to_string ?k) \<le> 3" using k by (intro length_nat_to_string) simp_all
  moreover have "?k < 10 \<Longrightarrow> length (nat_to_string ?k) = 1" by (simp add: nat_to_string.simps)
  ultimately have "length (exponent_text e) \<le> 5" by (auto simp: exponent_text_def)
  then obtain buf' where "mem_write (length a) (exponent_text e) buf = Inr buf'" "starts (a @ exponent_text e) room buf'"
    using mem_write_appends [OF assms(1), of "exponent_text e"] assms(2) by auto
  then show ?thesis using assms(3,4) unfolding append_exponent_def Let_def digits exponent_text_def by simp
qed

lemma format_buffer_text:
  assumes "starts ds room buf" "0 < length ds" "length ds \<le> 17" "40 \<le> room"
    "- 999 < int (length ds) + k" "int (length ds) + k \<le> 1000"
  shows "\<exists>buf'. format_buffer buf (length ds) k (- 4) 15 = Inr (buf', length (decimal_text ds k)) \<and>
    starts (decimal_text ds k) room buf'"
proof -
  let ?l = "length ds" and ?n = "int (length ds) + k"
  consider (whole) "int ?l \<le> ?n" "?n \<le> 15" | (point) "\<not> int ?l \<le> ?n" "0 < ?n" "?n \<le> 15" | (small) "- 4 < ?n" "?n \<le> 0"
    | (one) "15 < ?n \<or> ?n \<le> - 4" "?l = 1" | (sci) "15 < ?n \<or> ?n \<le> - 4" "?l \<noteq> 1" by linarith
  then show ?thesis
  proof cases
    case whole
    let ?z = "replicate (nat k) (CHR ''0'')"
    have n: "nat ?n = ?l + nat k" "nat ?n - ?l = nat k" using whole by linarith+
    have "?l + nat k \<le> 15" using whole by linarith
    then have z: "length (ds @ ?z) + 2 \<le> room" using assms(4) by simp
    then obtain b1 where b1: "mem_write ?l ?z buf = Inr b1" "starts (ds @ ?z) room b1"
      using mem_write_appends [OF assms(1), of ?z] by auto
    obtain b2 where b2: "mem_write (length (ds @ ?z)) ''.'' b1 = Inr b2" "starts ((ds @ ?z) @ ''.'') room b2"
      using mem_write_appends [OF b1(2), of "''.''"] z by auto
    obtain b3 where b3: "mem_write (length ((ds @ ?z) @ ''.'')) ''0'' b2 = Inr b3" "starts (((ds @ ?z) @ ''.'') @ ''0'') room b3"
      using mem_write_appends [OF b2(2), of "''0''"] z by auto
    show ?thesis using whole b1(1) b2(1) b3 unfolding format_buffer_def Let_def mem_set_def n decimal_text_def by simp
  next
    case point
    let ?a = "take (nat ?n) ds" and ?b = "drop (nat ?n) ds"
    have n: "length ?a = nat ?n" "length ?b = ?l - nat ?n" "nat ?n + (?l - nat ?n) = ?l" "nat ?n < ?l" using point by auto
    obtain b1 gap where b1: "mem_move (nat ?n + 1) (nat ?n) (?l - nat ?n) buf = Inr b1" "length gap = 1" "starts (?a @ gap @ ?b) room b1"
      using mem_move_right [of ?a ?b room buf "nat ?n + 1"] assms n by auto
    obtain b2 where b2: "mem_write (nat ?n) ''.'' b1 = Inr b2" "starts (?a @ ''.'' @ ?b) room b2"
      using mem_write_replaces [OF b1(3), of "''.''"] b1(2) n(1) by auto
    show ?thesis using point b1(1) b2 n unfolding format_buffer_def Let_def decimal_text_def by simp
  next
    case small
    let ?z = "replicate (nat (- ?n)) (CHR ''0'')"
    have z: "2 + nat (- ?n) + ?l \<le> room" using small assms(3,4) by linarith
    obtain b1 gap where b1: "mem_move (2 + nat (- ?n)) 0 ?l buf = Inr b1" "length gap = 2 + nat (- ?n)" "starts (gap @ ds) room b1"
      using mem_move_right [of "[]" ds room buf "2 + nat (- ?n)"] assms(1) z by auto
    obtain c d g where gap: "gap = c # d # g" "length g = nat (- ?n)" using b1(2) by (metis add_2_eq_Suc length_Suc_conv)
    obtain b2 where b2: "mem_write 0 ''0'' b1 = Inr b2" "starts (''0'' @ (d # g @ ds)) room b2"
      using mem_write_replaces [of "[]" "[c]" "d # g @ ds" room b1 "''0''"] b1(3) gap(1) by auto
    obtain b3 where b3: "mem_write 1 ''.'' b2 = Inr b3" "starts (''0'' @ ''.'' @ (g @ ds)) room b3"
      using mem_write_replaces [of "''0''" "[d]" "g @ ds" room b2 "''.''"] b2(2) by auto
    obtain b4 where b4: "mem_write 2 ?z b3 = Inr b4" "starts (''0.'' @ ?z @ ds) room b4"
      using mem_write_replaces [of "''0.''" g ds room b3 ?z] b3(2) gap(2) by (auto simp: numeral_2_eq_2)
    have "\<not> int ?l \<le> ?n" "\<not> 0 < ?n" using small assms(2) by linarith+
    then show ?thesis using small b1(1) b2(1) b3(1) b4 unfolding format_buffer_def Let_def mem_set_def decimal_text_def
      by (simp add: add.assoc)
  next
    case one
    obtain b1 where b1: "mem_write 1 ''e'' buf = Inr b1" "starts (ds @ ''e'') room b1"
      using mem_write_appends [OF assms(1), of "''e''"] one assms(4) by auto
    obtain b2 where b2: "append_exponent 2 (?n - 1) b1 = Inr (b2, length ((ds @ ''e'') @ exponent_text (?n - 1)))"
      "starts ((ds @ ''e'') @ exponent_text (?n - 1)) room b2"
      using append_exponent_text [OF b1(2), of "?n - 1"] assms(4-6) one by (auto simp: numeral_2_eq_2)
    show ?thesis using one b1(1) b2 unfolding format_buffer_def Let_def decimal_text_def by auto
  next
    case sci
    obtain d t where d: "ds = d # t" "t \<noteq> []" using assms(2) sci(2) by (cases ds) auto
    obtain b1 gap where b1: "mem_move 2 1 (?l - 1) buf = Inr b1" "length gap = 1" "starts ([d] @ gap @ t) room b1"
      using mem_move_right [of "[d]" t room buf 2] assms d by (cases t) auto
    obtain b2 where b2: "mem_write 1 ''.'' b1 = Inr b2" "starts ([d] @ ''.'' @ t) room b2"
      using mem_write_replaces [OF b1(3), of "''.''"] b1(2) by auto
    obtain b3 where b3: "mem_write (1 + ?l) ''e'' b2 = Inr b3" "starts (([d] @ ''.'' @ t) @ ''e'') room b3"
      using mem_write_appends [OF b2(2), of "''e''"] assms(3,4) d(1) by auto
    obtain b4 where b4: "append_exponent (2 + ?l) (?n - 1) b3 = Inr (b4, length ((([d] @ ''.'' @ t) @ ''e'') @ exponent_text (?n - 1)))"
      "starts ((([d] @ ''.'' @ t) @ ''e'') @ exponent_text (?n - 1)) room b4"
      using append_exponent_text [OF b3(2), of "?n - 1"] assms(3-6) d(1) by auto
    show ?thesis using sci b1(1) b2(1) b3(1) b4 d unfolding format_buffer_def Let_def decimal_text_def by auto
  qed
qed

section \<open>The number a text stands for\<close>

text \<open>What a number without its sign stands for: digits with a point, and a power of ten.\<close>

definition exponent_value :: "string \<Rightarrow> int" where
  "exponent_value s = (let (neg, ds) = split_sign s; v = int (digits_val (takeWhile is_digit ds)) in if neg then - v else v)"

definition unsigned_value :: "string \<Rightarrow> real" where
  "unsigned_value s =
     (let ip = takeWhile is_digit s; s1 = dropWhile is_digit s;
          (fp, s2) = (case s1 of c # s' \<Rightarrow> if c = CHR ''.'' then (takeWhile is_digit s', dropWhile is_digit s') else ([], s1)
                      | [] \<Rightarrow> ([], []));
          e = (case s2 of c # s' \<Rightarrow> if c = CHR ''e'' \<or> c = CHR ''E'' then exponent_value s' else 0 | [] \<Rightarrow> 0)
      in real (digits_val (ip @ fp)) * 10 powi (e - int (length fp)))"

lemma digits_val_append: "digits_val (a @ b) = digits_val a * 10 ^ length b + digits_val b"
proof (induction b rule: rev_induct)
  case (snoc c b)
  have "digits_val (a @ b @ [c]) = digits_val ((a @ b) @ [c])" by simp
  then show ?case using snoc unfolding digits_val_snoc by simp
qed (simp add: digits_val_def)

lemma digits_val_zeros: "digits_val (replicate n (CHR ''0'')) = 0"
  by (induction n) (simp_all add: digits_val_def digit_val_def code_of_def)

lemma not_digits: "\<not> is_digit (CHR ''.'')" "\<not> is_digit (CHR ''e'')" "is_digit (CHR ''0'')"
  by (simp_all add: is_digit_def code_of_def)

lemma exponent_text_value: "exponent_value (exponent_text e) = e"
proof -
  define ds where "ds = (if \<bar>e\<bar> < 10 then ''0'' else []) @ nat_to_string (nat \<bar>e\<bar>)"
  have "list_all is_digit ds" unfolding ds_def using nat_to_string_digits by (auto simp: not_digits)
  then have w: "takeWhile is_digit ds = ds" using takeWhile_digits_append [of ds "[]"] by simp
  have "digits_val (if \<bar>e\<bar> < 10 then ''0'' else []) = 0" using digits_val_zeros [of "Suc 0"] by (simp add: digits_val_def)
  then have v: "digits_val ds = nat \<bar>e\<bar>" unfolding ds_def digits_val_append by simp
  show ?thesis unfolding exponent_value_def exponent_text_def ds_def [symmetric] by (simp add: split_sign_def w v)
qed

lemma unsigned_value_point:
  assumes "list_all is_digit ip" "list_all is_digit fp"
  shows "unsigned_value (ip @ ''.'' @ fp) = real (digits_val (ip @ fp)) * 10 powi (- int (length fp))"
proof -
  have t: "takeWhile is_digit fp = fp" "dropWhile is_digit fp = []" using assms(2) by (simp_all add: list_all_iff)
  show ?thesis
    using takeWhile_digits_append [OF assms(1), of "''.'' @ fp"] dropWhile_digits_append [OF assms(1), of "''.'' @ fp"]
    by (simp add: unsigned_value_def not_digits t)
qed

lemma unsigned_value_exponent:
  assumes "list_all is_digit ip" "list_all is_digit fp"
  shows "unsigned_value (ip @ (if fp = [] then [] else ''.'' @ fp) @ ''e'' @ s) =
    real (digits_val (ip @ fp)) * 10 powi (exponent_value s - int (length fp))"
proof (cases "fp = []")
  case True
  then show ?thesis
    using takeWhile_digits_append [OF assms(1), of "''e'' @ s"] dropWhile_digits_append [OF assms(1), of "''e'' @ s"]
    by (simp add: unsigned_value_def not_digits)
next
  case False
  then show ?thesis
    using takeWhile_digits_append [OF assms(1), of "''.'' @ fp @ ''e'' @ s"] dropWhile_digits_append [OF assms(1), of "''.'' @ fp @ ''e'' @ s"]
      takeWhile_digits_append [OF assms(2), of "''e'' @ s"] dropWhile_digits_append [OF assms(2), of "''e'' @ s"]
    by (simp add: unsigned_value_def not_digits)
qed

text \<open>The text of \<open>ds * 10 ^ k\<close> stands for it.\<close>

lemma decimal_text_value:
  assumes "list_all is_digit ds" "ds \<noteq> []"
  shows "unsigned_value (decimal_text ds k) = real (digits_val ds) * 10 powi k"
proof -
  let ?l = "length ds" and ?n = "int (length ds) + k"
  consider (whole) "int ?l \<le> ?n" "?n \<le> 15" | (point) "\<not> int ?l \<le> ?n" "0 < ?n" "?n \<le> 15" | (small) "- 4 < ?n" "?n \<le> 0"
    | (sci) "15 < ?n \<or> ?n \<le> - 4" by linarith
  then show ?thesis
  proof cases
    case whole
    let ?z = "replicate (nat k) (CHR ''0'')"
    have "list_all is_digit (ds @ ?z)" using assms(1) by (auto simp: list_all_iff not_digits)
    moreover have "list_all is_digit ''0''" by (simp add: not_digits)
    ultimately have v: "unsigned_value ((ds @ ?z) @ ''.'' @ ''0'') = real (digits_val ((ds @ ?z) @ ''0'')) * 10 powi (- int (length ''0''))"
      by (rule unsigned_value_point)
    have tx: "decimal_text ds k = (ds @ ?z) @ ''.'' @ ''0''" using whole unfolding decimal_text_def Let_def by simp
    have z: "(ds @ ?z) @ ''0'' = ds @ replicate (Suc (nat k)) (CHR ''0'')" by (simp only: append_assoc replicate_append_same replicate_Suc)
    have d: "digits_val ((ds @ ?z) @ ''0'') = digits_val ds * 10 ^ Suc (nat k)"
      unfolding z digits_val_append digits_val_zeros length_replicate by simp
    have "unsigned_value (decimal_text ds k) = real (digits_val ds * 10 ^ Suc (nat k)) * 10 powi (- 1)" unfolding tx v d by simp
    also have "\<dots> = real (digits_val ds) * 10 powi k" using whole by (simp add: power_int_def)
    finally show ?thesis .
  next
    case point
    have d: "list_all is_digit (take (nat ?n) ds)" "list_all is_digit (drop (nat ?n) ds)"
      using assms(1) by (auto simp: list_all_iff dest: in_set_takeD in_set_dropD)
    have "- int (length (drop (nat ?n) ds)) = k" using point by (simp add: of_nat_diff)
    with unsigned_value_point [OF d] point show ?thesis by (simp add: decimal_text_def Let_def)
  next
    case small
    let ?z = "replicate (nat (- ?n)) (CHR ''0'')"
    have "list_all is_digit ''0''" "list_all is_digit (?z @ ds)" using assms(1) by (auto simp: list_all_iff not_digits)
    from unsigned_value_point [OF this] have "unsigned_value (''0.'' @ ?z @ ds) = real (digits_val (''0'' @ ?z @ ds)) * 10 powi (- int (length (?z @ ds)))"
      by simp
    also have "''0'' @ ?z @ ds = replicate (Suc (nat (- ?n))) (CHR ''0'') @ ds" by simp
    also have "digits_val \<dots> = digits_val ds" unfolding digits_val_append digits_val_zeros by simp
    also have "- int (length (?z @ ds)) = k" using small by simp
    finally have v: "unsigned_value (''0.'' @ ?z @ ds) = real (digits_val ds) * 10 powi k" .
    have "0 < ?l" using assms(2) by simp
    then have "\<not> int ?l \<le> ?n" "\<not> 0 < ?n" using small by linarith+
    then show ?thesis using small v by (simp add: decimal_text_def Let_def)
  next
    case sci
    have d: "list_all is_digit (take 1 ds)" "list_all is_digit (drop 1 ds)"
      using assms(1) by (auto simp: list_all_iff dest: in_set_takeD in_set_dropD)
    have "0 < ?l" using assms(2) by simp
    then have b: "\<not> (int ?l \<le> ?n \<and> ?n \<le> 15)" "\<not> (0 < ?n \<and> ?n \<le> 15)" "\<not> (- 4 < ?n \<and> ?n \<le> 0)" using sci by linarith+
    have "(length ds = 1) = (drop 1 ds = [])" using assms(2) by (cases ds) auto
    then have "decimal_text ds k = take 1 ds @ (if drop 1 ds = [] then [] else ''.'' @ drop 1 ds) @ ''e'' @ exponent_text (?n - 1)"
      unfolding decimal_text_def Let_def using sci b by (simp only: if_False)
    then have "unsigned_value (decimal_text ds k) = real (digits_val ds) * 10 powi (?n - 1 - int (length (drop 1 ds)))"
      using unsigned_value_exponent [OF d, of "exponent_text (?n - 1)"] by (simp only: exponent_text_value append_take_drop_id)
    moreover have "?n - 1 - int (length (drop 1 ds)) = k" using assms(2) by (cases ds) simp_all
    ultimately show ?thesis by simp
  qed
qed

section \<open>to_chars\<close>

text \<open>The exponents stay far below a thousand.\<close>

lemma powi_less: "(10::real) powi a < 10 powi b \<Longrightarrow> a < b"
  by (metis linorder_not_le not_less_iff_gr_or_eq order.strict_trans1 power_int_increasing one_le_numeral)

lemma four_powi: "(2::real) powi (2 * m) = 4 powi m"
  by (simp add: power_int_mult)

lemma digits_val_less: "list_all is_digit ds \<Longrightarrow> digits_val ds < 10 ^ length ds"
proof (induction ds rule: rev_induct)
  case (snoc c ds)
  then have "digits_val ds < 10 ^ length ds" "digit_val c < 10" by (auto simp: digit_val_def is_digit_def)
  then show ?case by simp
qed (simp add: digits_val_def)

lemma decimal_exponent_range:
  assumes "is_positive x" "isfinite x" "digits_in buf len" "lower x < value_in buf len * 10 powi k" "value_in buf len * 10 powi k < upper x"
  shows "- 999 < int len + k" "int len + k \<le> 1000"
proof -
  let ?D = "real (value_in buf len)"
  note range = double_range [OF assms(1,2)]
  have d: "0 < len" "len \<le> length buf" "list_all is_digit (take len buf)" "10 ^ (len - 1) \<le> value_in buf len"
    using assms(3) by (simp_all add: digits_in_def)
  have "value_in buf len < 10 ^ len" using digits_val_less [OF d(3)] d(2) by simp
  then have D: "real (10 ^ (len - 1)) \<le> ?D" "?D < real (10 ^ len)" using d(4) unfolding of_nat_le_iff of_nat_less_iff by blast+
  have c: "real (10 ^ (len - 1)) = 10 powi (int len - 1)" "real (10 ^ len) = 10 powi int len"
    using d(1) by (simp_all add: of_nat_diff power_int_def nat_diff_distrib)
  note D = D [unfolded c]
  have p: "(0::real) < 10 powi k" by simp
  have "10 powi (int len - 1 + k) = 10 powi (int len - 1) * (10::real) powi k" by (simp add: power_int_add)
  also have "\<dots> \<le> ?D * 10 powi k" using D(1) p by (intro mult_right_mono) simp_all
  also have "\<dots> < upper x" by (rule assms(5))
  also have "\<dots> \<le> 2 ^ 53 * 2 powi exponent x" unfolding upper_def
  proof (intro mult_right_mono)
    have "significand x + 1 \<le> 2 ^ 53" using range(2) by simp
    then have "real (significand x + 1) \<le> real (2 ^ 53)" by (simp only: of_nat_le_iff)
    then show "real (significand x) + 1 / 2 \<le> 2 ^ 53" by simp
  qed simp
  also have "\<dots> = 2 powi (exponent x + 53)" using powi_shift [of "exponent x" "exponent x + 53"] by simp
  also have "\<dots> \<le> 2 powi (2 * 512)" using range(4) by (intro power_int_increasing) simp_all
  also have "\<dots> \<le> 10 powi 512" unfolding four_powi by (intro power_int_mono) simp_all
  finally have "int len - 1 + k < 512" by (rule powi_less)
  then show "int len + k \<le> 1000" by simp
  have "(10::real) powi (- 538) \<le> 4 powi (- 538)" unfolding power_int_minus by (intro le_imp_inverse_le power_int_mono) simp_all
  also have "\<dots> = 2 powi (- 1076)" using four_powi [of "- 538"] by simp
  also have "\<dots> \<le> 2 powi (exponent x - 1)" using range(3) by (intro power_int_increasing) simp_all
  also have "\<dots> = 1 / 2 * 2 powi exponent x" by (simp add: power_int_diff)
  also have "\<dots> \<le> lower x" unfolding lower_def using range(1) by (intro mult_right_mono) (simp_all split: if_split)
  also have "\<dots> < ?D * 10 powi k" by (rule assms(4))
  also have "\<dots> < 10 powi int len * 10 powi k" using D(2) p by (intro mult_strict_right_mono) simp_all
  also have "\<dots> = 10 powi (int len + k)" by (simp add: power_int_add)
  finally have "- 538 < int len + k" by (rule powi_less)
  then show "- 999 < int len + k" by simp
qed

text \<open>The text of a finite double that is not negative, in a buffer of \<open>room\<close> bytes.\<close>

definition positive_text :: "nat \<Rightarrow> double \<Rightarrow> string" where
  "positive_text room x =
     (if is_zero x then ''0.0''
      else case grisu2 (replicate room nul) 0 x of Inr (buf, len, k) \<Rightarrow> decimal_text (take len buf) k | Inl _ \<Rightarrow> [])"

text \<open>
  The numbers a double stands for: zero, or those strictly between the boundaries, which are nearer to it than to any
  other double. \<open>nearest\<close> adds the sign: a reader that rounds to the nearest double gets \<open>x\<close> from every such text.
\<close>

definition denotes :: "string \<Rightarrow> double \<Rightarrow> bool" where
  "denotes t x \<longleftrightarrow> (if is_zero x then unsigned_value t = 0 else lower x < unsigned_value t \<and> unsigned_value t < upper x)"

definition nearest :: "string \<Rightarrow> double \<Rightarrow> bool" where
  "nearest t x \<longleftrightarrow>
     (if signbit x then \<exists>s. t = CHR ''-'' # s \<and> denotes s (negated x) else (\<forall>s. t \<noteq> CHR ''-'' # s) \<and> denotes t x)"

lemma negated_negative: "signbit (negated x) \<longleftrightarrow> \<not> signbit x"
  by (simp add: signbit_def negated_def bit_xor_iff)

lemma negated_finite: "isfinite (negated x) \<longleftrightarrow> isfinite x"
proof -
  have "drop_bit 52 (negated x) AND 0x7FF = (drop_bit 52 x AND 0x7FF) XOR (drop_bit 52 0x8000000000000000 AND 0x7FF)"
    unfolding negated_def drop_bit_xor by (rule bit.conj_xor_distrib2)
  then show ?thesis by (simp add: isfinite_def)
qed

lemma denotes_unique:
  assumes "\<not> signbit x" "\<not> signbit y" "isfinite x" "isfinite y" "denotes t x" "denotes t y"
  shows "x = y"
proof -
  have z: "b = 0 \<or> is_positive b" if "\<not> signbit b" for b
    using that is_positive_unat [of b] by (cases "unat b = 0") (auto simp: signbit_unat unsigned_eq_0_iff)
  have pos: "is_positive b \<Longrightarrow> \<not> is_zero b" for b by (simp add: is_positive_def)
  have zero: "is_zero 0" by (simp add: is_zero_def)
  have ord: False if "is_positive a" "isfinite a" "isfinite b" "\<not> signbit b" "denotes t a" "denotes t b" "unat a < unat b" for a b
  proof -
    from that(7) obtain d where "unat b = unat a + Suc d" using less_iff_Suc_add by auto
    then have "upper a \<le> lower b" using upper_le_lower that by blast
    moreover have "is_positive b" using z [OF that(4)] that(7) by auto
    ultimately show False using that(5,6) pos [of a] pos [of b] that(1) unfolding denotes_def by simp
  qed
  have no: False if "is_positive a" "isfinite a" "denotes t a" "denotes t 0" for a
    using that lower_upper(1) [OF that(1,2)] pos zero by (auto simp: denotes_def)
  show ?thesis
    using z [OF assms(1)] z [OF assms(2)] ord [of x y] ord [of y x] no [of x] no [of y] assms
    by (cases "unat x" "unat y" rule: linorder_cases) (auto simp: unsigned_word_eqI)
qed

lemma nearest_unique:
  assumes "isfinite x" "isfinite y" "nearest t x" "nearest t y"
  shows "x = y"
proof (cases "signbit x")
  case True
  then have "signbit y" using assms(3,4) by (auto simp: nearest_def split: if_splits)
  then have "negated x = negated y"
    using True assms denotes_unique [of "negated x" "negated y"] by (auto simp: nearest_def negated_negative negated_finite)
  moreover have "negated (negated v) = v" for v by (simp add: negated_def xor.assoc)
  ultimately show ?thesis by metis
next
  case False
  then have "\<not> signbit y" using assms(3,4) by (auto simp: nearest_def split: if_splits)
  then show ?thesis using False assms denotes_unique by (auto simp: nearest_def)
qed

lemma to_chars_positive_text:
  assumes "\<not> signbit x" "isfinite x" "40 \<le> length buf"
  shows "\<exists>buf'. to_chars_positive buf x = Inr (buf', length (positive_text (length buf) x)) \<and>
    starts (positive_text (length buf) x) (length buf) buf' \<and> denotes (positive_text (length buf) x) x"
proof (cases "is_zero x")
  case True
  obtain buf' where "mem_write 0 ''0.0'' buf = Inr buf'" "starts ''0.0'' (length buf) buf'"
    using mem_write_appends [of "[]" "length buf" buf "''0.0''"] assms(3) by (auto simp: starts_def)
  moreover have "unsigned_value ''0.0'' = 0"
    using unsigned_value_point [of "''0''" "''0''"] by (simp add: not_digits digits_val_def digit_val_def code_of_def)
  ultimately show ?thesis using True by (simp add: to_chars_positive_def positive_text_def denotes_def)
next
  case False
  then have pos: "is_positive x" using assms(1) by (simp add: is_positive_def)
  obtain buf1 len k where g: "grisu2 buf 0 x = Inr (buf1, len, k)" "length buf1 = length buf" "digits_in buf1 len" "len \<le> 17"
    "lower x < value_in buf1 len * 10 powi k" "value_in buf1 len * 10 powi k < upper x"
    using grisu2_correct [OF pos assms(2), of buf] assms(3) by auto
  have "rel_sum (=) agree (grisu2 buf 0 x) (grisu2 (replicate (length buf) nul) 0 x)" by (rule grisu2_agree) simp
  then obtain b2 where b2: "grisu2 (replicate (length buf) nul) 0 x = Inr (b2, len, k)" "take len b2 = take len buf1"
    unfolding g(1) by (cases "grisu2 (replicate (length buf) nul) 0 x") (auto simp: agree_def)
  define ds where "ds = take len buf1"
  have tx: "positive_text (length buf) x = decimal_text ds k" using False b2 by (simp add: positive_text_def ds_def)
  have len: "0 < len" "length ds = len" "list_all is_digit ds" using g(3) by (auto simp: digits_in_def ds_def)
  have s: "starts ds (length buf) buf1" using g(2,3) by (simp add: starts_def ds_def digits_in_def)
  obtain buf' where f: "format_buffer buf1 len k (- 4) 15 = Inr (buf', length (decimal_text ds k))" "starts (decimal_text ds k) (length buf) buf'"
    using format_buffer_text [OF s] len g(4) assms(3) decimal_exponent_range [OF pos assms(2) g(3,5,6)] by auto
  have "to_chars_positive buf x = Inr (buf', length (decimal_text ds k))"
    using False assms(3) g(1,2,4) f(1) by (simp add: to_chars_positive_def)
  moreover have "ds \<noteq> []" using len by auto
  ultimately show ?thesis
    using False f(2) g(5,6) decimal_text_value [OF len(3), of k] unfolding tx by (simp add: denotes_def ds_def)
qed

lemma positive_text_shape:
  assumes "\<not> signbit x" "isfinite x" "17 \<le> room"
  shows "positive_text room x = ''0.0'' \<or>
    (\<exists>ds k. positive_text room x = decimal_text ds k \<and> list_all is_digit ds \<and> ds \<noteq> [] \<and> 10 ^ (length ds - 1) \<le> digits_val ds)"
proof (cases "is_zero x")
  case False
  then have "is_positive x" using assms(1) by (simp add: is_positive_def)
  from grisu2_correct [OF this assms(2), of "replicate room nul"] obtain buf len k where
    "grisu2 (replicate room nul) 0 x = Inr (buf, len, k)" "digits_in buf len" using assms(3) by auto
  with False show ?thesis
    by (intro disjI2 exI [of _ "take len buf"] exI [of _ k]) (auto simp: positive_text_def digits_in_def min_def)
qed (simp add: positive_text_def)

lemma decimal_text_digit:
  assumes "list_all is_digit ds" "ds \<noteq> []"
  shows "\<exists>c cs. decimal_text ds k = c # cs \<and> is_digit c"
proof -
  obtain d es where "ds = d # es" "is_digit d" using assms by (cases ds) auto
  then show ?thesis by (cases "nat (int (length ds) + k)") (auto simp: decimal_text_def Let_def not_digits)
qed

lemma positive_text_digit:
  "\<not> signbit x \<Longrightarrow> isfinite x \<Longrightarrow> 17 \<le> room \<Longrightarrow> \<exists>c cs. positive_text room x = c # cs \<and> is_digit c"
  using positive_text_shape [of x room] decimal_text_digit by (auto simp: not_digits)

text \<open>The text as digits, with a minus sign when the sign bit is set, that of a zero included.\<close>

definition signed_text :: "double \<Rightarrow> string" where
  "signed_text x = (if signbit x then CHR ''-'' # positive_text 63 (negated x) else positive_text 64 x)"

lemma to_chars_signed:
  assumes "isfinite x" "length buf = 64"
  shows "\<exists>buf'. to_chars buf x = Inr (buf', length (signed_text x)) \<and> starts (signed_text x) 64 buf' \<and> nearest (signed_text x) x"
proof (cases "signbit x")
  case False
  then show ?thesis
    using to_chars_positive_text [OF False assms(1), of buf] positive_text_digit [OF False assms(1), of 64] assms
    by (auto simp: to_chars_def signed_text_def nearest_def is_digit_def code_of_def)
next
  case True
  have n: "\<not> signbit (negated x)" "isfinite (negated x)" using True assms(1) by (simp_all add: negated_negative negated_finite)
  obtain b1 where b1: "mem_write 0 ''-'' buf = Inr b1" "starts ''-'' 64 b1"
    using mem_write_appends [of "[]" 64 buf "''-''"] assms(2) by (auto simp: starts_def)
  then have "length (drop 1 b1) = 63" by (simp add: starts_def)
  then obtain b2 where "to_chars_positive (drop 1 b1) (negated x) = Inr (b2, length (positive_text 63 (negated x)))"
    "starts (positive_text 63 (negated x)) 63 b2" "denotes (positive_text 63 (negated x)) (negated x)"
    using to_chars_positive_text [OF n, of "drop 1 b1"] by auto
  then show ?thesis using True assms(1) b1 by (cases b1) (auto simp: to_chars_def starts_def signed_text_def nearest_def)
qed

lemma float_text_signed: "isfinite x \<Longrightarrow> float_text x = signed_text x"
  using to_chars_signed [of x "replicate 64 nul"] by (auto simp: float_text_def starts_def)

lemma to_chars_text:
  "isfinite x \<Longrightarrow> length buf = 64 \<Longrightarrow>
    \<exists>buf'. to_chars buf x = Inr (buf', length (float_text x)) \<and> starts (float_text x) 64 buf' \<and> nearest (float_text x) x"
  using to_chars_signed float_text_signed by simp

end
