(* ===== verification/JsonText.thy ===== *)
theory JsonText
  imports JsonUtf8 JsonDouble
begin

unbundle bit_operations_syntax

text \<open>
  Printing: on values whose strings are UTF-8 the serializer gives the text of the plain definition \<open>dump\<close>,
  on others it throws, and it never writes past a buffer.
\<close>

section \<open>Code points\<close>

lemma unat_low6: "unat (w AND 0x3f) = unat w mod 64" for w :: "32 word"
proof -
  have "unat (w AND 0x3f) = take_bit 6 (unat w)" by (simp only: and_masks unsigned_take_bit_eq)
  then show ?thesis by (simp add: take_bit_nat_def)
qed

lemma unat_char_word: "unat (word_of_nat (code_of c) :: 32 word) = code_of c"
  using less_trans [OF code_of_bound [of c], of "2 ^ 32"] by (simp add: unat_of_nat)

lemma unat_push6:
  fixes w :: "32 word"
  assumes "unat w < 2 ^ 26"
  shows "unat (push_bit 6 w) = 64 * unat w"
proof -
  have "unat (push_bit 6 w) = take_bit 32 (push_bit 6 (unat w))"
    by (simp only: unsigned_push_bit_eq) simp
  also have "push_bit 6 (unat w) = 64 * unat w" by (simp add: push_bit_nat_def)
  finally show ?thesis using assms by (simp add: take_bit_nat_def)
qed

lemma decode_codepoint:
  assumes "st \<noteq> UTF8_ACCEPT" "unat cp < 2 ^ 26"
  shows "unat (snd (decode st cp c)) = code_of c mod 64 + 64 * unat cp"
proof -
  let ?a = "word_of_nat (code_of c) AND 0x3f :: 32 word" and ?b = "push_bit 6 cp :: 32 word"
  have d: "?a AND ?b = 0"
    unfolding and_masks by (rule bit_word_eqI) (simp only: bit_simps; simp)
  have "unat (?a OR ?b) = unat (?a + ?b)" using disjunctive_add_eq_or [OF d] by simp
  also have "\<dots> = unat ?a + unat ?b"
    using assms(2) by (intro unat_add_lem [THEN iffD1]) (simp add: unat_low6 unat_push6 unat_char_word)
  finally show ?thesis
    using assms by (simp add: decode_def Let_def unat_low6 unat_char_word unat_push6)
qed

lemma mod_in_block: "q * n \<le> b \<Longrightarrow> b < q * n + n \<Longrightarrow> b mod n = b - q * n" for b n :: nat
  by (rule mod_nat_eqI) auto

text \<open>
  While bytes are due the code point read so far is large enough for the complete one to be no ASCII
  character, and small enough for its bits not to be lost.
\<close>

definition cp_inv :: "(nat \<times> nat) list \<Rightarrow> 32 word \<Rightarrow> bool" where
  "cp_inv rs cp \<longleftrightarrow>
     rs \<noteq> [] \<longrightarrow> unat cp * 64 ^ length rs < 2 ^ 26 \<and>
       (if length rs = 1 then 2 else if fst (hd rs) = 0x80 then 1 else 0) \<le> unat cp"

lemma lead_codepoint:
  "unat (snd (decode 0 cp c)) = code_of c mod 2 ^ (8 - the (block_at utf8_blocks 0 (code_of c)))"
proof -
  define t where "t = the (block_at utf8_blocks 0 (code_of c))"
  have "k \<le> 32 \<Longrightarrow> drop_bit t (mask k) = (mask (k - t) :: 32 word)" for k
    by (rule bit_word_eqI) (auto simp: bit_simps)
  from this [of 8] have "drop_bit t 0xFF = (mask (8 - t) :: 32 word)"
    by (simp add: mask_eq_exp_minus_1 [where n = 8])
  then have "snd (decode 0 cp c) = take_bit (8 - t) (word_of_nat (code_of c))"
    by (simp add: decode_def Let_def UTF8_ACCEPT_def utf8d_type t_def take_bit_eq_mask and.commute)
  then show ?thesis
    by (simp add: unsigned_take_bit_eq unat_char_word take_bit_nat_def t_def)
qed

lemma lead_cp_inv:
  assumes "lead_ranges c = Some rs"
  shows "rs = [] \<Longrightarrow> unat (snd (decode 0 cp c)) = code_of c" "cp_inv rs (snd (decode 0 cp c))"
proof -
  have t: "rs = [] \<and> the (block_at utf8_blocks 0 (code_of c)) = 0 \<or>
    rs = [cont] \<and> the (block_at utf8_blocks 0 (code_of c)) = 2 \<and> 0xC2 \<le> code_of c \<and> code_of c < 0xE0 \<or>
    rs = [(0xA0, 0xBF), cont] \<and> the (block_at utf8_blocks 0 (code_of c)) = 10 \<or>
    rs = [cont, cont] \<and> the (block_at utf8_blocks 0 (code_of c)) = 3 \<and> 0xE1 \<le> code_of c \<and> code_of c \<le> 0xEF \<or>
    rs = [(0x80, 0x9F), cont] \<and> the (block_at utf8_blocks 0 (code_of c)) = 4 \<and> code_of c = 0xED \<or>
    rs = [(0x90, 0xBF), cont, cont] \<and> the (block_at utf8_blocks 0 (code_of c)) = 11 \<or>
    rs = [cont, cont, cont] \<and> the (block_at utf8_blocks 0 (code_of c)) = 6 \<and> 0xF1 \<le> code_of c \<and> code_of c \<le> 0xF3 \<or>
    rs = [(0x80, 0x8F), cont, cont] \<and> the (block_at utf8_blocks 0 (code_of c)) = 5 \<and> code_of c = 0xF4"
    using byte_type [of c] assms by (elim disjE conjE; simp add: lead_ranges_def utf8_follow_def)
  show "rs = [] \<Longrightarrow> unat (snd (decode 0 cp c)) = code_of c"
    using t by (simp add: lead_codepoint)
  have m: "0xC2 \<le> b \<Longrightarrow> b < 0xE0 \<Longrightarrow> 2 \<le> b mod 64" "0xE1 \<le> b \<Longrightarrow> b \<le> 0xEF \<Longrightarrow> 1 \<le> b mod 32"
    "0xF1 \<le> b \<Longrightarrow> b \<le> 0xF3 \<Longrightarrow> 1 \<le> b mod 4" for b :: nat
    using mod_in_block [of 3 64 b] mod_in_block [of 7 32 b] mod_in_block [of 60 4 b] by simp_all
  define u where "u = unat (snd (decode 0 cp c))"
  have u: "u = code_of c mod 2 ^ (8 - the (block_at utf8_blocks 0 (code_of c)))"
    unfolding u_def by (rule lead_codepoint)
  have "u < 256" using mod_less_eq_dividend [of "code_of c"] code_of_bound [of c] unfolding u by (rule le_less_trans)
  moreover have "rs = [cont] \<and> 2 \<le> u \<or> rs = [(0xA0, 0xBF), cont] \<or> rs = [(0x90, 0xBF), cont, cont] \<or> rs = [] \<or>
    rs \<in> {[cont, cont], [(0x80, 0x9F), cont], [cont, cont, cont], [(0x80, 0x8F), cont, cont]} \<and> 1 \<le> u"
    using t using m [of "code_of c"] by (elim disjE conjE) (simp_all add: u)
  ultimately show "cp_inv rs (snd (decode 0 cp c))"
    unfolding cp_inv_def u_def [symmetric] by (elim disjE conjE insertE emptyE) simp_all
qed

lemma cont_cp_inv:
  assumes "state_live st" "state_ranges st = r # rs" "in_range r c" "cp_inv (r # rs) cp"
  shows "rs = [] \<Longrightarrow> 0x80 \<le> unat (snd (decode st cp c))" "cp_inv rs (snd (decode st cp c))"
proof -
  have st: "r = cont \<and> rs = [] \<or> r = cont \<and> rs = [cont]
    \<or> r = (0xA0, 0xBF) \<and> rs = [cont] \<or> r = (0x80, 0x9F) \<and> rs = [cont]
    \<or> r = (0x90, 0xBF) \<and> rs = [cont, cont] \<or> r = cont \<and> rs = [cont, cont]
    \<or> r = (0x80, 0x8F) \<and> rs = [cont, cont]"
    using live_cases [OF assms(1)] assms(2) by (elim disjE; simp add: state_ranges_def; blast)
  have "st \<noteq> UTF8_ACCEPT" using assms(2) by (cases "st = 0") (simp_all add: state_ranges_def UTF8_ACCEPT_def)
  moreover have "unat cp < 2 ^ 26"
  proof -
    have "unat cp * 1 \<le> unat cp * 64 ^ length (r # rs)" by (intro mult_le_mono2) simp
    moreover have "unat cp * 64 ^ length (r # rs) < 2 ^ 26" using assms(4) unfolding cp_inv_def by blast
    ultimately show ?thesis by (simp only: mult_1_right)
  qed
  ultimately have d: "unat (snd (decode st cp c)) = code_of c mod 64 + 64 * unat cp" by (rule decode_codepoint)
  have m: "160 \<le> b \<Longrightarrow> b \<le> 191 \<Longrightarrow> 2 \<le> b mod 64" "144 \<le> b \<Longrightarrow> b \<le> 191 \<Longrightarrow> 1 \<le> b mod 64" for b :: nat
    using mod_in_block [of 2 64 b] by simp_all
  define u x where "u = unat (snd (decode st cp c))" and "x = code_of c mod 64"
  have u: "u = x + 64 * unat cp" "x < 64" using d by (simp_all add: u_def x_def)
  have x: "r = (0xA0, 0xBF) \<Longrightarrow> 2 \<le> x" "r = (0x90, 0xBF) \<Longrightarrow> 1 \<le> x"
    using assms(3) m [of "code_of c"] by (simp_all add: in_range_def x_def)
  show "rs = [] \<Longrightarrow> 0x80 \<le> unat (snd (decode st cp c))"
    using st assms(4) u unfolding u_def [symmetric] by (auto simp: cp_inv_def)
  show "cp_inv rs (snd (decode st cp c))"
    using st assms(4) x u unfolding cp_inv_def u_def [symmetric]
    by (elim disjE conjE) simp_all
qed

section \<open>The buffer\<close>

lemma length_u_escape [simp]: "length (u_escape w) = 6"
  by (simp add: u_escape_def hex4_def)

lemma put_codepoint_ok:
  assumes "length (es_buf e) \<le> (if asc then 499 else 502)"
  shows "\<exists>cs. put_codepoint asc c e = Inr (e\<lparr>es_buf := es_buf e @ cs\<rparr>)"
  using assms by (cases asc) (auto simp: put_codepoint_def buf_put_def Let_def word_le_nat_alt)

lemma buf_flush_room: "length (es_buf (buf_flush e)) \<le> 499"
  by (auto simp: buf_flush_def)

lemma buf_flush_simps [simp]:
  "es_out (buf_flush e) @ es_buf (buf_flush e) = es_out e @ es_buf e" "es_state (buf_flush e) = es_state e"
  "es_codepoint (buf_flush e) = es_codepoint e" "es_undumped (buf_flush e) = es_undumped e"
  by (simp_all add: buf_flush_def)

lemma u_escape_small:
  assumes "unat cp = n" "n < 256"
  shows "u_escape (ucast (cp :: 32 word)) = [bslash, CHR ''u'', CHR ''0'', CHR ''0'', hex_char (n div 16), hex_char (n mod 16)]"
proof -
  have w: "unat (ucast cp :: 16 word) = n"
    using assms by (simp add: unsigned_ucast_eq take_bit_nat_def)
  have h: "unat (drop_bit k w AND 0xF) = unat w div 2 ^ k mod 16" for k and w :: "16 word"
  proof -
    have "w' AND 0xF = take_bit 4 w'" for w' :: "16 word" by (simp add: take_bit_eq_mask mask_eq_exp_minus_1)
    then show ?thesis by (simp only: unsigned_take_bit_eq) (simp add: unat_drop_bit_eq drop_bit_nat_def take_bit_nat_def)
  qed
  have "n div 256 = 0" "n div 4096 = 0" "n div 16 < 16" using assms by auto
  moreover have "hex_char 0 = CHR ''0''" by (simp add: hex_char_def char_of_def bit_0)
  ultimately show ?thesis
    by (simp add: u_escape_def hex4_def h w)
qed

lemma put_ascii:
  assumes "unat (es_codepoint e) = code_of c" "code_of c \<le> 0x7F" "length (es_buf e) \<le> 499"
  shows "put_codepoint False c e = Inr (e\<lparr>es_buf := es_buf e @ escape_char c\<rparr>)"
proof -
  have "c = dquote \<longleftrightarrow> code_of c = 0x22" "c = bslash \<longleftrightarrow> code_of c = 0x5C"
    by (simp_all add: code_of_def flip: code_of_inject)
  then show ?thesis
    using assms u_escape_small [OF assms(1)]
    by (simp add: put_codepoint_def escape_char_def buf_put_def Let_def word_unat_eq_iff word_le_nat_alt)
qed

lemma put_multibyte:
  assumes "0x80 \<le> unat (es_codepoint e)" "length (es_buf e) \<le> 502"
  shows "put_codepoint False c e = Inr (e\<lparr>es_buf := es_buf e @ [c]\<rparr>)"
  using assms by (auto simp: put_codepoint_def buf_put_def Let_def word_unat_eq_iff word_le_nat_alt)

lemma escape_char_multibyte: "0x80 \<le> code_of c \<Longrightarrow> escape_char c = [c]"
  by (auto simp: escape_char_def code_of_def)

definition esc_inv :: "escaper \<Rightarrow> bool" where
  "esc_inv e \<longleftrightarrow> state_live (es_state e) \<and> cp_inv (state_ranges (es_state e)) (es_codepoint e) \<and>
     length (es_buf e) + length (state_ranges (es_state e)) \<le> (if es_state e = UTF8_ACCEPT then 499 else 503)"

definition seen :: "char \<Rightarrow> escaper \<Rightarrow> escaper" where
  "seen c e = (let (st, cp) = decode (es_state e) (es_codepoint e) c in e\<lparr>es_state := st, es_codepoint := cp\<rparr>)"

lemma seen_simps [simp]:
  "es_state (seen c e) = fst (decode (es_state e) (es_codepoint e) c)"
  "es_codepoint (seen c e) = snd (decode (es_state e) (es_codepoint e) c)"
  "es_buf (seen c e) = es_buf e" "es_out (seen c e) = es_out e" "es_undumped (seen c e) = es_undumped e"
  "es_after (seen c e) = es_after e"
  by (simp_all add: seen_def split: prod.split)

lemma escape_unfold:
  "escape_loop eh asc (c # cs) e =
     (if es_state (seen c e) = UTF8_ACCEPT then
        (case put_codepoint asc c (seen c e) of
           Inl f \<Rightarrow> Inl f
         | Inr e2 \<Rightarrow> escape_loop eh asc cs ((buf_flush e2)\<lparr>es_after := length (es_buf (buf_flush e2)), es_undumped := 0\<rparr>))
      else if es_state (seen c e) = UTF8_REJECT then
        (if eh = Strict then Inl JsonError
         else case skip_invalid eh asc (seen c e) of
                Inl f \<Rightarrow> Inl f
              | Inr e2 \<Rightarrow> escape_loop eh asc (if 0 < es_undumped e then c # cs else cs) e2)
      else
        (case (if asc then Inr (seen c e) else buf_put 0 [c] (seen c e)) of
           Inl f \<Rightarrow> Inl f
         | Inr e2 \<Rightarrow> escape_loop eh asc cs (e2\<lparr>es_undumped := es_undumped e2 + 1\<rparr>)))"
  unfolding escape_loop.simps(2) seen_def Let_def by (cases "decode (es_state e) (es_codepoint e) c") simp

text \<open>The three ways a byte goes in strict mode.\<close>

lemma escape_accept:
  assumes "es_state (seen c e) = UTF8_ACCEPT" "put_codepoint asc c (seen c e) = Inr e2"
  shows "escape_loop eh asc (c # cs) e =
    escape_loop eh asc cs ((buf_flush e2)\<lparr>es_after := length (es_buf (buf_flush e2)), es_undumped := 0\<rparr>)"
  using assms by (simp add: escape_unfold)

lemma escape_reject:
  "es_state (seen c e) = UTF8_REJECT \<Longrightarrow> escape_loop Strict asc (c # cs) e = Inl JsonError"
  by (simp add: escape_unfold UTF8_ACCEPT_def UTF8_REJECT_def)

lemma escape_more:
  assumes "es_state (seen c e) \<noteq> UTF8_ACCEPT" "es_state (seen c e) \<noteq> UTF8_REJECT" "length (es_buf e) < 512"
  shows "escape_loop eh False (c # cs) e =
    escape_loop eh False cs ((seen c e)\<lparr>es_buf := es_buf e @ [c], es_undumped := es_undumped e + 1\<rparr>)"
  using assms by (simp add: escape_unfold buf_put_def)

lemma state_ranges_Nil: "state_live st \<Longrightarrow> state_ranges st = [] \<longleftrightarrow> st = UTF8_ACCEPT"
  by (drule live_cases) (auto simp: state_ranges_def UTF8_ACCEPT_def)

lemma length_state_ranges: "state_live st \<Longrightarrow> length (state_ranges st) \<le> 3"
  by (drule live_cases) (auto simp: state_ranges_def)

lemma lead_multibyte: "lead_ranges c = Some (r # rs) \<Longrightarrow> 0x80 \<le> code_of c"
  by (auto simp: lead_ranges_def split: if_splits)

lemma lead_range_multibyte: "lead_ranges c = Some rs \<Longrightarrow> \<forall>r \<in> set rs. 0x80 \<le> fst r"
  by (auto simp: lead_ranges_def utf8_follow_def split: if_splits)

lemma range_multibyte: "state_live st \<Longrightarrow> state_ranges st = r # rs \<Longrightarrow> in_range r c \<Longrightarrow> 0x80 \<le> code_of c"
  by (drule live_cases) (auto simp: state_ranges_def in_range_def)

lemma lead_ascii: "lead_ranges c = Some [] \<Longrightarrow> code_of c \<le> 0x7F"
  by (auto simp: lead_ranges_def utf8_follow_def split: if_splits)

lemma escape_strict:
  assumes "esc_inv e"
  shows "if utf8_from (state_ranges (es_state e)) s
    then \<exists>e'. escape_loop Strict False s e = Inr e' \<and> es_state e' = UTF8_ACCEPT \<and>
      es_out e' @ es_buf e' = es_out e @ es_buf e @ escape s
    else escape_loop Strict False s e = Inl JsonError \<or>
      (\<exists>e'. escape_loop Strict False s e = Inr e' \<and> es_state e' \<noteq> UTF8_ACCEPT)"
  using assms
proof (induction s arbitrary: e)
  case Nil
  then have "state_ranges (es_state e) = [] \<longleftrightarrow> es_state e = UTF8_ACCEPT"
    by (simp add: esc_inv_def state_ranges_Nil)
  then show ?case by (cases "state_ranges (es_state e)") (auto simp: escape_loop.simps(1) escape_def)
next
  case (Cons c s)
  let ?e1 = "seen c e"
  let ?rs' = "state_ranges (es_state ?e1)"
  from Cons.prems have live: "state_live (es_state e)"
    and len: "length (es_buf e) + length (state_ranges (es_state e)) \<le> (if es_state e = UTF8_ACCEPT then 499 else 503)"
    and cp: "cp_inv (state_ranges (es_state e)) (es_codepoint e)"
    by (auto simp: esc_inv_def)
  have more: ?case if st: "state_live (es_state ?e1)" "es_state ?e1 \<noteq> UTF8_ACCEPT"
    and cp': "cp_inv ?rs' (es_codepoint ?e1)" and len': "length (es_buf e) + 1 + length ?rs' \<le> 503"
    and u: "utf8_from (state_ranges (es_state e)) (c # s) = utf8_from ?rs' s" and m: "0x80 \<le> code_of c"
  proof -
    let ?e2 = "?e1\<lparr>es_buf := es_buf e @ [c], es_undumped := es_undumped e + 1\<rparr>"
    have "escape_loop Strict False (c # s) e = escape_loop Strict False s ?e2"
      using st len' by (intro escape_more) (auto simp: state_live_def)
    moreover have "esc_inv ?e2" using st cp' len' by (simp add: esc_inv_def)
    ultimately show ?case using Cons.IH [of ?e2] u escape_char_multibyte [OF m] by (auto simp: escape_def split: if_splits)
  qed
  have accept: ?case if st: "es_state ?e1 = UTF8_ACCEPT"
    and put: "put_codepoint False c ?e1 = Inr (?e1\<lparr>es_buf := es_buf e @ escape_char c\<rparr>)"
    and u: "utf8_from (state_ranges (es_state e)) (c # s) = utf8_from [] s"
  proof -
    let ?e2 = "buf_flush (?e1\<lparr>es_buf := es_buf e @ escape_char c\<rparr>)"
    let ?e3 = "?e2\<lparr>es_after := length (es_buf ?e2), es_undumped := 0\<rparr>"
    have "escape_loop Strict False (c # s) e = escape_loop Strict False s ?e3"
      by (rule escape_accept [OF st put])
    moreover have s3: "es_state ?e3 = UTF8_ACCEPT" using st by simp
    then have "esc_inv ?e3"
      using buf_flush_room by (simp add: esc_inv_def state_live_def cp_inv_def UTF8_ACCEPT_def UTF8_REJECT_def state_ranges_def)
    moreover have "es_out ?e3 @ es_buf ?e3 = es_out e @ es_buf e @ escape_char c" by simp
    moreover have "state_ranges (es_state ?e3) = []" using s3 by (simp add: state_ranges_def UTF8_ACCEPT_def)
    ultimately show ?case using Cons.IH [of ?e3] u by (auto simp: escape_def split: if_splits)
  qed
  show ?case
  proof (cases "state_ranges (es_state e)")
    case Nil
    then have e0: "es_state e = 0" using live state_ranges_Nil by (simp add: UTF8_ACCEPT_def)
    show ?thesis
    proof (cases "lead_ranges c")
      case None
      then show ?thesis using decode_lead [of "es_codepoint e" c] Nil e0 by (simp add: escape_reject)
    next
      case (Some rs)
      then have d: "state_live (es_state ?e1)" "?rs' = rs" using decode_lead [of "es_codepoint e" c] e0 by simp_all
      have cp': "cp_inv ?rs' (es_codepoint ?e1)" using lead_cp_inv(2) [OF Some] d(2) e0 by simp
      have u: "utf8_from (state_ranges (es_state e)) (c # s) = utf8_from rs s" using Nil Some by simp
      show ?thesis
      proof (cases rs)
        case rs: Nil
        then have st: "es_state ?e1 = UTF8_ACCEPT" using d state_ranges_Nil by blast
        show ?thesis
          using accept [OF st] put_ascii [of ?e1 c] lead_cp_inv(1) [OF Some rs, of "es_codepoint e"] lead_ascii Some rs e0 len Nil u
          by (simp add: UTF8_ACCEPT_def)
      next
        case (Cons r rs')
        show ?thesis
          by (rule more [OF d(1) _ cp'])
            (use d Cons state_ranges_Nil [OF d(1)] length_state_ranges [OF d(1)] len e0 u lead_multibyte Some in
              \<open>auto simp: UTF8_ACCEPT_def\<close>)
      qed
    qed
  next
    case rs: (Cons r rs)
    note d = decode_cont [OF live rs, of c "es_codepoint e"]
    have st0: "es_state e \<noteq> UTF8_ACCEPT" using rs state_ranges_Nil [OF live] by auto
    show ?thesis
    proof (cases "in_range r c")
      case False
      then show ?thesis using d rs by (simp add: escape_reject)
    next
      case True
      then have st: "state_live (es_state ?e1)" "?rs' = rs" using d by simp_all
      have u: "utf8_from (state_ranges (es_state e)) (c # s) = utf8_from rs s" using rs True by simp
      note m = range_multibyte [OF live rs True]
      note c' = cont_cp_inv [OF live rs True cp [unfolded rs]]
      show ?thesis
      proof (cases rs)
        case Nil
        then have a: "es_state ?e1 = UTF8_ACCEPT" using st state_ranges_Nil by blast
        show ?thesis
          using accept [OF a] put_multibyte [of ?e1 c] c'(1) Nil len st0 rs u escape_char_multibyte [OF m] by simp
      next
        case (Cons r' rs')
        show ?thesis
          by (rule more [OF st(1)])
            (use st Cons state_ranges_Nil [OF st(1)] len rs st0 u m c'(2) in auto)
      qed
    qed
  qed
qed

lemma esc_inv_new: "esc_inv (escaper_new out)"
  by (simp add: esc_inv_def escaper_new_def state_live_def cp_inv_def state_ranges_def UTF8_ACCEPT_def UTF8_REJECT_def)

theorem dump_escaped_strict:
  "dump_escaped Strict False s out = (if utf8 s then Inr (out @ escape s) else Inl JsonError)"
proof -
  have "state_ranges (es_state (escaper_new out)) = []"
    by (simp add: escaper_new_def state_ranges_def UTF8_ACCEPT_def)
  then show ?thesis
    using escape_strict [OF esc_inv_new, of out s]
    by (auto simp: dump_escaped_def utf8_def escaper_new_def split: if_splits)
qed

text \<open>The room in the buffer, for every error handler.\<close>

definition esc_room :: "bool \<Rightarrow> escaper \<Rightarrow> bool" where
  "esc_room asc e \<longleftrightarrow> state_live (es_state e) \<and> es_after e \<le> 499 \<and>
     length (es_buf e) \<le> (if asc \<or> es_state e = UTF8_ACCEPT then 499 else 503 - length (state_ranges (es_state e)))"

lemma decode_live:
  assumes "state_live st"
  shows "fst (decode st cp c) = UTF8_REJECT \<or> state_live (fst (decode st cp c)) \<and>
    (st \<noteq> UTF8_ACCEPT \<longrightarrow> length (state_ranges (fst (decode st cp c))) < length (state_ranges st))"
proof (cases "state_ranges st")
  case Nil
  then have "st = 0" using assms state_ranges_Nil by (simp add: UTF8_ACCEPT_def)
  then show ?thesis using decode_lead [of cp c] by (auto simp: UTF8_ACCEPT_def split: option.splits)
next
  case (Cons r rs)
  then show ?thesis using decode_cont [OF assms Cons, of c cp] by (auto split: if_splits)
qed

lemma skip_invalid_room:
  assumes "es_after e \<le> 499"
  shows "\<exists>e'. skip_invalid eh asc e = Inr e' \<and> esc_room asc e'"
proof -
  have "length (replacement asc) \<le> 6" by (simp add: replacement_def)
  then show ?thesis
    using assms buf_flush_room
    by (auto simp: skip_invalid_def buf_put_def Let_def esc_room_def state_live_def UTF8_ACCEPT_def UTF8_REJECT_def)
qed

lemma escape_loop_room:
  assumes "esc_room asc e"
  shows "(\<exists>e'. escape_loop eh asc s e = Inr e' \<and> esc_room asc e') \<or> eh = Strict \<and> escape_loop eh asc s e = Inl JsonError"
  using assms
proof (induction eh asc s e rule: escape_loop.induct)
  case (2 eh asc c cs e)
  let ?e1 = "seen c e"
  have d: "decode (es_state e) (es_codepoint e) c = (es_state ?e1, es_codepoint ?e1)" by simp
  have e1: "?e1 = e\<lparr>es_state := es_state ?e1, es_codepoint := es_codepoint ?e1\<rparr>"
    by (simp add: seen_def split: prod.split)
  have live: "state_live (es_state e)" and after: "es_after ?e1 \<le> 499" using "2.prems" by (auto simp: esc_room_def)
  note nx = decode_live [OF live, of "es_codepoint e" c]
  consider (acc) "es_state ?e1 = UTF8_ACCEPT" | (rej) "es_state ?e1 = UTF8_REJECT"
    | (more) "es_state ?e1 \<noteq> UTF8_ACCEPT" "es_state ?e1 \<noteq> UTF8_REJECT" by blast
  then show ?case
  proof cases
    case acc
    have "length (es_buf ?e1) \<le> (if asc then 499 else 502)"
      using "2.prems" live state_ranges_Nil [OF live]
      by (cases "state_ranges (es_state e)") (auto simp: esc_room_def split: if_splits)
    then obtain bs where put: "put_codepoint asc c ?e1 = Inr (?e1\<lparr>es_buf := es_buf ?e1 @ bs\<rparr>)"
      using put_codepoint_ok by blast
    let ?e2 = "?e1\<lparr>es_buf := es_buf ?e1 @ bs\<rparr>"
    let ?e3 = "(buf_flush ?e2)\<lparr>es_after := length (es_buf (buf_flush ?e2)), es_undumped := 0\<rparr>"
    have "esc_room asc ?e3" using acc buf_flush_room [of ?e2] by (simp add: esc_room_def state_live_def UTF8_ACCEPT_def UTF8_REJECT_def)
    then show ?thesis
      using "2.IH"(1) [OF refl d [symmetric] e1 acc put refl] escape_accept [OF acc put, of eh cs] by simp
  next
    case rej
    then have ne: "es_state ?e1 \<noteq> UTF8_ACCEPT" by (simp add: UTF8_ACCEPT_def UTF8_REJECT_def)
    show ?thesis
    proof (cases "eh = Strict")
      case True
      then show ?thesis using rej escape_reject by blast
    next
      case False
      obtain e2 where e2: "skip_invalid eh asc ?e1 = Inr e2" "esc_room asc e2"
        using skip_invalid_room [OF after] by blast
      have "escape_loop eh asc (c # cs) e = escape_loop eh asc (if 0 < es_undumped ?e1 then c # cs else cs) e2"
        using e2(1) rej ne False by (simp add: escape_unfold)
      then show ?thesis using "2.IH"(2) [OF refl d [symmetric] e1 ne rej False e2(1) e2(2)] by simp
    qed
  next
    case more
    have len: "asc \<or> length (es_buf e) + 1 + length (state_ranges (es_state ?e1)) \<le> 503"
      using "2.prems" nx more length_state_ranges [of "es_state ?e1"] by (auto simp: esc_room_def split: if_splits)
    obtain e2 where e2: "(if asc then Inr ?e1 else buf_put 0 [c] ?e1) = Inr e2" "es_state e2 = es_state ?e1"
      "es_after e2 = es_after ?e1" "es_buf e2 = (if asc then es_buf e else es_buf e @ [c])"
      using len by (cases asc) (auto simp: buf_put_def)
    let ?e3 = "e2\<lparr>es_undumped := es_undumped e2 + 1\<rparr>"
    have "esc_room asc ?e3"
      using "2.prems" nx more len e2 state_ranges_Nil [of "es_state ?e1"] by (auto simp: esc_room_def split: if_splits)
    moreover have "escape_loop eh asc (c # cs) e = escape_loop eh asc cs ?e3"
      using e2(1) more by (simp only: escape_unfold if_False sum.case)
    ultimately show ?thesis using "2.IH"(3) [OF refl d [symmetric] e1 more e2(1)] by simp
  qed
qed (simp add: escape_loop.simps(1))

text \<open>C20: The string buffer. For every error handler, with and without \<open>ensure_ascii\<close>, and for every string, well-formed
  or not, \<open>dump_escaped\<close> never writes past its 512 bytes and never ends in undefined behaviour: it gives a text, or
  throws, which only the strict handler does.\<close>

theorem dump_escaped_bounded:
  "(\<exists>t. dump_escaped eh asc s out = Inr t) \<or> eh = Strict \<and> dump_escaped eh asc s out = Inl JsonError"
proof -
  have "esc_room asc (escaper_new out)"
    by (simp add: esc_room_def escaper_new_def state_live_def UTF8_ACCEPT_def UTF8_REJECT_def)
  then consider e where "escape_loop eh asc s (escaper_new out) = Inr e"
    | "eh = Strict" "escape_loop eh asc s (escaper_new out) = Inl JsonError"
    using escape_loop_room by blast
  then show ?thesis
  proof cases
    case (1 e)
    then show ?thesis by (cases "es_state e = UTF8_ACCEPT"; cases eh) (simp_all add: dump_escaped_def)
  qed (simp add: dump_escaped_def)
qed

section \<open>Integers\<close>

lemma nat_to_string_100:
  assumes "100 \<le> n"
  shows "nat_to_string n = nat_to_string (n div 100) @ [digit_char (n mod 100 div 10), digit_char (n mod 10)]"
proof -
  have "n div 10 mod 10 = n mod 100 div 10" using mod_mult2_eq [of n 10 10] by simp
  then show ?thesis
    using assms by (simp add: nat_to_string.simps [of n] nat_to_string.simps [of "n div 10"] div_mult2_eq [symmetric])
qed

lemma count_digits: "count_digits n = length (nat_to_string n)"
proof (induction n rule: count_digits.induct)
  case (1 n)
  have s: "nat_to_string n = nat_to_string (n div 10) @ [digit_char (n mod 10)]" if "10 \<le> n"
    using that by (simp add: nat_to_string.simps [of n])
  have big: "length (nat_to_string n) = length (nat_to_string (n div 10000)) + 4" if "10000 \<le> n"
    using that nat_to_string_100 [of n] nat_to_string_100 [of "n div 100"] by (simp add: div_mult2_eq [symmetric])
  consider "n < 10" | "10 \<le> n" "n < 100" | "100 \<le> n" "n < 1000" | "1000 \<le> n" "n < 10000" | "10000 \<le> n" by linarith
  then show ?case
  proof cases
    case 5
    then show ?thesis using 1 big by (simp add: count_digits.simps [of n])
  next
    case 3
    then have "n div 100 < 10" by auto
    then show ?thesis using 3 nat_to_string_100 [of n] by (simp add: count_digits.simps nat_to_string.simps [of "n div 100"])
  next
    case 4
    then have "n div 100 < 100" "10 \<le> n div 100" by auto
    then show ?thesis
      using 4 nat_to_string_100 [of n]
      by (simp add: count_digits.simps nat_to_string.simps [of "n div 100"] nat_to_string.simps [of "n div 100 div 10"])
  qed (use s in \<open>simp_all add: count_digits.simps nat_to_string.simps [of n] nat_to_string.simps [of "n div 10"]\<close>)
qed

lemma nth_pairs:
  assumes "i < length xs" "j < length xs"
  shows "concat (map (\<lambda>a. map (Pair a) xs) xs) ! (i * length xs + j) = (xs ! i, xs ! j)"
  using assms by (subst nth_concat_rows) auto

lemma digits_to_99_nth: "i < 100 \<Longrightarrow> digits_to_99 ! i = (digit_char (i div 10), digit_char (i mod 10))"
proof -
  assume "i < 100"
  have d: "d < 10 \<Longrightarrow> ''0123456789'' ! d = digit_char d" for d
  proof -
    assume "d < 10"
    then have "d \<in> {0, 1, 2, 3, 4, 5, 6, 7, 8, 9}" by auto
    then show ?thesis by (elim insertE emptyE) (simp_all add: digit_char_def char_of_def bit_0)
  qed
  define ds where "ds = ''0123456789''"
  have ds: "length ds = 10" "d < 10 \<Longrightarrow> ds ! d = digit_char d" for d using d [of d] by (simp_all add: ds_def)
  have "i div 10 < 10" using \<open>i < 100\<close> by auto
  then show ?thesis
    using nth_pairs [of "i div 10" ds "i mod 10"] unfolding digits_to_99_def ds_def [symmetric] by (simp add: ds)
qed

lemma buffer_put_end: "buffer_put c (xs @ [u] @ ys, Suc (length xs)) = Inr (xs @ [c] @ ys, length xs)"
  by (simp add: buffer_put_def)

lemma put_pair_end:
  "i < 100 \<Longrightarrow> put_pair i (xs @ [u, v] @ ys, Suc (Suc (length xs))) =
    Inr (xs @ [digit_char (i div 10), digit_char (i mod 10)] @ ys, length xs)"
  using buffer_put_end [of "digit_char (i mod 10)" "xs @ [u]" v ys] buffer_put_end [of _ xs u "digit_char (i mod 10) # ys"]
  by (simp add: put_pair_def digits_to_99_nth)

lemma write_digits:
  "length us = length (nat_to_string n) \<Longrightarrow>
    write_digits n (xs @ us @ ys, length xs + length us) = Inr (xs @ nat_to_string n @ ys, length xs)"
proof (induction n arbitrary: us ys rule: less_induct)
  case (less n)
  show ?case
  proof (cases "100 \<le> n")
    case True
    note n = nat_to_string_100 [OF True]
    obtain us' u v where us: "us = us' @ [u, v]" "length us' = length (nat_to_string (n div 100))"
      using less.prems unfolding n
      by (metis (no_types) append_butlast_last_id append_assoc append_Cons append_Nil length_append length_butlast
          diff_add_inverse2 list.size(3,4) length_0_conv add_is_0 One_nat_def Suc_eq_plus1 diff_Suc_Suc diff_zero
          add_Suc_right nat.distinct(1))
    have "put_pair (n mod 100) (xs @ us @ ys, length xs + length us) =
      Inr ((xs @ us') @ [digit_char (n mod 100 div 10), digit_char (n mod 10)] @ ys, length xs + length us')"
      using put_pair_end [of "n mod 100" "xs @ us'" u v ys] us by (simp add: mod_mod_cancel)
    then show ?thesis
      using True less.IH [of "n div 100" us'] us n by (subst write_digits.simps) simp
  next
    case False
    show ?thesis
    proof (cases "10 \<le> n")
      case True
      then have n: "nat_to_string n = [digit_char (n div 10), digit_char (n mod 10)]"
        using False by (simp add: nat_to_string.simps [of n] nat_to_string.simps [of "n div 10"])
      then obtain u v where "us = [u, v]" using less.prems by (auto simp: length_Suc_conv)
      then show ?thesis using False True n put_pair_end [of n xs u v ys] by (subst write_digits.simps) simp
    next
      case small: False
      then have n: "nat_to_string n = [digit_char n]" by (simp add: nat_to_string.simps [of n])
      then obtain u where "us = [u]" using less.prems by (auto simp: length_Suc_conv)
      then show ?thesis
        using small n buffer_put_end [of "digit_char n" xs u ys] by (subst write_digits.simps) (simp add: digit_char_def)
    qed
  qed
qed

text \<open>The integers of the library: 64 bits, signed or unsigned.\<close>

definition int_ok :: "int \<Rightarrow> bool" where
  "int_ok i \<longleftrightarrow> - (2 ^ 63) \<le> i \<and> i < 2 ^ 64"

text \<open>The text printed, whatever the number buffer holds afterwards.\<close>

definition prints :: "string \<Rightarrow> dump_state \<Rightarrow> dump_state \<Rightarrow> bool" where
  "prints t st st' \<longleftrightarrow> ds_out st' = ds_out st @ t \<and> ds_indent st' = ds_indent st \<and> length (ds_numbers st') = 64"

lemma dump_integer_correct:
  assumes "length (ds_numbers st) = 64" "int_ok i"
  shows "\<exists>st'. dump_integer i st = Inr st' \<and> prints (int_to_string i) st st'"
proof (cases "i = 0")
  case True
  then show ?thesis using assms by (simp add: dump_integer_def int_to_string_def nat_to_string_eval prints_def write_text_def)
next
  case False
  let ?junk = "ds_numbers st"
  define n where "n = nat \<bar>i\<bar>"
  have abs: "(if i < 0 then remove_sign i else nat i) = n" using False by (auto simp: remove_sign_def n_def)
  have "n < 10 ^ 20" using assms(2) by (auto simp: int_ok_def n_def)
  then have len: "length (nat_to_string n) \<le> 20" by (intro length_nat_to_string) simp_all
  define us ys where "us = take (length (nat_to_string n)) (drop (if i < 0 then 1 else 0) ?junk)"
    and "ys = drop (length (nat_to_string n)) (drop (if i < 0 then 1 else 0) ?junk)"
  define xs where "xs = (if i < 0 then [CHR ''-''] else [])"
  have us: "length us = length (nat_to_string n)" using len assms(1) by (simp add: us_def)
  have buf: "(if i < 0 then ?junk[0 := CHR ''-''] else ?junk) = xs @ us @ ys"
    using assms(1) by (cases ?junk) (auto simp: us_def ys_def xs_def)
  from arg_cong [OF this, of length] have len': "length (xs @ us @ ys) = 64" using assms(1) by (simp split: if_splits)
  have n_chars: "(if i < 0 then 1 + count_digits n else count_digits n) = length xs + length us"
    by (simp add: count_digits us xs_def)
  have "dump_integer i st = Inr (write_text (take (length xs + length us) (xs @ nat_to_string n @ ys))
      (st\<lparr>ds_numbers := xs @ nat_to_string n @ ys\<rparr>))"
    unfolding dump_integer_def Let_def abs buf n_chars write_digits [OF us]
    using False len us by (simp add: xs_def)
  moreover have "take (length xs + length us) (xs @ nat_to_string n @ ys) = int_to_string i"
    using us by (auto simp: xs_def n_def int_to_string_def)
  ultimately show ?thesis using len' us by (simp add: prints_def write_text_def)
qed

lemma dump_float_correct:
  assumes "length (ds_numbers st) = 64"
  shows "\<exists>st'. dump_float x st = Inr st' \<and> prints (dump (JFloat x)) st st'"
proof (cases "isfinite x")
  case True
  from to_chars_text [OF this assms] obtain buf where
    "to_chars (ds_numbers st) x = Inr (buf, length (float_text x))" "starts (float_text x) 64 buf" by blast
  then show ?thesis using True by (simp add: dump_float_def prints_def write_text_def starts_def)
qed (simp add: dump_float_def prints_def write_text_def assms)

section \<open>Values\<close>

fun strings_ok :: "json \<Rightarrow> bool" where
  "strings_ok (JStr s) = utf8 s"
| "strings_ok (JArr xs) = (\<forall>x \<in> set xs. strings_ok x)"
| "strings_ok (JObj kvs) = (\<forall>kv \<in> set kvs. utf8 (fst kv) \<and> strings_ok (snd kv))"
| "strings_ok _ = True"

fun ints_ok :: "json \<Rightarrow> bool" where
  "ints_ok (JInt i) = int_ok i"
| "ints_ok (JArr xs) = (\<forall>x \<in> set xs. ints_ok x)"
| "ints_ok (JObj kvs) = (\<forall>kv \<in> set kvs. ints_ok (snd kv))"
| "ints_ok _ = True"

abbreviation compact :: "dumper \<Rightarrow> bool" where
  "compact d \<equiv> \<not> d_pretty d \<and> \<not> d_ascii d \<and> d_handler d = Strict"

lemma compact_simps:
  assumes "compact d"
  shows "open_container d c n st = write_text [c] st" "close_container d c n st = Inr (write_text [c] st)"
    "before_element d n st = Inr st" "between_elements d st = write_text '','' st"
    "write_escaped d s st = (if utf8 s then Inr (write_text (escape s) st) else Inl JsonError)"
    "dump_key d k st = (if utf8 k then Inr (write_text (quoted (escape k) @ '':'') st) else Inl JsonError)"
  using assms
  by (simp_all add: open_container_def close_container_def before_element_def between_elements_def
      dump_key_def write_escaped_def dump_escaped_strict quoted_def write_text_def)

lemma prints_write: "length (ds_numbers st) = 64 \<Longrightarrow> prints t st (write_text t st)"
  by (simp add: prints_def write_text_def)

lemma prints_trans: "prints t st st1 \<Longrightarrow> prints u st1 st2 \<Longrightarrow> prints (t @ u) st st2"
  by (simp add: prints_def)

lemma prints_numbers: "prints t st st' \<Longrightarrow> length (ds_numbers st') = 64"
  by (simp add: prints_def)

lemma join_with_Cons: "join_with sep (x # xs) = (if xs = [] then x else x @ sep @ join_with sep xs)"
  by (cases xs) simp_all

text \<open>The result when a condition on the strings holds and when it does not.\<close>

definition prints_if :: "bool \<Rightarrow> string \<Rightarrow> dump_state \<Rightarrow> dump_state res \<Rightarrow> bool" where
  "prints_if b t st r \<longleftrightarrow> (if b then \<exists>st'. r = Inr st' \<and> prints t st st' else r = Inl JsonError)"

lemma prints_if_write: "length (ds_numbers st) = 64 \<Longrightarrow> prints_if True t st (Inr (write_text t st))"
  by (simp add: prints_if_def prints_write)

lemma prints_if_bind:
  assumes "prints_if b t st m" "\<And>st'. prints t st st' \<Longrightarrow> prints_if c u st' (f st')"
  shows "prints_if (b \<and> c) (t @ u) st (rbind m f)"
proof (cases b)
  case True
  then obtain st1 where "m = Inr st1" "prints t st st1" using assms(1) by (auto simp: prints_if_def)
  then show ?thesis using True assms(2) prints_trans by (fastforce simp: prints_if_def)
qed (use assms(1) in \<open>simp add: prints_if_def\<close>)

lemma prints_if_text: "prints_if c u (write_text t st) r \<Longrightarrow> length (ds_numbers st) = 64 \<Longrightarrow> prints_if c (t @ u) st r"
  using prints_trans prints_write by (fastforce simp: prints_if_def)

lemma prints_if_key: "compact d \<Longrightarrow> length (ds_numbers st) = 64 \<Longrightarrow> prints_if (utf8 k) (quoted (escape k) @ '':'') st (dump_key d k st)"
  by (simp add: prints_if_def compact_simps prints_write)

lemma prints_if_container:
  assumes "compact d" "length (ds_numbers st) = 64" "prints_if b t (write_text [c] st) m"
  shows "prints_if b ([c] @ t @ [c']) st (rbind m (close_container d c' cur))"
proof -
  have "prints_if (b \<and> True) (t @ [c']) (write_text [c] st) (rbind m (close_container d c' cur))"
    using assms(3) by (rule prints_if_bind) (simp add: compact_simps [OF assms(1)] prints_if_write prints_numbers)
  then have "prints_if b (t @ [c']) (write_text [c] st) (rbind m (close_container d c' cur))" by simp
  from prints_if_text [OF this assms(2)] show ?thesis .
qed

lemma serialize_compact:
  "compact d \<Longrightarrow> ints_ok j \<Longrightarrow> length (ds_numbers st) = 64 \<Longrightarrow> prints_if (strings_ok j) (dump j) st (serialize d j n st)"
  "compact d \<Longrightarrow> \<forall>x \<in> set xs. ints_ok x \<Longrightarrow> length (ds_numbers st) = 64 \<Longrightarrow>
    prints_if (\<forall>x \<in> set xs. strings_ok x) (join_with '','' (map dump xs)) st (dump_elements d xs n st)"
  "compact d \<Longrightarrow> \<forall>kv \<in> set kvs. ints_ok (snd kv) \<Longrightarrow> length (ds_numbers st) = 64 \<Longrightarrow>
    prints_if (\<forall>kv \<in> set kvs. utf8 (fst kv) \<and> strings_ok (snd kv))
      (join_with '','' (map (\<lambda>kv. quoted (escape (fst kv)) @ '':'' @ dump (snd kv)) kvs)) st (dump_members d kvs n st)"
proof (induction d j n st and d xs n st and d kvs n st rule: serialize_dump_elements_dump_members.induct)
  case (1 d kvs cur st)
  show ?case
  proof (cases "kvs = []")
    case False
    have "prints_if (strings_ok (JObj kvs)) (join_with '','' (map (\<lambda>kv. quoted (escape (fst kv)) @ '':'' @ dump (snd kv)) kvs))
        (write_text ''{'' st) (dump_members d kvs (cur + d_step d) (write_text ''{'' st))"
      using "1.IH" [OF False] "1.prems" prints_numbers [OF prints_write] by (simp add: compact_simps)
    from prints_if_container [OF "1.prems"(1,3) this, of "CHR ''}''" cur] show ?thesis
      using False "1.prems" by (simp add: compact_simps)
  qed (use "1.prems" prints_if_write [of st "''{}''"] in simp)
next
  case (2 d xs cur st)
  show ?case
  proof (cases "xs = []")
    case False
    have "prints_if (strings_ok (JArr xs)) (join_with '','' (map dump xs))
        (write_text ''['' st) (dump_elements d xs (cur + d_step d) (write_text ''['' st))"
      using "2.IH" [OF False] "2.prems" prints_numbers [OF prints_write] by (simp add: compact_simps)
    from prints_if_container [OF "2.prems"(1,3) this, of "CHR '']''" cur] show ?thesis
      using False "2.prems" by (simp add: compact_simps)
  qed (use "2.prems" prints_if_write [of st "''[]''"] in simp)
next
  case (3 d s cur st)
  then show ?case
    by (simp add: compact_simps prints_if_def write_text_def prints_def quoted_def)
next
  case (5 d i cur st)
  then show ?case using dump_integer_correct by (simp add: prints_if_def)
next
  case (6 d x cur st)
  then show ?case using dump_float_correct by (simp add: prints_if_def del: dump.simps)
next
  case (9 d x xs n st)
  have "prints_if (strings_ok x \<and> (\<forall>y \<in> set xs. strings_ok y))
      (dump x @ (if xs = [] then [] else '','' @ join_with '','' (map dump xs))) st (dump_elements d (x # xs) n st)"
    unfolding dump_elements.simps compact_simps(3) [OF "9.prems"(1)] rbind_simps(2)
  proof (rule prints_if_bind)
    show "prints_if (strings_ok x) (dump x) st (serialize d x n st)"
      using "9.IH"(1) [of st] "9.prems" by simp
  next
    fix st1 assume "prints (dump x) st st1"
    note l = prints_numbers [OF this]
    show "prints_if (\<forall>y \<in> set xs. strings_ok y) (if xs = [] then [] else '','' @ join_with '','' (map dump xs)) st1
        (if xs = [] then Inr st1 else dump_elements d xs n (between_elements d st1))"
    proof (cases "xs = []")
      case False
      have "prints_if (\<forall>y \<in> set xs. strings_ok y) (join_with '','' (map dump xs)) (write_text '','' st1)
          (dump_elements d xs n (write_text '','' st1))"
        using "9.IH"(2) [OF False, of st1] "9.prems" prints_numbers [OF prints_write [OF l]] by (simp add: compact_simps(4))
      from prints_if_text [OF this l] show ?thesis using False "9.prems" by (simp add: compact_simps(4))
    qed (simp add: prints_if_def prints_def l)
  qed
  then show ?case by (simp add: join_with_Cons split: if_splits)
next
  case (11 d k v kvs n st)
  let ?text = "\<lambda>kv. quoted (escape (fst kv)) @ '':'' @ dump (snd kv)"
  have "prints_if (utf8 k \<and> strings_ok v \<and> (\<forall>kv \<in> set kvs. utf8 (fst kv) \<and> strings_ok (snd kv)))
      ((quoted (escape k) @ '':'') @ dump v @ (if kvs = [] then [] else '','' @ join_with '','' (map ?text kvs))) st
      (dump_members d ((k, v) # kvs) n st)"
    unfolding dump_members.simps compact_simps(3) [OF "11.prems"(1)] rbind_simps(2)
  proof (intro prints_if_bind prints_if_key)
    fix st1 st2 assume 1: "prints (quoted (escape k) @ '':'') st st1" and 2: "prints (dump v) st1 st2"
    note l = prints_numbers [OF 2]
    show "prints_if (\<forall>kv \<in> set kvs. utf8 (fst kv) \<and> strings_ok (snd kv))
        (if kvs = [] then [] else '','' @ join_with '','' (map ?text kvs)) st2
        (if kvs = [] then Inr st2 else dump_members d kvs n (between_elements d st2))"
    proof (cases "kvs = []")
      case False
      have "prints_if (\<forall>kv \<in> set kvs. utf8 (fst kv) \<and> strings_ok (snd kv)) (join_with '','' (map ?text kvs))
          (write_text '','' st2) (dump_members d kvs n (write_text '','' st2))"
        using "11.IH"(2) [OF False, of st2] "11.prems" prints_numbers [OF prints_write [OF l]] by (simp add: compact_simps(4))
      from prints_if_text [OF this l] show ?thesis using False "11.prems" by (simp add: compact_simps(4))
    qed (simp add: prints_if_def prints_def l)
  next
    fix st1 assume 1: "prints (quoted (escape k) @ '':'') st st1"
    show "prints_if (strings_ok v) (dump v) st1 (serialize d v n st1)"
      using "11.IH"(1) [of st1] "11.prems" prints_numbers [OF 1] by simp
  qed (use "11.prems" in simp_all)
  then show ?case by (simp add: join_with_Cons split: if_splits)
qed (simp_all add: prints_if_write, simp_all add: prints_if_def prints_def)

lemma json_dump_eq:
  assumes "ints_ok j"
  shows "json_dump j = (if strings_ok j then Inr (dump j) else Inl JsonError)"
  using serialize_compact(1) [of "\<lparr>d_pretty = False, d_ascii = False, d_step = 0, d_handler = Strict\<rparr>" j
      "\<lparr>ds_out = [], ds_indent = replicate 512 (CHR '' ''), ds_numbers = replicate 64 nul\<rparr>" 0] assms
  by (auto simp: json_dump_def dump_with_def prints_if_def prints_def split: if_splits)

text \<open>C13: Printing. \<open>dump()\<close> with its buffers, tables and indices gives exactly the text of the plain definition
  of compact JSON when every string and key of the value is UTF-8, and otherwise throws; the integers of the value are
  those of 64 bits, signed or unsigned, and the digits the number buffer keeps from number to number do not matter.\<close>

theorem json_dump_correct:
  assumes "ints_ok j"
  shows "json_dump j = (if strings_ok j then Inr (dump j) else Inl JsonError)"
  using json_dump_eq [OF assms] .

theorem json_dump_correct_witness:
  "json_dump (JArr [JInt (- 7), JStr [dquote]]) = Inr (''[-7,'' @ [dquote, bslash, dquote, dquote] @ '']'')"
  using json_dump_correct [of "JArr [JInt (- 7), JStr [dquote]]"]
  by (simp add: int_ok_def utf8_def lead_ranges_def code_of_def quoted_def escape_def escape_char_def int_to_string_def nat_to_string_eval)

end
