(* ===== verification/JsonScan.thy ===== *)
theory JsonScan
  imports JsonText
begin

text \<open>
  What the lexer reads: a lexer \<open>reads\<close> a text when the text is what is left of its input, the byte it put
  back included. The lemmas give the token of every piece of text the serializer prints.
\<close>

section \<open>Input\<close>

definition reads :: "lexer \<Rightarrow> string \<Rightarrow> bool" where
  "reads l s \<longleftrightarrow>
     (if next_unget l then (case lx_current l of None \<Rightarrow> ia l = [] \<and> s = [] | Some c \<Rightarrow> s = c # ia l) else s = ia l)"

lemma reads_get:
  assumes "reads l s"
  shows "lx_current (lx_get l) = (case s of [] \<Rightarrow> None | c # _ \<Rightarrow> Some c)" "reads (lx_get l) (tl s)"
  using assms by (auto simp: reads_def lx_get_def Let_def split: if_splits option.splits list.splits)

lemma reads_unget: "reads l s \<Longrightarrow> reads (lx_unget (lx_get l)) s"
  by (auto simp: reads_def lx_get_def lx_unget_def Let_def split: if_splits option.splits list.splits)

lemma reads_get_Cons:
  assumes "reads l (c # s)"
  shows "lx_current (lx_get l) = Some c" "reads (lx_get l) s"
  using reads_get [OF assms] by simp_all

lemma reads_simps [simp]:
  "reads (lx_add c l) s = reads l s" "reads (lx_reset l) s = reads l s"
  "reads (l\<lparr>value_unsigned := n\<rparr>) s = reads l s" "reads (l\<lparr>value_integer := i\<rparr>) s = reads l s"
  "reads (l\<lparr>value_float := x\<rparr>) s = reads l s"
  by (cases "lx_current l"; simp add: reads_def lx_add_def lx_reset_def)+

lemma token_buffer_simps [simp]:
  "token_buffer (lx_get l) = token_buffer l" "token_buffer (lx_unget l) = token_buffer l"
  "token_buffer (lx_add c l) = token_buffer l @ [c]" "token_buffer (lx_reset l) = []"
  by (simp_all add: lx_get_def lx_unget_def lx_add_def lx_reset_def Let_def)

lemma reads_new: "reads (lexer_new s b) s"
  by (simp add: reads_def lexer_new_def)

section \<open>Strings\<close>

lemma hex_value_hex_char:
  assumes "d < 16"
  shows "hex_value (hex_char d) = Some d"
proof -
  have "code_of (hex_char d) = (if d < 10 then 48 + d else 87 + d)" using assms by (simp add: hex_char_def)
  then show ?thesis using assms by (simp add: hex_value_def)
qed

lemma codepoint_step:
  assumes "reads l (c # s)" "hex_value c = Some d"
  shows "codepoint_loop (factor # factors) cp l = codepoint_loop factors (cp + push_bit factor d) (lx_get l)"
  using reads_get_Cons [OF assms(1)] assms(2) by (simp add: Let_def)

lemma get_codepoint_hex:
  assumes "reads l ([CHR ''0'', CHR ''0'', hex_char (n div 16), hex_char (n mod 16)] @ s)" "n < 256"
  shows "\<exists>l'. get_codepoint l = (Some n, l') \<and> reads l' s \<and> token_buffer l' = token_buffer l"
proof -
  have "n div 16 < 16" using assms(2) by auto
  then have h: "hex_value (CHR ''0'') = Some 0" "hex_value (hex_char (n div 16)) = Some (n div 16)"
    "hex_value (hex_char (n mod 16)) = Some (n mod 16)"
    by (simp add: hex_value_def code_of_def, simp_all add: hex_value_hex_char)
  have r1: "reads (lx_get l) ([CHR ''0'', hex_char (n div 16), hex_char (n mod 16)] @ s)"
    and r2: "reads (lx_get (lx_get l)) ([hex_char (n div 16), hex_char (n mod 16)] @ s)"
    and r3: "reads (lx_get (lx_get (lx_get l))) ([hex_char (n mod 16)] @ s)"
    and r4: "reads (lx_get (lx_get (lx_get (lx_get l)))) s"
    using assms(1) by (auto intro: reads_get_Cons(2))
  have "get_codepoint l = (Some n, lx_get (lx_get (lx_get (lx_get l))))"
    using assms(1) r1 r2 r3 h
    unfolding get_codepoint_def append_Cons append_Nil
    by (simp only: codepoint_step) (simp add: push_bit_nat_def)
  then show ?thesis using r4 by simp
qed

lemma byte_ranges_follow:
  "reads l (bs @ s) \<Longrightarrow> list_all2 in_range rs bs \<Longrightarrow>
    \<exists>l'. byte_ranges rs l = (True, l') \<and> reads l' s \<and> token_buffer l' = token_buffer l @ bs"
proof (induction rs l arbitrary: bs rule: byte_ranges.induct)
  case (2 lo hi ranges l)
  obtain b bs' where bs: "bs = b # bs'" "in_range (lo, hi) b" "list_all2 in_range ranges bs'"
    using "2.prems"(2) by (auto simp: list_all2_Cons1)
  then have g: "lx_current (lx_get l) = Some b" "reads (lx_get l) (bs' @ s)"
    using "2.prems"(1) reads_get_Cons [of l b "bs' @ s"] by simp_all
  then have "\<exists>l'. byte_ranges ranges (lx_add b (lx_get l)) = (True, l') \<and> reads l' s \<and>
      token_buffer l' = token_buffer (lx_add b (lx_get l)) @ bs'"
    using "2.IH" [OF refl g(1), of bs'] bs(2,3) by (simp add: in_range_def [of "(lo, hi)"])
  then show ?case using g bs by (simp add: Let_def in_range_def)
qed auto

lemma escape_append [simp]: "escape (s @ t) = escape s @ escape t" "escape (c # s) = escape_char c @ escape s" "escape [] = []"
  by (simp_all add: escape_def)

lemma escape_multibyte: "\<forall>c \<in> set s. 0x80 \<le> code_of c \<Longrightarrow> escape s = s"
  by (induction s) (simp_all add: escape_char_multibyte)

definition simple_escapes :: "(char \<times> char) set" where
  "simple_escapes =
     {(dquote, dquote), (bslash, bslash), (CHR ''b'', char_of (8 :: nat)), (CHR ''f'', char_of (12 :: nat)),
      (CHR ''n'', char_of (10 :: nat)), (CHR ''r'', char_of (13 :: nat)), (CHR ''t'', char_of (9 :: nat))}"

text \<open>The steps over one printed byte below 0x80.\<close>

lemma escape_step_simple:
  assumes "reads l (c # s)"
    "(c, d) \<in> simple_escapes"
  shows "escape_step l = Inr (lx_add d (lx_get l))"
  using assms(2) reads_get_Cons [OF assms(1)] by (auto simp: escape_step_def simple_escapes_def Let_def)

lemma escape_step_unicode:
  assumes "reads l ([CHR ''u'', CHR ''0'', CHR ''0'', hex_char (n div 16), hex_char (n mod 16)] @ s)" "n < 0x80"
  shows "\<exists>l'. escape_step l = Inr (lx_add (char_of n) l') \<and> reads l' s \<and> token_buffer l' = token_buffer l"
proof -
  have g: "lx_current (lx_get l) = Some (CHR ''u'')"
    "reads (lx_get l) ([CHR ''0'', CHR ''0'', hex_char (n div 16), hex_char (n mod 16)] @ s)"
    using assms(1) reads_get_Cons [of l] by simp_all
  obtain l' where l': "get_codepoint (lx_get l) = (Some n, l')" "reads l' s" "token_buffer l' = token_buffer (lx_get l)"
    using get_codepoint_hex [OF g(2)] assms(2) by auto
  have "unicode_escape (lx_get l) = Inr (lx_add (char_of n) l')"
    using l' assms(2) by (simp add: unicode_escape_def codepoint_bytes_def)
  then show ?thesis using g(1) l' by (auto simp: escape_step_def Let_def)
qed

lemma string_step_bslash:
  assumes "reads l (bslash # t)"
  shows "string_step l = escape_step (lx_get l)" "reads (lx_get l) t"
  using reads_get_Cons [OF assms] by (simp_all add: string_step_def Let_def)

lemma escape_char_cases:
  obtains (pair) d where "escape_char c = [bslash, d]" "(d, c) \<in> simple_escapes"
  | (hex) "escape_char c = [bslash, CHR ''u'', CHR ''0'', CHR ''0'', hex_char (code_of c div 16), hex_char (code_of c mod 16)]"
  | (plain) "escape_char c = [c]" "c \<noteq> dquote" "c \<noteq> bslash" "\<not> code_of c \<le> 0x1F"
proof -
  have code: "code_of c = n \<Longrightarrow> c = char_of n" for n by (metis char_of_code_of)
  have ne: "c \<noteq> dquote \<and> c \<noteq> bslash" if "code_of c < 32" using that by (auto simp: code_of_def)
  consider "c = dquote" | "c = bslash" | "code_of c = 8" | "code_of c = 9" | "code_of c = 10" | "code_of c = 12"
    | "code_of c = 13" | "code_of c < 32" "c \<noteq> dquote" "c \<noteq> bslash" "code_of c \<notin> {8, 9, 10, 12, 13}"
    | "\<not> code_of c < 32" "c \<noteq> dquote" "c \<noteq> bslash" by blast
  then show ?thesis
  proof cases
    case 1
    then show ?thesis by (intro pair [of dquote]) (simp_all add: escape_char_def simple_escapes_def)
  next
    case 2
    then show ?thesis by (intro pair [of bslash]) (simp_all add: escape_char_def simple_escapes_def)
  next
    case 3
    then have "escape_char c = [bslash, CHR ''b'']" using ne by (simp add: escape_char_def)
    then show ?thesis by (rule pair) (simp add: simple_escapes_def code [OF 3])
  next
    case 4
    then have "escape_char c = [bslash, CHR ''t'']" using ne by (simp add: escape_char_def)
    then show ?thesis by (rule pair) (simp add: simple_escapes_def code [OF 4])
  next
    case 5
    then have "escape_char c = [bslash, CHR ''n'']" using ne by (simp add: escape_char_def)
    then show ?thesis by (rule pair) (simp add: simple_escapes_def code [OF 5])
  next
    case 6
    then have "escape_char c = [bslash, CHR ''f'']" using ne by (simp add: escape_char_def)
    then show ?thesis by (rule pair) (simp add: simple_escapes_def code [OF 6])
  next
    case 7
    then have "escape_char c = [bslash, CHR ''r'']" using ne by (simp add: escape_char_def)
    then show ?thesis by (rule pair) (simp add: simple_escapes_def code [OF 7])
  next
    case 8
    then show ?thesis by (intro hex) (simp add: escape_char_def)
  next
    case 9
    then show ?thesis by (intro plain) (simp_all add: escape_char_def)
  qed
qed

lemma string_step_ascii:
  assumes "reads l (escape_char c @ s)" "code_of c \<le> 0x7F"
  shows "\<exists>l'. string_step l = Inr l' \<and> reads l' s \<and> token_buffer l' = token_buffer l @ [c]"
proof (cases c rule: escape_char_cases)
  case (pair d)
  then have r: "reads l (bslash # d # s)" using assms(1) by simp
  note e = string_step_bslash [OF r]
  show ?thesis using escape_step_simple [OF e(2) pair(2)] e(1) reads_get_Cons [OF e(2)] by simp
next
  case hex
  then have r: "reads l (bslash # [CHR ''u'', CHR ''0'', CHR ''0'', hex_char (code_of c div 16), hex_char (code_of c mod 16)] @ s)"
    using assms(1) by simp
  note e = string_step_bslash [OF r]
  show ?thesis using escape_step_unicode [OF e(2)] e(1) assms(2) by auto
next
  case plain
  then show ?thesis using assms reads_get_Cons [of l c s] by (simp add: string_step_def Let_def)
qed

lemma string_step_multibyte:
  assumes "reads l (c # bs @ s)" "lead_ranges c = Some (r # rs)" "list_all2 in_range (r # rs) bs"
  shows "\<exists>l'. string_step l = Inr l' \<and> reads l' s \<and> token_buffer l' = token_buffer l @ c # bs"
proof -
  have g: "lx_current (lx_get l) = Some c" "reads (lx_add c (lx_get l)) (bs @ s)"
    using assms(1) reads_get_Cons [of l] by simp_all
  have "0x80 \<le> code_of c" using assms(2) by (rule lead_multibyte)
  then have c: "c \<noteq> dquote" "c \<noteq> bslash" "\<not> code_of c \<le> 0x1F" "\<not> code_of c \<le> 0x7F" by (auto simp: code_of_def)
  have "utf8_follow (code_of c) = Some (r # rs)" using assms(2) c by (simp add: lead_ranges_def)
  then show ?thesis
    using byte_ranges_follow [OF g(2) assms(3)] g(1) c by (auto simp: string_step_def Let_def next_byte_in_range_def)
qed

lemma scan_string_loop_escape:
  "reads l (escape s @ dquote # t) \<Longrightarrow> utf8 s \<Longrightarrow>
    \<exists>l'. scan_string_loop l = (Value_string, l') \<and> reads l' t \<and> token_buffer l' = token_buffer l @ s"
proof (induction "length s" arbitrary: l s rule: less_induct)
  case less
  show ?case
  proof (cases s)
    case Nil
    then have "lx_current (lx_get l) = Some dquote" "reads (lx_get l) t"
      using less.prems(1) reads_get_Cons [of l] by simp_all
    then show ?thesis using Nil by (subst scan_string_loop.simps) (simp add: string_step_def Let_def)
  next
    case (Cons c s')
    then obtain rs where rs: "lead_ranges c = Some rs" "utf8_from rs s'"
      using less.prems(2) by (auto simp: utf8_def split: option.splits)
    obtain bs s'' where s': "s' = bs @ s''" "list_all2 in_range rs bs" "utf8 s''"
      using utf8_from_split [OF rs(2)] by (auto simp: utf8_def)
    have "\<exists>l1. string_step l = Inr l1 \<and> reads l1 (escape s'' @ dquote # t) \<and> token_buffer l1 = token_buffer l @ c # bs"
    proof (cases rs)
      case Nil
      then show ?thesis
        using string_step_ascii [of l c "escape s'' @ dquote # t"] less.prems(1) lead_ascii rs s' Cons by simp
    next
      case (Cons r rs')
      have m: "\<forall>b \<in> set bs. 0x80 \<le> code_of b"
        using s'(2) lead_range_multibyte [OF rs(1)]
        by (auto simp: list_all2_conv_all_nth in_set_conv_nth in_range_def) (metis nth_mem order.trans)
      have "0x80 \<le> code_of c" using rs(1) Cons lead_multibyte by simp
      then show ?thesis
        using string_step_multibyte [of l c bs "escape s'' @ dquote # t" r rs'] less.prems(1) rs s' \<open>s = c # s'\<close> Cons
          escape_multibyte [OF m] escape_char_multibyte [of c] by simp
    qed
    then obtain l1 where l1: "string_step l = Inr l1" "reads l1 (escape s'' @ dquote # t)"
      "token_buffer l1 = token_buffer l @ c # bs" by blast
    moreover have "length s'' < length s" using Cons s' by simp
    ultimately show ?thesis
      using less.hyps [of s'' l1] s' Cons by (subst scan_string_loop.simps) auto
  qed
qed

section \<open>Numbers\<close>

text \<open>The label and the type after a text, \<open>None\<close> if a label does not read one of its bytes.\<close>

fun num_run :: "num_state \<Rightarrow> token_type \<Rightarrow> string \<Rightarrow> (num_state \<times> token_type) option" where
  "num_run st ty [] = Some (st, ty)"
| "num_run st ty (c # cs) =
     (case number_label st c of Goto st' \<Rightarrow> num_run st' (label_type st ty) cs | _ \<Rightarrow> None)"

definition num_start :: "char \<Rightarrow> num_state" where
  "num_start c = (if c = CHR ''-'' then Minus else if c = CHR ''0'' then Zero else Any1)"

definition num_final :: "num_state \<Rightarrow> bool" where
  "num_final st \<longleftrightarrow> st = Zero \<or> st = Any1 \<or> st = Decimal2 \<or> st = Any2"

text \<open>The type of a number's text.\<close>

fun num_type :: "string \<Rightarrow> token_type option" where
  "num_type [] = None"
| "num_type (c # cs) =
     (if c = CHR ''-'' \<or> is_digit c
      then case num_run (num_start c) Value_unsigned cs of
             Some (st, ty) \<Rightarrow> if num_final st then Some ty else None
           | None \<Rightarrow> None
      else None)"

text \<open>What follows a value in printed text.\<close>

definition delim :: "string \<Rightarrow> bool" where
  "delim s \<longleftrightarrow> s = [] \<or> hd s \<in> set '',]}''"

lemma num_final_label:
  assumes "num_final st" "delim s"
  shows "number_label st (case s of [] \<Rightarrow> nul | c # _ \<Rightarrow> c) = Done" "label_type st ty = ty"
proof -
  define c where "c = (case s of [] \<Rightarrow> nul | c # _ \<Rightarrow> c)"
  have "c \<in> {nul, CHR '','', CHR '']'', CHR ''}''}" using assms(2) by (auto simp: c_def delim_def split: list.splits)
  then have "\<not> is_digit c" "c \<noteq> CHR ''.''" "\<not> is_exp c" by (auto simp: is_digit_def is_exp_def code_of_def)
  then show "number_label st (case s of [] \<Rightarrow> nul | c # _ \<Rightarrow> c) = Done"
    using assms(1) unfolding c_def [symmetric] num_final_def
    by (auto simp: scan_number_zero_def scan_number_any1_def scan_number_decimal2_def scan_number_any2_def)
qed (use assms in \<open>auto simp: num_final_def label_type_def\<close>)

lemma scan_number_run:
  "reads l (t @ s) \<Longrightarrow> num_run st ty t = Some (st', ty') \<Longrightarrow> num_final st' \<Longrightarrow> delim s \<Longrightarrow>
    \<exists>l'. scan_number_from strtod st ty l = scan_number_done strtod ty' (lx_get l') \<and> reads l' s \<and>
      token_buffer l' = token_buffer l @ t"
proof (induction t arbitrary: l st ty)
  case Nil
  then have r: "reads l s" and st: "st' = st" "ty' = ty" by simp_all
  have c: "(case lx_current (lx_get l) of None \<Rightarrow> nul | Some c \<Rightarrow> c) = (case s of [] \<Rightarrow> nul | c # _ \<Rightarrow> c)"
    by (simp add: reads_get(1) [OF r] split: list.split)
  have "scan_number_from strtod st ty l = scan_number_done strtod ty' (lx_get l)"
    using Nil.prems(3,4) num_final_label [of st s] unfolding st
    by (subst scan_number_from.simps) (simp add: Let_def c)
  then show ?case using r by auto
next
  case (Cons c t)
  obtain st1 where st1: "number_label st c = Goto st1" "num_run st1 (label_type st ty) t = Some (st', ty')"
    using Cons.prems(2) by (auto split: num_next.splits)
  have g: "lx_current (lx_get l) = Some c" "reads (lx_add c (lx_get l)) (t @ s)"
    using Cons.prems(1) reads_get_Cons [of l c "t @ s"] by simp_all
  have "scan_number_from strtod st ty l = scan_number_from strtod st1 (label_type st ty) (lx_add c (lx_get l))"
    using g st1 by (subst scan_number_from.simps) (simp add: Let_def)
  with Cons.IH [OF g(2) st1(2) Cons.prems(3,4)] show ?case by auto
qed

lemma scan_number_type:
  assumes "reads l (t @ s)" "num_type (c # t) = Some ty" "delim s"
  shows "\<exists>l'. scan_number strtod c l = scan_number_done strtod ty (lx_get l') \<and> reads l' s \<and>
    token_buffer l' = c # t"
proof -
  obtain st where st: "num_run (num_start c) Value_unsigned t = Some (st, ty)" "num_final st"
    using assms(2) by (auto split: if_splits option.splits prod.splits)
  have "reads (lx_add c (lx_reset l)) (t @ s)" using assms(1) by simp
  from scan_number_run [OF this st assms(3)] show ?thesis by (auto simp: scan_number_def num_start_def)
qed

lemma num_run_digits: "list_all is_digit t \<Longrightarrow> num_run Any1 ty t = Some (Any1, ty)"
  by (induction t) (simp_all add: scan_number_any1_def label_type_def)

lemma nat_to_string_pos: "0 < n \<Longrightarrow> \<exists>d ds. nat_to_string n = d # ds \<and> digit19 d \<and> list_all is_digit ds"
proof (induction n rule: nat_to_string.induct)
  case (1 n)
  show ?case
  proof (cases "n < 10")
    case True
    then show ?thesis using 1(2) by (simp add: nat_to_string.simps [of n] digit19_def code_of_digit_char)
  next
    case False
    then obtain d ds where "nat_to_string (n div 10) = d # ds" "digit19 d" "list_all is_digit ds"
      using 1(1) by (auto simp: div_greater_zero_iff)
    then show ?thesis using False by (simp add: nat_to_string.simps [of n] is_digit_digit_char)
  qed
qed

lemma digit19_simps: "digit19 d \<Longrightarrow> is_digit d \<and> d \<noteq> CHR ''0'' \<and> d \<noteq> CHR ''-''"
  by (auto simp: digit19_def is_digit_def code_of_def)

lemma num_type_nat: "num_type (nat_to_string n) = Some Value_unsigned"
proof (cases "n = 0")
  case True
  then show ?thesis by (simp add: nat_to_string_eval num_start_def num_final_def is_digit_def code_of_def)
next
  case False
  then obtain d ds where "nat_to_string n = d # ds" "digit19 d" "list_all is_digit ds" using nat_to_string_pos by blast
  then show ?thesis using digit19_simps [of d] by (simp add: num_start_def num_run_digits num_final_def)
qed

lemma num_type_neg: "num_type (CHR ''-'' # nat_to_string n) = Some Value_integer"
proof (cases "n = 0")
  case True
  then show ?thesis
    by (simp add: nat_to_string_eval num_start_def num_final_def scan_number_minus_def label_type_def)
next
  case False
  then obtain d ds where "nat_to_string n = d # ds" "digit19 d" "list_all is_digit ds" using nat_to_string_pos by blast
  then show ?thesis
    using digit19_simps [of d]
    by (simp add: num_start_def num_run_digits num_final_def scan_number_minus_def label_type_def)
qed

section \<open>Tokens\<close>

lemma reads_bom:
  assumes "reads l s" "\<And>c s'. s = c # s' \<Longrightarrow> code_of c \<noteq> 0xEF"
  shows "\<exists>l'. (if chars_read_total (lx_position l) = 0 then skip_bom l else (True, l)) = (True, l') \<and> reads l' s"
proof (cases "chars_read_total (lx_position l) = 0")
  case True
  have "lx_current (lx_get l) \<noteq> Some (char_of (0xEF :: nat))"
    using assms by (cases s) (auto simp: reads_get(1) [OF assms(1)])
  then show ?thesis using True reads_unget [OF assms(1)] by (simp add: skip_bom_def Let_def)
qed (use assms in auto)

text \<open>Without white space the scanner goes straight to the token.\<close>

lemma scan_direct:
  assumes "reads l (c # s)" "\<not> is_ws c" "c \<noteq> CHR ''/''" "code_of c \<noteq> 0xEF"
  shows "\<exists>l'. scan strtod l = scan_token strtod l' \<and> lx_current l' = Some c \<and> reads l' s"
proof -
  obtain l1 where l1: "(if chars_read_total (lx_position l) = 0 then skip_bom l else (True, l)) = (True, l1)"
    "reads l1 (c # s)" using reads_bom [OF assms(1)] assms(4) by auto
  note g = reads_get_Cons [OF l1(2)]
  have "skip_whitespace l1 = lx_get l1" using g assms(2) by (subst skip_whitespace.simps) (simp add: Let_def)
  moreover have "skip_comments (lx_get l1) = (True, lx_get l1)" using g assms(3) by (subst skip_comments.simps) simp
  ultimately show ?thesis unfolding scan_def l1(1) using g by auto
qed

lemma scan_end:
  assumes "reads l []"
  shows "\<exists>l'. scan strtod l = (End_of_input, l')"
proof -
  obtain l1 where l1: "(if chars_read_total (lx_position l) = 0 then skip_bom l else (True, l)) = (True, l1)" "reads l1 []"
    using reads_bom [OF assms] by auto
  have "skip_whitespace l1 = lx_get l1" "skip_comments (lx_get l1) = (True, lx_get l1)"
    using reads_get [OF l1(2)] by (subst skip_whitespace.simps skip_comments.simps, simp add: Let_def)+
  then show ?thesis unfolding scan_def l1(1) using reads_get [OF l1(2)] by (simp add: scan_token_def)
qed

text \<open>The tokens of one byte.\<close>

fun punct :: "char \<Rightarrow> token_type option" where
  "punct c =
     (if c = CHR ''['' then Some Begin_array else if c = CHR '']'' then Some End_array
      else if c = CHR ''{'' then Some Begin_object else if c = CHR ''}'' then Some End_object
      else if c = CHR '':'' then Some Name_separator else if c = CHR '','' then Some Value_separator else None)"

lemma scan_punct:
  assumes "reads l (c # s)" "punct c = Some t"
  shows "\<exists>l'. scan strtod l = (t, l') \<and> reads l' s"
proof -
  have "\<not> is_ws c" "c \<noteq> CHR ''/''" "code_of c \<noteq> 0xEF"
    using assms(2) by (auto simp: is_ws_def code_of_def split: if_splits)
  from scan_direct [OF assms(1) this, of strtod] obtain l' where
    "scan strtod l = scan_token strtod l'" "lx_current l' = Some c" "reads l' s" by blast
  then show ?thesis using assms(2) by (auto simp: scan_token_def split: if_splits)
qed

lemma scan_literal_reads: "reads l (cs @ s) \<Longrightarrow> \<exists>l'. scan_literal cs ty l = (ty, l') \<and> reads l' s"
proof (induction cs arbitrary: l)
  case (Cons c cs)
  then have g: "lx_current (lx_get l) = Some c" "reads (lx_get l) (cs @ s)" using reads_get_Cons [of l] by simp_all
  then show ?case using Cons.IH [OF g(2)] by (simp add: Let_def)
qed auto

lemma scan_string_token:
  assumes "reads l (quoted (escape t) @ s)" "utf8 t"
  shows "\<exists>l'. scan strtod l = (Value_string, l') \<and> reads l' s \<and> token_buffer l' = t"
proof -
  have "reads l (dquote # escape t @ dquote # s)" using assms(1) by (simp add: quoted_def)
  from scan_direct [OF this, of strtod] obtain l1 where l1: "scan strtod l = scan_token strtod l1"
    "lx_current l1 = Some dquote" "reads l1 (escape t @ dquote # s)" by (auto simp: is_ws_def code_of_def)
  then show ?thesis
    using scan_string_loop_escape [of "lx_reset l1" t s] assms(2) by (simp add: scan_token_def scan_string_def is_digit_def code_of_def)
qed

lemma scan_number_token:
  assumes "reads l (t @ s)" "num_type t = Some ty" "delim s"
  shows "\<exists>l'. scan strtod l = scan_number_done strtod ty (lx_get l') \<and> reads l' s \<and> token_buffer l' = t"
proof -
  obtain c cs where t: "t = c # cs" "c = CHR ''-'' \<or> is_digit c"
    using assms(2) by (cases t) (auto split: if_splits)
  have "\<not> is_ws c" "c \<noteq> CHR ''/''" "code_of c \<noteq> 0xEF" "punct c = None" "c \<notin> set ''tfn''" "c \<noteq> dquote"
    using t(2) by (auto simp: is_ws_def is_digit_def code_of_def)
  moreover obtain l1 where l1: "scan strtod l = scan_token strtod l1" "lx_current l1 = Some c" "reads l1 (cs @ s)"
    using scan_direct [of l c "cs @ s" strtod] assms(1) t(1) calculation by auto
  ultimately have "scan strtod l = scan_number strtod c l1"
    using t(2) by (auto simp: scan_token_def split: if_splits)
  then show ?thesis using scan_number_type [OF l1(3) assms(2) [unfolded t(1)] assms(3)] t(1) by simp
qed

lemma scan_literals:
  "reads l (''true'' @ s) \<Longrightarrow> \<exists>l'. scan strtod l = (Literal_true, l') \<and> reads l' s"
  "reads l (''false'' @ s) \<Longrightarrow> \<exists>l'. scan strtod l = (Literal_false, l') \<and> reads l' s"
  "reads l (''null'' @ s) \<Longrightarrow> \<exists>l'. scan strtod l = (Literal_null, l') \<and> reads l' s"
proof -
  have lit: "\<exists>l1. scan strtod l = scan_token strtod l1 \<and> lx_current l1 = Some c \<and> reads l1 (cs @ s)"
    if "reads l (c # cs @ s)" "c \<in> set ''tfn''" for c cs
    using that scan_direct [OF that(1), of strtod] by (auto simp: is_ws_def code_of_def)
  show "reads l (''true'' @ s) \<Longrightarrow> \<exists>l'. scan strtod l = (Literal_true, l') \<and> reads l' s"
    using lit [of "CHR ''t''" "''rue''"] scan_literal_reads [of _ "''rue''" s Literal_true] by (fastforce simp: scan_token_def)
  show "reads l (''false'' @ s) \<Longrightarrow> \<exists>l'. scan strtod l = (Literal_false, l') \<and> reads l' s"
    using lit [of "CHR ''f''" "''alse''"] scan_literal_reads [of _ "''alse''" s Literal_false] by (fastforce simp: scan_token_def)
  show "reads l (''null'' @ s) \<Longrightarrow> \<exists>l'. scan strtod l = (Literal_null, l') \<and> reads l' s"
    using lit [of "CHR ''n''" "''ull''"] scan_literal_reads [of _ "''ull''" s Literal_null] by (fastforce simp: scan_token_def)
qed

end
