(* ===== verification/JsonFloatScan.thy ===== *)
theory JsonFloatScan
  imports JsonScan
begin

text \<open>
  The text of a finite double is a number with a fraction or an exponent, so the lexer gives \<open>strtod\<close> all of it; and the
  text determines the double, the sign of a zero included.
\<close>

section \<open>The type of the text\<close>

lemma num_run_append: "num_run st ty a = Some (st', ty') \<Longrightarrow> num_run st ty (a @ b) = num_run st' ty' b"
  by (induction a arbitrary: st ty) (auto split: num_next.splits)

lemma num_run_run:
  assumes "list_all is_digit ds"
  shows "num_run Any1 ty ds = Some (Any1, ty)" "num_run Decimal2 ty ds = Some (Decimal2, ty)" "num_run Any2 ty ds = Some (Any2, ty)"
  using assms by (induction ds) (simp_all add: scan_number_any1_def scan_number_decimal2_def scan_number_any2_def label_type_def)

lemma num_run_fraction:
  assumes "st = Zero \<or> st = Any1" "list_all is_digit ds" "ds \<noteq> []"
  shows "num_run st ty (''.'' @ ds) = Some (Decimal2, Value_float)"
  using assms num_run_run(2) [of "tl ds" Value_float]
  by (cases ds) (auto simp: scan_number_zero_def scan_number_any1_def scan_number_decimal1_def label_type_def is_digit_def code_of_def)

lemma num_run_exponent:
  assumes "st = Any1 \<or> st = Decimal2"
  shows "num_run st ty (''e'' @ exponent_text e) = Some (Any2, Value_float)"
proof -
  have d: "list_all is_digit ((if \<bar>e\<bar> < 10 then ''0'' else []) @ nat_to_string (nat \<bar>e\<bar>))" "nat_to_string (nat \<bar>e\<bar>) \<noteq> []"
    using nat_to_string_digits [of "nat \<bar>e\<bar>"] by (auto simp: not_digits)
  define ds where "ds = (if \<bar>e\<bar> < 10 then ''0'' else []) @ nat_to_string (nat \<bar>e\<bar>)"
  obtain c cs where c: "ds = c # cs" using d(2) by (cases ds) (auto simp: ds_def)
  have "exponent_text e = (if e < 0 then CHR ''-'' else CHR ''+'') # ds" by (simp add: exponent_text_def ds_def)
  moreover have "is_digit c" "list_all is_digit cs" using d(1) c by (simp_all flip: ds_def)
  ultimately show ?thesis
    using assms num_run_run(3) [of cs Value_float] c
    by (auto simp: scan_number_any1_def scan_number_decimal2_def scan_number_exponent_def scan_number_sign_def is_exp_def
      label_type_def is_digit_def code_of_def)
qed

lemma not_exp_point [simp]: "\<not> is_digit (CHR ''e'')"
  by (simp add: not_digits)

text \<open>\<open>decimal_text\<close> of digits that do not start with a zero.\<close>

lemma decimal_text_run:
  assumes "list_all is_digit ds" "digit19 (hd ds)" "ds \<noteq> []"
  shows "\<exists>c cs st. decimal_text ds k = c # cs \<and> is_digit c \<and> num_run (num_start c) Value_unsigned cs = Some (st, Value_float) \<and> num_final st"
proof -
  obtain d es where d: "ds = d # es" "digit19 d" "list_all is_digit es" using assms by (cases ds) auto
  have s: "num_start d = Any1" "is_digit d" using digit19_simps [OF d(2)] by (simp_all add: num_start_def)
  let ?n = "int (length ds) + k"
  consider (whole) "int (length ds) \<le> ?n" "?n \<le> 15" | (point) "\<not> int (length ds) \<le> ?n" "0 < ?n" "?n \<le> 15" | (small) "- 4 < ?n" "?n \<le> 0"
    | (sci) "15 < ?n \<or> ?n \<le> - 4" by linarith
  then show ?thesis
  proof cases
    case whole
    let ?r = "es @ replicate (nat k) (CHR ''0'')"
    have "list_all is_digit ?r" using d(3) by (auto simp: list_all_iff not_digits)
    then have "num_run Any1 Value_unsigned (?r @ ''.'' @ ''0'') = Some (Decimal2, Value_float)"
      using num_run_append [OF num_run_run(1)] num_run_fraction [of Any1 "''0''"] by (simp add: not_digits del: append_assoc append_Cons)
    moreover have "decimal_text ds k = d # ?r @ ''.'' @ ''0''" using whole d(1) unfolding decimal_text_def Let_def by simp
    ultimately show ?thesis using s by (auto simp: num_final_def)
  next
    case point
    obtain m where m: "nat ?n = Suc m" "Suc m < length ds" using point by (cases "nat ?n") auto
    have "decimal_text ds k = d # take m es @ ''.'' @ drop m es" using point m d(1) unfolding decimal_text_def Let_def by simp
    moreover have "list_all is_digit (take m es)" "list_all is_digit (drop m es)" "drop m es \<noteq> []"
      using d m by (auto simp: list_all_iff dest: in_set_takeD in_set_dropD)
    then have "num_run Any1 Value_unsigned (take m es @ ''.'' @ drop m es) = Some (Decimal2, Value_float)"
      using num_run_fraction [of Any1 "drop m es"] num_run_append [OF num_run_run(1)] by (simp del: append_Cons)
    ultimately show ?thesis using s by (auto simp: num_final_def)
  next
    case small
    let ?r = "replicate (nat (- ?n)) (CHR ''0'') @ ds"
    have "0 < length ds" using assms(3) by simp
    then have "\<not> int (length ds) \<le> ?n" "\<not> 0 < ?n" using small by linarith+
    then have "decimal_text ds k = CHR ''0'' # ''.'' @ ?r" using small unfolding decimal_text_def Let_def by simp
    moreover have "list_all is_digit ?r" "?r \<noteq> []" using assms by (auto simp: list_all_iff not_digits)
    ultimately show ?thesis using num_run_fraction [of Zero ?r] by (auto simp: num_start_def not_digits num_final_def)
  next
    case sci
    have "0 < length ds" using assms(3) by simp
    then have b: "\<not> (int (length ds) \<le> ?n \<and> ?n \<le> 15)" "\<not> (0 < ?n \<and> ?n \<le> 15)" "\<not> (- 4 < ?n \<and> ?n \<le> 0)" using sci by linarith+
    have "decimal_text ds k = d # (if es = [] then [] else ''.'' @ es) @ ''e'' @ exponent_text (?n - 1)"
      using b d(1) unfolding decimal_text_def Let_def by (simp only: if_False) simp
    moreover have "num_run Any1 Value_unsigned ((if es = [] then [] else ''.'' @ es) @ ''e'' @ exponent_text (?n - 1)) = Some (Any2, Value_float)"
      using num_run_exponent [of Any1 Value_unsigned] num_run_exponent [of Decimal2 Value_float] d(3)
        num_run_append [OF num_run_fraction, of Any1 es Value_unsigned "''e'' @ exponent_text (?n - 1)"]
      by (cases "es = []") (simp_all del: append_Cons)
    ultimately show ?thesis using s by (auto simp: num_final_def)
  qed
qed

lemma leading_digit:
  assumes "list_all is_digit ds" "ds \<noteq> []" "10 ^ (length ds - 1) \<le> digits_val ds"
  shows "digit19 (hd ds)"
proof -
  obtain d es where d: "ds = d # es" "is_digit d" "list_all is_digit es" using assms by (cases ds) auto
  have "digits_val ([d] @ es) = digit_val d * 10 ^ length es + digits_val es"
    unfolding digits_val_append by (simp add: digits_val_def)
  then have "digit_val d \<noteq> 0" using assms(3) d(1) digits_val_less [OF d(3)] by (intro notI) simp
  then show ?thesis using d(1,2) by (auto simp: digit19_def is_digit_def digit_val_def)
qed

lemma positive_text_run:
  assumes "\<not> signbit x" "isfinite x" "17 \<le> room"
  shows "\<exists>c cs st. positive_text room x = c # cs \<and> is_digit c \<and>
    num_run (num_start c) Value_unsigned cs = Some (st, Value_float) \<and> num_final st"
proof (cases "positive_text room x = ''0.0''")
  case True
  then show ?thesis
    using num_run_fraction [of Zero "''0''" Value_unsigned] by (auto simp: not_digits num_start_def num_final_def simp del: num_run.simps)
next
  case False
  then obtain ds k where "positive_text room x = decimal_text ds k" "list_all is_digit ds" "ds \<noteq> []" "10 ^ (length ds - 1) \<le> digits_val ds"
    using positive_text_shape [OF assms] by blast
  then show ?thesis using decimal_text_run leading_digit by metis
qed

lemma num_run_minus:
  assumes "is_digit c" "num_run (num_start c) Value_unsigned cs = Some (st, Value_float)"
  shows "num_run Minus Value_unsigned (c # cs) = Some (st, Value_float)"
proof -
  have "num_run st0 Value_integer cs = Some (st, Value_float)" if "num_run st0 Value_unsigned cs = Some (st, Value_float)" for st0
    using that
  proof (induction cs arbitrary: st0)
    case (Cons a cs)
    then show ?case by (cases st0) (auto simp: label_type_def split: num_next.splits)
  qed simp
  moreover have "c = CHR ''0'' \<or> digit19 c"
    using assms(1) code_of_inject [of c "CHR ''0''"] by (auto simp: is_digit_def digit19_def code_of_def simp del: code_of_inject)
  ultimately show ?thesis using assms digit19_simps [of c] by (auto simp: scan_number_minus_def label_type_def num_start_def is_digit_def code_of_def split: if_splits)
qed

lemma float_text_type: "isfinite x \<Longrightarrow> num_type (float_text x) = Some Value_float"
proof (cases "signbit x")
  case False
  assume "isfinite x"
  with False positive_text_run [of x 64] show ?thesis by (auto simp: float_text_signed signed_text_def)
next
  case True
  assume f: "isfinite x"
  then have "\<not> signbit (negated x)" "isfinite (negated x)" using True by (simp_all add: negated_negative negated_finite)
  from positive_text_run [OF this, of 63] num_run_minus show ?thesis
    using True f by (auto simp: float_text_signed signed_text_def num_start_def simp del: num_run.simps)
qed

lemma float_text_nearest: "isfinite x \<Longrightarrow> nearest (float_text x) x"
  using to_chars_text [of x "replicate 64 nul"] by auto

end
