(* ===== verification/JsonDom.thy ===== *)
theory JsonDom
  imports JsonParser
begin

text \<open>
  The values under construction in the parser: a path into a value is a context, the value with a hole
  (\<open>ctx\<close>), and the stack of open containers is a stack of contexts. The assertions of the handler
  \<open>json_sax_dom_parser\<close> never fail when the loop calls it, so no text makes the parser fail one.
\<close>

section \<open>Contexts\<close>

text \<open>\<open>f\<close> puts a value at the path \<open>p\<close>: what is read and written below \<open>p\<close> is read and written in the value.\<close>

definition ctx :: "ref \<Rightarrow> (json \<Rightarrow> json) \<Rightarrow> bool" where
  "ctx p f \<longleftrightarrow> (\<forall>q v. json_at (p @ q) (f v) = json_at q v) \<and>
     (\<forall>q g v. json_update (p @ q) g (f v) = f (json_update q g v))"

lemma ctx_id: "ctx [] (\<lambda>v. v)"
  by (simp add: ctx_def)

lemma ctx_at: "ctx p f \<Longrightarrow> json_at p (f v) = Some v" "ctx p f \<Longrightarrow> json_update p g (f v) = f (g v)"
  unfolding ctx_def by (metis append_Nil2 json_at.simps(1), metis append_Nil2 json_update.simps(1))

lemma ctx_below:
  "ctx p f \<Longrightarrow> json_at (p @ q) (f v) = json_at q v" "ctx p f \<Longrightarrow> json_update (p @ q) g (f v) = f (json_update q g v)"
  by (simp_all add: ctx_def)

lemma ctx_index: "ctx p f \<Longrightarrow> ctx (p @ [Index (length xs)]) (\<lambda>v. f (JArr (xs @ [v])))"
  by (simp add: ctx_def)

definition set_key :: "string \<Rightarrow> json \<Rightarrow> (string \<times> json) list \<Rightarrow> (string \<times> json) list" where
  "set_key k v kvs = map (\<lambda>(k', w). (k', if k' = k then v else w)) kvs"

lemma map_of_set_key: "map_of (set_key k v kvs) k = (if map_of kvs k = None then None else Some v)"
  by (induction kvs) (auto simp: set_key_def)

lemma set_key_set_key: "map (\<lambda>(k', w). (k', if k' = k then h w else w)) (set_key k v kvs) = set_key k (h v) kvs"
  by (induction kvs) (auto simp: set_key_def)

lemma ctx_key: "ctx p f \<Longrightarrow> map_of kvs k \<noteq> None \<Longrightarrow> ctx (p @ [Key k]) (\<lambda>v. f (JObj (set_key k v kvs)))"
  by (auto simp: ctx_def map_of_set_key set_key_set_key)

section \<open>The open containers\<close>

fun is_array :: "json \<Rightarrow> bool" where
  "is_array (JArr _) = True"
| "is_array _ = False"

fun is_object :: "json \<Rightarrow> bool" where
  "is_object (JObj _) = True"
| "is_object _ = False"

definition kind :: "bool \<Rightarrow> json \<Rightarrow> bool" where
  "kind b v \<longleftrightarrow> (if b then is_array v else is_object v)"

lemma kind_simps: "kind True v \<longleftrightarrow> (\<exists>xs. v = JArr xs)" "kind False v \<longleftrightarrow> (\<exists>kvs. v = JObj kvs)"
  by (cases v; simp add: kind_def)+

fun stacked :: "bool list \<Rightarrow> ref list \<Rightarrow> json \<Rightarrow> bool" where
  "stacked [] [] root = True"
| "stacked (b # bs) (p # ps) root =
     (\<exists>f v. ctx p f \<and> root = f v \<and> kind b v \<and> (\<forall>v'. kind b v' \<longrightarrow> stacked bs ps (f v')))"
| "stacked _ _ _ = False"

text \<open>The element the next value goes to: \<open>accepts d p f\<close> says that it is put into the context \<open>f\<close>.\<close>

definition accepts :: "json_dom \<Rightarrow> ref \<Rightarrow> (json \<Rightarrow> json) \<Rightarrow> bool" where
  "accepts d p f \<longleftrightarrow> ctx p f \<and> (\<forall>v. handle_value v d = Inr (p, d\<lparr>dom_root := f v\<rparr>))"

lemma accepts_root: "ref_stack d = [] \<Longrightarrow> accepts d [] (\<lambda>v. v)"
  by (simp add: accepts_def ctx_id handle_value_def)

lemma accepts_array:
  assumes "ctx p f" "ref_stack d = p # ps" "dom_root d = f (JArr xs)"
  shows "accepts d (p @ [Index (length xs)]) (\<lambda>v. f (JArr (xs @ [v])))"
  using assms ctx_index [OF assms(1)] by (simp add: accepts_def handle_value_def ctx_at)

lemma accepts_object:
  assumes "ctx p f" "ref_stack d = p # ps" "dom_root d = f (JObj kvs)" "object_element d = Some (p @ [Key k])"
    "map_of kvs k \<noteq> None"
  shows "accepts d (p @ [Key k]) (\<lambda>v. f (JObj (set_key k v kvs)))"
  using assms ctx_key [OF assms(1,5)]
  by (simp add: accepts_def handle_value_def ctx_at ctx_below set_key_def cong: if_cong)

lemma start_accepts:
  assumes "accepts d p f"
  shows "start_container v d = Inr (d\<lparr>dom_root := f v, ref_stack := p # ref_stack d\<rparr>)"
  using assms by (simp add: accepts_def start_container_def)

lemma dom_key_ctx:
  assumes "ctx p f" "ref_stack d = p # ps" "dom_root d = f (JObj kvs)"
  shows "dom_key k d = Inr (d\<lparr>dom_root := f (access_key k (JObj kvs)), object_element := Some (p @ [Key k])\<rparr>)"
  using assms by (simp add: dom_key_def ctx_at)

lemma end_ctx:
  assumes "ctx p f" "ref_stack d = p # ps" "dom_root d = f v"
  shows "kind False v \<Longrightarrow> end_object d = Inr (d\<lparr>ref_stack := ps\<rparr>)"
    "kind True v \<Longrightarrow> end_array d = Inr (d\<lparr>ref_stack := ps\<rparr>)"
  using assms by (auto simp: end_object_def end_array_def ctx_at kind_simps)

section \<open>No failed assertion\<close>

text \<open>The stack after a value: the containers of \<open>states\<close> are open.\<close>

definition dom_open :: "bool list \<Rightarrow> json_dom \<Rightarrow> bool" where
  "dom_open ss d \<longleftrightarrow> stacked ss (ref_stack d) (dom_root d)"

text \<open>Before a value, the element of an object is there for it.\<close>

definition dom_ready :: "bool list \<Rightarrow> json_dom \<Rightarrow> bool" where
  "dom_ready ss d \<longleftrightarrow> (\<exists>p f. accepts d p f \<and> (\<forall>v. stacked ss (ref_stack d) (f v)))"

lemma stacked_same: "ctx p f \<Longrightarrow> (\<And>v'. kind b v' \<Longrightarrow> stacked bs ps (f v')) \<Longrightarrow> kind b v \<Longrightarrow> stacked (b # bs) (p # ps) (f v)"
  by auto

lemma ready_array:
  assumes "dom_open (True # ss) d"
  shows "dom_ready (True # ss) d"
proof -
  obtain p ps f xs where d: "ref_stack d = p # ps" "ctx p f" "dom_root d = f (JArr xs)"
    "\<And>v'. kind True v' \<Longrightarrow> stacked ss ps (f v')"
    using assms by (cases "ref_stack d") (auto simp: dom_open_def kind_simps)
  have "stacked (True # ss) (ref_stack d) (f (JArr (xs @ [v])))" for v
    unfolding d(1) using d(2,4) by (rule stacked_same) (auto simp: kind_simps)
  then show ?thesis unfolding dom_ready_def using accepts_array [OF d(2,1,3)] by blast
qed

lemma ready_key:
  assumes "dom_open (False # ss) d"
  shows "\<exists>d'. dom_key k d = Inr d' \<and> dom_ready (False # ss) d'"
proof -
  obtain p ps f kvs where d: "ref_stack d = p # ps" "ctx p f" "dom_root d = f (JObj kvs)"
    "\<And>v'. kind False v' \<Longrightarrow> stacked ss ps (f v')"
    using assms by (cases "ref_stack d") (auto simp: dom_open_def kind_simps)
  obtain kvs' where kvs': "access_key k (JObj kvs) = JObj kvs'" "map_of kvs' k \<noteq> None"
    by (auto simp: map_of_obj_insert)
  let ?d' = "d\<lparr>dom_root := f (JObj kvs'), object_element := Some (p @ [Key k])\<rparr>"
  have "accepts ?d' (p @ [Key k]) (\<lambda>v. f (JObj (set_key k v kvs')))"
    using d kvs' by (intro accepts_object) simp_all
  moreover have "stacked (False # ss) (ref_stack ?d') (f (JObj (set_key k v kvs')))" for v
    using stacked_same [OF d(2,4), of False "JObj (set_key k v kvs')"] d(1) by (simp add: kind_simps)
  ultimately have "dom_ready (False # ss) ?d'" unfolding dom_ready_def by blast
  then show ?thesis using dom_key_ctx [OF d(2,1,3), of k] kvs'(1) by simp
qed

lemma ready_value:
  assumes "dom_ready ss d"
  shows "\<exists>p d'. handle_value v d = Inr (p, d') \<and> dom_open ss d'"
  using assms by (auto simp: dom_ready_def dom_open_def accepts_def)

lemma ready_start:
  assumes "dom_ready ss d" "kind b v"
  shows "\<exists>d'. start_container v d = Inr d' \<and> dom_open (b # ss) d'"
proof -
  obtain p f where f: "accepts d p f" "\<And>v. stacked ss (ref_stack d) (f v)" using assms(1) by (auto simp: dom_ready_def)
  then have "stacked (b # ss) (p # ref_stack d) (f v)"
    using assms(2) by (intro stacked_same) (auto simp: accepts_def)
  then show ?thesis using start_accepts [OF f(1)] by (simp add: dom_open_def)
qed

lemma open_end:
  "dom_open (False # ss) d \<Longrightarrow> \<exists>d'. end_object d = Inr d' \<and> dom_open ss d'"
  "dom_open (True # ss) d \<Longrightarrow> \<exists>d'. end_array d = Inr d' \<and> dom_open ss d'"
proof -
  have *: "\<exists>p ps f v. ref_stack d = p # ps \<and> ctx p f \<and> dom_root d = f v \<and> kind b v \<and> stacked ss ps (f v)"
    if "dom_open (b # ss) d" for b
    using that by (cases "ref_stack d") (auto simp: dom_open_def)
  show "dom_open (False # ss) d \<Longrightarrow> \<exists>d'. end_object d = Inr d' \<and> dom_open ss d'"
    using * [of False] end_ctx(1) [of _ _ d] by (fastforce simp: dom_open_def)
  show "dom_open (True # ss) d \<Longrightarrow> \<exists>d'. end_array d = Inr d' \<and> dom_open ss d'"
    using * [of True] end_ctx(2) [of _ _ d] by (fastforce simp: dom_open_def)
qed

text \<open>The invariant of the loop, and what a part of it that does not fail leaves.\<close>

definition parser_ok :: "parser \<Rightarrow> bool" where
  "parser_ok p \<longleftrightarrow> (if skip p then dom_open (states p) (p_dom p) else dom_ready (states p) (p_dom p))"

fun flow_ok :: "flow res \<Rightarrow> bool" where
  "flow_ok (Inl _) = False"
| "flow_ok (Inr (Break p)) = (\<not> skip p \<and> dom_open (states p) (p_dom p))"
| "flow_ok (Inr (Continue p)) = parser_ok p"
| "flow_ok (Inr _) = True"

lemma get_token_simps [simp]:
  "p_dom (get_token strtod p) = p_dom p" "states (get_token strtod p) = states p" "skip (get_token strtod p) = skip p"
  by (simp_all add: get_token_def split: prod.split)

lemma flow_ok_error [simp]: "flow_ok (Inr (syntax_error t c p))"
  by (simp add: syntax_error_def)

lemma flow_ok_value: "dom_ready (states p) (p_dom p) \<Longrightarrow> \<not> skip p \<Longrightarrow> flow_ok (sax_value v p)"
  using ready_value [of "states p" "p_dom p" v] by (auto simp: sax_value_def on_dom_def)

lemma flow_ok_key:
  assumes "dom_open (False # ss) (p_dom p)" "\<not> skip p" "\<And>q. states q = states p \<Longrightarrow> states (enter q) = False # ss"
    "\<And>q. p_dom (enter q) = p_dom q" "\<And>q. skip (enter q) = skip q"
  shows "flow_ok (parse_key strtod enter p)"
proof -
  obtain d' where "dom_key (token_buffer (m_lexer p)) (p_dom p) = Inr d'" "dom_ready (False # ss) d'"
    using ready_key [OF assms(1)] by blast
  then show ?thesis using assms(2-) by (simp add: parse_key_def on_dom_def Let_def parser_ok_def)
qed

lemma flow_ok_value_step:
  assumes "dom_ready (states p) (p_dom p)" "\<not> skip p"
  shows "flow_ok (value_step strtod p)"
proof (cases "last_token p")
  case Begin_object
  obtain d where d: "start_object (p_dom p) = Inr d" "dom_open (False # states p) d"
    using ready_start [OF assms(1), of False "JObj []"] by (auto simp: start_object_def kind_simps)
  obtain d2 where d2: "end_object d = Inr d2" "dom_open (states p) d2" using open_end(1) [OF d(2)] by blast
  have "flow_ok (parse_key strtod (\<lambda>q. q\<lparr>states := False # states q\<rparr>) (get_token strtod (p\<lparr>p_dom := d\<rparr>)))"
    using d(2) assms(2) by (intro flow_ok_key) simp_all
  then show ?thesis using Begin_object d d2 assms by (simp add: value_step_def on_dom_def Let_def)
next
  case Begin_array
  obtain d where d: "start_array (p_dom p) = Inr d" "dom_open (True # states p) d"
    using ready_start [OF assms(1), of True "JArr []"] by (auto simp: start_array_def kind_simps)
  obtain d2 where d2: "end_array d = Inr d2" "dom_open (states p) d2" using open_end(2) [OF d(2)] by blast
  show ?thesis
    using Begin_array d d2 assms ready_array [OF d(2)] by (simp add: value_step_def on_dom_def Let_def parser_ok_def)
next
  case Value_float
  then show ?thesis using flow_ok_value [OF assms] by (simp add: value_step_def Let_def)
qed (use flow_ok_value [OF assms] in \<open>simp_all add: value_step_def\<close>)

lemma flow_ok_state_step:
  assumes "dom_open (states p) (p_dom p)" "\<not> skip p"
  shows "flow_ok (state_step strtod p)"
proof (cases "states p")
  case (Cons b ss)
  let ?p1 = "get_token strtod p"
  show ?thesis
  proof (cases b)
    case True
    then obtain d2 where "end_array (p_dom p) = Inr d2" "dom_open ss d2" using open_end(2) assms(1) Cons by auto
    moreover have "dom_ready (states p) (p_dom p)" using ready_array assms(1) Cons True by simp
    ultimately show ?thesis
      using Cons True assms(2) by (simp add: state_step_def Let_def on_dom_def parser_ok_def)
  next
    case False
    then obtain d2 where "end_object (p_dom p) = Inr d2" "dom_open ss d2" using open_end(1) assms(1) Cons by auto
    moreover have "flow_ok (parse_key strtod (\<lambda>p. p) (get_token strtod ?p1))"
      using assms Cons False by (intro flow_ok_key) simp_all
    ultimately show ?thesis
      using Cons False by (simp add: state_step_def Let_def on_dom_def parser_ok_def)
  qed
qed (simp add: state_step_def)

lemma flow_ok_sax_step:
  assumes "parser_ok p"
  shows "flow_ok (sax_step strtod p)" "sax_step strtod p \<noteq> Inr (Break q)"
proof -
  have nb: "state_step strtod p' \<noteq> Inr (Break q')" for p' q'
    by (auto simp: state_step_def Let_def on_dom_Inr parse_key_def syntax_error_def split: list.splits bool.splits if_splits)
  show "flow_ok (sax_step strtod p)"
  proof (cases "skip p")
    case True
    then show ?thesis using flow_ok_state_step [of "p\<lparr>skip := False\<rparr>"] assms by (simp add: sax_step_def parser_ok_def)
  next
    case False
    then have "flow_ok (value_step strtod p)" using flow_ok_value_step assms by (simp add: parser_ok_def)
    then show ?thesis
      using False flow_ok_state_step by (cases "value_step strtod p") (auto simp: sax_step_def split: flow.split)
  qed
  show "sax_step strtod p \<noteq> Inr (Break q)"
    using nb by (auto simp: sax_step_def rbind_Inr_iff split: flow.splits)
qed

lemma flow_ok_sax_parse:
  "parser_ok p \<Longrightarrow> \<exists>fl. sax_parse_internal strtod p = Inr fl \<and> (\<forall>q. fl \<noteq> Break q \<and> fl \<noteq> Continue q)"
proof (induction strtod p rule: sax_parse_internal.induct)
  case (1 strtod p)
  have ok: "flow_ok (sax_step strtod p)" using flow_ok_sax_step(1) [OF 1(2)] .
  show ?case
  proof (cases "sax_step strtod p")
    case (Inl e)
    then show ?thesis using ok by simp
  next
    case (Inr fl)
    then show ?thesis
      using 1(1) [OF Inr] ok flow_ok_sax_step(2) [OF 1(2), of strtod]
      by (cases fl) (subst sax_parse_internal.simps; simp)+
  qed
qed

lemma parser_parse_returns: "\<exists>r. parser_parse strtod strict (parser_new strtod text) = Inr r"
proof -
  have "parser_ok (parser_new strtod text)"
    using accepts_root [of dom_new] by (auto simp: parser_new_def parser_ok_def dom_ready_def dom_new_def)
  then obtain fl where fl: "sax_parse_internal strtod (parser_new strtod text) = Inr fl"
    "\<And>q. fl \<noteq> Break q" "\<And>q. fl \<noteq> Continue q" using flow_ok_sax_parse by blast
  then consider p where "fl = Return p" | e where "fl = Throw e" by (cases fl) blast+
  then show ?thesis using fl(1) by cases (simp_all add: parser_parse_def Let_def)
qed

text \<open>C12: Every text is parsed, by \<open>parse\<close> and by \<open>operator>>\<close>: the loop ends, with a value or with an exception, and no
  assertion of the handler that builds the value fails, whatever the bytes and whatever \<open>strtod\<close> answers.\<close>

theorem json_parse_returns: "(\<exists>r. json_parse strtod text = Inr r) \<and> (\<exists>r. json_read strtod text = Inr r)"
  using parser_parse_returns by (simp add: json_parse_def json_read_def)

end
