(* ===== verification/JsonRoundTrip.thy ===== *)
theory JsonRoundTrip
  imports JsonFloatScan JsonDom
begin

text \<open>
  Printing and parsing are inverse: what \<open>dump\<close> prints of a value the parser reads back as that value, when
  \<open>strtod\<close> rounds to the nearest double.
\<close>

section \<open>The values that are read back\<close>

abbreviation sorted_keys :: "(string \<times> json) list \<Rightarrow> bool" where
  "sorted_keys kvs \<equiv> sorted_wrt (\<lambda>a b. str_less (fst a) (fst b)) kvs"

text \<open>\<open>P\<close> is what is known of the doubles.\<close>

fun wf_json :: "(double \<Rightarrow> bool) \<Rightarrow> json \<Rightarrow> bool" where
  "wf_json P (JInt i) = int_ok i"
| "wf_json P (JFloat x) = P x"
| "wf_json P (JStr s) = utf8 s"
| "wf_json P (JArr xs) = (\<forall>x \<in> set xs. wf_json P x)"
| "wf_json P (JObj kvs) = (sorted_keys kvs \<and> (\<forall>kv \<in> set kvs. utf8 (fst kv) \<and> wf_json P (snd kv)))"
| "wf_json P _ = True"

text \<open>\<open>strtod\<close> rounds correctly to a finite double: it gives this double for every number nearer to it than to any other.\<close>

definition reads_back :: "(string \<Rightarrow> double) \<Rightarrow> double \<Rightarrow> bool" where
  "reads_back strtod x \<longleftrightarrow> isfinite x \<and> (\<forall>t. num_type t = Some Value_float \<longrightarrow> nearest t x \<longrightarrow> strtod t = x)"

lemma str_less_irrefl: "\<not> str_less s s"
  by (induction s) simp_all

lemma obj_insert_last: "\<forall>kv \<in> set kvs. str_less (fst kv) k \<Longrightarrow> obj_insert k v kvs = kvs @ [(k, v)]"
proof (induction kvs)
  case (Cons a kvs)
  have "\<not> str_less k x" if "str_less x k" for x
    using that by (induction x k rule: str_less.induct) auto
  moreover have "fst a \<noteq> k" using Cons.prems str_less_irrefl by auto
  ultimately show ?case using Cons by (cases a) auto
qed simp

section \<open>The first token of a value\<close>

fun first_token :: "json \<Rightarrow> token_type" where
  "first_token JNull = Literal_null"
| "first_token (JBool b) = (if b then Literal_true else Literal_false)"
| "first_token (JInt i) = (if 0 \<le> i then Value_unsigned else Value_integer)"
| "first_token (JFloat x) = Value_float"
| "first_token (JStr s) = Value_string"
| "first_token (JArr xs) = Begin_array"
| "first_token (JObj kvs) = Begin_object"

fun after_first :: "json \<Rightarrow> string" where
  "after_first (JArr xs) = join_with '','' (map dump xs) @ '']''"
| "after_first (JObj kvs) =
     join_with '','' (map (\<lambda>kv. quoted (escape (fst kv)) @ '':'' @ dump (snd kv)) kvs) @ ''}''"
| "after_first _ = []"

fun token_holds :: "json \<Rightarrow> lexer \<Rightarrow> bool" where
  "token_holds (JInt i) l = (if 0 \<le> i then value_unsigned l = nat i else value_integer l = i)"
| "token_holds (JFloat x) l = (value_float l = x)"
| "token_holds (JStr s) l = (token_buffer l = s)"
| "token_holds _ l = True"

lemma scan_first:
  assumes "wf_json (reads_back strtod) j" "reads l (dump j @ s)" "delim s"
  shows "\<exists>l'. scan strtod l = (first_token j, l') \<and> reads l' (after_first j @ s) \<and> token_holds j l'"
proof (cases j)
  case JNull
  then show ?thesis using scan_literals(3) [of l s strtod] assms by auto
next
  case (JBool b)
  then show ?thesis using scan_literals(1,2) [of l s strtod] assms by (cases b) auto
next
  case (JInt i)
  show ?thesis
  proof (cases "0 \<le> i")
    case True
    then have "reads l (nat_to_string (nat i) @ s)" using assms(2) JInt by (simp add: int_to_string_def)
    from scan_number_token [OF this num_type_nat assms(3), of strtod] obtain l' where
      "scan strtod l = scan_number_done strtod Value_unsigned (lx_get l')" "reads l' s"
      "token_buffer l' = nat_to_string (nat i)" by blast
    moreover have "nat i < 2 ^ 64" using assms(1) JInt True by (simp add: int_ok_def nat_less_iff)
    ultimately show ?thesis
      using True JInt reads_unget [of l' s] by (simp add: scan_number_done_def strtoull_def Let_def)
  next
    case False
    then have "reads l ((CHR ''-'' # nat_to_string (nat (- i))) @ s)" using assms(2) JInt by (simp add: int_to_string_def)
    from scan_number_token [OF this num_type_neg assms(3), of strtod] obtain l' where
      "scan strtod l = scan_number_done strtod Value_integer (lx_get l')" "reads l' s"
      "token_buffer l' = CHR ''-'' # nat_to_string (nat (- i))" by blast
    moreover have "- i \<le> 2 ^ 63" using assms(1) JInt by (simp add: int_ok_def)
    ultimately show ?thesis
      using False JInt reads_unget [of l' s] by (simp add: scan_number_done_def strtoll_def Let_def)
  qed
next
  case (JFloat x)
  then have "reads l (float_text x @ s)" "num_type (float_text x) = Some Value_float" "strtod (float_text x) = x"
    using assms float_text_type [of x] float_text_nearest [of x] by (simp_all add: reads_back_def)
  from scan_number_token [OF this(1,2) assms(3), of strtod] this(3) show ?thesis
    using JFloat reads_unget by (auto simp: scan_number_done_def Let_def)
next
  case (JStr t)
  then show ?thesis using scan_string_token [of l t s strtod] assms by auto
next
  case (JArr xs)
  then show ?thesis using scan_punct [of l "CHR ''[''" "after_first j @ s" Begin_array strtod] assms by auto
next
  case (JObj kvs)
  then show ?thesis using scan_punct [of l "CHR ''{''" "after_first j @ s" Begin_object strtod] assms by auto
qed

section \<open>The loop\<close>

text \<open>The state evaluation, and the loop from there.\<close>

definition evaluate :: "(string \<Rightarrow> double) \<Rightarrow> parser \<Rightarrow> flow res" where
  "evaluate strtod p =
     (case state_step strtod p of Inr (Continue p') \<Rightarrow> sax_parse_internal strtod p' | r \<Rightarrow> r)"

lemma sax_value_unfold:
  assumes "\<not> skip p"
  shows "value_step strtod p = Inr (Break p') \<Longrightarrow> sax_parse_internal strtod p = evaluate strtod p'"
    "value_step strtod p = Inr (Continue p') \<Longrightarrow> sax_parse_internal strtod p = sax_parse_internal strtod p'"
  using assms by (subst sax_parse_internal.simps; simp add: sax_step_def evaluate_def)+

lemma sax_skip_unfold: "skip p \<Longrightarrow> sax_parse_internal strtod p = evaluate strtod (p\<lparr>skip := False\<rparr>)"
  by (subst sax_parse_internal.simps) (simp add: sax_step_def evaluate_def)

text \<open>The parser after a value: the rest of the text, the open containers, the root and the stack.\<close>

definition leaves :: "parser \<Rightarrow> string \<Rightarrow> bool list \<Rightarrow> json \<Rightarrow> ref list \<Rightarrow> bool" where
  "leaves p s ss whole rs \<longleftrightarrow> reads (m_lexer p) s \<and> states p = ss \<and> \<not> skip p \<and>
     dom_root (p_dom p) = whole \<and> ref_stack (p_dom p) = rs"

definition value_read :: "(string \<Rightarrow> double) \<Rightarrow> json \<Rightarrow> bool" where
  "value_read strtod j \<longleftrightarrow>
     (\<forall>q s p f. reads (m_lexer q) (dump j @ s) \<longrightarrow> delim s \<longrightarrow> \<not> skip q \<longrightarrow> accepts (p_dom q) p f \<longrightarrow>
       (\<exists>q'. sax_parse_internal strtod (get_token strtod q) = evaluate strtod q' \<and>
          leaves q' s (states q) (f j) (ref_stack (p_dom q))))"

lemma value_readD:
  assumes "value_read strtod j" "leaves q (dump j @ s) ss whole rs" "delim s" "accepts (p_dom q) p f"
  shows "\<exists>q'. sax_parse_internal strtod (get_token strtod q) = evaluate strtod q' \<and> leaves q' s ss (f j) rs"
  using assms unfolding value_read_def leaves_def [of q] by blast

lemma get_token_scan: "scan strtod (m_lexer p) = (t, l') \<Longrightarrow> get_token strtod p = p\<lparr>last_token := t, m_lexer := l'\<rparr>"
  by (simp add: get_token_def)

lemma sax_value_accepts:
  "accepts (p_dom q) p f \<Longrightarrow> sax_value v q = Inr (Break (q\<lparr>p_dom := (p_dom q)\<lparr>dom_root := f v\<rparr>\<rparr>))"
  by (simp add: sax_value_def on_dom_def accepts_def)

fun atom :: "json \<Rightarrow> bool" where
  "atom (JArr _) = False"
| "atom (JObj _) = False"
| "atom _ = True"

lemma value_read_atom:
  assumes "wf_json (reads_back strtod) j" "atom j"
  shows "value_read strtod j"
  unfolding value_read_def
proof (intro allI impI)
  fix q :: parser and s p f
  assume a: "reads (m_lexer q) (dump j @ s)" "delim s" "\<not> skip q" "accepts (p_dom q) p f"
  obtain l' where l': "scan strtod (m_lexer q) = (first_token j, l')" "reads l' (after_first j @ s)" "token_holds j l'"
    using scan_first [OF assms(1) a(1,2)] by blast
  let ?q1 = "get_token strtod q"
  have q1: "?q1 = q\<lparr>last_token := first_token j, m_lexer := l'\<rparr>" by (rule get_token_scan [OF l'(1)])
  have "value_step strtod ?q1 = sax_value j ?q1"
    using l'(3) assms unfolding q1 by (cases j) (auto simp: value_step_def reads_back_def Let_def)
  then have "value_step strtod ?q1 = Inr (Break (?q1\<lparr>p_dom := (p_dom q)\<lparr>dom_root := f j\<rparr>\<rparr>))"
    using sax_value_accepts [of ?q1 p f j] a(4) by simp
  from sax_value_unfold(1) [OF _ this] have
    "sax_parse_internal strtod ?q1 = evaluate strtod (?q1\<lparr>p_dom := (p_dom q)\<lparr>dom_root := f j\<rparr>\<rparr>)" using a(3) by simp
  moreover have "after_first j = []" using assms(2) by (cases j) simp_all
  ultimately show "\<exists>q'. sax_parse_internal strtod ?q1 = evaluate strtod q' \<and> leaves q' s (states q) (f j) (ref_stack (p_dom q))"
    using l'(2) a(3) by (intro exI [of _ "?q1\<lparr>p_dom := (p_dom q)\<lparr>dom_root := f j\<rparr>\<rparr>"]) (simp add: leaves_def q1)
qed

text \<open>A closing bracket, read in the state evaluation.\<close>

lemma evaluate_close:
  assumes "leaves q (c # s) (b # ss) (f v) (p # rs)" "c = (if b then CHR '']'' else CHR ''}'')" "ctx p f" "kind b v"
  shows "\<exists>q'. evaluate strtod q = evaluate strtod q' \<and> leaves q' s ss (f v) rs"
proof -
  obtain l' where l': "scan strtod (m_lexer q) = (if b then End_array else End_object, l')" "reads l' s"
    using scan_punct [of "m_lexer q" c s "if b then End_array else End_object" strtod] assms(1,2)
    by (cases b) (auto simp: leaves_def)
  note q1 = get_token_scan [OF l'(1)]
  have "on_dom (if b then end_array else end_object) (get_token strtod q) k =
    k (get_token strtod q\<lparr>p_dom := (p_dom q)\<lparr>ref_stack := rs\<rparr>\<rparr>)" for k
    using end_ctx [OF assms(3), of "p_dom q" rs v] assms(1,4) by (cases b) (auto simp: on_dom_def leaves_def)
  then have "state_step strtod q =
      Inr (Continue (get_token strtod q\<lparr>p_dom := (p_dom q)\<lparr>ref_stack := rs\<rparr>, states := ss, skip := True\<rparr>))"
    using assms(1) by (cases b) (simp_all add: state_step_def Let_def leaves_def q1)
  then have "evaluate strtod q = evaluate strtod (get_token strtod q\<lparr>p_dom := (p_dom q)\<lparr>ref_stack := rs\<rparr>, states := ss, skip := False\<rparr>)"
    by (simp add: evaluate_def [of _ q] sax_skip_unfold)
  then show ?thesis
    using assms(1) l'(2)
    by (intro exI [of _ "get_token strtod q\<lparr>p_dom := (p_dom q)\<lparr>ref_stack := rs\<rparr>, states := ss, skip := False\<rparr>"])
      (simp add: leaves_def q1)
qed

section \<open>Arrays\<close>

lemma elements_read:
  assumes "\<And>x. x \<in> set xs \<Longrightarrow> value_read strtod x" "ctx p f" "xs \<noteq> []"
    "leaves q (join_with '','' (map dump xs) @ '']'' @ s) (True # ss) (f (JArr ys)) (p # rs)"
  shows "\<exists>q'. sax_parse_internal strtod (get_token strtod q) = evaluate strtod q' \<and>
    leaves q' s ss (f (JArr (ys @ xs))) rs"
  using assms
proof (induction xs arbitrary: q ys)
  case (Cons x xs)
  let ?s = "(if xs = [] then [] else CHR '','' # join_with '','' (map dump xs)) @ '']'' @ s"
  have "accepts (p_dom q) (p @ [Index (length ys)]) (\<lambda>v. f (JArr (ys @ [v])))"
    using Cons.prems by (intro accepts_array) (auto simp: leaves_def)
  moreover have "reads (m_lexer q) (dump x @ ?s)" "delim ?s" "\<not> skip q"
    using Cons.prems(4) by (auto simp: leaves_def join_with_Cons delim_def)
  ultimately obtain q1 where q1: "sax_parse_internal strtod (get_token strtod q) = evaluate strtod q1"
    "leaves q1 ?s (True # ss) (f (JArr (ys @ [x]))) (p # rs)"
    using Cons.prems(1) [of x] Cons.prems(4) unfolding value_read_def by (fastforce simp: leaves_def)
  show ?case
  proof (cases "xs = []")
    case True
    then show ?thesis
      using evaluate_close [of q1 "CHR '']''" s True ss f "JArr (ys @ [x])" p rs strtod] q1 Cons.prems(2)
      by (auto simp: kind_simps)
  next
    case False
    let ?t = "join_with '','' (map dump xs) @ '']'' @ s"
    obtain l' where l': "scan strtod (m_lexer q1) = (Value_separator, l')" "reads l' ?t"
      using scan_punct [of "m_lexer q1" "CHR '',''" ?t Value_separator strtod] q1(2) False by (auto simp: leaves_def)
    let ?q2 = "get_token strtod q1"
    have "state_step strtod q1 = Inr (Continue (get_token strtod ?q2))"
      using q1(2) get_token_scan [OF l'(1)] by (simp add: state_step_def Let_def leaves_def)
    then have "evaluate strtod q1 = sax_parse_internal strtod (get_token strtod ?q2)" by (simp add: evaluate_def)
    moreover have "leaves ?q2 ?t (True # ss) (f (JArr (ys @ [x]))) (p # rs)"
      using q1(2) l'(2) get_token_scan [OF l'(1)] by (simp add: leaves_def)
    ultimately show ?thesis using Cons.IH [of ?q2 "ys @ [x]"] Cons.prems(1,2) False q1(1) by simp
  qed
qed simp

lemma get_token_states: "get_token strtod (p\<lparr>states := ss\<rparr>) = get_token strtod p\<lparr>states := ss\<rparr>"
  by (simp add: get_token_def split: prod.split)

lemma value_read_array:
  assumes "wf_json (reads_back strtod) (JArr xs)" "\<And>x. x \<in> set xs \<Longrightarrow> value_read strtod x"
  shows "value_read strtod (JArr xs)"
  unfolding value_read_def
proof (intro allI impI)
  fix q :: parser and s p f
  assume a: "reads (m_lexer q) (dump (JArr xs) @ s)" "delim s" "\<not> skip q" "accepts (p_dom q) p f"
  obtain l' where l': "scan strtod (m_lexer q) = (Begin_array, l')" "reads l' (join_with '','' (map dump xs) @ '']'' @ s)"
    using scan_first [OF assms(1) a(1,2)] by auto
  let ?q1 = "get_token strtod q"
  note q1 = get_token_scan [OF l'(1)]
  define d where "d = (p_dom q)\<lparr>dom_root := f (JArr []), ref_stack := p # ref_stack (p_dom q)\<rparr>"
  define q2 where "q2 = ?q1\<lparr>p_dom := d\<rparr>"
  have q2: "m_lexer q2 = l'" "states q2 = states q" "\<not> skip q2" "p_dom q2 = d" using a(3) by (simp_all add: q2_def q1)
  have ctx: "ctx p f" using a(4) by (simp add: accepts_def)
  have start: "start_array (p_dom q) = Inr d"
    using start_accepts [OF a(4)] by (simp add: start_array_def d_def)
  have step: "value_step strtod ?q1 = (let p2 = get_token strtod q2 in
      if last_token p2 = End_array then on_dom end_array p2 (\<lambda>p3. Inr (Break p3))
      else Inr (Continue (p2\<lparr>states := True # states p2\<rparr>)))"
    using start by (simp add: value_step_def q1 on_dom_def q2_def)
  show "\<exists>q'. sax_parse_internal strtod ?q1 = evaluate strtod q' \<and> leaves q' s (states q) (f (JArr xs)) (ref_stack (p_dom q))"
  proof (cases xs)
    case Nil
    then obtain l2 where l2: "scan strtod (m_lexer q2) = (End_array, l2)" "reads l2 s"
      using scan_punct [of l' "CHR '']''" s End_array strtod] l'(2) q2(1) by auto
    note q3 = get_token_scan [OF l2(1)]
    have "end_array d = Inr (d\<lparr>ref_stack := ref_stack (p_dom q)\<rparr>)"
      using ctx by (intro end_ctx(2) [where f = f and p = p and v = "JArr []"]) (simp_all add: d_def kind_def)
    then have "value_step strtod ?q1 = Inr (Break (get_token strtod q2\<lparr>p_dom := d\<lparr>ref_stack := ref_stack (p_dom q)\<rparr>\<rparr>))"
      unfolding step Let_def by (simp add: q3 on_dom_def q2)
    from sax_value_unfold(1) [OF _ this] show ?thesis
      using l2(2) q2 a(3) Nil
      by (intro exI [of _ "get_token strtod q2\<lparr>p_dom := d\<lparr>ref_stack := ref_stack (p_dom q)\<rparr>\<rparr>"])
        (simp add: leaves_def q3 d_def)
  next
    case (Cons x xs')
    let ?s = "(if xs' = [] then [] else CHR '','' # join_with '','' (map dump xs')) @ '']'' @ s"
    have "reads (m_lexer q2) (dump x @ ?s)" "delim ?s"
      using l'(2) q2(1) Cons by (auto simp: join_with_Cons delim_def)
    then obtain l2 where "scan strtod (m_lexer q2) = (first_token x, l2)"
      using scan_first [of strtod x] assms(1) Cons by fastforce
    then have "last_token (get_token strtod q2) \<noteq> End_array" using get_token_scan by (cases x) auto
    then have "value_step strtod ?q1 = Inr (Continue (get_token strtod (q2\<lparr>states := True # states q2\<rparr>)))"
      unfolding step by (simp add: Let_def get_token_states)
    from sax_value_unfold(2) [OF _ this] have
      "sax_parse_internal strtod ?q1 = sax_parse_internal strtod (get_token strtod (q2\<lparr>states := True # states q2\<rparr>))"
      using a(3) by simp
    moreover have "leaves (q2\<lparr>states := True # states q2\<rparr>) (join_with '','' (map dump xs) @ '']'' @ s) (True # states q)
        (f (JArr [])) (p # ref_stack (p_dom q))"
      using l'(2) q2 by (simp add: leaves_def d_def)
    ultimately show ?thesis
      using elements_read [OF assms(2) ctx, of xs "q2\<lparr>states := True # states q2\<rparr>" s "states q" "[]"] Cons by simp
  qed
qed

section \<open>Objects\<close>

abbreviation member_text :: "string \<times> json \<Rightarrow> string" where
  "member_text kv \<equiv> quoted (escape (fst kv)) @ '':'' @ dump (snd kv)"

lemma key_read:
  assumes "leaves q (quoted (escape k) @ '':'' @ t) ss (f (JObj ys)) (p # rs)" "utf8 k" "ctx p f"
    "\<forall>kv \<in> set ys. str_less (fst kv) k"
  shows "\<exists>q'. (\<forall>enter. parse_key strtod enter (get_token strtod q) = Inr (Continue (get_token strtod (enter q')))) \<and>
    leaves q' t ss (f (JObj (ys @ [(k, JNull)]))) (p # rs) \<and> object_element (p_dom q') = Some (p @ [Key k])"
proof -
  obtain l1 where l1: "scan strtod (m_lexer q) = (Value_string, l1)" "reads l1 ('':'' @ t)" "token_buffer l1 = k"
    using scan_string_token [of "m_lexer q" k "'':'' @ t" strtod] assms(1,2) by (auto simp: leaves_def)
  note q1 = get_token_scan [OF l1(1)]
  define d where "d = (p_dom q)\<lparr>dom_root := f (JObj (ys @ [(k, JNull)])), object_element := Some (p @ [Key k])\<rparr>"
  have "map_of ys k = None" using assms(4) str_less_irrefl by (auto simp: map_of_eq_None_iff)
  then have key: "dom_key k (p_dom q) = Inr d"
    using dom_key_ctx [OF assms(3), of "p_dom q" rs ys k] assms(1) obj_insert_last [OF assms(4)]
    by (simp add: leaves_def d_def)
  let ?q2 = "get_token strtod q\<lparr>p_dom := d\<rparr>"
  obtain l2 where l2: "scan strtod (m_lexer ?q2) = (Name_separator, l2)" "reads l2 t"
    using scan_punct [of l1 "CHR '':''" t Name_separator strtod] l1(2) by (auto simp: q1)
  note q3 = get_token_scan [OF l2(1)]
  have "parse_key strtod enter (get_token strtod q) = Inr (Continue (get_token strtod (enter (get_token strtod ?q2))))" for enter
    unfolding parse_key_def by (simp add: q1 l1(3) on_dom_def key Let_def) (simp add: q3 [unfolded q1])
  moreover have "leaves (get_token strtod ?q2) t ss (f (JObj (ys @ [(k, JNull)]))) (p # rs)"
    using assms(1) l2(2) by (simp add: leaves_def q3) (simp add: d_def)
  moreover have "object_element (p_dom (get_token strtod ?q2)) = Some (p @ [Key k])" by (simp add: d_def)
  ultimately show ?thesis by blast
qed

lemma set_key_last: "\<forall>kv \<in> set ys. str_less (fst kv) k \<Longrightarrow> set_key k v (ys @ [(k, w)]) = ys @ [(k, v)]"
  using str_less_irrefl by (induction ys) (auto simp: set_key_def)

lemma members_read:
  assumes "\<And>kv. kv \<in> set kvs \<Longrightarrow> utf8 (fst kv) \<and> value_read strtod (snd kv)" "sorted_keys (ys @ kvs)" "ctx p f" "kvs \<noteq> []"
    "leaves q (join_with '','' (map member_text kvs) @ ''}'' @ s) ss0 (f (JObj ys)) (p # rs)"
    "\<And>q. states q = ss0 \<Longrightarrow> states (enter q) = False # ss" "\<And>q. p_dom (enter q) = p_dom q"
    "\<And>q. m_lexer (enter q) = m_lexer q" "\<And>q. skip (enter q) = skip q"
  shows "\<exists>r q'. parse_key strtod enter (get_token strtod q) = Inr (Continue r) \<and>
    sax_parse_internal strtod r = evaluate strtod q' \<and> leaves q' s ss (f (JObj (ys @ kvs))) rs"
  using assms
proof (induction kvs arbitrary: q ys ss0 enter)
  case (Cons kv kvs)
  obtain k v where kv: "kv = (k, v)" by force
  let ?s = "(if kvs = [] then [] else CHR '','' # join_with '','' (map member_text kvs)) @ ''}'' @ s"
  have less: "\<forall>kv \<in> set ys. str_less (fst kv) k" using Cons.prems(2) kv by (simp add: sorted_wrt_append)
  have "leaves q (quoted (escape k) @ '':'' @ dump v @ ?s) ss0 (f (JObj ys)) (p # rs)"
    using Cons.prems(5) kv by (simp add: join_with_Cons split: if_splits)
  then obtain q1 where q1: "\<And>enter. parse_key strtod enter (get_token strtod q) = Inr (Continue (get_token strtod (enter q1)))"
    "leaves q1 (dump v @ ?s) ss0 (f (JObj (ys @ [(k, JNull)]))) (p # rs)" "object_element (p_dom q1) = Some (p @ [Key k])"
    using key_read [of q k "dump v @ ?s" ss0 f ys p rs strtod] Cons.prems(1) [of kv] Cons.prems(3) kv less by auto
  let ?q2 = "enter q1"
  have q2: "leaves ?q2 (dump v @ ?s) (False # ss) (f (JObj (ys @ [(k, JNull)]))) (p # rs)"
    using q1(2) Cons.prems(6-9) by (simp add: leaves_def)
  have "accepts (p_dom ?q2) (p @ [Key k]) (\<lambda>v. f (JObj (set_key k v (ys @ [(k, JNull)]))))"
    using q2 q1(3) Cons.prems(3,7) by (intro accepts_object) (auto simp: leaves_def)
  then have acc: "accepts (p_dom ?q2) (p @ [Key k]) (\<lambda>v. f (JObj (ys @ [(k, v)])))"
    by (simp only: set_key_last [OF less])
  have "value_read strtod v" "delim ?s" using Cons.prems(1) [of kv] kv by (simp_all add: delim_def)
  then obtain q3 where q3: "sax_parse_internal strtod (get_token strtod ?q2) = evaluate strtod q3"
    "leaves q3 ?s (False # ss) (f (JObj (ys @ [kv]))) (p # rs)"
    using value_readD [OF _ q2 _ acc] kv by blast
  show ?case
  proof (cases "kvs = []")
    case True
    then show ?thesis
      using evaluate_close [of q3 "CHR ''}''" s False ss f "JObj (ys @ [kv])" p rs strtod] q1(1) q3 Cons.prems(3)
      by (auto simp: kind_def)
  next
    case False
    let ?t = "join_with '','' (map member_text kvs) @ ''}'' @ s"
    obtain l' where l': "scan strtod (m_lexer q3) = (Value_separator, l')" "reads l' ?t"
      using scan_punct [of "m_lexer q3" "CHR '',''" ?t Value_separator strtod] q3(2) False by (auto simp: leaves_def)
    let ?q4 = "get_token strtod q3"
    have q4: "leaves ?q4 ?t (False # ss) (f (JObj (ys @ [kv]))) (p # rs)"
      using q3(2) l'(2) get_token_scan [OF l'(1)] by (simp add: leaves_def)
    have "\<exists>r q'. parse_key strtod (\<lambda>p. p) (get_token strtod ?q4) = Inr (Continue r) \<and>
      sax_parse_internal strtod r = evaluate strtod q' \<and> leaves q' s ss (f (JObj ((ys @ [kv]) @ kvs))) rs"
      by (rule Cons.IH [OF _ _ Cons.prems(3) False q4]) (use Cons.prems(1,2) in auto)
    then obtain r q' where r: "parse_key strtod (\<lambda>p. p) (get_token strtod ?q4) = Inr (Continue r)"
      "sax_parse_internal strtod r = evaluate strtod q'" "leaves q' s ss (f (JObj ((ys @ [kv]) @ kvs))) rs" by blast
    have "state_step strtod q3 = parse_key strtod (\<lambda>p. p) (get_token strtod ?q4)"
      using q3(2) get_token_scan [OF l'(1)] by (simp add: state_step_def Let_def leaves_def)
    then have "evaluate strtod q3 = evaluate strtod q'" using r by (simp add: evaluate_def [of _ q3])
    then show ?thesis using q1(1) q3(1) r(3) by auto
  qed
qed simp

lemma value_read_object:
  assumes "wf_json (reads_back strtod) (JObj kvs)" "\<And>kv. kv \<in> set kvs \<Longrightarrow> value_read strtod (snd kv)"
  shows "value_read strtod (JObj kvs)"
  unfolding value_read_def
proof (intro allI impI)
  fix q :: parser and s p f
  assume a: "reads (m_lexer q) (dump (JObj kvs) @ s)" "delim s" "\<not> skip q" "accepts (p_dom q) p f"
  obtain l' where l': "scan strtod (m_lexer q) = (Begin_object, l')"
    "reads l' (join_with '','' (map member_text kvs) @ ''}'' @ s)"
    using scan_first [OF assms(1) a(1,2)] by auto
  let ?q1 = "get_token strtod q"
  note q1 = get_token_scan [OF l'(1)]
  define d where "d = (p_dom q)\<lparr>dom_root := f (JObj []), ref_stack := p # ref_stack (p_dom q)\<rparr>"
  define q2 where "q2 = ?q1\<lparr>p_dom := d\<rparr>"
  have q2: "m_lexer q2 = l'" "states q2 = states q" "\<not> skip q2" "p_dom q2 = d" using a(3) by (simp_all add: q2_def q1)
  have ctx: "ctx p f" using a(4) by (simp add: accepts_def)
  have start: "start_object (p_dom q) = Inr d"
    using start_accepts [OF a(4)] by (simp add: start_object_def d_def)
  have step: "value_step strtod ?q1 = (let p2 = get_token strtod q2 in
      if last_token p2 = End_object then on_dom end_object p2 (\<lambda>p3. Inr (Break p3))
      else parse_key strtod (\<lambda>p. p\<lparr>states := False # states p\<rparr>) p2)"
    using start by (simp add: value_step_def q1 on_dom_def q2_def)
  show "\<exists>q'. sax_parse_internal strtod ?q1 = evaluate strtod q' \<and> leaves q' s (states q) (f (JObj kvs)) (ref_stack (p_dom q))"
  proof (cases "kvs = []")
    case True
    then obtain l2 where l2: "scan strtod (m_lexer q2) = (End_object, l2)" "reads l2 s"
      using scan_punct [of l' "CHR ''}''" s End_object strtod] l'(2) q2(1) by auto
    note q3 = get_token_scan [OF l2(1)]
    have "end_object d = Inr (d\<lparr>ref_stack := ref_stack (p_dom q)\<rparr>)"
      using ctx by (intro end_ctx(1) [where f = f and p = p and v = "JObj []"]) (simp_all add: d_def kind_def)
    then have "value_step strtod ?q1 = Inr (Break (get_token strtod q2\<lparr>p_dom := d\<lparr>ref_stack := ref_stack (p_dom q)\<rparr>\<rparr>))"
      unfolding step Let_def by (simp add: q3 on_dom_def q2)
    from sax_value_unfold(1) [OF _ this] show ?thesis
      using l2(2) q2 a(3) True
      by (intro exI [of _ "get_token strtod q2\<lparr>p_dom := d\<lparr>ref_stack := ref_stack (p_dom q)\<rparr>\<rparr>"])
        (simp add: leaves_def q3 d_def)
  next
    case False
    have leaves2: "leaves q2 (join_with '','' (map member_text kvs) @ ''}'' @ s) (states q) (f (JObj []))
        (p # ref_stack (p_dom q))"
      using l'(2) q2 by (simp add: leaves_def d_def)
    have "\<exists>r q'. parse_key strtod (\<lambda>p. p\<lparr>states := False # states p\<rparr>) (get_token strtod q2) = Inr (Continue r) \<and>
        sax_parse_internal strtod r = evaluate strtod q' \<and> leaves q' s (states q) (f (JObj ([] @ kvs))) (ref_stack (p_dom q))"
      by (rule members_read [OF _ _ ctx False leaves2]) (use assms in auto)
    then obtain r q' where r: "parse_key strtod (\<lambda>p. p\<lparr>states := False # states p\<rparr>) (get_token strtod q2) = Inr (Continue r)"
      "sax_parse_internal strtod r = evaluate strtod q'" "leaves q' s (states q) (f (JObj kvs)) (ref_stack (p_dom q))" by auto
    then have "last_token (get_token strtod q2) \<noteq> End_object" by (auto simp: parse_key_def syntax_error_def split: if_splits)
    then have "value_step strtod ?q1 = Inr (Continue r)" unfolding step Let_def using r(1) by simp
    from sax_value_unfold(2) [OF _ this] r(2,3) a(3) show ?thesis by auto
  qed
qed

section \<open>The round trip\<close>

lemma value_read: "wf_json (reads_back strtod) j \<Longrightarrow> value_read strtod j"
proof (induction j)
  case (JArr xs)
  then show ?case by (intro value_read_array) auto
next
  case (JObj kvs)
  show ?case
  proof (rule value_read_object [OF JObj.prems])
    fix kv assume kv: "kv \<in> set kvs"
    then have "wf_json (reads_back strtod) (snd kv)" using JObj.prems by auto
    with JObj.IH [OF kv, of "snd kv"] show "value_read strtod (snd kv)" by (cases kv) auto
  qed
qed (auto intro!: value_read_atom)

lemma parser_roundtrip:
  assumes "wf_json (reads_back strtod) j"
  shows "parser_parse strtod strict (parser_new strtod (dump j)) = Inr (Inr j)"
proof -
  define q where "q = \<lparr>last_token = Uninitialized, m_lexer = lexer_new (dump j) False, p_dom = dom_new, states = [], skip = False\<rparr>"
  have "reads (m_lexer q) (dump j @ [])" by (simp add: q_def reads_new)
  moreover have "accepts (p_dom q) [] (\<lambda>v. v)" by (rule accepts_root) (simp add: q_def dom_new_def)
  moreover have "delim []" "\<not> skip q" by (simp_all add: q_def delim_def)
  ultimately obtain q' where q': "sax_parse_internal strtod (get_token strtod q) = evaluate strtod q'"
    "leaves q' [] [] j []"
    using value_read [OF assms] unfolding value_read_def by (fastforce simp: q_def dom_new_def)
  have "evaluate strtod q' = Inr (Return q')" using q'(2) by (simp add: evaluate_def state_step_def leaves_def)
  moreover obtain l' where "scan strtod (m_lexer q') = (End_of_input, l')"
    using scan_end [of "m_lexer q'"] q'(2) by (auto simp: leaves_def)
  ultimately show ?thesis
    using q' get_token_scan [of strtod q' End_of_input l']
    by (simp add: parser_parse_def parser_new_def q_def [symmetric] Let_def leaves_def)
qed

lemma json_roundtrip:
  assumes "wf_json (reads_back strtod) j"
  shows "json_parse strtod (dump j) = Inr (Inr j)" "json_read strtod (dump j) = Inr (Inr j)"
  using parser_roundtrip [OF assms] by (simp_all add: json_parse_def json_read_def)

lemma wf_json_dump: "wf_json P j \<Longrightarrow> strings_ok j \<and> ints_ok j"
  by (induction j) auto

text \<open>C10: The round trip. What \<open>dump()\<close> prints of a value \<open>parse()\<close> reads back as that value, for every value with UTF-8
  strings, sorted keys, integers of 64 bits and finite doubles to which \<open>strtod\<close> rounds correctly. That the digits
  printed for a double are nearer to it than to any other double is proved, not assumed.\<close>

theorem json_dump_parse:
  assumes "wf_json (reads_back strtod) j"
  shows "rbind (json_dump j) (json_parse strtod) = Inr (Inr j)"
  using assms wf_json_dump [OF assms(1)] by (simp add: json_dump_eq json_roundtrip)

definition sample_double :: double where
  "sample_double = 0x3FF8000000000000"

definition sample_json :: json where
  "sample_json = JObj [(''a'', JArr [JInt (- 7), JFloat sample_double, JNull]), (''b'', JStr [dquote])]"

definition sample_strtod :: "string \<Rightarrow> double" where
  "sample_strtod t = (if nearest t sample_double then sample_double else 0)"

lemma sample_reads_back: "reads_back sample_strtod sample_double" "reads_back sample_strtod 0"
proof -
  have f: "isfinite sample_double" "isfinite 0" "sample_double \<noteq> 0" by (simp_all add: isfinite_def sample_double_def)
  then show "reads_back sample_strtod sample_double" by (simp add: reads_back_def sample_strtod_def)
  show "reads_back sample_strtod 0"
    using f nearest_unique [OF f(1,2)] by (auto simp: reads_back_def sample_strtod_def)
qed

lemma sample_wf: "wf_json (reads_back sample_strtod) sample_json"
  by (simp add: sample_json_def sample_reads_back int_ok_def utf8_def lead_ranges_def code_of_def)

theorem json_dump_parse_witness:
  "rbind (json_dump sample_json) (json_parse sample_strtod) = Inr (Inr sample_json)"
  by (rule json_dump_parse [OF sample_wf])

end
