(* ===== verification/JsonCodepoint.thy ===== *)
theory JsonCodepoint
  imports JsonText
begin

unbundle bit_operations_syntax

text \<open>
  The bytes the lexer writes for a code point, and UTF-8: a string is well-formed exactly if it is the bytes of
  a sequence of Unicode scalar values.
\<close>

section \<open>Sequences\<close>

lemma utf8_from_append: "utf8_from rs s \<Longrightarrow> utf8_from [] t \<Longrightarrow> utf8_from rs (s @ t)"
  by (induction rs s rule: utf8_from.induct) (auto split: option.splits)

lemma utf8_append: "utf8 s \<Longrightarrow> utf8 t \<Longrightarrow> utf8 (s @ t)"
  by (simp add: utf8_def utf8_from_append)

lemma utf8_from_bytes: "list_all2 in_range rs bs \<Longrightarrow> utf8_from rs bs"
  by (induction rs bs rule: list_all2_induct) simp_all

lemma utf8_Cons: "lead_ranges c = Some rs \<Longrightarrow> list_all2 in_range rs bs \<Longrightarrow> utf8 (c # bs)"
  by (simp add: utf8_def utf8_from_bytes)

lemma utf8_Nil [simp]: "utf8 []"
  by (simp add: utf8_def)

lemma utf8_ascii: "code_of c \<le> 0x7F \<Longrightarrow> utf8 [c]"
  using utf8_Cons [of c "[]" "[]"] by (simp add: lead_ranges_def)

section \<open>Code points\<close>

definition scalar :: "nat \<Rightarrow> bool" where
  "scalar cp \<longleftrightarrow> cp < 0xD800 \<or> 0xDFFF < cp \<and> cp \<le> 0x10FFFF"

lemma or_add:
  fixes a x :: nat
  assumes "x < 2 ^ n"
  shows "push_bit n a OR x = 2 ^ n * a + x"
proof -
  have "x = take_bit n x" using assms by (simp add: take_bit_nat_eq_self)
  then have "push_bit n a AND x = 0"
    by (metis (no_types, lifting) bit_eqI bit_and_iff bit_push_bit_iff bit_take_bit_iff bit_0_eq bot_apply bot_bool_def
        linorder_not_less)
  then show ?thesis by (simp add: disjunctive_add_eq_or [symmetric] push_bit_nat_def mult.commute)
qed

lemma continuation: "0x80 OR (n AND 0x3F) = 0x80 + n mod 64" for n :: nat
proof -
  have "n AND 0x3F = n mod 64" using take_bit_eq_mask [of 6 n] by (simp add: take_bit_nat_def mask_eq_exp_minus_1)
  then show ?thesis using or_add [of "n mod 64" 7 1] by (simp add: push_bit_nat_def less_trans [of _ 64])
qed

lemma codepoint_bytes_arith:
  "cp \<le> 0x10FFFF \<Longrightarrow> codepoint_bytes cp = map char_of
     (if cp < 0x80 then [cp]
      else if cp \<le> 0x7FF then [0xC0 + cp div 64, 0x80 + cp mod 64]
      else if cp \<le> 0xFFFF then [0xE0 + cp div 4096, 0x80 + cp div 64 mod 64, 0x80 + cp mod 64]
      else [0xF0 + cp div 262144, 0x80 + cp div 4096 mod 64, 0x80 + cp div 64 mod 64, 0x80 + cp mod 64])"
proof -
  assume "cp \<le> 0x10FFFF"
  then have "cp div 262144 < 8" by auto
  moreover have "cp \<le> 0xFFFF \<Longrightarrow> cp div 4096 < 16" "cp \<le> 0x7FF \<Longrightarrow> cp div 64 < 32" by auto
  ultimately show ?thesis
    using or_add [of "cp div 64" 5 6] or_add [of "cp div 4096" 4 14] or_add [of "cp div 262144" 3 30]
    by (simp add: codepoint_bytes_def continuation drop_bit_nat_def push_bit_nat_def)
qed

lemma utf8_codepoint:
  assumes "scalar cp"
  shows "utf8 (codepoint_bytes cp)"
proof -
  have le: "cp \<le> 0x10FFFF" using assms by (auto simp: scalar_def)
  note b = codepoint_bytes_arith [OF le]
  have cont: "in_range cont (char_of (0x80 + n mod 64))" for n :: nat
    using mod_less_divisor [of 64 n] by (simp add: in_range_def)
  consider "cp < 0x80" | "0x80 \<le> cp" "cp \<le> 0x7FF" | "0x7FF < cp" "cp \<le> 0xFFFF" | "0xFFFF < cp" by linarith
  then show ?thesis
  proof cases
    case 1
    then show ?thesis using b utf8_ascii [of "char_of cp"] by simp
  next
    case 2
    then have "2 \<le> cp div 64" "cp div 64 < 32" by auto
    then have "lead_ranges (char_of (0xC0 + cp div 64)) = Some [cont]" by (simp add: lead_ranges_def utf8_follow_def)
    from utf8_Cons [OF this, of "[char_of (0x80 + cp mod 64)]"] show ?thesis using 2 b cont by simp
  next
    case 3
    define q r where "q = cp div 4096" and "r = cp div 64 mod 64"
    have "cp div 64 = 64 * q + r" by (simp add: q_def r_def div_mult2_eq [of cp 64 64, simplified])
    then have cp: "cp div 64 = 64 * q + r" "q < 16" "r < 64" using 3 by (auto simp: q_def r_def)
    have "32 \<le> cp div 64" using 3 by auto
    then have low: "q = 0 \<Longrightarrow> 32 \<le> r" using cp by simp
    have high: "q = 13 \<Longrightarrow> r < 32"
    proof -
      assume q: "q = 13"
      have "cp < 0xD800 \<or> 0xE000 \<le> cp" using assms by (auto simp: scalar_def)
      then have "cp div 64 < 864 \<or> 896 \<le> cp div 64" by auto
      with cp q show "r < 32" by simp
    qed
    have lead: "lead_ranges (char_of (0xE0 + q)) =
      Some [if q = 0 then (0xA0, 0xBF) else if q = 13 then (0x80, 0x9F) else cont, cont]"
      using cp(2) by (auto simp: lead_ranges_def utf8_follow_def)
    have "in_range (if q = 0 then (0xA0, 0xBF) else if q = 13 then (0x80, 0x9F) else cont) (char_of (0x80 + r))"
      using low high cp(3) by (auto simp: in_range_def)
    then show ?thesis
      using utf8_Cons [OF lead, of "[char_of (0x80 + r), char_of (0x80 + cp mod 64)]"] 3 b cont by (simp add: q_def r_def)
  next
    case 4
    define q r where "q = cp div 262144" and "r = cp div 4096 mod 64"
    have cp: "cp div 4096 = 64 * q + r" "q \<le> 4" "r < 64"
      using 4 le by (auto simp: q_def r_def div_mult2_eq [of cp 4096 64, simplified])
    have "16 \<le> cp div 4096" "cp div 4096 \<le> 271" using 4 le by auto
    then have q: "q = 0 \<Longrightarrow> 16 \<le> r" "q = 4 \<Longrightarrow> r < 16" using cp by simp_all
    have lead: "lead_ranges (char_of (0xF0 + q)) =
      Some [if q = 0 then (0x90, 0xBF) else if q = 4 then (0x80, 0x8F) else cont, cont, cont]"
      using cp(2) by (auto simp: lead_ranges_def utf8_follow_def)
    have "in_range (if q = 0 then (0x90, 0xBF) else if q = 4 then (0x80, 0x8F) else cont) (char_of (0x80 + r))"
      using q cp(3) by (auto simp: in_range_def)
    then show ?thesis
      using utf8_Cons [OF lead, of "[char_of (0x80 + r), char_of (0x80 + cp div 64 mod 64), char_of (0x80 + cp mod 64)]"]
        4 b cont by (simp add: q_def r_def)
  qed
qed

text \<open>Every lead byte with the bytes due after it is a code point.\<close>

lemma codepoint_of:
  assumes "lead_ranges c = Some rs" "list_all2 in_range rs bs"
  shows "\<exists>cp. scalar cp \<and> c # bs = codepoint_bytes cp"
proof -
  have dm: "b < 64 \<Longrightarrow> (64 * a + b) div 64 = a" "b < 64 \<Longrightarrow> (64 * a + b) mod 64 = b" for a b :: nat by simp_all
  have in': "in_range (lo, hi) x \<Longrightarrow> 0x80 \<le> lo \<Longrightarrow> hi \<le> 0xBF \<Longrightarrow>
      \<exists>n<64. x = char_of (0x80 + n) \<and> lo \<le> 0x80 + n \<and> 0x80 + n \<le> hi" for lo hi x
    by (intro exI [of _ "code_of x - 0x80"]) (auto simp: in_range_def)
  consider (1) "rs = []" "code_of c < 0x80"
    | (2) "rs = [cont]" "0xC2 \<le> code_of c" "code_of c \<le> 0xDF"
    | (3) lo hi where "rs = [(lo, hi), cont]" "0xE0 \<le> code_of c" "code_of c \<le> 0xEF" "0x80 \<le> lo" "hi \<le> 0xBF"
        "code_of c = 0xE0 \<longrightarrow> 0xA0 \<le> lo" "code_of c = 0xED \<longrightarrow> hi \<le> 0x9F"
    | (4) lo hi where "rs = [(lo, hi), cont, cont]" "0xF0 \<le> code_of c" "code_of c \<le> 0xF4" "0x80 \<le> lo" "hi \<le> 0xBF"
        "code_of c = 0xF0 \<longrightarrow> 0x90 \<le> lo" "code_of c = 0xF4 \<longrightarrow> hi \<le> 0x8F"
    using assms(1) by (auto simp: lead_ranges_def utf8_follow_def split: if_splits)
  then show ?thesis
  proof cases
    case 1
    then have "bs = []" "codepoint_bytes (code_of c) = [c]" using assms(2) by (simp_all add: codepoint_bytes_arith)
    then show ?thesis using 1 by (intro exI [of _ "code_of c"]) (simp add: scalar_def)
  next
    case 2
    then obtain b where "bs = [b]" "in_range cont b" using assms(2) by (auto simp: list_all2_Cons1)
    then obtain n :: nat where n: "n < 64" "bs = [char_of (0x80 + n)]" using in' [of 128 191 b] by auto
    define a where "a = code_of c - 0xC0"
    have a: "2 \<le> a" "a < 32" "c = char_of (0xC0 + a)" using 2 by (auto simp: a_def)
    have "c # bs = codepoint_bytes (64 * a + n)"
      using a n by (subst codepoint_bytes_arith) (auto simp: dm)
    moreover have "scalar (64 * a + n)" using a n by (simp add: scalar_def)
    ultimately show ?thesis by blast
  next
    case (3 lo hi)
    then obtain b b' where "bs = [b, b']" "in_range (lo, hi) b" "in_range cont b'" using assms(2) by (auto simp: list_all2_Cons1)
    then obtain m n :: nat where n: "n < 64" "m < 64" "bs = [char_of (0x80 + m), char_of (0x80 + n)]" "lo \<le> 0x80 + m" "0x80 + m \<le> hi"
      using in' [of lo hi b] in' [of 128 191 b'] 3 by auto
    define a where "a = code_of c - 0xE0"
    have a: "a < 16" "c = char_of (0xE0 + a)" "a = 0 \<Longrightarrow> 32 \<le> m" "a = 13 \<Longrightarrow> m < 32" using 3 n by (auto simp: a_def)
    let ?cp = "64 * (64 * a + m) + n"
    have div: "?cp div 64 = 64 * a + m" "?cp mod 64 = n" "?cp div 4096 = a"
      using n dm [of n "64 * a + m"] dm [of m a] div_mult2_eq [of ?cp 64 64] by simp_all
    have "0x7FF < ?cp" "?cp \<le> 0xFFFF" using a n by (cases "a = 0"; simp)+
    then have "c # bs = codepoint_bytes ?cp"
      using a(2) n(2,3) by (subst codepoint_bytes_arith) (simp_all only: div, simp_all)
    moreover have "scalar ?cp" using a n by (cases "a = 13"; cases "a < 13"; simp add: scalar_def)
    ultimately show ?thesis by blast
  next
    case (4 lo hi)
    then obtain b b' b'' where "bs = [b, b', b'']" "in_range (lo, hi) b" "in_range cont b'" "in_range cont b''"
      using assms(2) by (auto simp: list_all2_Cons1)
    then obtain k m n :: nat where n: "n < 64" "m < 64" "k < 64" "bs = [char_of (0x80 + k), char_of (0x80 + m), char_of (0x80 + n)]"
      "lo \<le> 0x80 + k" "0x80 + k \<le> hi"
      using in' [of lo hi b] in' [of 128 191 b'] in' [of 128 191 b''] 4 by auto
    define a where "a = code_of c - 0xF0"
    have a: "a \<le> 4" "c = char_of (0xF0 + a)" "a = 0 \<Longrightarrow> 16 \<le> k" "a = 4 \<Longrightarrow> k < 16" using 4 n by (auto simp: a_def)
    let ?cp = "64 * (64 * (64 * a + k) + m) + n"
    have div: "?cp div 64 = 64 * (64 * a + k) + m" "?cp mod 64 = n" "?cp div 4096 = 64 * a + k" "?cp div 262144 = a"
      using n dm [of n "64 * (64 * a + k) + m"] dm [of m "64 * a + k"] dm [of k a] div_mult2_eq [of ?cp 64 64]
        div_mult2_eq [of ?cp 4096 64] by simp_all
    have cp: "0xFFFF < ?cp" "?cp \<le> 0x10FFFF" using a n by (cases "a = 0"; cases "a = 4"; simp)+
    then have "c # bs = codepoint_bytes ?cp"
      using a(2) n(2-4) by (subst codepoint_bytes_arith) (simp_all only: div dm(2), simp_all)
    moreover have "scalar ?cp" using cp by (simp add: scalar_def)
    ultimately show ?thesis by blast
  qed
qed

lemma utf8_codepoints: "\<forall>cp \<in> set cps. scalar cp \<Longrightarrow> utf8 (concat (map codepoint_bytes cps))"
  by (induction cps) (auto intro: utf8_append utf8_codepoint)

text \<open>C21: UTF-8. The strings the lexer's ranges and the serializer's table accept are exactly the encodings of sequences
  of Unicode scalar values by the bytes the lexer writes for an escaped code point.\<close>

theorem utf8_iff_codepoints:
  "utf8 s \<longleftrightarrow> (\<exists>cps. list_all scalar cps \<and> s = concat (map codepoint_bytes cps))"
proof
  show "utf8 s \<Longrightarrow> \<exists>cps. list_all scalar cps \<and> s = concat (map codepoint_bytes cps)"
  proof (induction "length s" arbitrary: s rule: less_induct)
    case less
    show ?case
    proof (cases s)
      case Nil
      then show ?thesis by (intro exI [of _ "[]"]) simp
    next
      case (Cons c s')
      then obtain rs where rs: "lead_ranges c = Some rs" "utf8_from rs s'"
        using less.prems by (auto simp: utf8_def split: option.splits)
      obtain bs t where "s' = bs @ t" "list_all2 in_range rs bs" "utf8 t"
        using utf8_from_split [OF rs(2)] by (auto simp: utf8_def)
      note s' = rs(1) this
      obtain cp where cp: "scalar cp" "c # bs = codepoint_bytes cp" using codepoint_of [OF s'(1,3)] by blast
      obtain cps where "list_all scalar cps" "t = concat (map codepoint_bytes cps)"
        using less.hyps [of t] s' Cons by auto
      with cp s' Cons show ?thesis by (intro exI [of _ "cp # cps"]) (simp flip: cp(2))
    qed
  qed
qed (use utf8_codepoints in \<open>auto simp: list_all_iff\<close>)

end
