(* ===== verification/JsonSound.thy ===== *)
theory JsonSound
  imports JsonRoundTrip JsonCodepoint
begin

text \<open>
  What the parser returns: every value it accepts has only UTF-8 strings, sorted keys and integers of 64 bits.
  So it can be printed, and its printing is read back as the same value.
\<close>

section \<open>Strings\<close>

lemma token_buffer_get_codepoint:
  "codepoint_loop fs cp l = (r, l') \<Longrightarrow> token_buffer l' = token_buffer l"
proof (induction fs arbitrary: cp l)
  case (Cons f fs)
  then show ?case by (cases "Option.bind (lx_current (lx_get l)) hex_value") (auto simp: Let_def)
qed simp

lemma hex_value_less: "hex_value c = Some d \<Longrightarrow> d < 16"
  by (auto simp: hex_value_def Let_def split: if_splits)

lemma codepoint_loop_bound:
  "codepoint_loop fs cp l = (Some n, l') \<Longrightarrow> n \<le> cp + sum_list (map (\<lambda>f. 15 * 2 ^ f) fs)"
proof (induction fs arbitrary: cp l)
  case (Cons f fs)
  then obtain d where d: "Option.bind (lx_current (lx_get l)) hex_value = Some d"
    by (cases "Option.bind (lx_current (lx_get l)) hex_value") (auto simp: Let_def)
  then have "d < 16" by (auto simp: Option.bind_eq_Some_conv hex_value_less)
  then have "push_bit f d \<le> 15 * 2 ^ f" by (simp add: push_bit_nat_def)
  moreover have "n \<le> cp + push_bit f d + sum_list (map (\<lambda>f. 15 * 2 ^ f) fs)"
    using Cons.IH [of "cp + push_bit f d"] Cons.prems d by (simp add: Let_def)
  ultimately show ?case by simp
qed simp

lemma get_codepoint_less: "get_codepoint l = (Some n, l') \<Longrightarrow> n < 0x10000"
  unfolding get_codepoint_def by (drule codepoint_loop_bound) simp

lemma get_codepoint_buffer: "get_codepoint l = (r, l') \<Longrightarrow> token_buffer l' = token_buffer l"
  unfolding get_codepoint_def by (rule token_buffer_get_codepoint)

lemma low_surrogate_scalar:
  assumes "low_surrogate cp1 l = Inr (cp, l')" "0xD800 \<le> cp1" "cp1 \<le> 0xDBFF"
  shows "scalar cp \<and> token_buffer l' = token_buffer l"
proof -
  obtain cp2 where "get_codepoint (lx_get (lx_get l)) = (Some cp2, l')" "0xDC00 \<le> cp2" "cp2 \<le> 0xDFFF"
    "cp = push_bit 10 cp1 + cp2 - 0x35FDC00"
    using assms(1) by (auto simp: low_surrogate_def Let_def split: if_splits prod.splits option.splits)
  moreover from this have "0x10000 \<le> cp" "cp \<le> 0x10FFFF" using assms(2,3) by (simp_all add: push_bit_nat_def)
  ultimately show ?thesis using get_codepoint_buffer [of "lx_get (lx_get l)"] by (simp add: scalar_def)
qed

lemma fold_lx_add: "token_buffer (fold lx_add bs l) = token_buffer l @ bs"
  by (induction bs arbitrary: l) simp_all

text \<open>What a step adds to the buffer.\<close>

definition adds_utf8 :: "lexer \<Rightarrow> lexer \<Rightarrow> bool" where
  "adds_utf8 l l' \<longleftrightarrow> (\<exists>bs. token_buffer l' = token_buffer l @ bs \<and> utf8 bs)"

lemma unicode_escape_utf8:
  assumes "unicode_escape l = Inr l'"
  shows "adds_utf8 l l'"
proof -
  obtain cp1 l1 where g: "get_codepoint l = (Some cp1, l1)"
    using assms by (auto simp: unicode_escape_def split: prod.splits option.splits)
  define r where "r = (if 0xD800 \<le> cp1 \<and> cp1 \<le> 0xDBFF then low_surrogate cp1 l1
    else if 0xDC00 \<le> cp1 \<and> cp1 \<le> 0xDFFF then Inl (lx_error low_error l1) else Inr (cp1, l1))"
  obtain cp l2 where r: "r = Inr (cp, l2)" "l' = fold lx_add (codepoint_bytes cp) l2"
    using assms g by (auto simp: unicode_escape_def r_def [symmetric] split: sum.splits)
  have "scalar cp \<and> token_buffer l2 = token_buffer l1"
  proof (cases "0xD800 \<le> cp1 \<and> cp1 \<le> 0xDBFF")
    case True
    then show ?thesis using low_surrogate_scalar [of cp1 l1 cp l2] r(1) by (simp add: r_def)
  next
    case False
    then show ?thesis using r(1) get_codepoint_less [OF g] by (auto simp: r_def scalar_def split: if_splits)
  qed
  then show ?thesis
    using r(2) get_codepoint_buffer [OF g] utf8_codepoint by (auto simp: adds_utf8_def fold_lx_add)
qed

lemma adds_get: "adds_utf8 (lx_get l) l' \<longleftrightarrow> adds_utf8 l l'"
  by (simp add: adds_utf8_def)

lemma adds_ascii: "code_of c \<le> 0x7F \<Longrightarrow> adds_utf8 l (lx_add c (lx_get l))"
  using utf8_ascii [of c] by (simp add: adds_utf8_def)

lemma escape_step_utf8:
  assumes "escape_step l = Inr l'"
  shows "adds_utf8 l l'"
proof -
  obtain c where c: "lx_current (lx_get l) = Some c" using assms by (auto simp: escape_step_def Let_def split: option.splits)
  consider (add) d where "l' = lx_add d (lx_get l)" "code_of d \<le> 0x7F" | (unicode) "unicode_escape (lx_get l) = Inr l'"
    using assms c by (auto simp: escape_step_def Let_def code_of_def split: if_splits)
  then show ?thesis
  proof cases
    case add
    then show ?thesis using adds_ascii by simp
  next
    case unicode
    then show ?thesis using unicode_escape_utf8 adds_get by blast
  qed
qed

lemma byte_ranges_buffer:
  "byte_ranges rs l = (True, l') \<Longrightarrow> \<exists>bs. token_buffer l' = token_buffer l @ bs \<and> list_all2 in_range rs bs"
proof (induction rs arbitrary: l)
  case (Cons r rs)
  obtain lo hi where r: "r = (lo, hi)" by force
  obtain c where c: "lx_current (lx_get l) = Some c" "in_range r c" "byte_ranges rs (lx_add c (lx_get l)) = (True, l')"
    using Cons.prems r by (auto simp: Let_def in_range_def split: option.splits if_splits)
  obtain bs where "token_buffer l' = token_buffer l @ c # bs" "list_all2 in_range rs bs" using Cons.IH [OF c(3)] by auto
  then show ?case using c(2) by (intro exI [of _ "c # bs"]) simp
qed simp

lemma string_step_utf8:
  assumes "string_step l = Inr l'"
  shows "adds_utf8 l l'"
proof -
  obtain c where c: "lx_current (lx_get l) = Some c" using assms by (auto simp: string_step_def Let_def split: option.splits)
  have eq: "string_step l = (if c = dquote then Inl (Value_string, lx_get l) else if c = bslash then escape_step (lx_get l)
      else if code_of c \<le> 0x1F then Inl (lx_error (control_message (code_of c)) (lx_get l))
      else if code_of c \<le> 0x7F then Inr (lx_add c (lx_get l))
      else case utf8_follow (code_of c) of
          Some rs \<Rightarrow> (case next_byte_in_range rs c (lx_get l) of (True, l1) \<Rightarrow> Inr l1 | (False, l1) \<Rightarrow> Inl (Parse_error, l1))
        | None \<Rightarrow> Inl (lx_error ''invalid string: ill-formed UTF-8 byte'' (lx_get l)))"
    unfolding string_step_def Let_def c option.case ..
  consider (escape) "c = bslash" | (ascii) "c \<noteq> bslash" "code_of c \<le> 0x7F" | (multi) "c \<noteq> bslash" "\<not> code_of c \<le> 0x7F" by blast
  then show ?thesis
  proof cases
    case escape
    then have "escape_step (lx_get l) = Inr l'" using assms eq by simp
    then show ?thesis using escape_step_utf8 adds_get by blast
  next
    case ascii
    then have "l' = lx_add c (lx_get l)" using assms eq by (simp split: if_splits)
    then show ?thesis using adds_ascii ascii(2) by simp
  next
    case multi
    then obtain rs where rs: "utf8_follow (code_of c) = Some rs" "next_byte_in_range rs c (lx_get l) = (True, l')"
      using assms eq by (cases "utf8_follow (code_of c)") (auto split: if_splits prod.splits bool.splits)
    then obtain bs where "token_buffer l' = token_buffer l @ c # bs" "list_all2 in_range rs bs"
      using byte_ranges_buffer [of rs "lx_add c (lx_get l)" l'] by (auto simp: next_byte_in_range_def)
    moreover have "lead_ranges c = Some rs" using multi rs by (simp add: lead_ranges_def)
    ultimately show ?thesis using utf8_Cons by (auto simp: adds_utf8_def)
  qed
qed

lemma Inl_not_string:
  "low_surrogate cp l = Inl (t, l') \<Longrightarrow> t = Parse_error" "unicode_escape l = Inl (t, l') \<Longrightarrow> t = Parse_error"
  "escape_step l = Inl (t, l') \<Longrightarrow> t = Parse_error"
proof -
  have low: "low_surrogate cp l = Inl (t, l') \<Longrightarrow> t = Parse_error" for cp l l' t
    by (auto simp: low_surrogate_def lx_error_def Let_def split: if_splits prod.splits option.splits)
  have uni: "unicode_escape l = Inl (t, l') \<Longrightarrow> t = Parse_error" for l l' t
    by (auto simp: unicode_escape_def lx_error_def split: if_splits prod.splits option.splits sum.splits dest: low)
  show "low_surrogate cp l = Inl (t, l') \<Longrightarrow> t = Parse_error" "unicode_escape l = Inl (t, l') \<Longrightarrow> t = Parse_error"
    by (fact low, fact uni)
  show "escape_step l = Inl (t, l') \<Longrightarrow> t = Parse_error"
    by (auto simp: escape_step_def lx_error_def Let_def split: if_splits option.splits dest: uni)
qed

lemma string_step_Inl:
  "string_step l = Inl (t, l') \<Longrightarrow> t = Parse_error \<or> t = Value_string \<and> token_buffer l' = token_buffer l"
  by (auto simp: string_step_def lx_error_def Let_def split: if_splits option.splits prod.splits bool.splits
      dest: Inl_not_string(3))

lemma scan_string_loop_utf8:
  "scan_string_loop l = (t, l') \<Longrightarrow> utf8 (token_buffer l) \<Longrightarrow> t = Parse_error \<or> t = Value_string \<and> utf8 (token_buffer l')"
proof (induction l rule: scan_string_loop.induct)
  case (1 l)
  show ?case
  proof (cases "string_step l")
    case (Inl r)
    then have "r = (t, l')" using "1.prems"(1) by (subst (asm) scan_string_loop.simps) simp
    then show ?thesis using string_step_Inl [of l t l'] Inl "1.prems"(2) by auto
  next
    case (Inr l1)
    then have "scan_string_loop l1 = (t, l')" using "1.prems"(1) by (subst (asm) scan_string_loop.simps) simp
    moreover have "utf8 (token_buffer l1)"
      using string_step_utf8 [OF Inr] "1.prems"(2) utf8_append by (auto simp: adds_utf8_def)
    ultimately show ?thesis using "1.IH" [OF Inr] by blast
  qed
qed

section \<open>Tokens\<close>

text \<open>What a token holds; \<open>P\<close> is what is known of the results of \<open>strtod\<close>.\<close>

fun token_ok :: "(double \<Rightarrow> bool) \<Rightarrow> token_type \<times> lexer \<Rightarrow> bool" where
  "token_ok P (t, l) \<longleftrightarrow>
     (t = Value_string \<longrightarrow> utf8 (token_buffer l)) \<and> (t = Value_unsigned \<longrightarrow> int_ok (int (value_unsigned l))) \<and>
     (t = Value_integer \<longrightarrow> int_ok (value_integer l)) \<and> (t = Value_float \<longrightarrow> isfinite (value_float l) \<longrightarrow> P (value_float l))"

definition float_law :: "(double \<Rightarrow> bool) \<Rightarrow> (string \<Rightarrow> double) \<Rightarrow> bool" where
  "float_law P strtod \<longleftrightarrow> (\<forall>s. isfinite (strtod s) \<longrightarrow> P (strtod s))"

lemma token_ok_error [simp]: "token_ok P (lx_error msg l)"
  by (simp add: lx_error_def)

lemma token_ok_done:
  assumes "float_law P strtod"
  shows "token_ok P (scan_number_done strtod ty l)"
  using assms
  by (auto simp: scan_number_done_def strtoull_def strtoll_def Let_def int_ok_def float_law_def split: option.splits if_splits)

lemma token_ok_number_from:
  "float_law P strtod \<Longrightarrow> token_ok P (scan_number_from strtod st ty l)"
proof (induction strtod st ty l rule: scan_number_from.induct)
  case (1 strtod st ty l)
  define c where "c = (case lx_current (lx_get l) of None \<Rightarrow> nul | Some c \<Rightarrow> c)"
  have eq: "scan_number_from strtod st ty l = (case number_label st c of
      Goto st' \<Rightarrow> scan_number_from strtod st' (label_type st ty) (lx_add c (lx_get l))
    | Done \<Rightarrow> scan_number_done strtod (label_type st ty) (lx_get l) | Failed msg \<Rightarrow> lx_error msg (lx_get l))"
    by (subst scan_number_from.simps) (simp only: Let_def c_def)
  show ?case
  proof (cases "number_label st c")
    case (Goto st')
    then show ?thesis using "1.IH" [OF refl c_def Goto "1.prems"] by (simp add: eq)
  qed (use token_ok_done [OF "1.prems"] eq in simp_all)
qed

lemma token_ok_literal:
  "ty \<notin> {Value_string, Value_unsigned, Value_integer, Value_float} \<Longrightarrow> token_ok P (scan_literal cs ty l)"
  by (induction cs ty l rule: scan_literal.induct) (simp_all add: Let_def)

lemma if_token_ok: "token_ok P a \<Longrightarrow> token_ok P b \<Longrightarrow> token_ok P (if c then a else b)"
  by simp

lemma token_ok_scan_token:
  assumes "float_law P strtod"
  shows "token_ok P (scan_token strtod l)"
proof (cases "lx_current l")
  case (Some c)
  have "token_ok P (scan_string l)"
    using scan_string_loop_utf8 [of "lx_reset l"] by (cases "scan_string l") (auto simp: scan_string_def)
  moreover have "token_ok P (scan_number strtod c l)"
    unfolding scan_number_def Let_def by (rule token_ok_number_from [OF assms])
  ultimately show ?thesis
    unfolding scan_token_def Some option.case by (intro if_token_ok token_ok_literal) simp_all
qed (simp add: scan_token_def)

lemma token_ok_scan: "float_law P strtod \<Longrightarrow> token_ok P (scan strtod l)"
  by (auto simp: scan_def token_ok_scan_token simp del: token_ok.simps split: prod.split bool.split)
    (simp add: token_ok.simps)+

section \<open>The value under construction\<close>

lemma str_less_trans: "str_less a b \<Longrightarrow> str_less b c \<Longrightarrow> str_less a c"
proof (induction a b arbitrary: c rule: str_less.induct)
  case (2 x xs)
  then show ?case by (cases c) auto
next
  case (3 a as b bs)
  then show ?case by (cases c) auto
qed auto

lemma str_less_total: "a \<noteq> b \<Longrightarrow> str_less a b \<or> str_less b a"
proof (induction a b rule: str_less.induct)
  case (1 a)
  then show ?case by (cases a) auto
next
  case (3 a as b bs)
  then show ?case using code_of_inject [of a b] by (auto simp del: code_of_inject)
qed auto

lemma set_obj_insert: "set (obj_insert k v kvs) \<subseteq> insert (k, v) (set kvs)"
  by (induction kvs) (auto split: if_splits)

lemma obj_insert_sorted: "sorted_keys kvs \<Longrightarrow> sorted_keys (obj_insert k v kvs)"
proof (induction kvs)
  case (Cons a kvs)
  obtain k' v' where a: "a = (k', v')" by force
  have less: "\<forall>kv \<in> set kvs. str_less k' (fst kv)" using Cons.prems a by simp
  show ?case
  proof (cases "k = k' \<or> str_less k k'")
    case True
    then show ?thesis using Cons.prems a less str_less_trans [of k k'] by auto
  next
    case False
    then have "str_less k' k" using str_less_total by blast
    then have "\<forall>kv \<in> set (obj_insert k v kvs). str_less k' (fst kv)" using less set_obj_insert [of k v kvs] by auto
    then show ?thesis using False Cons a by simp
  qed
qed simp

lemma wf_json_update:
  "wf_json P j \<Longrightarrow> (\<And>v. wf_json P v \<Longrightarrow> wf_json P (g v)) \<Longrightarrow> wf_json P (json_update p g j)"
proof (induction p g j rule: json_update.induct)
  case (2 n p f xs)
  show ?case
  proof (cases "n < length xs")
    case True
    then have "wf_json P (xs ! n)" using "2.prems"(1) by simp
    then show ?thesis
      using 2 set_update_subset_insert [of xs n "json_update p f (xs ! n)"] by auto
  qed (use "2.prems"(1) in \<open>simp add: list_update_beyond\<close>)
next
  case (3 k p f kvs)
  have "sorted_keys (map (\<lambda>(k', v). (k', if k' = k then json_update p f v else v)) kvs) = sorted_keys kvs"
    by (simp add: sorted_wrt_map case_prod_beta)
  then show ?case using 3 by fastforce
qed simp_all

lemma wf_append_element: "wf_json P v \<Longrightarrow> wf_json P j \<Longrightarrow> wf_json P (append_element v j)"
  by (cases j) auto

lemma wf_access_key: "utf8 k \<Longrightarrow> wf_json P j \<Longrightarrow> wf_json P (access_key k j)"
  using set_obj_insert [of k JNull] by (cases j) (fastforce simp: obj_insert_sorted)+

lemma wf_handle_value:
  "handle_value v d = Inr (p, d') \<Longrightarrow> wf_json P v \<Longrightarrow> wf_json P (dom_root d) \<Longrightarrow> wf_json P (dom_root d')"
  by (auto simp: handle_value_def wf_json_update wf_append_element split: list.splits option.splits json.splits)

lemma wf_start:
  "start_container v d = Inr d' \<Longrightarrow> wf_json P v \<Longrightarrow> wf_json P (dom_root d) \<Longrightarrow> wf_json P (dom_root d')"
  by (auto simp: start_container_def rbind_Inr_iff dest: wf_handle_value)

lemma wf_dom_key: "dom_key k d = Inr d' \<Longrightarrow> utf8 k \<Longrightarrow> wf_json P (dom_root d) \<Longrightarrow> wf_json P (dom_root d')"
  by (auto simp: dom_key_def wf_json_update wf_access_key split: list.splits option.splits json.splits)

lemma dom_root_end:
  "end_object d = Inr d' \<Longrightarrow> dom_root d' = dom_root d" "end_array d = Inr d' \<Longrightarrow> dom_root d' = dom_root d"
  by (auto simp: end_object_def end_array_def split: list.splits option.splits json.splits)

section \<open>The loop\<close>

definition sound :: "(double \<Rightarrow> bool) \<Rightarrow> parser \<Rightarrow> bool" where
  "sound P p \<longleftrightarrow> wf_json P (dom_root (p_dom p)) \<and> token_ok P (last_token p, m_lexer p)"

fun flow_sound :: "(double \<Rightarrow> bool) \<Rightarrow> flow \<Rightarrow> bool" where
  "flow_sound P (Break p) = wf_json P (dom_root (p_dom p))"
| "flow_sound P (Continue p) = sound P p"
| "flow_sound P (Return p) = wf_json P (dom_root (p_dom p))"
| "flow_sound P (Throw _) = True"

lemma sound_get_token:
  "float_law P strtod \<Longrightarrow> wf_json P (dom_root (p_dom p)) \<Longrightarrow> sound P (get_token strtod p)"
  using token_ok_scan [of P strtod "m_lexer p"] by (auto simp: sound_def get_token_def split: prod.split)

lemma sound_simps [simp]:
  "sound P (p\<lparr>states := ss\<rparr>) = sound P p" "sound P (p\<lparr>skip := b\<rparr>) = sound P p"
  "flow_sound P (syntax_error t c p)"
  by (simp_all add: sound_def syntax_error_def)

lemma sound_sax_value:
  "sax_value v p = Inr fl \<Longrightarrow> wf_json P v \<Longrightarrow> wf_json P (dom_root (p_dom p)) \<Longrightarrow> flow_sound P fl"
  by (auto simp: sax_value_def on_dom_Inr rbind_Inr_iff dest: wf_handle_value)

lemma sound_parse_key:
  assumes "float_law P strtod" "sound P p" "parse_key strtod enter p = Inr fl" "\<And>q. p_dom (enter q) = p_dom q"
  shows "flow_sound P fl"
proof (cases "last_token p = Value_string")
  case True
  show ?thesis
  proof (cases "dom_key (token_buffer (m_lexer p)) (p_dom p)")
    case (Inr d)
    let ?p2 = "get_token strtod (p\<lparr>p_dom := d\<rparr>)"
    have "wf_json P (dom_root d)" using wf_dom_key [OF Inr] assms(2) True by (simp add: sound_def)
    moreover have "fl = (if last_token ?p2 \<noteq> Name_separator then syntax_error Name_separator ''object separator'' ?p2
        else Continue (get_token strtod (enter ?p2)))"
      using assms(3) True Inr by (simp add: parse_key_def on_dom_def Let_def split: if_splits)
    ultimately show ?thesis using sound_get_token [OF assms(1)] assms(4) by simp
  qed (use assms(3) True in \<open>simp add: parse_key_def on_dom_def\<close>)
qed (use assms(3) in \<open>auto simp: parse_key_def\<close>)

lemma sound_value_step:
  assumes "float_law P strtod" "sound P p" "value_step strtod p = Inr fl"
  shows "flow_sound P fl"
proof (cases "last_token p")
  case Begin_object
  then obtain d where d: "start_object (p_dom p) = Inr d" "(let p2 = get_token strtod (p\<lparr>p_dom := d\<rparr>) in
      if last_token p2 = End_object then on_dom end_object p2 (\<lambda>p3. Inr (Break p3))
      else parse_key strtod (\<lambda>p. p\<lparr>states := False # states p\<rparr>) p2) = Inr fl"
    using assms(3) by (auto simp: value_step_def on_dom_Inr)
  have wf: "wf_json P (dom_root d)"
    using wf_start [of "JObj []" "p_dom p" d P] d(1) assms(2) by (simp add: start_object_def sound_def)
  then have "sound P (get_token strtod (p\<lparr>p_dom := d\<rparr>))" using sound_get_token [OF assms(1)] by simp
  from sound_parse_key [OF assms(1) this] d(2) wf show ?thesis
    by (auto simp: Let_def on_dom_Inr split: if_splits dest!: dom_root_end)
next
  case Begin_array
  then obtain d where d: "start_array (p_dom p) = Inr d" "(let p2 = get_token strtod (p\<lparr>p_dom := d\<rparr>) in
      if last_token p2 = End_array then on_dom end_array p2 (\<lambda>p3. Inr (Break p3))
      else Inr (Continue (p2\<lparr>states := True # states p2\<rparr>))) = Inr fl"
    using assms(3) by (auto simp: value_step_def on_dom_Inr)
  have wf: "wf_json P (dom_root d)"
    using wf_start [of "JArr []" "p_dom p" d P] d(1) assms(2) by (simp add: start_array_def sound_def)
  then have "sound P (get_token strtod (p\<lparr>p_dom := d\<rparr>))" using sound_get_token [OF assms(1)] by simp
  then show ?thesis using d(2) wf by (auto simp: Let_def on_dom_Inr split: if_splits dest!: dom_root_end)
next
  case Value_float
  then show ?thesis
    using assms(2,3) sound_sax_value [of _ p fl P] by (auto simp: value_step_def sound_def Let_def split: if_splits)
qed (use assms(2,3) sound_sax_value [of _ p fl P] in \<open>auto simp: value_step_def sound_def split: if_splits\<close>)

lemma sound_state_step:
  assumes "float_law P strtod" "wf_json P (dom_root (p_dom p))" "state_step strtod p = Inr fl"
  shows "flow_sound P fl"
proof (cases "states p")
  case Nil
  then show ?thesis using assms(2,3) by (auto simp: state_step_def)
next
  case (Cons b ss)
  let ?p1 = "get_token strtod p"
  have s1: "sound P ?p1" "sound P (get_token strtod ?p1)" using assms(1,2) by (auto intro!: sound_get_token)
  show ?thesis
  proof (cases b)
    case True
    then show ?thesis
      using assms(3) s1 Cons
      by (auto simp: state_step_def Let_def on_dom_Inr split: if_splits) (auto simp: sound_def dest!: dom_root_end)
  next
    case False
    then show ?thesis
      using assms(3) s1 Cons sound_parse_key [OF assms(1) s1(2), of "\<lambda>p. p" fl]
      by (auto simp: state_step_def Let_def on_dom_Inr split: if_splits) (auto simp: sound_def dest!: dom_root_end)
  qed
qed

lemma sound_sax_step:
  assumes "float_law P strtod" "sound P p" "sax_step strtod p = Inr fl"
  shows "flow_sound P fl"
proof (cases "skip p")
  case True
  then show ?thesis
    using sound_state_step [OF assms(1), of "p\<lparr>skip := False\<rparr>" fl] assms(2,3) by (simp add: sax_step_def sound_def)
next
  case False
  then obtain f1 where f1: "value_step strtod p = Inr f1"
    "(case f1 of Break p' \<Rightarrow> state_step strtod p' | _ \<Rightarrow> Inr f1) = Inr fl"
    using assms(3) by (auto simp: sax_step_def rbind_Inr_iff)
  with sound_value_step [OF assms(1,2) f1(1)] sound_state_step [OF assms(1)] show ?thesis by (cases f1) auto
qed

lemma sound_sax_parse:
  "float_law P strtod \<Longrightarrow> sound P p \<Longrightarrow> sax_parse_internal strtod p = Inr fl \<Longrightarrow> flow_sound P fl"
proof (induction strtod p rule: sax_parse_internal.induct)
  case (1 strtod p)
  show ?case
  proof (cases "\<exists>p'. sax_step strtod p = Inr (Continue p')")
    case True
    then obtain p' where p': "sax_step strtod p = Inr (Continue p')" by blast
    then have "sax_parse_internal strtod p' = Inr fl"
      using "1.prems"(3) by (subst (asm) sax_parse_internal.simps) simp
    then show ?thesis using "1.IH" [OF p' refl "1.prems"(1)] sound_sax_step [OF "1.prems"(1,2) p'] by simp
  next
    case False
    then have "sax_step strtod p = Inr fl"
      using "1.prems"(3) by (subst (asm) sax_parse_internal.simps) (auto split: sum.splits flow.splits)
    then show ?thesis using sound_sax_step "1.prems"(1,2) by blast
  qed
qed

lemma parser_parse_wf:
  assumes "parser_parse strtod strict (parser_new strtod text) = Inr (Inr j)" "float_law P strtod"
  shows "wf_json P j"
proof -
  have s: "sound P (parser_new strtod text)"
    unfolding parser_new_def using assms(2) by (rule sound_get_token) (simp add: dom_new_def)
  obtain fl where fl: "sax_parse_internal strtod (parser_new strtod text) = Inr fl"
    using assms(1) by (auto simp: parser_parse_def rbind_Inr_iff)
  then obtain p where p: "fl = Return p" "j = dom_root (p_dom p)"
    using assms(1) by (cases fl; cases strict) (auto simp: parser_parse_def Let_def split: if_splits)
  show ?thesis using sound_sax_parse [OF assms(2) s fl] p by simp
qed

lemma json_parse_wf: "json_parse strtod text = Inr (Inr j) \<Longrightarrow> float_law P strtod \<Longrightarrow> wf_json P j"
  unfolding json_parse_def by (rule parser_parse_wf)

lemma json_read_wf: "json_read strtod text = Inr (Inr j) \<Longrightarrow> float_law P strtod \<Longrightarrow> wf_json P j"
  unfolding json_read_def by (rule parser_parse_wf)

text \<open>C11: What was read can be printed. Every value the parser accepts has only UTF-8 strings, sorted keys, integers in
  range and finite doubles, so \<open>dump()\<close> prints it without an exception, and the parser reads the printing back as the
  same value, provided \<open>strtod\<close> rounds correctly to the doubles it gives.\<close>

theorem json_parse_stable:
  assumes "json_parse strtod text = Inr (Inr j)" "float_law (reads_back strtod) strtod"
  shows "rbind (json_dump j) (json_parse strtod) = Inr (Inr j)"
  using json_roundtrip wf_json_dump json_parse_wf [OF assms] by (simp add: json_dump_eq)

theorem json_parse_stable_witness:
  "rbind (json_dump sample_json) (json_parse sample_strtod) = Inr (Inr sample_json)"
proof (rule json_parse_stable)
  show "json_parse sample_strtod (dump sample_json) = Inr (Inr sample_json)" by (rule json_roundtrip(1) [OF sample_wf])
  show "float_law (reads_back sample_strtod) sample_strtod"
    using sample_reads_back by (auto simp: float_law_def sample_strtod_def)
qed

end
