(* ===== verification/JsonFields.thy ===== *)
theory JsonFields
  imports JsonCodepoint
begin

text \<open>
  Fields cut out of a text by \<open>sample_json_str_get\<close>: the scanner looks only for ASCII characters, so a field of a
  UTF-8 text is UTF-8. The texts the nodes and the manager put into the values they print, and the values they
  build, can therefore be printed when the requests are UTF-8.
\<close>

section \<open>UTF-8 by characters\<close>

lemma utf8_induct [consumes 1, case_names Nil ascii multi]:
  assumes "utf8 s" "P []"
    "\<And>c s. code_of c \<le> 0x7F \<Longrightarrow> utf8 s \<Longrightarrow> P s \<Longrightarrow> P (c # s)"
    "\<And>bs s. \<forall>b \<in> set bs. 0x80 \<le> code_of b \<Longrightarrow> utf8 bs \<Longrightarrow> utf8 s \<Longrightarrow> P s \<Longrightarrow> P (bs @ s)"
  shows "P s"
  using assms(1)
proof (induction "length s" arbitrary: s rule: less_induct)
  case less
  show ?case
  proof (cases s)
    case Nil
    then show ?thesis using assms(2) by simp
  next
    case (Cons c s')
    then obtain rs where rs: "lead_ranges c = Some rs" "utf8_from rs s'"
      using less.prems by (auto simp: utf8_def split: option.splits)
    obtain bs t where t: "s' = bs @ t" "list_all2 in_range rs bs" "utf8 t"
      using utf8_from_split [OF rs(2)] by (auto simp: utf8_def)
    then have P: "P t" using less.hyps [of t] Cons by simp
    show ?thesis
    proof (cases rs)
      case Nil
      then show ?thesis using assms(3) [OF lead_ascii t(3) P] rs t Cons by simp
    next
      case (Cons r rs')
      have "0x80 \<le> code_of c" using rs(1) Cons lead_multibyte by simp
      moreover have "\<forall>b \<in> set bs. 0x80 \<le> code_of b"
        using t(2) lead_range_multibyte [OF rs(1)]
        by (auto simp: list_all2_conv_all_nth in_set_conv_nth in_range_def) (metis nth_mem order.trans)
      ultimately show ?thesis
        using assms(4) [OF _ utf8_Cons [OF rs(1) t(2)] t(3) P] t(1) \<open>s = c # s'\<close> by simp
    qed
  qed
qed

lemma utf8_all_ascii: "\<forall>c \<in> set s. code_of c \<le> 0x7F \<Longrightarrow> utf8 s"
  by (induction s) (use utf8_append [OF utf8_ascii] in force)+

lemma utf8_after_ascii: "utf8 t \<Longrightarrow> t = xs @ c # ys \<Longrightarrow> code_of c \<le> 0x7F \<Longrightarrow> utf8 ys"
proof (induction t arbitrary: xs rule: utf8_induct)
  case (ascii d s)
  then show ?case by (cases xs) auto
next
  case (multi bs s)
  then obtain us where "xs = bs @ us \<and> us @ c # ys = s \<or> xs @ us = bs \<and> us @ s = c # ys"
    by (auto simp: append_eq_append_conv2)
  moreover have "xs @ us = bs \<Longrightarrow> us @ s = c # ys \<Longrightarrow> us = []"
    using multi.hyps(1) multi.prems(2) by (cases us) auto
  ultimately show ?case using multi.IH [of us] multi.IH [of "[]"] multi.prems(2) by auto
qed simp

lemma utf8_Cons_ascii: "code_of c \<le> 0x7F \<Longrightarrow> utf8 (c # s) = utf8 s"
  using utf8_after_ascii [of "c # s" "[]" c s] utf8_append [OF utf8_ascii [of c], of s] by auto

section \<open>The scanner\<close>

lemma scan_step_ascii: "key_val (scan_step c s) = key_val s \<or> key_val (scan_step c s) = key_val s @ [c]"
  by (cases "status s") (simp_all add: scan_step_def scan_outside_def scan_object_def scan_in_string_def push_def Let_def)

lemma scan_step_multibyte:
  assumes "0x80 \<le> code_of c"
  shows "scan_step c s =
    (if status s = InObject \<or> status s = InString \<or> status s = Outside \<and> obj_flage s \<noteq> 0 then push c s else s)\<lparr>last_c := c\<rparr> \<or>
    status s = InObject \<and> obj_flage s = 0"
proof -
  have "c \<noteq> dquote" "c \<noteq> CHR ''{''" "c \<noteq> CHR '':''" "c \<noteq> CHR '',''" "c \<noteq> CHR ''}''" "c \<noteq> CHR '' ''"
    using assms by (auto simp: code_of_def)
  then show ?thesis
    by (cases "status s") (simp_all add: scan_step_def scan_outside_def scan_object_def scan_in_string_def push_def Let_def)
qed

text \<open>Inside an object the depth is positive.\<close>

definition scan_wf :: "scan_state \<Rightarrow> bool" where
  "scan_wf s \<longleftrightarrow> (status s = InObject \<longrightarrow> obj_flage s \<noteq> 0 \<and> key_val s \<noteq> [])"

lemma scan_wf_step: "scan_wf s \<Longrightarrow> scan_wf (scan_step c s)"
  by (cases "status s")
    (auto simp: scan_wf_def scan_step_def scan_outside_def scan_object_def scan_in_string_def push_def Let_def)

definition scan_pushes :: "scan_state \<Rightarrow> bool" where
  "scan_pushes s \<longleftrightarrow> status s = InObject \<or> status s = InString \<or> status s = Outside \<and> obj_flage s \<noteq> 0"

lemma scan_multibyte:
  "\<forall>b \<in> set bs. 0x80 \<le> code_of b \<Longrightarrow> scan_wf s \<Longrightarrow>
    key_val (scan_text bs s) = (if scan_pushes s then key_val s @ bs else key_val s)"
proof (induction bs arbitrary: s)
  case (Cons b bs)
  have st: "scan_step b s = (if scan_pushes s then push b s else s)\<lparr>last_c := b\<rparr>"
    using scan_step_multibyte [of b s] Cons.prems by (auto simp: scan_wf_def scan_pushes_def)
  have "scan_pushes (scan_step b s) = scan_pushes s" unfolding st by (simp add: scan_pushes_def push_def)
  then show ?case using Cons.IH [OF _ scan_wf_step [OF Cons.prems(2)], of b] Cons.prems(1)
    by (simp add: scan_text_def st push_def)
qed (simp add: scan_text_def)

lemma scan_wf_text: "scan_wf s \<Longrightarrow> scan_wf (scan_text cs s)"
  by (induction cs arbitrary: s) (simp_all add: scan_text_def scan_wf_step)

lemma utf8_scan: "utf8 t \<Longrightarrow> scan_wf s \<Longrightarrow> utf8 (key_val s) \<Longrightarrow> utf8 (key_val (scan_text t s))"
proof (induction t arbitrary: s rule: utf8_induct)
  case (ascii c t)
  have "utf8 (key_val (scan_step c s))"
    using scan_step_ascii [of c s] utf8_append [OF ascii.prems(2) utf8_ascii [OF ascii.hyps(1)]] ascii.prems(2) by auto
  then show ?case using ascii.IH [OF scan_wf_step [OF ascii.prems(1)], of c] by (simp add: scan_text_def)
next
  case (multi bs t)
  have "utf8 (key_val (scan_text bs s))"
    using scan_multibyte [OF multi.hyps(1) multi.prems(1)] utf8_append multi by simp
  then show ?case using multi.IH [OF scan_wf_text [OF multi.prems(1)], of bs] by (simp add: scan_text_def)
qed (simp add: scan_text_def)

lemma utf8_field:
  assumes "utf8 text"
  shows "utf8 (sample_json_str_get text key)"
proof (cases "str_find (quoted key) text")
  case (Some n)
  let ?k = "quoted key"
  have "n + length ?k \<le> length text \<and> take (length ?k) (drop n text) = ?k" using str_find_Some [OF Some] .
  then have "text = take n text @ ?k @ drop (n + length ?k) text"
    by (metis append_take_drop_id drop_drop add.commute)
  then have "text = (take n text @ dquote # key) @ dquote # drop (n + length ?k) text" by (simp add: quoted_def)
  from utf8_after_ascii [OF assms this] have "utf8 (drop (n + length ?k) text)" by (simp add: code_of_def)
  then have "utf8 (key_val (scan_text (drop (n + length ?k) text) scan_init))"
    by (rule utf8_scan) (simp_all add: scan_wf_def scan_init_def)
  then show ?thesis using Some by (simp add: sample_json_str_get_def scan_result_def Let_def)
qed (simp add: sample_json_str_get_def)

section \<open>Values that can be printed\<close>

definition printable_json :: "json \<Rightarrow> bool" where
  "printable_json j \<longleftrightarrow> strings_ok j \<and> ints_ok j"

lemma json_dump_printable: "printable_json j \<Longrightarrow> json_dump j = Inr (dump j)"
  by (simp add: printable_json_def json_dump_eq)

lemma printable_json_simps [simp]:
  "printable_json JNull" "printable_json (JBool b)" "printable_json (JFloat t)" "printable_json (JStr s) = utf8 s"
  "printable_json (JInt i) = int_ok i" "printable_json (JArr xs) = (\<forall>x \<in> set xs. printable_json x)"
  "printable_json (JObj kvs) = (\<forall>kv \<in> set kvs. utf8 (fst kv) \<and> printable_json (snd kv))"
  by (auto simp: printable_json_def)

lemma obj_insert_fold_subset: "set (fold (\<lambda>(k, v) m. obj_insert k v m) kvs m) \<subseteq> set kvs \<union> set m"
proof (induction kvs arbitrary: m)
  case (Cons kv kvs)
  have "set (obj_insert k v m) \<subseteq> insert (k, v) (set m)" for k v and m :: "(string \<times> json) list"
    by (induction m) (auto split: if_splits)
  then show ?case using Cons.IH [of "obj_insert (fst kv) (snd kv) m"] by (cases kv) fastforce
qed simp

lemma printable_json_object:
  "\<forall>kv \<in> set kvs. utf8 (fst kv) \<and> printable_json (snd kv) \<Longrightarrow> printable_json (json_object kvs)"
  using obj_insert_fold_subset [of kvs "[]"] by (auto simp: json_object_def)

lemma int_ok_small: "- (2 ^ 63) \<le> i \<Longrightarrow> i < 2 ^ 63 \<Longrightarrow> int_ok i"
  by (simp add: int_ok_def)

lemma utf8_nat_to_string: "utf8 (nat_to_string n)"
  using nat_to_string_digits [of n] by (intro utf8_all_ascii) (auto simp: list_all_iff is_digit_def)

lemma utf8_int_to_string: "utf8 (int_to_string i)"
  using utf8_append [OF utf8_ascii [of "CHR ''-''"] utf8_nat_to_string]
  by (simp add: int_to_string_def utf8_nat_to_string code_of_def)

end
