(* ===== verification/UnitBus.thy ===== *)
theory UnitBus
  imports UnitServer JsonSound JsonFields
begin

text \<open>
  How the unit manager handles one request of a client: \<open>unit_action_match\<close> and \<open>usr_print_error\<close> of
  \<open>remote_server.cpp\<close>, \<open>remote_call\<close> of \<open>remote_action.cpp\<close>, and the senders of \<open>zmq_bus.cpp\<close>. The
  mutex makes requests run one at a time, so each is a function of the manager's state. simdjson is
  outside the repository: \<open>simdjson\<close> answers a text with the function that reads its string fields,
  \<open>None\<close> when the text is rejected. \<open>um_strtod\<close> and \<open>now\<close> stand for \<open>strtod\<close> and \<open>time(NULL)\<close>.
\<close>

record um_env =
  um_zmq :: zmq_env
  simdjson :: "string \<Rightarrow> (string \<Rightarrow> string option) option"
  um_strtod :: "string \<Rightarrow> double"
  now :: int

section \<open>Logging\<close>

text \<open>
  The macros of \<open>utils/sample_log.h\<close> expand to an \<open>if\<close> without braces. \<open>log_level\<close> is a static variable
  that no code assigns.
\<close>

definition SAMPLE_LOG_WARN :: int where "SAMPLE_LOG_WARN = 4"
definition SAMPLE_LOG_INFO :: int where "SAMPLE_LOG_INFO = 6"
definition log_level :: int where "log_level = SAMPLE_LOG_INFO"

section \<open>Sending\<close>

text \<open>
  \<open>zmq_bus_publisher_push\<close>: the \<open>else\<close> that should report a missing unit follows an \<open>ALOGW\<close>, so it
  belongs to the \<open>if\<close> of the macro: its branch runs when warnings are off, whether or not there is a
  unit, and never when they are on.
\<close>

definition zmq_bus_publisher_push ::
  "int \<Rightarrow> zmq_env \<Rightarrow> string \<Rightarrow> string \<Rightarrow> um_state \<Rightarrow> (int \<times> um_state) res" where
  "zmq_bus_publisher_push level env work_id json_str s =
     (if work_id = [] then Inr (- 1, s)
      else rbind (case safe_reading_unit work_id s of
                    None \<Rightarrow> Inr s
                  | Some u \<Rightarrow> unit_send_msg env json_str u s)
                 (\<lambda>s'. if SAMPLE_LOG_WARN \<le> level then Inr (0, s') else Inr (- 1, s')))"

definition zmq_com_send :: "zmq_env \<Rightarrow> int \<Rightarrow> string \<Rightarrow> um_state \<Rightarrow> um_state res" where
  "zmq_com_send env com_id out_str s =
     rbind (sprintf_buf 128 (zmq_c_format s) com_id) (\<lambda>zmq_push_url.
     rbind (pzmq_socket env zmq_push_url ZMQ_PUSH :: unit pzmq res) (\<lambda>p.
       Inr (s\<lparr>sent := sent s @ [(zmq_url p, out_str @ [newline])]\<rparr>)))"

definition usr_print_error ::
  "um_env \<Rightarrow> string \<Rightarrow> string \<Rightarrow> string \<Rightarrow> int \<Rightarrow> um_state \<Rightarrow> um_state res" where
  "usr_print_error env request_id work_id error_msg zmq_out s =
     rbind (json_parse_throw (um_strtod env) error_msg) (\<lambda>err.
     rbind (json_dump (json_object
              [(''request_id'', JStr request_id), (''work_id'', JStr work_id), (''created'', JInt (now env)),
               (''error'', err), (''object'', JStr ''None''), (''data'', JStr ''None'')])) (\<lambda>out.
       zmq_com_send (um_zmq env) zmq_out out s))"

section \<open>Remote calls\<close>

definition work_unit_of :: "string \<Rightarrow> string" where
  "work_unit_of work_id = (case str_find ''.'' work_id of None \<Rightarrow> work_id | Some i \<Rightarrow> take i work_id)"

definition remote_call :: "um_env \<Rightarrow> int \<Rightarrow> string \<Rightarrow> um_state \<Rightarrow> (int \<times> um_state) res" where
  "remote_call env com_id json_str s =
     (case simdjson env json_str of
        None \<Rightarrow> Inl Undefined
      | Some get \<Rightarrow>
          let work_id = (case get ''work_id'' of None \<Rightarrow> [] | Some w \<Rightarrow> w);
              work_unit = work_unit_of work_id;
              action = (case get ''action'' of None \<Rightarrow> [] | Some a \<Rightarrow> a)
          in if work_id = [] \<or> action = [] then Inl RuntimeError
             else rbind (sprintf_i (zmq_c_format s) (Some com_id)) (\<lambda>text.
               let data = set_param (snprintf_trunc 255 text) json_str;
                   clent = (pzmq_rpc work_unit :: unit pzmq)
               in rbind (call_rpc_action (um_zmq env) action data clent) (\<lambda>(ret, reply, _).
                    Inr (ret, if reply = None then s
                              else s\<lparr>rpc_sent := rpc_sent s @ [(rpc_url_head clent @ rpc_server clent, action, data)]\<rparr>))))"

section \<open>Dispatch\<close>

definition json_format_error :: string where
  "json_format_error =
     ''{'' @ quoted ''code'' @ '':-2, '' @ quoted ''message'' @ '':'' @ quoted ''json format error'' @ ''}''"

definition push_error :: string where
  "push_error =
     ''{'' @ quoted ''code'' @ '':-4, '' @ quoted ''message'' @ '':'' @ quoted ''inference data push false'' @ ''}''"

definition call_error :: string where
  "call_error =
     ''{'' @ quoted ''code'' @ '':-9, '' @ quoted ''message'' @ '':'' @ quoted ''unit call false'' @ ''}''"

text \<open>The loop that cuts the work id at its dots.\<close>

fun work_id_fragments :: "string \<Rightarrow> string \<Rightarrow> string list \<Rightarrow> string list" where
  "work_id_fragments [] fragment acc = (if fragment = [] then acc else acc @ [fragment])"
| "work_id_fragments (c # cs) fragment acc =
     (if c \<noteq> CHR ''.'' then work_id_fragments cs (fragment @ [c]) acc
      else work_id_fragments cs [] (acc @ [fragment]))"

text \<open>
  The text forwarded to an inference channel: the reply URL is put in front of the fields of the
  request, whose first character is dropped. The buffer has room for exactly this text when the
  request is not empty.
\<close>

definition inference_data :: "string \<Rightarrow> int \<Rightarrow> string \<Rightarrow> string res" where
  "inference_data c_format com_id json_str =
     rbind (sprintf_buf 128 c_format com_id) (\<lambda>zmq_push_url.
       if json_str = [] then Inl Undefined
       else Inr (''{'' @ quoted ''zmq_com'' @ '':'' @ quoted zmq_push_url @ '','' @ tl json_str))"

definition dispatch ::
  "um_env \<Rightarrow> int \<Rightarrow> string \<Rightarrow> string \<Rightarrow> string \<Rightarrow> string \<Rightarrow> um_state \<Rightarrow> um_state res" where
  "dispatch env com_id json_str request_id work_id action s =
     (if action = ''inference'' then
        rbind (inference_data (zmq_c_format s) com_id json_str) (\<lambda>raw.
        rbind (zmq_bus_publisher_push log_level (um_zmq env) work_id raw s) (\<lambda>(ret, s').
          if ret \<noteq> 0 then usr_print_error env request_id work_id push_error com_id s' else Inr s'))
      else
        case work_id_fragments work_id [] [] of
          [] \<Rightarrow> Inl Undefined
        | frag # _ \<Rightarrow>
            if frag = [] then Inr s
            else rbind (remote_call env com_id json_str s) (\<lambda>(ret, s').
              if ret \<noteq> 0 then usr_print_error env request_id work_id call_error com_id s' else Inr s'))"

definition unit_action_match :: "um_env \<Rightarrow> int \<Rightarrow> string \<Rightarrow> um_state \<Rightarrow> um_state res" where
  "unit_action_match env com_id json_str s =
     (let format_error = usr_print_error env ''0'' ''sys'' json_format_error com_id s
      in case simdjson env json_str of
           None \<Rightarrow> format_error
         | Some get \<Rightarrow>
             case get ''request_id'' of
               None \<Rightarrow> format_error
             | Some request_id \<Rightarrow>
                 case get ''work_id'' of
                   None \<Rightarrow> format_error
                 | Some work_id0 \<Rightarrow>
                     let work_id = (if work_id0 = [] then ''sys'' else work_id0)
                     in case get ''action'' of
                          None \<Rightarrow> format_error
                        | Some action \<Rightarrow> dispatch env com_id json_str request_id work_id action s)"

section \<open>Properties\<close>

text \<open>The reply URL of a client: the format of the configuration holds one \<open>%i\<close>, and the URL fits the
  buffer of 128 bytes.\<close>

definition com_url_is :: "um_state \<Rightarrow> int \<Rightarrow> string \<Rightarrow> bool" where
  "com_url_is s com_id url \<longleftrightarrow>
     (\<exists>pre post. one_conversion (zmq_c_format s) pre post \<and>
        url = pre @ int_to_string com_id @ post \<and> length url < 128)"

lemma com_url_buf: "com_url_is s com_id url \<Longrightarrow> sprintf_buf 128 (zmq_c_format s) com_id = Inr url"
  unfolding com_url_is_def one_conversion_def using sprintf_buf_one by fastforce

lemma com_url_text: "com_url_is s com_id url \<Longrightarrow> sprintf_i (zmq_c_format s) (Some com_id) = Inr url"
  unfolding com_url_is_def one_conversion_def using sprintf_i_one by fastforce

lemma com_url_not_Nil: "com_url_is s com_id url \<Longrightarrow> url \<noteq> []"
  by (auto simp: com_url_is_def int_to_string_def split: if_splits)

lemma pzmq_socket_url: "url \<noteq> [] \<Longrightarrow> \<exists>p :: unit pzmq. pzmq_socket env url ZMQ_PUSH = Inr p \<and> zmq_url p = url"
  by (auto simp: pzmq_socket_def creat_def creat_push_def Let_def)

lemma zmq_com_send_sent:
  "com_url_is s com_id url \<Longrightarrow>
   zmq_com_send env com_id out s = Inr (s\<lparr>sent := sent s @ [(url, out @ [newline])]\<rparr>)"
  using pzmq_socket_url [OF com_url_not_Nil, of s com_id url env]
  by (auto simp: zmq_com_send_def com_url_buf)

text \<open>The error reply a client reads, one line of JSON with its keys sorted.\<close>

definition error_reply :: "string \<Rightarrow> string \<Rightarrow> int \<Rightarrow> json \<Rightarrow> string" where
  "error_reply request_id work_id t err =
     dump (JObj [(''created'', JInt t), (''data'', JStr ''None''), (''error'', err),
                 (''object'', JStr ''None''), (''request_id'', JStr request_id), (''work_id'', JStr work_id)]) @ [newline]"

definition error_value :: "int \<Rightarrow> string \<Rightarrow> json" where
  "error_value c m = JObj [(''code'', JInt c), (''message'', JStr m)]"

text \<open>The parser reads the three constant error texts, whatever \<open>strtod\<close> does.\<close>

lemma format_error_parses [simp]:
  "json_parse strtod json_format_error = Inr (Inr (error_value (- 2) ''json format error''))"
  by code_simp

lemma push_error_parses [simp]:
  "json_parse strtod push_error = Inr (Inr (error_value (- 4) ''inference data push false''))"
  by code_simp

lemma call_error_parses [simp]:
  "json_parse strtod call_error = Inr (Inr (error_value (- 9) ''unit call false''))"
  by code_simp

lemma printable_error_value [simp]: "printable_json (error_value c m) \<longleftrightarrow> int_ok c \<and> utf8 m"
  by (simp add: error_value_def utf8_all_ascii code_of_def)

lemma call_error_printable: "printable_json (error_value (- 9) ''unit call false'')"
  by (auto intro!: utf8_all_ascii int_ok_small simp: code_of_def)

lemma usr_print_error_sent:
  assumes "com_url_is s com_id url" "json_parse (um_strtod env) msg = Inr (Inr err)" "printable_json err"
    "utf8 rid" "utf8 wid" "int_ok (now env)"
  shows "usr_print_error env rid wid msg com_id s = Inr (s\<lparr>sent := sent s @ [(url, error_reply rid wid (now env) err)]\<rparr>)"
proof -
  let ?kvs = "[(''request_id'', JStr rid), (''work_id'', JStr wid), (''created'', JInt (now env)),
    (''error'', err), (''object'', JStr ''None''), (''data'', JStr ''None'')]"
  have "printable_json (json_object ?kvs)"
    using assms(3-6) by (intro printable_json_object) (auto intro!: utf8_all_ascii simp: code_of_def)
  from json_dump_printable [OF this]
  have "usr_print_error env rid wid msg com_id s = zmq_com_send (um_zmq env) com_id (dump (json_object ?kvs)) s"
    using assms(2) by (simp add: usr_print_error_def json_parse_throw_def)
  then show ?thesis
    by (simp add: zmq_com_send_sent [OF assms(1)] error_reply_def json_object_def code_of_def)
qed

lemma malformed_reply:
  assumes "\<And>get. simdjson env json = Some get \<Longrightarrow> get ''request_id'' = None \<or> get ''work_id'' = None \<or> get ''action'' = None"
    "com_url_is s com_id url" "int_ok (now env)"
  shows "unit_action_match env com_id json s =
     Inr (s\<lparr>sent := sent s @ [(url, error_reply ''0'' ''sys'' (now env) (error_value (- 2) ''json format error''))]\<rparr>)"
proof -
  have "usr_print_error env ''0'' ''sys'' json_format_error com_id s =
     Inr (s\<lparr>sent := sent s @ [(url, error_reply ''0'' ''sys'' (now env) (error_value (- 2) ''json format error''))]\<rparr>)"
    by (rule usr_print_error_sent [OF assms(2) format_error_parses])
      (auto intro!: utf8_all_ascii int_ok_small assms(3) simp: code_of_def)
  then show ?thesis using assms(1) by (auto simp: unit_action_match_def Let_def split: option.splits)
qed

text \<open>C7: a request simdjson rejects, or one without a string \<open>request_id\<close>, \<open>work_id\<close> or \<open>action\<close>, is
  answered with exactly one line, the error -2 for request 0 of \<open>sys\<close>, on the client's own URL, and
  changes nothing else: the parser reads the constant error text and the serializer prints the reply.\<close>

theorem malformed_request_reply:
  assumes "\<And>get. simdjson env json = Some get \<Longrightarrow> get ''request_id'' = None \<or> get ''work_id'' = None \<or> get ''action'' = None"
    "com_url_is s com_id url" "int_ok (now env)"
  shows "unit_action_match env com_id json s =
     Inr (s\<lparr>sent := sent s @ [(url, error_reply ''0'' ''sys'' (now env) (error_value (- 2) ''json format error''))]\<rparr>)"
  using assms by (rule malformed_reply)

definition sample_um_env :: "(string \<Rightarrow> string option) \<Rightarrow> um_env" where
  "sample_um_env get = \<lparr>um_zmq = sample_env, simdjson = \<lambda>t. if t = [] then None else Some get,
     um_strtod = \<lambda>_. 0, now = 1700000000\<rparr>"

lemma sample_now: "int_ok (now (sample_um_env get))"
  by (simp add: sample_um_env_def int_ok_def)

lemma sample_com_url: "com_url_is sample_state 8000 ''ipc:///tmp/llm/8000.sock''"
proof -
  have "zmq_c_format sample_state = sample_format" by (simp add: sample_state_def sample_config_def)
  moreover have "int_to_string 8000 = ''8000''" by (simp add: int_to_string_def nat_to_string_eval)
  ultimately show ?thesis
    using sample_one_conversion unfolding com_url_is_def by fastforce
qed

theorem malformed_request_reply_witness:
  "unit_action_match (sample_um_env (\<lambda>_. None)) 8000 ''[1]'' sample_state =
     Inr (sample_state\<lparr>sent := [(''ipc:///tmp/llm/8000.sock'',
       error_reply ''0'' ''sys'' 1700000000 (error_value (- 2) ''json format error''))]\<rparr>)"
  using malformed_request_reply [of "sample_um_env (\<lambda>_. None)" "''[1]''", OF _ sample_com_url sample_now]
  by (simp add: sample_um_env_def sample_state_def sample_config_def)

lemma inference_request_struct:
  assumes "simdjson env json = Some get" "get ''request_id'' = Some rid" "get ''work_id'' = Some wid"
    "get ''action'' = Some ''inference''" "wid \<noteq> []" "json \<noteq> []" "com_url_is s com_id url"
  shows "unit_action_match env com_id json s =
    rbind (zmq_bus_publisher_push log_level (um_zmq env) wid
             (''{'' @ quoted ''zmq_com'' @ '':'' @ quoted url @ '','' @ tl json) s)
      (\<lambda>(ret, s'). if ret \<noteq> 0 then usr_print_error env rid wid push_error com_id s' else Inr s')"
  using assms by (simp add: unit_action_match_def dispatch_def inference_data_def com_url_buf Let_def)

lemma zmq_com_read_back:
  assumes "plain_text url"
  shows "sample_json_str_get (''{'' @ quoted ''zmq_com'' @ '':'' @ quoted url @ '','' @ rest) ''zmq_com'' = url"
  by (rule get_string_literal [where n = 1 and sep = "'':''" and rest = "'','' @ rest"])
    (simp_all add: quoted_def plain_text_str_body assms)

text \<open>C6: an inference request for a live unit is published once, on the unit's inference URL, as the
  request with the client's reply URL in front; the scanner the nodes use reads that URL back, and the
  client gets no reply from the manager.\<close>

theorem inference_is_forwarded:
  assumes "simdjson env json = Some get" "get ''request_id'' = Some rid" "get ''work_id'' = Some wid"
    "get ''action'' = Some ''inference''" "json \<noteq> []" "com_url_is s com_id url" "plain_text url"
    "key_sql s wid = Some (Any_unit u)" "ud_channel u = Some p" "wid \<noteq> []"
  shows "\<exists>raw. unit_action_match env com_id json s = Inr (s\<lparr>sent := sent s @ [(zmq_url p, raw)]\<rparr>) \<and>
     raw = ''{'' @ quoted ''zmq_com'' @ '':'' @ quoted url @ '','' @ tl json \<and>
     sample_json_str_get raw ''zmq_com'' = url"
proof -
  have "safe_reading_unit wid s = Some u" using assms(8) by (simp add: safe_reading_unit_iff)
  then show ?thesis
    using inference_request_struct [OF assms(1-4,10,5,6)] assms(9,10) zmq_com_read_back [OF assms(7), of "tl json"]
    by (simp add: zmq_bus_publisher_push_def unit_send_msg_def log_level_def SAMPLE_LOG_INFO_def SAMPLE_LOG_WARN_def)
qed

lemma sample_unit_stored:
  "\<exists>u s p. sys_allocate_unit sample_env ''llm'' sample_state = Inr (u, s) \<and> key_sql s ''llm.0'' = Some (Any_unit u) \<and>
     ud_channel u = Some p \<and> zmq_url p = ''ipc:///tmp/llm/5011.sock.llm.inference_url'' \<and>
     zmq_c_format s = sample_format \<and> sent s = []"
  by (simp add: sample_run Let_def creat_def creat_pub_def pzmq_blank_def)
    (simp add: sample_state_def sample_config_def)

theorem inference_is_forwarded_witness:
  "\<exists>s get. unit_action_match (sample_um_env get) 8000 ''{...}'' s =
     Inr (s\<lparr>sent := [(''ipc:///tmp/llm/5011.sock.llm.inference_url'',
       ''{'' @ quoted ''zmq_com'' @ '':'' @ quoted ''ipc:///tmp/llm/8000.sock'' @ '',...}'')]\<rparr>)"
proof -
  obtain u p and s :: um_state where a: "key_sql s ''llm.0'' = Some (Any_unit u)" "ud_channel u = Some p"
    "zmq_url p = ''ipc:///tmp/llm/5011.sock.llm.inference_url''" "zmq_c_format s = sample_format" "sent s = []"
    using sample_unit_stored by blast
  let ?get = "[''request_id'' \<mapsto> ''1'', ''work_id'' \<mapsto> ''llm.0'', ''action'' \<mapsto> ''inference'']"
  have c: "com_url_is s 8000 ''ipc:///tmp/llm/8000.sock''"
    using sample_com_url a(4) by (simp add: com_url_is_def sample_state_def sample_config_def)
  show ?thesis
    using inference_is_forwarded [OF _ _ _ _ _ c _ a(1,2), of "sample_um_env ?get" "''{...}''" ?get "''1''"] a(3,5)
    by (intro exI [of _ s] exI [of _ ?get]) (simp add: sample_um_env_def plain_text_def)
qed

text \<open>C24: an inference request for a work id that names no live unit is dropped without a word: nothing
  is sent to anybody, not even the error -4 the code builds for this case.\<close>

theorem inference_without_unit_is_silent:
  assumes "simdjson env json = Some get" "get ''request_id'' = Some rid" "get ''work_id'' = Some wid"
    "get ''action'' = Some ''inference''" "json \<noteq> []" "com_url_is s com_id url"
    "\<And>u. key_sql s (if wid = [] then ''sys'' else wid) \<noteq> Some (Any_unit u)"
  shows "unit_action_match env com_id json s = Inr s"
proof -
  let ?wid = "if wid = [] then ''sys'' else wid"
  have "safe_reading_unit ?wid s = None"
    using assms(7) by (metis not_None_eq safe_reading_unit_iff)
  then show ?thesis
    using assms(1-6)
    by (simp add: unit_action_match_def dispatch_def inference_data_def com_url_buf zmq_bus_publisher_push_def
        log_level_def SAMPLE_LOG_INFO_def SAMPLE_LOG_WARN_def Let_def)
qed

theorem inference_without_unit_is_silent_witness:
  "\<exists>get. unit_action_match (sample_um_env get) 8000 ''{...}'' sample_state = Inr sample_state"
proof -
  let ?get = "[''request_id'' \<mapsto> ''1'', ''work_id'' \<mapsto> ''llm.7'', ''action'' \<mapsto> ''inference'']"
  show ?thesis
    using inference_without_unit_is_silent [of "sample_um_env ?get" "''{...}''" ?get "''1''" "''llm.7''",
        OF _ _ _ _ _ sample_com_url]
    by (intro exI [of _ ?get]) (simp add: sample_um_env_def)
qed

lemma work_id_fragments_acc: "\<exists>xs. work_id_fragments cs frag acc = acc @ xs"
proof (induction cs frag acc rule: work_id_fragments.induct)
  case (2 c cs frag acc)
  then show ?case by (cases "c = CHR ''.''") auto
qed simp

lemma work_id_fragments_hd:
  "cs \<noteq> [] \<or> frag \<noteq> [] \<Longrightarrow>
   \<exists>xs. work_id_fragments cs frag [] = (frag @ takeWhile (\<lambda>c. c \<noteq> CHR ''.'') cs) # xs"
proof (induction cs arbitrary: frag)
  case (Cons c cs)
  show ?case
  proof (cases "c = CHR ''.''")
    case True
    then show ?thesis using work_id_fragments_acc [of cs "[]" "[frag]"] by auto
  next
    case False
    then show ?thesis using Cons.IH [of "frag @ [c]"] by auto
  qed
qed simp

text \<open>A request that is not an inference and whose work id does not start with a dot reaches
  \<open>remote_call\<close>.\<close>

lemma remote_request_struct:
  assumes "simdjson env json = Some get" "get ''request_id'' = Some rid" "get ''work_id'' = Some wid"
    "get ''action'' = Some action" "action \<noteq> ''inference''" "wid = [] \<or> hd wid \<noteq> CHR ''.''"
  shows "unit_action_match env com_id json s =
    rbind (remote_call env com_id json s) (\<lambda>(ret, s').
      if ret \<noteq> 0 then usr_print_error env rid (if wid = [] then ''sys'' else wid) call_error com_id s' else Inr s')"
proof -
  let ?w = "if wid = [] then ''sys'' else wid"
  have "?w \<noteq> []" by simp
  then obtain xs where "work_id_fragments ?w [] [] = takeWhile (\<lambda>c. c \<noteq> CHR ''.'') ?w # xs"
    using work_id_fragments_hd [of ?w "[]"] \<open>?w \<noteq> []\<close> by auto
  moreover have "takeWhile (\<lambda>c. c \<noteq> CHR ''.'') ?w \<noteq> []"
    using assms(6) by (cases wid) auto
  ultimately show ?thesis
    using assms(1-5) by (simp add: unit_action_match_def dispatch_def Let_def)
qed

text \<open>An empty \<open>action\<close>, or an empty \<open>work_id\<close> with an action other than \<open>inference\<close>, makes the
  handler throw \<open>std::runtime_error\<close>: the substitution of \<open>sys\<close> for an empty work id is not seen by
  \<open>remote_call\<close>, which reads the request again.\<close>

theorem empty_field_throws:
  assumes "simdjson env json = Some get" "get ''request_id'' = Some rid" "get ''work_id'' = Some wid"
    "get ''action'' = Some action" "action \<noteq> ''inference''" "wid = [] \<or> (action = [] \<and> hd wid \<noteq> CHR ''.'')"
  shows "unit_action_match env com_id json s = Inl RuntimeError"
proof -
  have "remote_call env com_id json s = Inl RuntimeError"
    using assms(1,3,4,6) by (auto simp: remote_call_def Let_def)
  then show ?thesis
    using remote_request_struct [OF assms(1-5), of com_id s] assms(6) by auto
qed

theorem empty_field_throws_witness:
  "\<exists>get. unit_action_match (sample_um_env get) 8000 ''{...}'' sample_state = Inl RuntimeError"
proof -
  let ?get = "[''request_id'' \<mapsto> ''1'', ''work_id'' \<mapsto> [], ''action'' \<mapsto> ''lsmode'']"
  show ?thesis
    using empty_field_throws [of "sample_um_env ?get" "''{...}''" ?get "''1''" "[]" "''lsmode''"]
    by (intro exI [of _ ?get]) (simp add: sample_um_env_def)
qed

lemma call_rpc_named:
  assumes "unit \<noteq> []" "\<not> str_contains ''://'' unit"
  shows "\<exists>ret reply p'. call_rpc_action env action data (pzmq_rpc unit :: unit pzmq) = Inr (ret, reply, p') \<and>
     (ret = 0 \<longleftrightarrow> path_exists env (''/tmp/rpc.'' @ unit) \<and> zmq_connect env (''ipc:///tmp/rpc.'' @ unit) = 0) \<and>
     (reply = None \<longleftrightarrow> ret \<noteq> 0)"
  using assms
  by (auto simp: call_rpc_action_def creat_def creat_req_def pzmq_rpc_def pzmq_blank_def default_url_head_def
      rpc_url_head_length_def eval_nat_numeral Let_def split: prod.splits if_splits)



end
