(* ===== verification/UnitSession.thy ===== *)
theory UnitSession
  imports UnitBus
begin

text \<open>
  The TCP side of the unit manager: \<open>zmq_bus_com\<close> (\<open>zmq_bus.h\<close>, \<open>zmq_bus.cpp\<close>), \<open>TcpSession\<close>
  (\<open>session.h\<close>), the callbacks of \<open>tcp_comm.cpp\<close>, and the start-up of \<open>config.cpp\<close> and \<open>main.cpp\<close>. A
  connection is a number; its context holds its session. Connections open one after the other here;
  the server has two I/O threads, between whose \<open>fetch_add\<close> and \<open>store\<close> others may run.
\<close>

section \<open>Sessions\<close>

record tcp_session =
  ses_url :: string
  ses_exit_flage :: int
  ses_err_count :: int
  ses_port :: int
  user_chennal :: "unit pzmq option"

definition zmq_bus_com_new :: tcp_session where
  "zmq_bus_com_new =
     \<lparr>ses_url = [], ses_exit_flage = 1, ses_err_count = 0, ses_port = 0, user_chennal = None\<rparr>"

definition zmq_bus_com_work :: "zmq_env \<Rightarrow> string \<Rightarrow> int \<Rightarrow> tcp_session \<Rightarrow> tcp_session res" where
  "zmq_bus_com_work env zmq_url_format port ses =
     rbind (sprintf_buf (length zmq_url_format + length (int_to_string port)) zmq_url_format port) (\<lambda>url.
     rbind (pzmq_socket env url ZMQ_PULL) (\<lambda>p.
       Inr (ses\<lparr>ses_port := port, ses_exit_flage := 1, ses_url := url, user_chennal := Some p\<rparr>)))"

definition zmq_bus_com_stop :: "tcp_session \<Rightarrow> tcp_session" where
  "zmq_bus_com_stop ses = ses\<lparr>ses_exit_flage := 0, user_chennal := None\<rparr>"

definition select_json_str :: "string \<Rightarrow> string" where
  "select_json_str json_src =
     (if json_src \<noteq> [] \<and> last json_src = newline then butlast json_src else json_src)"

section \<open>Callbacks\<close>

record tcp_state =
  um :: um_state
  counter_port :: int
  contexts :: "nat \<Rightarrow> tcp_session option"
  tcp_out :: "nat \<Rightarrow> string"

definition next_port :: "int \<Rightarrow> int" where
  "next_port n = (if 65535 < n + 1 then 8000 else n + 1)"

text \<open>
  \<open>onConnection\<close>: a new connection gets a session that listens for results on its own URL. A
  connection that goes down without a context throws \<open>boost::bad_any_cast\<close>, which the handler for
  \<open>std::bad_any_cast\<close> does not catch.
\<close>

definition on_connection :: "zmq_env \<Rightarrow> nat \<Rightarrow> bool \<Rightarrow> tcp_state \<Rightarrow> tcp_state res" where
  "on_connection env conn up t =
     (if up then
        rbind (zmq_bus_com_work env (zmq_s_format (um t)) (counter_port t) zmq_bus_com_new) (\<lambda>ses.
          Inr (t\<lparr>contexts := (contexts t)(conn \<mapsto> ses), counter_port := next_port (counter_port t)\<rparr>))
      else
        case contexts t conn of
          None \<Rightarrow> Inl BadAnyCast
        | Some ses \<Rightarrow> Inr (t\<lparr>contexts := (contexts t)(conn \<mapsto> zmq_bus_com_stop ses)\<rparr>))"

definition on_message :: "um_env \<Rightarrow> nat \<Rightarrow> string \<Rightarrow> tcp_state \<Rightarrow> tcp_state res" where
  "on_message env conn msg t =
     (case contexts t conn of
        None \<Rightarrow> Inr t
      | Some ses \<Rightarrow>
          rbind (unit_action_match env (ses_port ses) (select_json_str msg) (um t)) (\<lambda>s. Inr (t\<lparr>um := s\<rparr>)))"

text \<open>A message on a session's URL is written to its connection.\<close>

definition session_pull :: "nat \<Rightarrow> string \<Rightarrow> tcp_state \<Rightarrow> tcp_state" where
  "session_pull conn data t =
     (case contexts t conn of
        Some ses \<Rightarrow>
          if user_chennal ses = None then t
          else t\<lparr>tcp_out := (tcp_out t)(conn := tcp_out t conn @ data)\<rparr>
      | None \<Rightarrow> t)"

section \<open>Start-up\<close>

text \<open>
  \<open>readlink\<close> of \<open>/proc/self/exe\<close> (\<open>None\<close> for an error) and the files are arguments: \<open>files path\<close> is the text
  of a file that can be opened. A text the parser rejects throws into the \<open>catch (...)\<close> of \<open>load_config_file\<close>,
  and the next place is tried.
\<close>

definition PATH_MAX :: nat where "PATH_MAX = 4096"

definition executable_dir :: "string option \<Rightarrow> string" where
  "executable_dir readlink =
     (case readlink of
        None \<Rightarrow> []
      | Some target \<Rightarrow>
          let path = take (PATH_MAX - 1) target
          in if CHR ''/'' \<in> set path
             then rev (tl (dropWhile (\<lambda>c. c \<noteq> CHR ''/'') (rev path))) else [])"

definition config_candidates :: "string \<Rightarrow> string list" where
  "config_candidates exe_dir =
     [exe_dir @ ''/../master_config.json'', exe_dir @ ''/master_config.json'',
      ''unit-manager/master_config.json'', ''../master_config.json'']"

definition load_config_file ::
  "(string \<Rightarrow> double) \<Rightarrow> (string \<Rightarrow> string option) \<Rightarrow> string \<Rightarrow> json option res" where
  "load_config_file strtod files path =
     (case files path of
        None \<Rightarrow> Inr None
      | Some text \<Rightarrow>
          rbind (json_read strtod text) (\<lambda>r. case r of Inl e \<Rightarrow> Inr None | Inr config \<Rightarrow> Inr (Some config)))"

fun first_loaded ::
  "(string \<Rightarrow> double) \<Rightarrow> (string \<Rightarrow> string option) \<Rightarrow> string list \<Rightarrow> json option res" where
  "first_loaded strtod files [] = Inr None"
| "first_loaded strtod files (p # ps) =
     rbind (load_config_file strtod files p) (\<lambda>r.
       case r of None \<Rightarrow> first_loaded strtod files ps | Some j \<Rightarrow> Inr (Some j))"

text \<open>
  One entry of the configuration. A number with a fraction loses it; an iterator over anything but an object
  has no \<open>key()\<close> and throws.
\<close>

fun store_entry :: "string \<times> json \<Rightarrow> um_state \<Rightarrow> um_state res" where
  "store_entry (k, JInt i) s = Inr (safe_setting k (Any_int (to_int32 i)) s)"
| "store_entry (k, JFloat x) s = rbind (double_to_int x) (\<lambda>i. Inr (safe_setting k (Any_int i) s))"
| "store_entry (k, JStr t) s = Inr (safe_setting k (Any_string t) s)"
| "store_entry (k, _) s = Inr s"

fun store_entries :: "(string \<times> json) list \<Rightarrow> um_state \<Rightarrow> um_state res" where
  "store_entries [] s = Inr s"
| "store_entries (kv # kvs) s = rbind (store_entry kv s) (store_entries kvs)"

fun store_config :: "json \<Rightarrow> um_state \<Rightarrow> um_state res" where
  "store_config (JObj kvs) s = store_entries kvs s"
| "store_config JNull s = Inr s"
| "store_config (JArr []) s = Inr s"
| "store_config _ s = Inl JsonError"

definition load_default_config ::
  "(string \<Rightarrow> double) \<Rightarrow> string option \<Rightarrow> (string \<Rightarrow> string option) \<Rightarrow> um_state \<Rightarrow> um_state res" where
  "load_default_config strtod readlink files s =
     rbind (first_loaded strtod files (config_candidates (executable_dir readlink))) (\<lambda>r.
       case r of None \<Rightarrow> Inr s | Some req_body \<Rightarrow> store_config req_body s)"

definition any_cast_string :: "any_val option \<Rightarrow> string res" where
  "any_cast_string v = (case v of Some (Any_string t) \<Rightarrow> Inr t | _ \<Rightarrow> Inl BadAnyCast)"

text \<open>The port \<open>tcp_work\<close> listens on, 0 when none is configured.\<close>

definition tcp_listen_port :: "um_state \<Rightarrow> int" where
  "tcp_listen_port s = safe_reading_int 0 ''config_tcp_server'' s"

definition all_work :: "zmq_env \<Rightarrow> um_state \<Rightarrow> (sys_action pzmq \<times> tcp_state \<times> int) res" where
  "all_work env s =
     rbind (any_cast_string (key_sql s ''config_zmq_s_format'')) (\<lambda>sf.
     rbind (any_cast_string (key_sql s ''config_zmq_c_format'')) (\<lambda>cf.
     rbind (remote_server_work env (s\<lparr>zmq_s_format := sf, zmq_c_format := cf\<rparr>)) (\<lambda>(srv, s').
       Inr (srv, \<lparr>um = s', counter_port = 8000, contexts = Map.empty, tcp_out = (\<lambda>_. [])\<rparr>,
            tcp_listen_port s'))))"

definition um_init :: um_state where
  "um_init = \<lparr>key_sql = Map.empty, work_id_number_counter = 0, port_list_start = 0, port_list = [],
     zmq_s_format = [], zmq_c_format = [], sent = [], rpc_sent = [], unlinked = []\<rparr>"

definition um_main ::
  "zmq_env \<Rightarrow> (string \<Rightarrow> double) \<Rightarrow> string option \<Rightarrow> (string \<Rightarrow> string option) \<Rightarrow>
   (sys_action pzmq \<times> tcp_state \<times> int) res" where
  "um_main env strtod readlink files =
     rbind (load_default_config strtod readlink files um_init) (\<lambda>s. all_work env s)"

section \<open>Properties\<close>

text \<open>The connections of a list open one after the other.\<close>

fun connect_all :: "zmq_env \<Rightarrow> nat list \<Rightarrow> tcp_state \<Rightarrow> tcp_state res" where
  "connect_all env [] t = Inr t"
| "connect_all env (c # cs) t = rbind (on_connection env c True t) (connect_all env cs)"

lemma format_url:
  assumes "one_conversion fmt pre post" "0 \<le> p"
  shows "sprintf_buf (length fmt + length (int_to_string p)) fmt p = Inr (pre @ nat_to_string (nat p) @ post)"
proof -
  have "literal pre" "literal post" "fmt = pre @ ''%i'' @ post" using assms(1) by (simp_all add: one_conversion_def)
  with assms(2) show ?thesis
    using sprintf_buf_one [of pre post p] by (simp add: int_to_string_def)
qed

lemma zmq_bus_com_work_ok:
  assumes "one_conversion fmt pre post" "0 \<le> p"
  shows "\<exists>ses. zmq_bus_com_work env fmt p ses0 = Inr ses \<and> ses_port ses = p \<and>
     ses_url ses = pre @ nat_to_string (nat p) @ post \<and> user_chennal ses \<noteq> None"
proof -
  let ?url = "pre @ nat_to_string (nat p) @ post"
  obtain ch :: "unit pzmq" where "pzmq_socket env ?url ZMQ_PULL = Inr ch"
    using pzmq_socket_total [of ?url env ZMQ_PULL] by auto
  then show ?thesis by (simp add: zmq_bus_com_work_def format_url [OF assms])
qed

definition session_at :: "tcp_state \<Rightarrow> nat \<Rightarrow> int \<Rightarrow> string \<Rightarrow> bool" where
  "session_at t c p url \<longleftrightarrow>
     (\<exists>ses. contexts t c = Some ses \<and> ses_port ses = p \<and> ses_url ses = url \<and> user_chennal ses \<noteq> None)"

text \<open>The port of the \<open>n\<close>-th session that opens after the counter stood at \<open>8000 + k\<close>.\<close>

definition port_after :: "nat \<Rightarrow> nat" where
  "port_after n = 8000 + n mod 57536"

lemma next_port_after: "next_port (int (port_after n)) = int (port_after (Suc n))"
  by (auto simp: next_port_def port_after_def mod_Suc)

lemma on_connection_up:
  assumes "one_conversion (zmq_s_format (um t)) pre post" "counter_port t = int (port_after k)"
  shows "\<exists>t'. on_connection env c True t = Inr t' \<and> um t' = um t \<and> counter_port t' = int (port_after (Suc k)) \<and>
     session_at t' c (int (port_after k)) (pre @ nat_to_string (port_after k) @ post) \<and>
     (\<forall>d. d \<noteq> c \<longrightarrow> contexts t' d = contexts t d)"
  using zmq_bus_com_work_ok [OF assms(1), of "int (port_after k)" env zmq_bus_com_new] assms(2)
  by (auto simp: on_connection_def session_at_def next_port_after)

lemma connect_all_ports:
  assumes "one_conversion (zmq_s_format (um t)) pre post" "counter_port t = int (port_after k)" "distinct cs"
  shows "\<exists>t'. connect_all env cs t = Inr t' \<and> um t' = um t \<and> (\<forall>d. d \<notin> set cs \<longrightarrow> contexts t' d = contexts t d) \<and>
     (\<forall>i < length cs. session_at t' (cs ! i) (int (port_after (k + i)))
        (pre @ nat_to_string (port_after (k + i)) @ post))"
  using assms
proof (induction cs arbitrary: t k)
  case (Cons c cs)
  obtain t1 where t1: "on_connection env c True t = Inr t1" "um t1 = um t"
    "counter_port t1 = int (port_after (Suc k))"
    "session_at t1 c (int (port_after k)) (pre @ nat_to_string (port_after k) @ post)"
    "\<forall>d. d \<noteq> c \<longrightarrow> contexts t1 d = contexts t d"
    using on_connection_up [OF Cons.prems(1,2)] by blast
  then obtain t' where t': "connect_all env cs t1 = Inr t'" "um t' = um t1"
    "\<forall>d. d \<notin> set cs \<longrightarrow> contexts t' d = contexts t1 d"
    "\<forall>i < length cs. session_at t' (cs ! i) (int (port_after (Suc k + i)))
        (pre @ nat_to_string (port_after (Suc k + i)) @ post)"
    using Cons.IH [of t1 "Suc k"] Cons.prems by auto
  have "session_at t' c (int (port_after k)) (pre @ nat_to_string (port_after k) @ post)"
    using t1(4) t'(3) Cons.prems(3) by (simp add: session_at_def)
  with t1 t' show ?case
    by (auto simp: less_Suc_eq_0_disj)
qed simp

lemma mod_near:
  assumes "i mod n = j mod n" "i < j + n" "j < i + n"
  shows "i = (j :: nat)"
  using assms
proof (induction i j rule: linorder_wlog)
  case (le i j)
  then have "n dvd j - i" by (metis mod_eq_dvd_iff_nat)
  moreover have "j - i < n" using le by simp
  ultimately have "j - i = 0" using dvd_imp_le by fastforce
  with le show ?case by simp
next
  case (sym i j)
  then show ?case by simp
qed

text \<open>The sessions that open get the ports 8000, 8001, ... up to 65535 and then 8000 again, each
  listening on the URL of its port; so of any 57536 sessions opened in a row no two share a URL.\<close>

theorem session_ports:
  assumes "one_conversion (zmq_s_format (um t)) pre post" "counter_port t = 8000" "distinct cs"
  shows "\<exists>t'. connect_all env cs t = Inr t' \<and>
     (\<forall>i < length cs. session_at t' (cs ! i) (8000 + int (i mod 57536)) (pre @ nat_to_string (8000 + i mod 57536) @ post)) \<and>
     (\<forall>i < length cs. \<forall>j < length cs. i \<noteq> j \<and> i < j + 57536 \<and> j < i + 57536 \<longrightarrow>
        ses_url (the (contexts t' (cs ! i))) \<noteq> ses_url (the (contexts t' (cs ! j))))"
proof -
  have "counter_port t = int (port_after 0)" using assms(2) by (simp add: port_after_def)
  from connect_all_ports [OF assms(1) this assms(3), of env]
  obtain t' where t': "connect_all env cs t = Inr t'"
    "\<forall>i < length cs. session_at t' (cs ! i) (int (port_after i)) (pre @ nat_to_string (port_after i) @ post)"
    by auto
  have "ses_url (the (contexts t' (cs ! i))) \<noteq> ses_url (the (contexts t' (cs ! j)))"
    if ij: "i < length cs" "j < length cs" "i \<noteq> j" "i < j + 57536" "j < i + 57536" for i j
  proof -
    have "i mod 57536 \<noteq> j mod 57536"
      using ij(3-5) mod_near by blast
    then have "port_after i \<noteq> port_after j" by (simp add: port_after_def)
    moreover have "ses_url (the (contexts t' (cs ! k))) = pre @ nat_to_string (port_after k) @ post"
      if "k < length cs" for k
      using t'(2) that by (auto simp: session_at_def)
    ultimately show ?thesis using ij(1,2) by simp
  qed
  with t' show ?thesis by (auto simp: port_after_def)
qed

definition sample_tcp :: tcp_state where
  "sample_tcp = \<lparr>um = sample_state, counter_port = 8000, contexts = Map.empty, tcp_out = (\<lambda>_. [])\<rparr>"

theorem session_ports_witness:
  "\<exists>t'. connect_all sample_env [3, 4] sample_tcp = Inr t' \<and>
     ses_url (the (contexts t' 3)) \<noteq> ses_url (the (contexts t' 4))"
proof -
  have "one_conversion (zmq_s_format (um sample_tcp)) ''ipc:///tmp/llm/'' ''.sock''"
    using sample_one_conversion by (simp add: sample_tcp_def)
  moreover have "counter_port sample_tcp = 8000" "distinct [3::nat, 4]" by (simp_all add: sample_tcp_def)
  ultimately obtain t' where t': "connect_all sample_env [3, 4] sample_tcp = Inr t'"
    "\<forall>i < length [3::nat, 4]. \<forall>j < length [3::nat, 4]. i \<noteq> j \<and> i < j + 57536 \<and> j < i + 57536 \<longrightarrow>
        ses_url (the (contexts t' ([3, 4] ! i))) \<noteq> ses_url (the (contexts t' ([3, 4] ! j)))"
    using session_ports [of sample_tcp _ _ "[3, 4]" sample_env] by blast
  from t'(2) [rule_format, of 0 1] t'(1) show ?thesis by auto
qed



text \<open>The configuration file of the repository.\<close>

definition master_config :: json where
  "master_config = JObj
     [(''config_tcp_server'', JInt 10001), (''config_zmq_c_format'', JStr ''ipc:///tmp/llm/%i.sock''),
      (''config_zmq_max_port'', JInt 5555), (''config_zmq_min_port'', JInt 5010),
      (''config_zmq_s_format'', JStr ''ipc:///tmp/llm/%i.sock'')]"

lemma all_work_unconfigured: "all_work env um_init = Inl BadAnyCast"
  by (simp add: all_work_def any_cast_string_def um_init_def)

lemma configured_start:
  "\<exists>t. rbind (store_config master_config um_init) (all_work env) = Inr (sys_server env, t, 10001) \<and>
     pool_ok (um t) \<and> exclusive (holds (um t)) \<and> port_list_start (um t) = 5010 \<and>
     port_list (um t) = replicate 545 False \<and> counter_port t = 8000 \<and> contexts t = Map.empty \<and>
     zmq_s_format (um t) = sample_format \<and> zmq_c_format (um t) = sample_format"
proof -
  have "\<exists>t. rbind (store_config master_config um_init) (all_work env) = Inr (sys_server env, t, 10001) \<and>
      port_list_start (um t) = 5010 \<and> port_list (um t) = replicate 545 False \<and> counter_port t = 8000 \<and>
      contexts t = Map.empty \<and> zmq_s_format (um t) = sample_format \<and> zmq_c_format (um t) = sample_format \<and>
      work_id_number_counter (um t) = 0 \<and> (\<forall>k. \<not> is_unit_entry (key_sql (um t) k))"
    by (simp add: master_config_def um_init_def all_work_def any_cast_string_def safe_setting_def
        remote_server_work_def safe_reading_int_def resize_list_def tcp_listen_port_def to_int32_def
        int_min_def int_max_def sample_format_def is_unit_entry_def Let_def)
  then obtain t where t: "rbind (store_config master_config um_init) (all_work env) = Inr (sys_server env, t, 10001)"
      "port_list_start (um t) = 5010" "port_list (um t) = replicate 545 False" "counter_port t = 8000"
      "contexts t = Map.empty" "zmq_s_format (um t) = sample_format" "zmq_c_format (um t) = sample_format"
      "work_id_number_counter (um t) = 0" "\<And>k. \<not> is_unit_entry (key_sql (um t) k)" by blast
  have "key_sql (um t) k \<noteq> Some (Any_unit u)" for k u
    using t(9) [of k] by (auto simp: is_unit_entry_def)
  then have "pool_ok (um t)" using t by (simp add: pool_ok_def sample_format_ok int_max_def)
  moreover have "exclusive (holds (um t))" by (simp add: exclusive_def holds_no_unit [OF t(9)])
  ultimately show ?thesis using t by blast
qed

text \<open>A place that gives no configuration: there is no file, or the parser rejects its text.\<close>

definition unreadable :: "(string \<Rightarrow> double) \<Rightarrow> (string \<Rightarrow> string option) \<Rightarrow> string \<Rightarrow> bool" where
  "unreadable strtod files p \<longleftrightarrow>
     (case files p of None \<Rightarrow> True | Some text \<Rightarrow> \<exists>e. json_read strtod text = Inr (Inl e))"

lemma first_loaded_skip:
  "\<forall>p \<in> set ps. unreadable strtod files p \<Longrightarrow> first_loaded strtod files (ps @ qs) = first_loaded strtod files qs"
  by (induction ps) (auto simp: unreadable_def load_config_file_def split: option.splits)

text \<open>C14: started with a configuration file the parser reads as the repository's, at any of the four places it looks
  in, the places before it being empty or holding a text the parser rejects, the manager listens on port 10001 with
  545 free ports from 5010 on, in a state from which the allocator's guarantees hold; when all four places are
  unreadable it throws at once.\<close>

theorem startup:
  assumes "config_candidates (executable_dir readlink) = before @ after" "\<forall>p \<in> set before. unreadable strtod files p"
    "after \<noteq> [] \<Longrightarrow> files (hd after) = Some text" "json_read strtod text = Inr (Inr master_config)"
  shows "if after = [] then um_main env strtod readlink files = Inl BadAnyCast
    else \<exists>t. um_main env strtod readlink files = Inr (sys_server env, t, 10001) \<and>
      pool_ok (um t) \<and> exclusive (holds (um t)) \<and> port_list_start (um t) = 5010 \<and>
      port_list (um t) = replicate 545 False \<and> counter_port t = 8000 \<and> contexts t = Map.empty \<and>
      zmq_s_format (um t) = sample_format \<and> zmq_c_format (um t) = sample_format"
proof -
  have l: "first_loaded strtod files (before @ after) = first_loaded strtod files after"
    by (rule first_loaded_skip [OF assms(2)])
  show ?thesis
  proof (cases after)
    case Nil
    then show ?thesis using l by (simp add: um_main_def load_default_config_def assms(1) all_work_unconfigured)
  next
    case (Cons p ps)
    then have "load_config_file strtod files p = Inr (Some master_config)"
      using assms(3,4) by (simp add: load_config_file_def)
    then have "um_main env strtod readlink files = rbind (store_config master_config um_init) (all_work env)"
      using l Cons by (simp add: um_main_def load_default_config_def assms(1))
    then show ?thesis using configured_start [of env] Cons by simp
  qed
qed

text \<open>The file is beside the executable, and the place above it holds an empty file.\<close>

theorem startup_witness:
  "\<exists>t. um_main sample_env (\<lambda>_. 0) (Some ''/opt/um/unit_manager'')
       [''/opt/um/../master_config.json'' \<mapsto> [], ''/opt/um/master_config.json'' \<mapsto> dump master_config] =
     Inr (sys_server sample_env, t, 10001)"
proof -
  have w: "wf_json (reads_back (\<lambda>_. 0)) master_config"
    by (simp add: master_config_def int_ok_def code_of_def utf8_all_ascii)
  have e: "\<exists>e. json_read (\<lambda>_. 0) [] = Inr (Inl e)" by (intro exI) code_simp
  have d: "executable_dir (Some ''/opt/um/unit_manager'') = ''/opt/um''" by (simp add: executable_dir_def PATH_MAX_def)
  show ?thesis
    using startup [of "Some ''/opt/um/unit_manager''" "[''/opt/um/../master_config.json'']" _ "\<lambda>_. 0"
        "[''/opt/um/../master_config.json'' \<mapsto> [], ''/opt/um/master_config.json'' \<mapsto> dump master_config]" "dump master_config"
        sample_env] json_roundtrip(2) [OF w] e
    by (simp add: d config_candidates_def unreadable_def) blast
qed

end
