(* ===== verification/LlmChannel.thy ===== *)
theory LlmChannel
  imports Pzmq JsonFields
begin

text \<open>
  \<open>infra-controller/include/channel.h\<close> and \<open>channel.cpp\<close>: the sockets of one task of a node. Socket -1
  publishes results, socket -2 pushes them to the client that sent the last request, the others
  subscribe to inputs. A null pointer and an absent key of \<open>zmq_\<close> behave alike in this code, and both
  are \<open>None\<close> here. What the sockets send is collected as pairs of URL and text. \<open>enoutput\<close> and
  \<open>enstream\<close> have no value before they are set. The calls to the unit manager (\<open>unit_call\<close> of
  \<open>StackFlowUtil.cpp\<close>) are answered by the environment.
\<close>

section \<open>State\<close>

type_synonym wire = "(string \<times> string) list"

record llm_channel =
  ch_zmq :: "int \<Rightarrow> unit pzmq option"
  zmq_url_index :: int
  zmq_url_map :: "string \<Rightarrow> int option"
  ch_unit_name :: string
  enoutput :: "bool option"
  enstream :: "bool option"
  ch_request_id :: string
  ch_work_id :: string
  ch_inference_url :: string
  publisher_url :: string
  output_url :: string

definition unit_call :: "zmq_env \<Rightarrow> string \<Rightarrow> string \<Rightarrow> string \<Rightarrow> string res" where
  "unit_call env unit_name unit_action data =
     rbind (call_rpc_action env unit_action data (pzmq_rpc unit_name :: unit pzmq)) (\<lambda>(_, reply, _).
       Inr (case reply of None \<Rightarrow> [] | Some m \<Rightarrow> msg_string m))"

text \<open>The variant with a callback: the message handed to it, if it runs.\<close>

definition unit_call_msg :: "zmq_env \<Rightarrow> string \<Rightarrow> string \<Rightarrow> string \<Rightarrow> pzmq_data option res" where
  "unit_call_msg env unit_name unit_action data =
     rbind (call_rpc_action env unit_action data (pzmq_rpc unit_name :: unit pzmq)) (\<lambda>(_, reply, _). Inr reply)"

definition new_channel :: "zmq_env \<Rightarrow> string \<Rightarrow> string \<Rightarrow> string \<Rightarrow> llm_channel res" where
  "new_channel env pub_url inf_url unit_name =
     rbind (pzmq_socket env pub_url ZMQ_PUB) (\<lambda>p.
       Inr \<lparr>ch_zmq = [- 1 \<mapsto> p], zmq_url_index = - 1000, zmq_url_map = Map.empty, ch_unit_name = unit_name,
            enoutput = None, enstream = None, ch_request_id = [], ch_work_id = [],
            ch_inference_url = inf_url, publisher_url = pub_url, output_url = []\<rparr>)"

definition set_output :: "bool \<Rightarrow> llm_channel \<Rightarrow> llm_channel" where
  "set_output b ch = ch\<lparr>enoutput := Some b\<rparr>"

definition set_stream :: "bool \<Rightarrow> llm_channel \<Rightarrow> llm_channel" where
  "set_stream b ch = ch\<lparr>enstream := Some b\<rparr>"

section \<open>Sending\<close>

definition set_push_url :: "zmq_env \<Rightarrow> string \<Rightarrow> llm_channel \<Rightarrow> llm_channel res" where
  "set_push_url env url ch =
     (if output_url ch \<noteq> url
      then rbind (pzmq_socket env url ZMQ_PUSH) (\<lambda>p.
             Inr (ch\<lparr>output_url := url, ch_zmq := (ch_zmq ch)(- 2 \<mapsto> p)\<rparr>))
      else Inr ch)"

definition cear_push_url :: "llm_channel \<Rightarrow> llm_channel" where
  "cear_push_url ch = ch\<lparr>ch_zmq := (ch_zmq ch)(- 2 := None)\<rparr>"

text \<open>Sending through a null pointer is undefined.\<close>

definition send_raw_to_pub :: "string \<Rightarrow> llm_channel \<Rightarrow> wire res" where
  "send_raw_to_pub raw ch =
     (case ch_zmq ch (- 1) of None \<Rightarrow> Inl Undefined | Some p \<Rightarrow> Inr [(zmq_url p, raw)])"

definition send_raw_to_usr :: "string \<Rightarrow> llm_channel \<Rightarrow> wire" where
  "send_raw_to_usr raw ch =
     (case ch_zmq ch (- 2) of None \<Rightarrow> [] | Some p \<Rightarrow> [(zmq_url p, raw)])"

definition send_raw_for_url :: "zmq_env \<Rightarrow> string \<Rightarrow> string \<Rightarrow> wire res" where
  "send_raw_for_url env url raw =
     rbind (pzmq_socket env url ZMQ_PUSH :: unit pzmq res) (\<lambda>p. Inr [(zmq_url p, raw)])"

text \<open>The value both \<open>send\<close> functions build, and the line they print; \<open>t\<close> is \<open>time(NULL)\<close>.\<close>

definition result_json :: "int \<Rightarrow> string \<Rightarrow> string \<Rightarrow> string \<Rightarrow> json \<Rightarrow> string \<Rightarrow> json" where
  "result_json t rid wid object data error_msg =
     json_object
       [(''request_id'', JStr rid), (''work_id'', JStr wid), (''created'', JInt t), (''object'', JStr object),
        (''data'', data),
        (''error'', if error_msg = [] then json_object [(''code'', JInt 0), (''message'', JStr [])]
                    else JStr error_msg)]"

definition result_text :: "int \<Rightarrow> string \<Rightarrow> string \<Rightarrow> string \<Rightarrow> json \<Rightarrow> string \<Rightarrow> string res" where
  "result_text t rid wid object data error_msg =
     rbind (json_dump (result_json t rid wid object data error_msg)) (\<lambda>out. Inr (out @ [newline]))"

definition channel_send :: "int \<Rightarrow> string \<Rightarrow> json \<Rightarrow> string \<Rightarrow> string \<Rightarrow> llm_channel \<Rightarrow> wire res" where
  "channel_send t object data error_msg work_id ch =
     rbind (result_text t (ch_request_id ch) (if work_id = [] then ch_work_id ch else work_id)
              object data error_msg) (\<lambda>out.
     rbind (send_raw_to_pub out ch) (\<lambda>w.
       case enoutput ch of
         None \<Rightarrow> Inl Undefined
       | Some b \<Rightarrow> Inr (if b then w @ send_raw_to_usr out ch else w)))"

section \<open>Receiving\<close>

text \<open>
  The search for an \<open>action\<close> key that does not follow a backslash, so not one inside an escaped
  string. A match at the start of the text does not count. The search goes on \<open>sizeof\<close> of a pointer
  further, 8 bytes, which is also the length of the key.
\<close>

definition action_key :: string where
  "action_key = quoted ''action''"

lemma str_find_from_ge: "str_find_from pat s pos = Some p \<Longrightarrow> pos \<le> p \<and> p \<le> length s"
  using str_find_Some [of pat "drop pos s"] by (fastforce simp: str_find_from_def split: if_splits)

function action_seen :: "string \<Rightarrow> nat option \<Rightarrow> bool" where
  "action_seen raw None = False"
| "action_seen raw (Some pos) =
     (if 0 < pos \<and> raw ! (pos - 1) \<noteq> bslash then True
      else action_seen raw (str_find_from action_key raw (pos + 8)))"
  by pat_completeness auto
termination
proof (relation "measure (\<lambda>(raw, p). case p of None \<Rightarrow> 0 | Some k \<Rightarrow> Suc (length raw - k))", goal_cases)
  case (2 raw pos)
  show ?case
  proof (cases "str_find_from action_key raw (pos + 8)")
    case (Some p)
    from str_find_from_ge [OF this] have "pos < p" "p \<le> length raw" by simp_all
    with Some show ?thesis by simp
  qed simp
qed simp

text \<open>The channel after a message, and the arguments of the callback.\<close>

definition subscriber_event_call ::
  "zmq_env \<Rightarrow> string \<Rightarrow> llm_channel \<Rightarrow> (llm_channel \<times> string \<times> string) res" where
  "subscriber_event_call env raw ch =
     rbind (if action_seen raw (str_find action_key raw) then
              (let zmq_com = sample_json_str_get raw ''zmq_com''
               in rbind (if zmq_com \<noteq> [] then set_push_url env zmq_com ch else Inr ch) (\<lambda>ch'.
                    Inr (ch'\<lparr>ch_request_id := sample_json_str_get raw ''request_id'',
                             ch_work_id := sample_json_str_get raw ''work_id''\<rparr>)))
            else Inr ch)
       (\<lambda>ch'. Inr (ch', sample_json_str_get raw ''object'', sample_json_str_get raw ''data''))"

section \<open>Subscriptions\<close>

definition is_word_char :: "char \<Rightarrow> bool" where
  "is_word_char c \<longleftrightarrow>
     is_digit c \<or> (65 \<le> code_of c \<and> code_of c \<le> 90) \<or> (97 \<le> code_of c \<and> code_of c \<le> 122) \<or> c = CHR ''_''"

text \<open>\<open>regex_match\<close> with \<open>(\\w+)\\.(\\d+)\<close>: the second group.\<close>

definition match_work_id :: "string \<Rightarrow> string option" where
  "match_work_id s =
     (let w = takeWhile is_word_char s; rest = dropWhile is_word_char s
      in if w \<noteq> [] \<and> rest \<noteq> [] \<and> hd rest = CHR ''.'' \<and> tl rest \<noteq> [] \<and> list_all is_digit (tl rest)
         then Some (tl rest) else None)"

definition subscriber_work_id :: "zmq_env \<Rightarrow> string \<Rightarrow> llm_channel \<Rightarrow> (int \<times> llm_channel) res" where
  "subscriber_work_id env work_id ch =
     (let subscribe = (\<lambda>id_num url.
            rbind (pzmq_socket env url ZMQ_SUB) (\<lambda>p. Inr (0, ch\<lparr>ch_zmq := (ch_zmq ch)(id_num \<mapsto> p)\<rparr>)))
      in case (if work_id = [] then None else match_work_id work_id) of
           Some digits \<Rightarrow>
             rbind (stoi digits) (\<lambda>id_num.
             rbind (unit_call env ''sys'' ''sql_select'' (work_id @ ''.out_port'')) (\<lambda>input_url.
               if input_url = [] then Inr (- 1, ch) else subscribe id_num input_url))
         | None \<Rightarrow> subscribe 0 (ch_inference_url ch))"

definition stop_subscriber_work_id :: "string \<Rightarrow> llm_channel \<Rightarrow> llm_channel res" where
  "stop_subscriber_work_id work_id ch =
     rbind (case match_work_id work_id of Some digits \<Rightarrow> stoi digits | None \<Rightarrow> Inr 0) (\<lambda>id_num.
       Inr (ch\<lparr>ch_zmq := (ch_zmq ch)(id_num := None)\<rparr>))"

definition subscriber :: "zmq_env \<Rightarrow> string \<Rightarrow> llm_channel \<Rightarrow> llm_channel res" where
  "subscriber env url ch =
     (let i = zmq_url_index ch
      in rbind (pzmq_socket env url ZMQ_SUB) (\<lambda>p.
           Inr (ch\<lparr>zmq_url_index := to_int32 (i - 1), zmq_url_map := (zmq_url_map ch)(url \<mapsto> i),
                   ch_zmq := (ch_zmq ch)(i \<mapsto> p)\<rparr>)))"

definition stop_subscriber :: "string \<Rightarrow> llm_channel \<Rightarrow> llm_channel" where
  "stop_subscriber url ch =
     (if url = [] then ch\<lparr>ch_zmq := Map.empty, zmq_url_map := Map.empty\<rparr>
      else case zmq_url_map ch url of
             None \<Rightarrow> ch
           | Some i \<Rightarrow> ch\<lparr>ch_zmq := (ch_zmq ch)(i := None), zmq_url_map := (zmq_url_map ch)(url := None)\<rparr>)"

section \<open>Lemmas\<close>

text \<open>The line sent when all its texts are UTF-8 and the clock is a 64-bit number.\<close>

definition result_line :: "int \<Rightarrow> string \<Rightarrow> string \<Rightarrow> string \<Rightarrow> json \<Rightarrow> string \<Rightarrow> string" where
  "result_line t rid wid object data error_msg = dump (result_json t rid wid object data error_msg) @ [newline]"

definition line_ok :: "int \<Rightarrow> string \<Rightarrow> string \<Rightarrow> string \<Rightarrow> json \<Rightarrow> string \<Rightarrow> bool" where
  "line_ok t rid wid object data error_msg \<longleftrightarrow>
     int_ok t \<and> utf8 rid \<and> utf8 wid \<and> utf8 object \<and> printable_json data \<and> utf8 error_msg"

lemma ascii_utf8: "list_all (\<lambda>c. code_of c \<le> 0x7F) s \<Longrightarrow> utf8 s"
  by (rule utf8_all_ascii) (simp add: list_all_iff)

lemma result_text_ok:
  assumes "line_ok t rid wid object data error_msg"
  shows "result_text t rid wid object data error_msg = Inr (result_line t rid wid object data error_msg)"
proof -
  have "printable_json (json_object [(''code'', JInt 0), (''message'', JStr [])])"
    by (intro printable_json_object) (simp add: int_ok_def ascii_utf8 code_of_def)
  with assms have "printable_json (result_json t rid wid object data error_msg)"
    unfolding result_json_def line_ok_def by (intro printable_json_object) (simp add: ascii_utf8 code_of_def)
  from json_dump_printable [OF this] show ?thesis by (simp add: result_text_def result_line_def)
qed

text \<open>A text that is not UTF-8 makes \<open>dump\<close> throw.\<close>

lemma result_text_bad:
  assumes "\<not> strings_ok (result_json t rid wid object data error_msg)" "ints_ok (result_json t rid wid object data error_msg)"
  shows "result_text t rid wid object data error_msg = Inl JsonError"
  using json_dump_eq [OF assms(2)] assms(1) by (simp add: result_text_def)

lemma pzmq_socket_zmq_url: "pzmq_socket env url md = Inr p \<Longrightarrow> md \<noteq> ZMQ_RPC_FUN \<Longrightarrow> zmq_url p = url"
  by (auto simp: pzmq_socket_def creat_def creat_pub_def creat_push_def creat_pull_def subscriber_url_def
      creat_req_def Let_def split: if_splits zmq_mode.splits)

lemma set_push_url_ok:
  assumes "url \<noteq> []"
    "\<And>p. ch_zmq ch (- 2) = Some p \<Longrightarrow> zmq_url p = output_url ch" "output_url ch = url \<Longrightarrow> ch_zmq ch (- 2) \<noteq> None"
  shows "\<exists>ch' p. set_push_url env url ch = Inr ch' \<and> output_url ch' = url \<and> ch_zmq ch' (- 2) = Some p \<and>
     zmq_url p = url \<and> ch_zmq ch' (- 1) = ch_zmq ch (- 1) \<and> enoutput ch' = enoutput ch"
proof (cases "output_url ch = url")
  case True
  then obtain p where "ch_zmq ch (- 2) = Some p" using assms(3) by auto
  with True assms(2) show ?thesis by (auto simp: set_push_url_def)
next
  case False
  obtain p :: "unit pzmq" where p: "pzmq_socket env url ZMQ_PUSH = Inr p"
    using assms(1) by (auto simp: pzmq_socket_def Let_def)
  then have "zmq_url p = url" by (rule pzmq_socket_zmq_url) simp
  with p False show ?thesis by (simp add: set_push_url_def)
qed

text \<open>The first occurrence of the key counts unless it starts the text or follows a backslash.\<close>

lemma action_seen_first:
  "str_find action_key raw = Some pos \<Longrightarrow> 0 < pos \<Longrightarrow> raw ! (pos - 1) \<noteq> bslash \<Longrightarrow> action_seen raw (str_find action_key raw)"
  by simp

end
