(* ===== verification/StackFlow.thy ===== *)
theory StackFlow
  imports LlmChannel JsonSound
begin

text \<open>
  \<open>infra-controller/include/StackFlow.h\<close> and \<open>StackFlow.cpp\<close>: the base of every node. The RPC thread
  only puts a request into the event queue; the event loop takes it out and runs the handler. What a
  node adds, its overrides of \<open>setup\<close>, \<open>exit\<close>, \<open>pause\<close> and \<open>taskinfo\<close>, is the record \<open>node_ops\<close> over
  the node's own state. The handlers return a fault when an exception leaves them: the event loop
  catches none, so the process ends there.
\<close>

section \<open>State\<close>

datatype local_event = EVENT_NONE | EVENT_SETUP | EVENT_EXIT | EVENT_PAUSE | EVENT_TASKINFO

datatype sf_action = Rpc_setup | Rpc_exit | Rpc_pause | Rpc_taskinfo

record 'n stack_flow =
  unit_name :: string
  sf_request_id :: string
  out_zmq_url :: string
  exit_flage :: bool
  sf_status :: int
  event_queue :: "(local_event \<times> pzmq_data) list"
  rpc_ctx :: "sf_action pzmq"
  llm_task_channel :: "(int \<times> llm_channel) list"
  node :: 'n
  wires :: wire

text \<open>The platform: sockets, the clock, \<open>strtod\<close>, and whether \<open>char\<close> is signed.\<close>

record sf_env =
  sf_zmq :: zmq_env
  sf_time :: int
  sf_strtod :: "string \<Rightarrow> double"
  sf_schar :: bool

text \<open>
  \<open>nlohmann::json::parse\<close>, \<open>None\<close> when it throws. It always returns one or the other
  (\<open>json_parse_returns\<close>), so the fault of a failed assertion does not occur.
\<close>

definition sf_parse :: "sf_env \<Rightarrow> string \<Rightarrow> json option" where
  "sf_parse env text = (case json_parse (sf_strtod env) text of Inr (Inr j) \<Rightarrow> Some j | _ \<Rightarrow> None)"

lemma sf_parse_printable:
  assumes "sf_parse env text = Some j"
  shows "printable_json j"
proof -
  have "json_parse (sf_strtod env) text = Inr (Inr j)"
    using assms by (auto simp: sf_parse_def split: sum.splits)
  then have "wf_json (\<lambda>_. True) j" by (rule json_parse_wf) (simp add: float_law_def)
  then show ?thesis using wf_json_dump by (simp add: printable_json_def)
qed

lemma sf_parse_dump:
  "wf_json (reads_back (sf_strtod env)) j \<Longrightarrow> sf_parse env (dump j) = Some j"
  by (simp add: sf_parse_def json_roundtrip(1))

record 'n node_ops =
  op_setup :: "string \<Rightarrow> string \<Rightarrow> string \<Rightarrow> 'n stack_flow \<Rightarrow> (int \<times> 'n stack_flow) res"
  op_exit :: "string \<Rightarrow> string \<Rightarrow> string \<Rightarrow> 'n stack_flow \<Rightarrow> (int \<times> 'n stack_flow) res"
  op_pause :: "string \<Rightarrow> string \<Rightarrow> string \<Rightarrow> 'n stack_flow \<Rightarrow> 'n stack_flow res"
  op_taskinfo :: "string \<Rightarrow> string \<Rightarrow> string \<Rightarrow> 'n stack_flow \<Rightarrow> 'n stack_flow res"

definition get_channel :: "int \<Rightarrow> 'n stack_flow \<Rightarrow> llm_channel res" where
  "get_channel n s = (case map_of (llm_task_channel s) n of None \<Rightarrow> Inl OutOfRange | Some ch \<Rightarrow> Inr ch)"

definition get_channel_by_id :: "string \<Rightarrow> 'n stack_flow \<Rightarrow> llm_channel res" where
  "get_channel_by_id work_id s = rbind (sample_get_work_id_num work_id) (\<lambda>n. get_channel n s)"

text \<open>The object behind a shared pointer changed in place.\<close>

definition put_channel :: "int \<Rightarrow> llm_channel \<Rightarrow> 'n stack_flow \<Rightarrow> 'n stack_flow" where
  "put_channel n ch s = s\<lparr>llm_task_channel := AList.update n ch (llm_task_channel s)\<rparr>"

definition emit :: "wire \<Rightarrow> 'n stack_flow \<Rightarrow> 'n stack_flow" where
  "emit w s = s\<lparr>wires := wires s @ w\<rparr>"

section \<open>Replies\<close>

definition sf_send :: "sf_env \<Rightarrow> string \<Rightarrow> json \<Rightarrow> string \<Rightarrow> string \<Rightarrow> string \<Rightarrow> 'n stack_flow \<Rightarrow> 'n stack_flow res" where
  "sf_send env object data error_msg work_id zmq_url0 s =
     (let url = (if zmq_url0 = [] then out_zmq_url s else zmq_url0)
      in rbind (pzmq_socket (sf_zmq env) url ZMQ_PUSH :: unit pzmq res) (\<lambda>p.
         rbind (result_text (sf_time env) (sf_request_id s) work_id object data error_msg) (\<lambda>out.
           Inr (emit [(zmq_url p, out)] s))))"

text \<open>
  \<open>error_msg\<close> is a \<open>const std::string &\<close>. Callers that pass a \<open>nlohmann::json\<close> get the implicit
  conversion, which throws \<open>type_error\<close> unless the value is a string.
\<close>

fun json_to_string :: "json \<Rightarrow> string res" where
  "json_to_string (JStr s) = Inr s"
| "json_to_string _ = Inl JsonError"

definition send_error_body ::
  "sf_env \<Rightarrow> json \<Rightarrow> string \<Rightarrow> 'n stack_flow \<Rightarrow> 'n stack_flow res" where
  "send_error_body env error_body work_id s =
     rbind (json_to_string error_body) (\<lambda>msg. sf_send env ''None'' (JStr ''None'') msg work_id [] s)"

definition error_object :: "int \<Rightarrow> string \<Rightarrow> json" where
  "error_object code msg = json_object [(''code'', JInt code), (''message'', JStr msg)]"

section \<open>The unit manager\<close>

definition sys_register_unit :: "sf_env \<Rightarrow> string \<Rightarrow> 'n stack_flow \<Rightarrow> (int \<times> 'n stack_flow) res" where
  "sys_register_unit env uname s =
     rbind (unit_call_msg (sf_zmq env) ''sys'' ''register_unit'' uname) (\<lambda>reply.
     rbind (case reply of
              None \<Rightarrow> Inr ([], [], [])
            | Some m \<Rightarrow>
                rbind (get_param (sf_schar env) m 1 []) (\<lambda>ports.
                rbind (get_param (sf_schar env) m 0 ports) (\<lambda>out_port.
                rbind (get_param (sf_schar env) m 1 ports) (\<lambda>inference_port.
                rbind (get_param (sf_schar env) m 0 []) (\<lambda>str_port.
                  Inr (str_port, out_port, inference_port))))))
       (\<lambda>(str_port, out_port, inference_port).
     rbind (stoi str_port) (\<lambda>work_id_number.
     rbind (new_channel (sf_zmq env) out_port inference_port (unit_name s)) (\<lambda>ch.
       Inr (work_id_number, put_channel work_id_number ch s)))))"

definition sys_release_unit_sf :: "sf_env \<Rightarrow> int \<Rightarrow> string \<Rightarrow> 'n stack_flow \<Rightarrow> (bool \<times> 'n stack_flow) res" where
  "sys_release_unit_sf env work_id_num work_id s =
     rbind (if work_id = [] then Inr (sample_get_work_id work_id_num (unit_name s), work_id_num)
            else rbind (sample_get_work_id_num work_id) (\<lambda>n. Inr (work_id, n))) (\<lambda>(wid, n).
     rbind (unit_call (sf_zmq env) ''sys'' ''release_unit'' wid) (\<lambda>_.
       Inr (False, s\<lparr>llm_task_channel := AList.delete n (llm_task_channel s)\<rparr>)))"

definition sf_sql_set :: "sf_env \<Rightarrow> string \<Rightarrow> string \<Rightarrow> string res" where
  "sf_sql_set env key val =
     rbind (json_dump (json_object [(''key'', JStr key), (''val'', JStr val)])) (\<lambda>out.
       unit_call (sf_zmq env) ''sys'' ''sql_set'' out)"

definition sf_sql_unset :: "sf_env \<Rightarrow> string \<Rightarrow> string res" where
  "sf_sql_unset env key = unit_call (sf_zmq env) ''sys'' ''sql_unset'' key"

section \<open>Handlers of a request\<close>

definition sf_setup :: "sf_env \<Rightarrow> 'n node_ops \<Rightarrow> string \<Rightarrow> string \<Rightarrow> 'n stack_flow \<Rightarrow> 'n stack_flow res" where
  "sf_setup env ops zmq_url0 raw s0 =
     rbind (sys_register_unit env (unit_name s0) s0) (\<lambda>(workid_num, s1).
     let work_id = unit_name s1 @ ''.'' @ int_to_string workid_num in
     rbind (get_channel workid_num s1) (\<lambda>ch.
     rbind (set_push_url (sf_zmq env) zmq_url0 ch) (\<lambda>ch1.
     let ch2 = ch1\<lparr>ch_request_id := sample_json_str_get raw ''request_id'', ch_work_id := work_id\<rparr> in
     rbind (op_setup ops work_id (sample_json_str_get raw ''object'') (sample_json_str_get raw ''data'')
              (put_channel workid_num ch2 s1)) (\<lambda>(ret, s2).
       if ret \<noteq> 0 then rbind (sys_release_unit_sf env workid_num work_id s2) (\<lambda>(_, s3). Inr s3)
       else Inr s2))))"

text \<open>The part the other three share: the reply URL of the task's channel, exceptions ignored.\<close>

definition retarget :: "sf_env \<Rightarrow> string \<Rightarrow> string \<Rightarrow> 'n stack_flow \<Rightarrow> 'n stack_flow res" where
  "retarget env zmq_url0 work_id s =
     (case rbind (sample_get_work_id_num work_id) (\<lambda>n.
             rbind (get_channel n s) (\<lambda>ch.
             rbind (set_push_url (sf_zmq env) zmq_url0 ch) (\<lambda>ch'. Inr (put_channel n ch' s)))) of
        Inl f \<Rightarrow> if is_exception f then Inr s else Inl f
      | Inr s' \<Rightarrow> Inr s')"

definition sf_exit :: "sf_env \<Rightarrow> 'n node_ops \<Rightarrow> string \<Rightarrow> string \<Rightarrow> 'n stack_flow \<Rightarrow> 'n stack_flow res" where
  "sf_exit env ops zmq_url0 raw s =
     (let work_id = sample_json_str_get raw ''work_id'' in
      rbind (retarget env zmq_url0 work_id s) (\<lambda>s1.
      rbind (op_exit ops work_id (sample_json_str_get raw ''object'') (sample_json_str_get raw ''data'') s1)
        (\<lambda>(ret, s2).
          if ret = 0 then rbind (sys_release_unit_sf env (- 1) work_id s2) (\<lambda>(_, s3). Inr s3) else Inr s2)))"

definition sf_pause :: "sf_env \<Rightarrow> 'n node_ops \<Rightarrow> string \<Rightarrow> string \<Rightarrow> 'n stack_flow \<Rightarrow> 'n stack_flow res" where
  "sf_pause env ops zmq_url0 raw s =
     (let work_id = sample_json_str_get raw ''work_id'' in
      rbind (retarget env zmq_url0 work_id s) (\<lambda>s1.
        op_pause ops work_id (sample_json_str_get raw ''object'') (sample_json_str_get raw ''data'') s1))"

definition sf_taskinfo :: "sf_env \<Rightarrow> 'n node_ops \<Rightarrow> string \<Rightarrow> string \<Rightarrow> 'n stack_flow \<Rightarrow> 'n stack_flow res" where
  "sf_taskinfo env ops zmq_url0 raw s =
     (let work_id = sample_json_str_get raw ''work_id'' in
      rbind (retarget env zmq_url0 work_id s) (\<lambda>s1.
        op_taskinfo ops work_id (sample_json_str_get raw ''object'') (sample_json_str_get raw ''data'') s1))"

text \<open>The base class answers every action with an error object, which it passes as an \<open>error_msg\<close>.\<close>

definition base_error :: json where
  "base_error = error_object (- 18) ''not have unit action!''"

definition base_setup :: "sf_env \<Rightarrow> string \<Rightarrow> string \<Rightarrow> string \<Rightarrow> 'n stack_flow \<Rightarrow> (int \<times> 'n stack_flow) res" where
  "base_setup env work_id object data s = rbind (send_error_body env base_error work_id s) (\<lambda>s'. Inr (- 1, s'))"

definition base_exit :: "sf_env \<Rightarrow> string \<Rightarrow> string \<Rightarrow> string \<Rightarrow> 'n stack_flow \<Rightarrow> (int \<times> 'n stack_flow) res" where
  "base_exit env work_id object data s = rbind (send_error_body env base_error work_id s) (\<lambda>s'. Inr (0, s'))"

definition base_pause :: "sf_env \<Rightarrow> string \<Rightarrow> string \<Rightarrow> string \<Rightarrow> 'n stack_flow \<Rightarrow> 'n stack_flow res" where
  "base_pause env work_id object data s = send_error_body env base_error work_id s"

definition base_taskinfo :: "sf_env \<Rightarrow> string \<Rightarrow> string \<Rightarrow> string \<Rightarrow> 'n stack_flow \<Rightarrow> 'n stack_flow res" where
  "base_taskinfo env work_id object data s = send_error_body env base_error work_id s"

section \<open>Events\<close>

text \<open>The listeners: \<open>_pause\<close> reads parameter 0 twice.\<close>

definition on_request ::
  "sf_env \<Rightarrow> int \<Rightarrow> (string \<Rightarrow> string \<Rightarrow> 'n stack_flow \<Rightarrow> 'n stack_flow res) \<Rightarrow> pzmq_data \<Rightarrow> 'n stack_flow
   \<Rightarrow> 'n stack_flow res" where
  "on_request env data_index handler m s =
     rbind (get_param (sf_schar env) m 0 []) (\<lambda>url.
     rbind (get_param (sf_schar env) m data_index []) (\<lambda>data.
       let s' = s\<lparr>sf_request_id := sample_json_str_get data ''request_id'', out_zmq_url := url\<rparr>
       in if sf_status s' \<noteq> 0 then handler url data s' else Inr s'))"

fun process_event ::
  "sf_env \<Rightarrow> 'n node_ops \<Rightarrow> local_event \<times> pzmq_data \<Rightarrow> 'n stack_flow \<Rightarrow> 'n stack_flow res" where
  "process_event env ops (EVENT_NONE, m) s = Inr s"
| "process_event env ops (EVENT_SETUP, m) s = on_request env 1 (sf_setup env ops) m s"
| "process_event env ops (EVENT_EXIT, m) s = on_request env 1 (sf_exit env ops) m s"
| "process_event env ops (EVENT_PAUSE, m) s = on_request env 0 (sf_pause env ops) m s"
| "process_event env ops (EVENT_TASKINFO, m) s = on_request env 1 (sf_taskinfo env ops) m s"

text \<open>\<open>event_queue_.process()\<close>: the events queued so far, oldest first.\<close>

fun process_events ::
  "sf_env \<Rightarrow> 'n node_ops \<Rightarrow> (local_event \<times> pzmq_data) list \<Rightarrow> 'n stack_flow \<Rightarrow> 'n stack_flow res" where
  "process_events env ops [] s = Inr s"
| "process_events env ops (e # es) s = rbind (process_event env ops e s) (process_events env ops es)"

definition even_loop_turn :: "sf_env \<Rightarrow> 'n node_ops \<Rightarrow> 'n stack_flow \<Rightarrow> 'n stack_flow res" where
  "even_loop_turn env ops s =
     (if exit_flage s then Inr s else process_events env ops (event_queue s) (s\<lparr>event_queue := []\<rparr>))"

fun action_event :: "sf_action \<Rightarrow> local_event" where
  "action_event Rpc_setup = EVENT_SETUP"
| "action_event Rpc_exit = EVENT_EXIT"
| "action_event Rpc_pause = EVENT_PAUSE"
| "action_event Rpc_taskinfo = EVENT_TASKINFO"

definition rpc_enqueue :: "sf_action \<Rightarrow> string \<Rightarrow> 'n stack_flow \<Rightarrow> (string \<times> 'n stack_flow) res" where
  "rpc_enqueue a raw s = Inr (''None'', s\<lparr>event_queue := event_queue s @ [(action_event a, \<lparr>msg_bytes = raw\<rparr>)]\<rparr>)"

definition serve_node :: "string \<Rightarrow> string \<Rightarrow> 'n stack_flow \<Rightarrow> (string \<times> 'n stack_flow) res" where
  "serve_node action raw s = rpc_serve rpc_enqueue (rpc_ctx s) action raw s"

definition stack_flow_new :: "zmq_env \<Rightarrow> string \<Rightarrow> 'n \<Rightarrow> 'n stack_flow" where
  "stack_flow_new env uname n =
     \<lparr>unit_name = uname, sf_request_id = [], out_zmq_url = [], exit_flage = False, sf_status = 1,
      event_queue = [],
      rpc_ctx = fold (\<lambda>(name, h) p. snd (register_rpc_action env name h p))
        [(''setup'', Rpc_setup), (''pause'', Rpc_pause), (''exit'', Rpc_exit), (''taskinfo'', Rpc_taskinfo)]
        (pzmq_rpc uname),
      llm_task_channel = [], node = n, wires = []\<rparr>"

end
