(* ===== verification/Nodes.thy ===== *)
theory Nodes
  imports StackFlow
begin

text \<open>
  The two nodes without a worker thread: \<open>node/echo/src/main.cpp\<close> and \<open>node/test/src/main.cpp\<close> (the
  \<open>llm\<close> unit of the tests). A task is alive while it is in the node's table, a channel while it is in
  \<open>llm_task_channel_\<close>, so a weak pointer is a look-up. A message on a task's inference socket runs
  \<open>subscriber_event_call\<close> and then the node's callback.
\<close>

section \<open>A message for a task\<close>

definition channel_message ::
  "sf_env \<Rightarrow> int \<Rightarrow> (string \<Rightarrow> string \<Rightarrow> 'n stack_flow \<Rightarrow> 'n stack_flow res) \<Rightarrow> string \<Rightarrow> 'n stack_flow
   \<Rightarrow> 'n stack_flow res" where
  "channel_message env n callback raw s =
     (case map_of (llm_task_channel s) n of
        None \<Rightarrow> Inr s
      | Some ch \<Rightarrow>
          if ch_zmq ch 0 = None then Inr s
          else rbind (subscriber_event_call (sf_zmq env) raw ch) (\<lambda>(ch', object, data).
                 callback object data (put_channel n ch' s)))"

definition send_on ::
  "sf_env \<Rightarrow> int \<Rightarrow> string \<Rightarrow> json \<Rightarrow> string \<Rightarrow> string \<Rightarrow> 'n stack_flow \<Rightarrow> 'n stack_flow res" where
  "send_on env n object data error_msg work_id s =
     rbind (get_channel n s) (\<lambda>ch.
     rbind (channel_send (sf_time env) object data error_msg work_id ch) (\<lambda>w. Inr (emit w s)))"

definition unsubscribe :: "int \<Rightarrow> 'n stack_flow \<Rightarrow> 'n stack_flow res" where
  "unsubscribe n s = rbind (get_channel n s) (\<lambda>ch. Inr (put_channel n (stop_subscriber [] ch) s))"

section \<open>echo\<close>

record echo_node =
  echo_task_count :: int
  echo_tasks :: "(int \<times> string) list"

definition echo_new :: "zmq_env \<Rightarrow> echo_node stack_flow" where
  "echo_new env = stack_flow_new env ''echo'' \<lparr>echo_task_count = 3, echo_tasks = []\<rparr>"

definition echo_inference :: "sf_env \<Rightarrow> string \<Rightarrow> json" where
  "echo_inference env msg = (case sf_parse env msg of Some j \<Rightarrow> j | None \<Rightarrow> JStr msg)"

definition echo_setup ::
  "sf_env \<Rightarrow> string \<Rightarrow> string \<Rightarrow> string \<Rightarrow> echo_node stack_flow \<Rightarrow> (int \<times> echo_node stack_flow) res" where
  "echo_setup env work_id object data s =
     rbind (sample_get_work_id_num work_id) (\<lambda>n.
     rbind (get_channel_by_id work_id s) (\<lambda>ch.
     rbind (subscriber_work_id (sf_zmq env) [] (set_stream False (set_output True ch))) (\<lambda>(_, ch').
       let s1 = put_channel n ch' s;
           s2 = s1\<lparr>node := (node s1)\<lparr>echo_tasks := AList.update n work_id (echo_tasks (node s1))\<rparr>\<rparr>
       in rbind (sf_send env ''None'' (JStr ''None'') [] work_id [] s2) (\<lambda>s3. Inr (0, s3)))))"

definition echo_on_inference ::
  "sf_env \<Rightarrow> int \<Rightarrow> string \<Rightarrow> string \<Rightarrow> string \<Rightarrow> echo_node stack_flow \<Rightarrow> echo_node stack_flow res" where
  "echo_on_inference env n work_id object data s =
     (if map_of (echo_tasks (node s)) n = None \<or> map_of (llm_task_channel s) n = None then Inr s
      else send_on env n ''echo.result'' (echo_inference env data) [] work_id s)"

definition echo_exit ::
  "sf_env \<Rightarrow> string \<Rightarrow> string \<Rightarrow> string \<Rightarrow> echo_node stack_flow \<Rightarrow> (int \<times> echo_node stack_flow) res" where
  "echo_exit env work_id object data s =
     rbind (sample_get_work_id_num work_id) (\<lambda>n.
     if map_of (echo_tasks (node s)) n = None then
       rbind (send_error_body env (error_object (- 6) ''Unit Does Not Exist'') work_id s) (\<lambda>s'. Inr (- 1, s'))
     else
       rbind (unsubscribe n s) (\<lambda>s1.
       let s2 = s1\<lparr>node := (node s1)\<lparr>echo_tasks := AList.delete n (echo_tasks (node s1))\<rparr>\<rparr>
       in rbind (sf_send env ''None'' (JStr ''None'') [] work_id [] s2) (\<lambda>s3. Inr (0, s3))))"

definition echo_taskinfo ::
  "sf_env \<Rightarrow> string \<Rightarrow> string \<Rightarrow> string \<Rightarrow> echo_node stack_flow \<Rightarrow> echo_node stack_flow res" where
  "echo_taskinfo env work_id object data s =
     sf_send env ''echo.tasklist''
       (JArr (map (\<lambda>t. JStr (sample_get_work_id (fst t) (unit_name s))) (echo_tasks (node s)))) [] work_id [] s"

definition echo_ops :: "sf_env \<Rightarrow> echo_node node_ops" where
  "echo_ops env =
     \<lparr>op_setup = echo_setup env, op_exit = echo_exit env, op_pause = base_pause env, op_taskinfo = echo_taskinfo env\<rparr>"

text \<open>The destructor's loop over the tasks that are left.\<close>

fun unsubscribe_all :: "int list \<Rightarrow> 'n stack_flow \<Rightarrow> 'n stack_flow res" where
  "unsubscribe_all [] s = Inr s"
| "unsubscribe_all (n # ns) s = rbind (unsubscribe n s) (unsubscribe_all ns)"

definition echo_destroy :: "echo_node stack_flow \<Rightarrow> echo_node stack_flow res" where
  "echo_destroy s =
     rbind (unsubscribe_all (map fst (echo_tasks (node s))) s) (\<lambda>s'. Inr (s'\<lparr>node := (node s')\<lparr>echo_tasks := []\<rparr>\<rparr>))"

section \<open>The llm unit of the tests\<close>

record llm_task =
  tk_model :: string
  tk_response_format :: string
  tk_inputs :: "string list"
  tk_enoutput :: bool
  tk_enstream :: bool

text \<open>\<open>count\<close> and \<open>stream_buff\<close> are function-local statics: one of each for all tasks.\<close>

record llm_node =
  llm_task_count :: nat
  llm_tasks :: "(int \<times> llm_task) list"
  static_count :: int
  static_stream_buff :: stream_buff

definition llm_new :: "zmq_env \<Rightarrow> llm_node stack_flow" where
  "llm_new env = stack_flow_new env ''llm''
     \<lparr>llm_task_count = 3, llm_tasks = [], static_count = 0, static_stream_buff = []\<rparr>"

text \<open>\<open>parse_config\<close>: \<open>None\<close> for any exception of \<open>at\<close> or of a conversion.\<close>

fun json_strings :: "json list \<Rightarrow> string list option" where
  "json_strings [] = Some []"
| "json_strings (JStr s # js) = map_option (Cons s) (json_strings js)"
| "json_strings (_ # js) = None"

definition parse_inputs :: "json option \<Rightarrow> string list option" where
  "parse_inputs v = (case v of
       Some (JStr s) \<Rightarrow> Some [s]
     | Some (JArr js) \<Rightarrow> json_strings js
     | _ \<Rightarrow> Some [])"

definition parse_config :: "json \<Rightarrow> llm_task option" where
  "parse_config config_body =
     (case json_field config_body ''model'' of
        Some (JStr m) \<Rightarrow>
          (case json_field config_body ''response_format'' of
             Some (JStr rf) \<Rightarrow>
               (case json_field config_body ''enoutput'' of
                  Some (JBool eo) \<Rightarrow>
                    (case parse_inputs (json_field config_body ''input'') of
                       None \<Rightarrow> None
                     | Some ins \<Rightarrow>
                         Some \<lparr>tk_model = m, tk_response_format = rf, tk_inputs = ins, tk_enoutput = eo,
                               tk_enstream = str_contains ''stream'' rf\<rparr>)
                | _ \<Rightarrow> None)
           | _ \<Rightarrow> None)
      | _ \<Rightarrow> None)"

definition task_output ::
  "sf_env \<Rightarrow> int \<Rightarrow> string \<Rightarrow> bool \<Rightarrow> llm_node stack_flow \<Rightarrow> llm_node stack_flow res" where
  "task_output env n data finish s =
     (case (map_of (llm_tasks (node s)) n, map_of (llm_task_channel s) n) of
        (Some tk, Some ch) \<Rightarrow>
          (case enstream ch of
             None \<Rightarrow> Inl Undefined
           | Some True \<Rightarrow>
               (let c = static_count (node s);
                    body = json_object [(''index'', JInt c), (''delta'', JStr (if finish then [] else data)),
                                        (''finish'', JBool finish)];
                    s1 = s\<lparr>node := (node s)\<lparr>static_count := (if finish then 0 else to_int32 (c + 1))\<rparr>\<rparr>
                in send_on env n (tk_response_format tk) body [] [] s1)
           | Some False \<Rightarrow>
               if finish then send_on env n (tk_response_format tk) (JStr data) [] [] s else Inr s)
      | _ \<Rightarrow> Inr s)"

definition task_inference :: "sf_env \<Rightarrow> int \<Rightarrow> string \<Rightarrow> llm_node stack_flow \<Rightarrow> llm_node stack_flow res" where
  "task_inference env n msg s =
     rbind (task_output env n msg False s) (\<lambda>s1.
     rbind (task_output env n ''hello'' False s1) (\<lambda>s2.
       task_output env n [] True s2))"

definition task_user_data ::
  "sf_env \<Rightarrow> int \<Rightarrow> string \<Rightarrow> string \<Rightarrow> llm_node stack_flow \<Rightarrow> llm_node stack_flow res" where
  "task_user_data env n object data s =
     (let fail = (\<lambda>code msg s. send_error_body env (error_object code msg) (unit_name s) s)
      in if map_of (llm_tasks (node s)) n = None \<or> map_of (llm_task_channel s) n = None then
           fail (- 11) ''Model run failed.'' s
         else if data = [] \<or> data = ''None'' then fail (- 24) ''The inference data is empty.'' s
         else if str_contains ''stream'' object then
           (case decode_stream data [] (static_stream_buff (node s)) of
              Inl f \<Rightarrow>
                if is_exception f then
                  fail (- 25) ''Stream data index error.'' (s\<lparr>node := (node s)\<lparr>static_stream_buff := []\<rparr>\<rparr>)
                else Inl f
            | Inr (again, tmp_msg, buff) \<Rightarrow>
                (let s1 = s\<lparr>node := (node s)\<lparr>static_stream_buff := buff\<rparr>\<rparr>
                 in if again then Inr s1 else task_inference env n tmp_msg s1))
         else task_inference env n data s)"

definition size_minus_one :: "nat \<Rightarrow> nat" where
  "size_minus_one k = (if k = 0 then 18446744073709551615 else k - 1)"

definition llm_setup ::
  "sf_env \<Rightarrow> string \<Rightarrow> string \<Rightarrow> string \<Rightarrow> llm_node stack_flow \<Rightarrow> (int \<times> llm_node stack_flow) res" where
  "llm_setup env work_id object data s =
     (let fail = (\<lambda>code msg ret. rbind (send_error_body env (error_object code msg) (unit_name s) s) (\<lambda>s'. Inr (ret, s')))
      in if size_minus_one (length (llm_task_channel s)) = llm_task_count (node s) then fail (- 21) ''task full'' (- 1)
         else
           rbind (sample_get_work_id_num work_id) (\<lambda>n.
           rbind (get_channel_by_id work_id s) (\<lambda>ch.
           case sf_parse env data of
             None \<Rightarrow> fail (- 2) ''json format error.'' (- 2)
           | Some config_body \<Rightarrow>
               (case parse_config config_body of
                  None \<Rightarrow> fail (- 5) ''Model loading failed.'' (- 1)
                | Some tk \<Rightarrow>
                    rbind (subscriber_work_id (sf_zmq env) [] (set_stream (tk_enstream tk) (set_output True ch)))
                      (\<lambda>(_, ch').
                        let s1 = put_channel n ch' s;
                            s2 = s1\<lparr>node := (node s1)\<lparr>llm_tasks := AList.update n tk (llm_tasks (node s1))\<rparr>\<rparr>
                        in rbind (sf_send env ''None'' (JStr ''None'') [] work_id [] s2) (\<lambda>s3. Inr (0, s3)))))))"

definition llm_taskinfo ::
  "sf_env \<Rightarrow> string \<Rightarrow> string \<Rightarrow> string \<Rightarrow> llm_node stack_flow \<Rightarrow> llm_node stack_flow res" where
  "llm_taskinfo env work_id object data s =
     rbind (sample_get_work_id_num work_id) (\<lambda>n.
     if n = WORK_ID_NONE then
       sf_send env ''llm.tasklist'' (JArr (map (\<lambda>c. JStr (ch_work_id (snd c))) (llm_task_channel s))) [] work_id [] s
     else case map_of (llm_tasks (node s)) n of
            None \<Rightarrow> send_error_body env (error_object (- 6) ''Unit Does Not Exist'') work_id s
          | Some tk \<Rightarrow>
              sf_send env ''llm.taskinfo''
                (json_object [(''model'', JStr (tk_model tk)), (''response_format'', JStr (tk_response_format tk)),
                              (''enoutput'', JBool (tk_enoutput tk)), (''inputs'', JArr (map JStr (tk_inputs tk)))])
                [] work_id [] s)"

definition llm_exit ::
  "sf_env \<Rightarrow> string \<Rightarrow> string \<Rightarrow> string \<Rightarrow> llm_node stack_flow \<Rightarrow> (int \<times> llm_node stack_flow) res" where
  "llm_exit env work_id object data s =
     rbind (sample_get_work_id_num work_id) (\<lambda>n.
     if map_of (llm_tasks (node s)) n = None then
       rbind (send_error_body env (error_object (- 6) ''Unit Does Not Exist'') work_id s) (\<lambda>s'. Inr (- 1, s'))
     else
       rbind (unsubscribe n s) (\<lambda>s1.
       let s2 = s1\<lparr>node := (node s1)\<lparr>llm_tasks := AList.delete n (llm_tasks (node s1))\<rparr>\<rparr>
       in rbind (sf_send env ''None'' (JStr ''None'') [] work_id [] s2) (\<lambda>s3. Inr (0, s3))))"

definition llm_ops :: "sf_env \<Rightarrow> llm_node node_ops" where
  "llm_ops env =
     \<lparr>op_setup = llm_setup env, op_exit = llm_exit env, op_pause = base_pause env, op_taskinfo = llm_taskinfo env\<rparr>"

definition llm_destroy :: "llm_node stack_flow \<Rightarrow> llm_node stack_flow res" where
  "llm_destroy s =
     rbind (unsubscribe_all (map fst (llm_tasks (node s))) s) (\<lambda>s'. Inr (s'\<lparr>node := (node s')\<lparr>llm_tasks := []\<rparr>\<rparr>))"

end
