(* ===== verification/JobQueue.thy ===== *)
theory JobQueue
  imports Prelude
begin

text \<open>
  \<open>infra-controller/include/NodeJobQueue.h\<close>, the bounded job queue between a node's RPC thread and its
  worker, and \<open>read_size_env\<close> of \<open>NodeRuntimeUtil.h\<close>, which configures its capacity. Every operation
  runs under the mutex, so the threads' operations form one sequence. \<open>wait_pop\<close> blocks while the
  queue is empty and running: it has no result then and cannot be a step of the sequence.
\<close>

section \<open>The contract of a bounded queue\<close>

datatype 'j queue_op = Push 'j | Pop | Stop

text \<open>What a step reports: whether a push was accepted, the job a pop returned (\<open>None\<close> for \<open>false\<close>).\<close>

datatype 'j queue_event = Pushed 'j bool | Popped "'j option" | Stopped

definition queue_step ::
  "('j \<Rightarrow> 'q \<Rightarrow> bool \<times> 'q) \<Rightarrow> ('q \<Rightarrow> ('j option \<times> 'q) option) \<Rightarrow> ('q \<Rightarrow> 'q)
   \<Rightarrow> 'j queue_op \<Rightarrow> 'q \<Rightarrow> ('j queue_event \<times> 'q) option" where
  "queue_step push pop stop op q =
     (case op of
        Push j \<Rightarrow> Some (Pushed j (fst (push j q)), snd (push j q))
      | Pop \<Rightarrow> map_option (\<lambda>(r, q'). (Popped r, q')) (pop q)
      | Stop \<Rightarrow> Some (Stopped, stop q))"

fun run_queue ::
  "('j queue_op \<Rightarrow> 'q \<Rightarrow> ('j queue_event \<times> 'q) option) \<Rightarrow> 'j queue_op list \<Rightarrow> 'q
   \<Rightarrow> ('j queue_event list \<times> 'q) option" where
  "run_queue step [] q = Some ([], q)"
| "run_queue step (op # ops) q =
     (case step op q of
        None \<Rightarrow> None
      | Some (e, q') \<Rightarrow> map_option (\<lambda>(es, q''). (e # es, q'')) (run_queue step ops q'))"

fun accepted :: "'j queue_event list \<Rightarrow> 'j list" where
  "accepted [] = []"
| "accepted (Pushed j b # es) = (if b then j # accepted es else accepted es)"
| "accepted (_ # es) = accepted es"

fun delivered :: "'j queue_event list \<Rightarrow> 'j list" where
  "delivered [] = []"
| "delivered (Popped (Some j) # es) = j # delivered es"
| "delivered (_ # es) = delivered es"

locale bounded_queue =
  fixes push :: "'j \<Rightarrow> 'q \<Rightarrow> bool \<times> 'q"
    and pop :: "'q \<Rightarrow> ('j option \<times> 'q) option"
    and stop :: "'q \<Rightarrow> 'q"
    and items :: "'q \<Rightarrow> 'j list"
    and capacity :: "'q \<Rightarrow> nat"
    and accepting :: "'q \<Rightarrow> bool"
  assumes push_result: "fst (push j q) \<longleftrightarrow> accepting q \<and> length (items q) < capacity q"
    and push_items: "items (snd (push j q)) = (if fst (push j q) then items q @ [j] else items q)"
    and push_frame: "capacity (snd (push j q)) = capacity q" "accepting (snd (push j q)) = accepting q"
    and pop_blocks: "pop q = None \<longleftrightarrow> items q = [] \<and> accepting q"
    and pop_result: "pop q = Some (r, q') \<Longrightarrow>
      items q = (case r of None \<Rightarrow> [] | Some j \<Rightarrow> [j]) @ items q' \<and> (r = None \<longrightarrow> items q = [])"
    and pop_frame: "pop q = Some (r, q') \<Longrightarrow> capacity q' = capacity q \<and> accepting q' = accepting q"
    and stop_items: "items (stop q) = items q" "capacity (stop q) = capacity q" "\<not> accepting (stop q)"
begin

lemma step_fifo:
  "queue_step push pop stop op q = Some (e, q') \<Longrightarrow>
   items q @ accepted [e] = delivered [e] @ items q' \<and> capacity q' = capacity q \<and>
   (length (items q) \<le> capacity q \<longrightarrow> length (items q') \<le> capacity q')"
proof (cases op)
  case Pop
  assume "queue_step push pop stop op q = Some (e, q')"
  with Pop obtain r where "pop q = Some (r, q')" "e = Popped r" by (auto simp: queue_step_def)
  then show ?thesis using pop_result [of q r q'] pop_frame [of q r q'] by (cases r) auto
qed (auto simp: queue_step_def push_result push_items push_frame stop_items)

lemma accepted_Cons: "accepted (e # es) = accepted [e] @ accepted es"
  by (cases e) auto

lemma delivered_Cons: "delivered (e # es) = delivered [e] @ delivered es"
proof (cases e)
  case (Popped r)
  then show ?thesis by (cases r) auto
qed auto

text \<open>Jobs leave in the order they were accepted, none lost and none twice.\<close>

lemma run_fifo:
  "run_queue (queue_step push pop stop) ops q = Some (es, q') \<Longrightarrow>
   items q @ accepted es = delivered es @ items q' \<and> capacity q' = capacity q \<and>
   (length (items q) \<le> capacity q \<longrightarrow> length (items q') \<le> capacity q')"
proof (induction ops arbitrary: q es)
  case (Cons op ops)
  then obtain e es' q1 where s: "queue_step push pop stop op q = Some (e, q1)"
    "run_queue (queue_step push pop stop) ops q1 = Some (es', q')" "es = e # es'"
    by (auto split: option.splits)
  note h = step_fifo [OF s(1)] and t = Cons.IH [OF s(2)]
  have "items q @ accepted es = (items q @ accepted [e]) @ accepted es'"
    by (simp add: s(3) accepted_Cons [of e es'])
  also have "\<dots> = delivered [e] @ items q1 @ accepted es'" using h by simp
  also have "\<dots> = delivered es @ items q'" using t by (simp add: s(3) delivered_Cons [of e es'])
  finally show ?case using h t by auto
qed auto

text \<open>After \<open>stop\<close> no pop blocks, and as many pops as there are jobs empty the queue.\<close>

lemma drain_stopped:
  "\<not> accepting q \<Longrightarrow>
   \<exists>es q'. run_queue (queue_step push pop stop) (replicate (length (items q)) Pop) q = Some (es, q') \<and>
     delivered es = items q \<and> items q' = [] \<and> \<not> accepting q'"
proof (induction "items q" arbitrary: q)
  case Nil
  then show ?case by (metis delivered.simps(1) length_0_conv replicate_0 run_queue.simps(1))
next
  case (Cons j js)
  then have "pop q \<noteq> None" using pop_blocks [of q] by (metis list.discI)
  then obtain r q1 where p: "pop q = Some (r, q1)" by auto
  from pop_result [OF p] Cons(2) have r: "r = Some j" "items q1 = js"
    by (cases r; auto)+
  have "\<not> accepting q1" using pop_frame [OF p] Cons.prems by simp
  from Cons(1) [OF r(2) [symmetric] this] obtain es q' where
    "run_queue (queue_step push pop stop) (replicate (length js) Pop) q1 = Some (es, q')"
    "delivered es = js" "items q' = []" "\<not> accepting q'"
    using r(2) by auto
  then show ?case
    using p r Cons(2) [symmetric] by (simp add: queue_step_def)
qed

end

section \<open>NodeJobQueue\<close>

record 'j node_job_queue =
  max_size :: nat
  jobs :: "'j list"
  running :: bool

definition job_queue_new :: "nat \<Rightarrow> 'j node_job_queue" where
  "job_queue_new n = \<lparr>max_size = n, jobs = [], running = True\<rparr>"

definition queue_push :: "'j \<Rightarrow> 'j node_job_queue \<Rightarrow> bool \<times> 'j node_job_queue" where
  "queue_push job q =
     (if \<not> running q \<or> max_size q \<le> length (jobs q) then (False, q)
      else (True, q\<lparr>jobs := jobs q @ [job]\<rparr>))"

definition wait_pop :: "'j node_job_queue \<Rightarrow> ('j option \<times> 'j node_job_queue) option" where
  "wait_pop q =
     (if \<not> (jobs q \<noteq> [] \<or> \<not> running q) then None
      else case jobs q of
             [] \<Rightarrow> Some (None, q)
           | job # rest \<Rightarrow> Some (Some job, q\<lparr>jobs := rest\<rparr>))"

definition queue_stop :: "'j node_job_queue \<Rightarrow> 'j node_job_queue" where
  "queue_stop q = q\<lparr>running := False\<rparr>"

definition queue_size :: "'j node_job_queue \<Rightarrow> nat" where
  "queue_size q = length (jobs q)"

interpretation njq: bounded_queue queue_push wait_pop queue_stop jobs max_size running
  by unfold_locales
    (auto simp: queue_push_def wait_pop_def queue_stop_def split: list.splits if_splits)

section \<open>The configured capacity\<close>

text \<open>
  \<open>std::stoull\<close>: the number is read without its sign, must fit 64 bits, and a minus sign negates it
  modulo \<open>2 ^ 64\<close>.
\<close>

definition ullong_max :: nat where "ullong_max = 18446744073709551615"

definition stoull :: "string \<Rightarrow> nat res" where
  "stoull s =
     (let (neg, body) = split_sign (dropWhile is_space s);
          ds = takeWhile is_digit body;
          v = digits_val ds
      in if ds = [] then Inl InvalidArgument
         else if ullong_max < v then Inl OutOfRange
         else Inr (if neg then (ullong_max + 1 - v) mod (ullong_max + 1) else v))"

definition read_size_env :: "string option \<Rightarrow> nat \<Rightarrow> nat" where
  "read_size_env value fallback =
     (case value of
        None \<Rightarrow> fallback
      | Some v \<Rightarrow>
          if v = [] then fallback
          else (case stoull v of
                  Inl _ \<Rightarrow> fallback
                | Inr parsed \<Rightarrow> if 0 < parsed then parsed else fallback))"

section \<open>Properties\<close>

text \<open>C17: whatever the RPC threads push and the worker pops, in whatever order, the jobs delivered and
  those still queued are exactly the accepted ones, in the order they were accepted, and the queue
  never holds more than \<open>max_size\<close> jobs.\<close>

theorem queue_exactly_once:
  assumes "run_queue (queue_step queue_push wait_pop queue_stop) ops (job_queue_new n) = Some (es, q)"
  shows "accepted es = delivered es @ jobs q \<and> queue_size q \<le> n"
  using njq.run_fifo [OF assms] by (simp add: job_queue_new_def queue_size_def)

theorem queue_exactly_once_witness:
  "\<exists>es q. run_queue (queue_step queue_push wait_pop queue_stop) [Push 1, Push 2, Push 3, Pop] (job_queue_new 2)
     = Some (es, q) \<and> accepted es = [1 :: nat, 2] \<and> delivered es @ jobs q = [1, 2]"
proof -
  obtain es q where r: "run_queue (queue_step queue_push wait_pop queue_stop) [Push 1, Push 2, Push 3, Pop]
      (job_queue_new 2) = Some (es, q)" "accepted es = [1 :: nat, 2]"
    by (simp add: queue_step_def queue_push_def wait_pop_def job_queue_new_def)
  with queue_exactly_once [OF r(1)] show ?thesis by auto
qed

text \<open>A push is refused exactly when the queue is full or stopped, and changes nothing then; a
  stopped queue hands out every job it still holds, in order, without blocking, and then reports the
  end, so the worker's loop ends.\<close>

theorem queue_stop_drains:
  "(fst (queue_push j q) \<longleftrightarrow> running q \<and> queue_size q < max_size q) \<and>
   (snd (queue_push j q) = (if fst (queue_push j q) then q\<lparr>jobs := jobs q @ [j]\<rparr> else q)) \<and>
   (\<exists>es q'. run_queue (queue_step queue_push wait_pop queue_stop) (replicate (queue_size q) Pop) (queue_stop q)
        = Some (es, q') \<and> delivered es = jobs q \<and> wait_pop q' = Some (None, q'))"
proof -
  have "\<not> running (queue_stop q)" "jobs (queue_stop q) = jobs q" by (simp_all add: queue_stop_def)
  then obtain es q' where "run_queue (queue_step queue_push wait_pop queue_stop)
      (replicate (queue_size q) Pop) (queue_stop q) = Some (es, q')"
    "delivered es = jobs q" "jobs q' = []" "\<not> running q'"
    using njq.drain_stopped [of "queue_stop q"] by (auto simp: queue_size_def)
  then show ?thesis
    by (auto simp: wait_pop_def queue_push_def queue_size_def)
qed

text \<open>A size given in decimal is taken as it is, anything that is not a positive number of 64 bits
  falls back to the default; but a negative number is accepted and wraps to a huge size.\<close>

theorem read_size_env_values:
  assumes "n \<le> ullong_max"
  shows "read_size_env (Some (nat_to_string n)) d = (if n = 0 then d else n) \<and>
     read_size_env None d = d \<and> read_size_env (Some []) d = d \<and>
     (n \<noteq> 0 \<longrightarrow> read_size_env (Some (CHR ''-'' # nat_to_string n)) d = ullong_max + 1 - n)"
proof -
  obtain c cs where c: "nat_to_string n = c # cs" "is_digit c"
    using nat_to_string_digits [of n] nat_to_string_not_Nil [of n] by (cases "nat_to_string n") auto
  have tw: "takeWhile is_digit (nat_to_string n) = nat_to_string n"
    using nat_to_string_digits by (simp add: list_all_iff)
  have minus: "\<not> is_space (CHR ''-'')" by (simp add: is_space_def code_of_def)
  have "dropWhile is_space (nat_to_string n) = nat_to_string n"
    "split_sign (nat_to_string n) = (False, nat_to_string n)"
    using c digit_not_space digit_not_sign by (auto simp: split_sign_def)
  then have "stoull (nat_to_string n) = Inr n"
    using assms by (simp add: stoull_def tw)
  moreover have "stoull (CHR ''-'' # nat_to_string n) = Inr (ullong_max + 1 - n)" if "n \<noteq> 0"
    using assms that by (simp add: stoull_def minus split_sign_def tw)
  ultimately show ?thesis
    using assms by (auto simp: read_size_env_def)
qed

theorem read_size_env_values_witness:
  "read_size_env (Some ''-1'') 8 = 18446744073709551615"
  using read_size_env_values [of 1 8] by (simp add: ullong_max_def nat_to_string_eval)

end
