(* ===== verification/TtsCodec.thy ===== *)
theory TtsCodec
  imports Prelude
begin

unbundle bit_operations_syntax

text \<open>
  The two encodings of \<open>node/tts\<close>: \<open>base64_encode\<close> of \<open>main.cpp\<close> and \<open>write_wav\<close> with its helpers of
  \<open>tts_engine.cpp\<close>, bytes as 8-bit words, each with a reader to state what the text or the file means.
\<close>

section \<open>Base64\<close>

definition alphabet :: string where
  "alphabet = ''ABCDEFGHIJKLMNOPQRSTUVWXYZabcdefghijklmnopqrstuvwxyz0123456789+/''"

definition sextet :: "nat \<Rightarrow> 32 word \<Rightarrow> char" where
  "sextet k v = alphabet ! unat (drop_bit k v AND 0x3f)"

definition pack3 :: "8 word \<Rightarrow> 8 word \<Rightarrow> 8 word \<Rightarrow> 32 word" where
  "pack3 a b c = push_bit 16 (ucast a) OR push_bit 8 (ucast b) OR ucast c"

fun base64_encode :: "8 word list \<Rightarrow> string" where
  "base64_encode [] = []"
| "base64_encode [a] =
     (let v = push_bit 16 (ucast a) in [sextet 18 v, sextet 12 v, CHR ''='', CHR ''=''])"
| "base64_encode [a, b] =
     (let v = push_bit 16 (ucast a) OR push_bit 8 (ucast b)
      in [sextet 18 v, sextet 12 v, sextet 6 v, CHR ''=''])"
| "base64_encode (a # b # c # bytes) =
     (let v = pack3 a b c
      in [sextet 18 v, sextet 12 v, sextet 6 v, sextet 0 v] @ base64_encode bytes)"

text \<open>The reader of RFC 4648, for texts without line breaks.\<close>

definition sextet_of :: "char \<Rightarrow> 32 word option" where
  "sextet_of c =
     (let k = length (takeWhile (\<lambda>x. x \<noteq> c) alphabet) in if k < 64 then Some (of_nat k) else None)"

definition join4 :: "32 word \<Rightarrow> 32 word \<Rightarrow> 32 word \<Rightarrow> 32 word \<Rightarrow> 32 word" where
  "join4 p q r s = push_bit 18 p OR push_bit 12 q OR push_bit 6 r OR s"

fun base64_decode :: "string \<Rightarrow> 8 word list option" where
  "base64_decode [] = Some []"
| "base64_decode (p # q # r # s # rest) =
     (case (sextet_of p, sextet_of q) of
        (Some p', Some q') \<Rightarrow>
          (case (sextet_of r, sextet_of s) of
             (Some r', Some s') \<Rightarrow>
               let v = join4 p' q' r' s'
               in map_option (\<lambda>bs. ucast (drop_bit 16 v) # ucast (drop_bit 8 v) # ucast v # bs) (base64_decode rest)
           | (Some r', None) \<Rightarrow>
               let v = join4 p' q' r' 0
               in if s = CHR ''='' \<and> rest = [] then Some [ucast (drop_bit 16 v), ucast (drop_bit 8 v)] else None
           | (None, _) \<Rightarrow>
               let v = join4 p' q' 0 0
               in if r = CHR ''='' \<and> s = CHR ''='' \<and> rest = [] then Some [ucast (drop_bit 16 v)] else None)
      | _ \<Rightarrow> None)"
| "base64_decode _ = None"

lemma position_nth: "distinct xs \<Longrightarrow> k < length xs \<Longrightarrow> length (takeWhile (\<lambda>x. x \<noteq> xs ! k) xs) = k"
proof (induction xs arbitrary: k)
  case (Cons x xs)
  show ?case
  proof (cases k)
    case (Suc k')
    with Cons.prems have "x \<noteq> xs ! k'" using nth_mem by fastforce
    with Cons Suc show ?thesis by simp
  qed simp
qed simp

lemma alphabet_facts: "distinct alphabet" "length alphabet = 64" "CHR ''='' \<notin> set alphabet"
  by (simp_all add: alphabet_def)

lemma and_63_small: "unat (v AND 0x3f :: 32 word) < 64"
proof -
  have "v AND 0x3f = take_bit 6 v"
    by (simp add: take_bit_eq_mask mask_eq_exp_minus_1)
  then show ?thesis
    using take_bit_nat_less_exp [of 6 "unat v"] by (simp add: unsigned_take_bit_eq)
qed

lemma sextet_of_sextet: "sextet_of (sextet k v) = Some (drop_bit k v AND 0x3f)"
proof -
  let ?n = "unat (drop_bit k v AND 0x3f)"
  have "length (takeWhile (\<lambda>x. x \<noteq> alphabet ! ?n) alphabet) = ?n"
    using position_nth [OF alphabet_facts(1), of ?n] and_63_small by (simp add: alphabet_facts(2))
  then show ?thesis
    using and_63_small [of "drop_bit k v"] by (simp add: sextet_of_def sextet_def)
qed

lemma sextet_of_pad: "sextet_of (CHR ''='') = None"
proof -
  have "takeWhile (\<lambda>x. x \<noteq> CHR ''='') alphabet = alphabet"
    using alphabet_facts(3) unfolding takeWhile_eq_all_conv by metis
  then show ?thesis by (simp add: sextet_of_def alphabet_facts(2) del: takeWhile_eq_all_conv)
qed

lemma join_sextets:
  "join4 (drop_bit 18 v AND 0x3f) (drop_bit 12 v AND 0x3f) (drop_bit 6 v AND 0x3f) (drop_bit 0 v AND 0x3f)
     = (take_bit 24 v :: 32 word)"
proof -
  have m: "(0x3f :: 32 word) = mask 6" by (simp add: mask_eq_exp_minus_1)
  show ?thesis
    unfolding join4_def m
  proof (rule bit_word_eqI)
    fix n :: nat
    consider "n < 6" | "6 \<le> n" "n < 12" | "12 \<le> n" "n < 18" | "18 \<le> n" by linarith
    then show "bit (push_bit 18 (drop_bit 18 v AND mask 6) OR push_bit 12 (drop_bit 12 v AND mask 6) OR
        push_bit 6 (drop_bit 6 v AND mask 6) OR (drop_bit 0 v AND mask 6)) n = bit (take_bit 24 v) n"
      by cases (auto simp: bit_simps)
  qed
qed

lemma sextet_bytes:
  "ucast (drop_bit 16 (take_bit 24 (pack3 a b c))) = a"
  "ucast (drop_bit 8 (take_bit 24 (pack3 a b c))) = b"
  "ucast (take_bit 24 (pack3 a b c)) = c"
  unfolding pack3_def by (rule bit_word_eqI; auto simp: bit_simps dest: bit_imp_le_length)+

lemma pack3_pads:
  "push_bit 16 (ucast a) OR push_bit 8 (ucast b) = pack3 a b 0" "push_bit 16 (ucast a) = pack3 a 0 0"
  by (simp_all add: pack3_def)

text \<open>A missing sextet of a padded group carries no bits.\<close>

lemma join_padded:
  "join4 (drop_bit 18 (pack3 a b 0) AND 0x3f) (drop_bit 12 (pack3 a b 0) AND 0x3f)
     (drop_bit 6 (pack3 a b 0) AND 0x3f) 0 = take_bit 24 (pack3 a b 0)"
  "join4 (drop_bit 18 (pack3 a 0 0) AND 0x3f) (drop_bit 12 (pack3 a 0 0) AND 0x3f) 0 0 = take_bit 24 (pack3 a 0 0)"
proof -
  have m: "(0x3f :: 32 word) = mask 6" by (simp add: mask_eq_exp_minus_1)
  have "drop_bit 0 (pack3 a b 0) AND 0x3f = 0" "drop_bit 6 (pack3 a 0 0) AND 0x3f = 0"
    "drop_bit 0 (pack3 a 0 0) AND 0x3f = 0"
    unfolding m pack3_def by (rule bit_word_eqI; auto simp: bit_simps)+
  with join_sextets [of "pack3 a b 0"] join_sextets [of "pack3 a 0 0"]
  show "join4 (drop_bit 18 (pack3 a b 0) AND 0x3f) (drop_bit 12 (pack3 a b 0) AND 0x3f)
     (drop_bit 6 (pack3 a b 0) AND 0x3f) 0 = take_bit 24 (pack3 a b 0)"
  "join4 (drop_bit 18 (pack3 a 0 0) AND 0x3f) (drop_bit 12 (pack3 a 0 0) AND 0x3f) 0 0 = take_bit 24 (pack3 a 0 0)"
    by simp_all
qed

text \<open>The encoding as RFC 4648 describes it: the bytes as one string of bits, most significant first, cut into
  groups of six, the last one filled with zero bits, and the text filled up with \<open>=\<close> to a multiple of four.\<close>

definition byte_bits :: "8 word \<Rightarrow> bool list" where
  "byte_bits a = map (bit a) [7, 6, 5, 4, 3, 2, 1, 0]"

fun groups6 :: "bool list \<Rightarrow> bool list list" where
  "groups6 [] = []"
| "groups6 (b # bs) = take 6 ((b # bs) @ replicate 5 False) # groups6 (drop 5 bs)"

definition rfc_base64 :: "8 word list \<Rightarrow> string" where
  "rfc_base64 bytes =
     (let text = map (\<lambda>g. alphabet ! horner_sum of_bool 2 (rev g)) (groups6 (concat (map byte_bits bytes)))
      in text @ replicate ((4 - length text mod 4) mod 4) (CHR ''=''))"

lemma two_pads: "replicate 2 x = [x, x]"
  by (simp add: numeral_2_eq_2)

lemma groups6_full: "groups6 (b1 # b2 # b3 # b4 # b5 # b6 # bs) = [b1, b2, b3, b4, b5, b6] # groups6 bs"
  by simp

lemma groups6_last:
  "groups6 [b1, b2] = [[b1, b2, False, False, False, False]]"
  "groups6 [b1, b2, b3, b4] = [[b1, b2, b3, b4, False, False]]"
  by (simp_all add: numeral_eq_Suc)

lemma sextet_bits:
  "sextet k v = alphabet ! horner_sum of_bool 2
     [bit v k, bit v (k + 1), bit v (k + 2), bit v (k + 3), bit v (k + 4), bit v (k + 5)]"
proof -
  have m: "(0x3f :: 32 word) = mask 6" by (simp add: mask_eq_exp_minus_1)
  have l: "[0..<6] = [0, 1, 2, 3, 4, 5 :: nat]" by (simp add: upt_rec)
  have "unat (drop_bit k v AND 0x3f) = take_bit 6 (unat (drop_bit k v))"
    by (simp only: m take_bit_eq_mask [symmetric] unsigned_take_bit_eq)
  also have "\<dots> = horner_sum of_bool 2 (map (bit (unat (drop_bit k v))) [0..<6])"
    by (simp only: horner_sum_bit_eq_take_bit)
  also have "map (bit (unat (drop_bit k v))) [0..<6] =
      [bit v k, bit v (k + 1), bit v (k + 2), bit v (k + 3), bit v (k + 4), bit v (k + 5)]"
    by (auto simp: l bit_simps dest: bit_imp_le_length)
  finally show ?thesis by (simp add: sextet_def)
qed

lemma pack3_bits:
  "bit (pack3 a b c) n = (if n < 8 then bit c n else if n < 16 then bit b (n - 8) else n < 24 \<and> bit a (n - 16))"
  by (auto simp: pack3_def bit_simps dest: bit_imp_le_length)

text \<open>C26: the encoder is RFC 4648's: its text is that of the bit-string definition, for every list of bytes.\<close>

theorem base64_is_rfc4648: "base64_encode bytes = rfc_base64 bytes"
proof (induction bytes rule: base64_encode.induct)
  case 1
  show ?case by (simp add: rfc_base64_def)
next
  case (2 a)
  show ?case
    by (simp add: rfc_base64_def byte_bits_def groups6_full groups6_last two_pads sextet_bits pack3_pads pack3_bits
        del: groups6.simps(2) horner_sum_simps)
next
  case (3 a b)
  show ?case
    by (simp add: rfc_base64_def byte_bits_def groups6_full groups6_last sextet_bits pack3_pads(1) pack3_bits Let_def
        del: groups6.simps(2) horner_sum_simps)
next
  case (4 a b c bytes)
  then show ?case
    by (simp add: rfc_base64_def byte_bits_def groups6_full sextet_bits pack3_bits Let_def numeral_2_eq_2 [symmetric]
        del: groups6.simps(2) horner_sum_simps)
qed

text \<open>The text \<open>base64_encode\<close> produces decodes to the bytes it was given, whatever their number; its
  length is the number the code reserves.\<close>

theorem base64_roundtrip:
  "base64_decode (base64_encode bytes) = Some bytes \<and>
   length (base64_encode bytes) = (length bytes + 2) div 3 * 4"
proof (induction bytes rule: base64_encode.induct)
  case (2 a)
  have "base64_encode [a] = [sextet 18 (pack3 a 0 0), sextet 12 (pack3 a 0 0), CHR ''='', CHR ''='']"
    by (simp add: pack3_pads(2) Let_def)
  then show ?case
    by (simp add: sextet_of_sextet sextet_of_pad join_padded sextet_bytes Let_def)
next
  case (3 a b)
  have "base64_encode [a, b] = [sextet 18 (pack3 a b 0), sextet 12 (pack3 a b 0), sextet 6 (pack3 a b 0), CHR ''='']"
    by (simp add: pack3_pads(1) Let_def)
  then show ?case
    by (simp add: sextet_of_sextet sextet_of_pad join_padded sextet_bytes Let_def)
next
  case (4 a b c bytes)
  have "(5 + length bytes) div 3 = Suc ((2 + length bytes) div 3)"
    using div_add_self2 [of 3 "2 + length bytes"] by simp
  with 4 show ?case
    using join_sextets [of "pack3 a b c"] by (simp add: sextet_of_sextet sextet_bytes Let_def)
qed simp

section \<open>WAV\<close>

definition append_u16_le :: "8 word list \<Rightarrow> 16 word \<Rightarrow> 8 word list" where
  "append_u16_le buf v = buf @ [ucast (v AND 0xff), ucast (drop_bit 8 v AND 0xff)]"

definition append_u32_le :: "8 word list \<Rightarrow> 32 word \<Rightarrow> 8 word list" where
  "append_u32_le buf v = buf @
     [ucast (v AND 0xff), ucast (drop_bit 8 v AND 0xff), ucast (drop_bit 16 v AND 0xff), ucast (drop_bit 24 v AND 0xff)]"

definition append_bytes :: "8 word list \<Rightarrow> string \<Rightarrow> 8 word list" where
  "append_bytes buf data = buf @ map (\<lambda>c. word_of_nat (code_of c)) data"

definition kSampleRate :: "32 word" where "kSampleRate = 16000"
definition kChannels :: "16 word" where "kChannels = 1"
definition kBitsPerSample :: "16 word" where "kBitsPerSample = 16"
definition kBlockAlign :: "16 word" where "kBlockAlign = kChannels * kBitsPerSample div 8"
definition kByteRate :: "32 word" where "kByteRate = kSampleRate * ucast kBlockAlign"

definition write_wav :: "16 word list \<Rightarrow> 8 word list" where
  "write_wav pcm =
     (let data_size = word_of_nat (length pcm * 2) :: 32 word;
          riff_size = 36 + data_size;
          w1 = append_bytes [] ''RIFF'';
          w2 = append_u32_le w1 riff_size;
          w3 = append_bytes w2 ''WAVE'';
          w4 = append_bytes w3 ''fmt '';
          w5 = append_u32_le w4 16;
          w6 = append_u16_le w5 1;
          w7 = append_u16_le w6 kChannels;
          w8 = append_u32_le w7 kSampleRate;
          w9 = append_u32_le w8 kByteRate;
          w10 = append_u16_le w9 kBlockAlign;
          w11 = append_u16_le w10 kBitsPerSample;
          w12 = append_bytes w11 ''data'';
          w13 = append_u32_le w12 data_size
      in foldl append_u16_le w13 pcm)"

text \<open>A reader of 16-bit PCM files: the fields must agree with each other and with the file's length.\<close>

definition u16_of :: "8 word list \<Rightarrow> nat" where
  "u16_of bs = (case bs of [a, b] \<Rightarrow> unat a + 256 * unat b | _ \<Rightarrow> 0)"

definition u32_of :: "8 word list \<Rightarrow> nat" where
  "u32_of bs = u16_of (take 2 bs) + 65536 * u16_of (drop 2 bs)"

fun samples_of :: "8 word list \<Rightarrow> 16 word list" where
  "samples_of (a # b # bs) = (ucast a OR push_bit 8 (ucast b)) # samples_of bs"
| "samples_of _ = []"

definition text_of :: "8 word list \<Rightarrow> string" where
  "text_of = map (\<lambda>w. char_of (unat w))"

definition field :: "nat \<Rightarrow> nat \<Rightarrow> 8 word list \<Rightarrow> 8 word list" where
  "field off len bs = take len (drop off bs)"

definition read_wav :: "8 word list \<Rightarrow> (nat \<times> nat \<times> 16 word list) option" where
  "read_wav f =
     (if 44 \<le> length f \<and> text_of (field 0 4 f) = ''RIFF'' \<and> u32_of (field 4 4 f) = length f - 8 \<and>
         text_of (field 8 4 f) = ''WAVE'' \<and> text_of (field 12 4 f) = ''fmt '' \<and> u32_of (field 16 4 f) = 16 \<and>
         u16_of (field 20 2 f) = 1 \<and> u16_of (field 34 2 f) = 16 \<and>
         u16_of (field 32 2 f) = u16_of (field 22 2 f) * 2 \<and>
         u32_of (field 28 4 f) = u32_of (field 24 4 f) * u16_of (field 32 2 f) \<and>
         text_of (field 36 4 f) = ''data'' \<and> u32_of (field 40 4 f) = length f - 44
      then Some (u16_of (field 22 2 f), u32_of (field 24 4 f), samples_of (drop 44 f))
      else None)"

lemma and_ff: "(v :: 'a::len word) AND 0xff = take_bit 8 v"
  by (simp add: take_bit_eq_mask mask_eq_exp_minus_1)

lemma unat_byte: "unat (ucast (drop_bit k v AND 0xff) :: 8 word) = unat (v :: 'a::len word) div 2 ^ k mod 256"
proof -
  have "unat (ucast (drop_bit k v AND 0xff) :: 8 word) = take_bit 8 (drop_bit k (unat v))"
    unfolding and_ff by (simp only: unsigned_ucast_eq unsigned_take_bit_eq unsigned_drop_bit_eq)
      (auto intro!: bit_eqI simp: bit_simps dest: bit_imp_le_length)
  then show ?thesis by (simp only: take_bit_eq_mod drop_bit_eq_div) simp
qed

lemma u16_bytes: "u16_of [ucast ((v :: 16 word) AND 0xff), ucast (drop_bit 8 v AND 0xff)] = unat v"
proof -
  have "unat v < 65536" using unsigned_less [of v] by simp
  then have "unat v div 256 mod 256 = unat v div 256" by simp
  moreover have "unat (ucast (v AND 0xff) :: 8 word) = unat v mod 256"
    using unat_byte [of 0 v] by simp
  ultimately show ?thesis by (simp add: u16_of_def unat_byte del: drop_bit_eq_div)
qed

lemma digits3: "n = 256 * q + r0 \<Longrightarrow> q = 256 * a + r1 \<Longrightarrow> a = 256 * b + r2 \<Longrightarrow> r0 + 256 * r1 + 65536 * (r2 + 256 * b) = (n :: nat)"
  by simp

lemma u32_bytes:
  "u32_of [ucast ((v :: 32 word) AND 0xff), ucast (drop_bit 8 v AND 0xff), ucast (drop_bit 16 v AND 0xff),
           ucast (drop_bit 24 v AND 0xff)] = unat v"
proof -
  let ?n = "unat v"
  have l: "?n < 4294967296" using unsigned_less [of v] by simp
  have "unat (ucast (v AND 0xff) :: 8 word) = ?n mod 256"
    using unat_byte [of 0 v] by simp
  moreover have "?n div 16777216 mod 256 = ?n div 16777216" using l by simp
  moreover have "?n mod 256 + 256 * (?n div 256 mod 256) + 65536 * (?n div 65536 mod 256 + 256 * (?n div 16777216)) = ?n"
  proof -
    define q where "q = ?n div 256"
    have e: "?n div 65536 = q div 256" "?n div 16777216 = q div 256 div 256"
      by (simp_all add: q_def div_mult2_eq [symmetric])
    have "?n = 256 * q + ?n mod 256" "q = 256 * (q div 256) + q mod 256"
      "q div 256 = 256 * (q div 256 div 256) + q div 256 mod 256"
      unfolding q_def by (simp_all only: mult_div_mod_eq)
    then show ?thesis unfolding e q_def [symmetric] by (rule digits3)
  qed
  ultimately show ?thesis by (simp add: u32_of_def u16_of_def unat_byte)
qed

lemma sample_bytes: "ucast (ucast ((v :: 16 word) AND 0xff) :: 8 word) OR push_bit 8 (ucast (ucast (drop_bit 8 v AND 0xff) :: 8 word)) = v"
  unfolding and_ff by (rule bit_word_eqI) (auto simp: bit_simps)

lemma samples_of_bytes:
  "samples_of (concat (map (\<lambda>v. [ucast (v AND 0xff), ucast (drop_bit 8 v AND 0xff)]) pcm)) = pcm"
  by (induction pcm) (simp_all add: sample_bytes)

lemma foldl_append_u16:
  "foldl append_u16_le buf pcm = buf @ concat (map (\<lambda>v. [ucast (v AND 0xff), ucast (drop_bit 8 v AND 0xff)]) pcm)"
  by (induction pcm arbitrary: buf) (simp_all add: append_u16_le_def)

lemma char_of_byte: "char_of (unat (word_of_nat (code_of c) :: 8 word)) = c"
  using of_char_mod_256 [of c, where 'a = nat] by (simp add: code_of_def unsigned_of_nat take_bit_eq_mod)

lemma wav_header:
  "\<exists>h. write_wav pcm = h @ concat (map (\<lambda>v. [ucast (v AND 0xff), ucast (drop_bit 8 v AND 0xff)]) pcm) \<and>
     h = map (\<lambda>c. word_of_nat (code_of c)) ''RIFF'' @
         append_u32_le [] (36 + word_of_nat (length pcm * 2)) @ map (\<lambda>c. word_of_nat (code_of c)) ''WAVEfmt '' @
         [16, 0, 0, 0, 1, 0, 1, 0, 128, 62, 0, 0, 0, 125, 0, 0, 2, 0, 16, 0] @ map (\<lambda>c. word_of_nat (code_of c)) ''data'' @
         append_u32_le [] (word_of_nat (length pcm * 2))"
  by (simp add: write_wav_def Let_def foldl_append_u16 append_bytes_def append_u32_le_def append_u16_le_def
      kSampleRate_def kChannels_def kBitsPerSample_def kBlockAlign_def kByteRate_def)

lemma length_samples: "length (concat (map (\<lambda>v. [f v, g v]) pcm)) = 2 * length pcm"
  by (induction pcm) simp_all

lemma u32_of_nat: "n < 4294967296 \<Longrightarrow> u32_of (append_u32_le [] (word_of_nat n)) = n"
  using u32_bytes [of "word_of_nat n"]
  by (simp add: append_u32_le_def unsigned_of_nat take_bit_eq_mod)

lemma append_u32_shape: "\<exists>a b c d. append_u32_le [] v = [a, b, c, d]"
  by (simp add: append_u32_le_def)

text \<open>C25: up to the length where the 32-bit sizes of the header wrap, the file \<open>write_wav\<close> produces is a mono
  16 kHz file whose header agrees with its length and whose samples are the ones written.\<close>

theorem wav_roundtrip:
  assumes "length pcm * 2 + 36 < 4294967296"
  shows "read_wav (write_wav pcm) = Some (1, 16000, pcm) \<and> length (write_wav pcm) = 44 + length pcm * 2"
proof -
  let ?n = "length pcm * 2"
  let ?body = "concat (map (\<lambda>v. [ucast (v AND 0xff), ucast (drop_bit 8 v AND 0xff)]) pcm) :: 8 word list"
  obtain a b c d where r: "append_u32_le [] (36 + word_of_nat ?n) = [a, b, c, d]"
    using append_u32_shape by blast
  obtain p q u v where e: "append_u32_le [] (word_of_nat ?n) = [p, q, u, v]"
    using append_u32_shape by blast
  have sizes: "u32_of [a, b, c, d] = 36 + ?n" "u32_of [p, q, u, v] = ?n"
    using u32_of_nat [of "36 + ?n"] u32_of_nat [of ?n] assms r e by simp_all
  have w: "write_wav pcm = map (\<lambda>c. word_of_nat (code_of c)) ''RIFF'' @ [a, b, c, d] @
      map (\<lambda>c. word_of_nat (code_of c)) ''WAVEfmt '' @ [16, 0, 0, 0, 1, 0, 1, 0, 128, 62, 0, 0, 0, 125, 0, 0, 2, 0, 16, 0] @
      map (\<lambda>c. word_of_nat (code_of c)) ''data'' @ [p, q, u, v] @ ?body"
    using wav_header [of pcm] unfolding r e by simp
  have len: "length (write_wav pcm) = 44 + ?n" by (simp add: w length_samples)
  have "samples_of (drop 44 (write_wav pcm)) = pcm" by (simp add: w samples_of_bytes)
  moreover have "text_of (field 0 4 (write_wav pcm)) = ''RIFF''" "text_of (field 8 4 (write_wav pcm)) = ''WAVE''"
    "text_of (field 12 4 (write_wav pcm)) = ''fmt ''" "text_of (field 36 4 (write_wav pcm)) = ''data''"
    by (simp_all add: w field_def text_of_def char_of_byte)
  moreover have "u32_of (field 4 4 (write_wav pcm)) = 36 + ?n" "u32_of (field 40 4 (write_wav pcm)) = ?n"
    using sizes by (simp_all add: w field_def)
  moreover have "u32_of (field 16 4 (write_wav pcm)) = 16" "u16_of (field 20 2 (write_wav pcm)) = 1"
    "u16_of (field 22 2 (write_wav pcm)) = 1" "u32_of (field 24 4 (write_wav pcm)) = 16000"
    "u32_of (field 28 4 (write_wav pcm)) = 32000" "u16_of (field 32 2 (write_wav pcm)) = 2"
    "u16_of (field 34 2 (write_wav pcm)) = 16"
    by (simp_all add: w field_def u16_of_def u32_of_def)
  ultimately show ?thesis using len by (simp add: read_wav_def)
qed

theorem wav_roundtrip_witness:
  "read_wav (write_wav [1, 65535, 32768]) = Some (1, 16000, [1, 65535, 32768]) \<and>
   length (write_wav [1, 65535, 32768]) = 50"
  using wav_roundtrip [of "[1, 65535, 32768]"] by simp

end
