(* ===== verification/Engines.thy ===== *)
theory Engines
  imports TtsCodec StackFlowUtil
begin

text \<open>
  The engines the worker nodes wrap: \<open>rkllm_engine.cpp\<close>, \<open>asr_engine.cpp\<close> and \<open>tts_engine.cpp\<close>. The
  libraries under them (RKLLM, sherpa-onnx, the synthesizer, ALSA) are records of what their calls
  answer; each engine adds its guards, its loops and its error texts. A mutex around a whole method
  makes the method one step.
\<close>

text \<open>The texts of the \<open>R"(...)"\<close> literals.\<close>

definition error_text :: "int \<Rightarrow> string \<Rightarrow> string" where
  "error_text code msg =
     ''{'' @ quoted ''code'' @ '':'' @ int_to_string code @ '','' @ quoted ''message'' @ '':'' @ quoted msg @ ''}''"

section \<open>RKLLM\<close>

text \<open>One call of the library's callback: its state, and the text of a result that has one.\<close>

datatype rk_call = Run_normal "string option" | Run_finish | Run_error | Run_other

record rk_lib =
  rk_init :: "string \<Rightarrow> int"
  rk_run :: "string \<Rightarrow> rk_call list \<times> int"

record rk_engine = rk_handle :: bool

definition rk_engine_init :: "rk_lib \<Rightarrow> string \<Rightarrow> rk_engine \<Rightarrow> bool \<times> rk_engine" where
  "rk_engine_init lib model_path e =
     (if rk_handle e then (True, e)
      else if model_path = [] then (False, e)
      else if rk_init lib model_path \<noteq> 0 then (False, e\<lparr>rk_handle := False\<rparr>)
      else (True, e\<lparr>rk_handle := True\<rparr>))"

text \<open>\<open>RunStreamContext\<close> is the state the callback works on, and \<open>failed\<close>.\<close>

fun rkllm_callback ::
  "(string \<Rightarrow> bool \<Rightarrow> 'c \<Rightarrow> 'c res) option \<Rightarrow> rk_call \<Rightarrow> 'c \<times> bool \<Rightarrow> ('c \<times> bool) res" where
  "rkllm_callback (Some cb) (Run_normal (Some text)) (c, failed) = rbind (cb text False c) (\<lambda>c'. Inr (c', failed))"
| "rkllm_callback (Some cb) Run_finish (c, failed) = rbind (cb [] True c) (\<lambda>c'. Inr (c', failed))"
| "rkllm_callback cb Run_error (c, failed) = Inr (c, True)"
| "rkllm_callback cb _ (c, failed) = Inr (c, failed)"

fun rk_callbacks ::
  "(string \<Rightarrow> bool \<Rightarrow> 'c \<Rightarrow> 'c res) option \<Rightarrow> rk_call list \<Rightarrow> 'c \<times> bool \<Rightarrow> ('c \<times> bool) res" where
  "rk_callbacks cb [] x = Inr x"
| "rk_callbacks cb (r # rs) x = rbind (rkllm_callback cb r x) (rk_callbacks cb rs)"

definition rk_run_stream ::
  "rk_lib \<Rightarrow> string \<Rightarrow> (string \<Rightarrow> bool \<Rightarrow> 'c \<Rightarrow> 'c res) option \<Rightarrow> rk_engine \<Rightarrow> 'c \<Rightarrow> (bool \<times> 'c) res" where
  "rk_run_stream lib prompt callback e c =
     (if \<not> rk_handle e \<or> prompt = [] \<or> callback = None then Inr (False, c)
      else let (calls, ret) = rk_run lib prompt
           in rbind (rk_callbacks callback calls (c, False)) (\<lambda>(c', failed).
                Inr (\<not> (ret \<noteq> 0 \<or> failed), c')))"

text \<open>
  \<open>run\<close> passes a \<open>RunContext\<close> where the callback expects a \<open>RunStreamContext\<close>: any call that touches the
  context is undefined.
\<close>

fun touches_context :: "rk_call \<Rightarrow> bool" where
  "touches_context (Run_normal t) = (t \<noteq> None)"
| "touches_context Run_finish = True"
| "touches_context Run_error = True"
| "touches_context Run_other = False"

definition rk_run_plain :: "rk_lib \<Rightarrow> string \<Rightarrow> rk_engine \<Rightarrow> (bool \<times> string) res" where
  "rk_run_plain lib prompt e =
     (if \<not> rk_handle e \<or> prompt = [] then Inr (False, [])
      else let (calls, ret) = rk_run lib prompt
           in if list_ex touches_context calls then Inl Undefined else Inr (ret = 0, []))"

definition rk_shutdown :: "rk_engine \<Rightarrow> rk_engine" where
  "rk_shutdown e = (if rk_handle e then e\<lparr>rk_handle := False\<rparr> else e)"

section \<open>Speech recognition\<close>

text \<open>
  The recogniser over its stream type. Samples are 16-bit integers; the code hands their quotient by
  32768 to the library, which a \<open>float\<close> represents exactly.
\<close>

record 's asr_lib =
  asr_create_ok :: "string \<Rightarrow> bool"
  asr_stream :: "'s option"
  asr_accept :: "int list \<Rightarrow> 's \<Rightarrow> 's"
  asr_input_finished :: "'s \<Rightarrow> 's"
  asr_ready :: "'s \<Rightarrow> bool"
  asr_decode :: "'s \<Rightarrow> 's"
  asr_text :: "'s \<Rightarrow> string"
  asr_endpoint :: "'s \<Rightarrow> bool"

record asr_engine = recognizer :: bool

definition asr_init :: "'s asr_lib \<Rightarrow> string \<Rightarrow> asr_engine \<Rightarrow> bool \<times> asr_engine" where
  "asr_init lib model_dir e =
     (if \<not> asr_create_ok lib model_dir then (False, e) else (True, e\<lparr>recognizer := True\<rparr>))"

definition create_stream :: "'s asr_lib \<Rightarrow> asr_engine \<Rightarrow> 's option" where
  "create_stream lib e = (if recognizer e then asr_stream lib else None)"

text \<open>The loop over \<open>IsReady\<close>; \<open>None\<close> when it never ends.\<close>

partial_function (option) decode_all :: "'s asr_lib \<Rightarrow> 's \<Rightarrow> 's option" where
  "decode_all lib st = (if asr_ready lib st then decode_all lib (asr_decode lib st) else Some st)"

definition decoded :: "'s asr_lib \<Rightarrow> 's \<Rightarrow> 's res" where
  "decoded lib st = (case decode_all lib st of None \<Rightarrow> Inl NoReturn | Some st' \<Rightarrow> Inr st')"

text \<open>\<open>feed\<close> and \<open>finish\<close>: the stream, and the text and end-point flag, or \<open>None\<close> for \<open>false\<close>. The vector's
  \<open>data()\<close> is taken to be non-null for a non-empty vector.\<close>

definition asr_feed :: "'s asr_lib \<Rightarrow> int list \<Rightarrow> asr_engine \<Rightarrow> 's option \<Rightarrow> ('s option \<times> (string \<times> bool) option) res" where
  "asr_feed lib samples e stream =
     (case stream of
        None \<Rightarrow> Inr (stream, None)
      | Some st \<Rightarrow>
          if \<not> recognizer e then Inr (stream, None)
          else rbind (decoded lib (if samples \<noteq> [] then asr_accept lib samples st else st)) (\<lambda>st'.
                 Inr (Some st', Some (asr_text lib st', asr_endpoint lib st'))))"

definition asr_finish :: "'s asr_lib \<Rightarrow> asr_engine \<Rightarrow> 's option \<Rightarrow> ('s option \<times> string option) res" where
  "asr_finish lib e stream =
     (case stream of
        None \<Rightarrow> Inr (stream, None)
      | Some st \<Rightarrow>
          if \<not> recognizer e then Inr (stream, None)
          else rbind (decoded lib (asr_input_finished lib st)) (\<lambda>st'. Inr (Some st', Some (asr_text lib st'))))"

definition asr_reset :: "'s asr_lib \<Rightarrow> asr_engine \<Rightarrow> 's option \<Rightarrow> 's option" where
  "asr_reset lib e stream = (if \<not> recognizer e then stream else asr_stream lib)"

definition asr_shutdown :: "asr_engine \<Rightarrow> asr_engine" where
  "asr_shutdown e = e\<lparr>recognizer := False\<rparr>"

section \<open>Speech synthesis\<close>

text \<open>
  The synthesizer and ALSA; \<open>'f\<close> is \<open>float\<close>. \<open>tts_infer\<close> gives the array it allocated, if any, and the
  count it reports. \<open>device\<close> collects the frames ALSA accepted.
\<close>

record 'f tts_lib =
  tts_load :: "string \<Rightarrow> int \<times> bool"
  tts_infer :: "string \<Rightarrow> int \<Rightarrow> 'f \<Rightarrow> 16 word list option \<times> int"
  tts_speakers :: int
  fl_positive :: "'f \<Rightarrow> bool"
  pcm_open :: "string \<Rightarrow> int"
  pcm_set_params :: int
  pcm_recover :: "int \<Rightarrow> int"
  pcm_strerror :: "int \<Rightarrow> string"

record tts_engine =
  model_data :: bool
  model_size :: int
  alsa_device :: string
  synthesizer :: bool
  pcm_handle :: bool
  device :: "16 word list"

definition tts_engine_new :: tts_engine where
  "tts_engine_new = \<lparr>model_data = False, model_size = 0, alsa_device = ''default'', synthesizer = False,
     pcm_handle = False, device = []\<rparr>"

definition tts_shutdown :: "tts_engine \<Rightarrow> tts_engine" where
  "tts_shutdown e =
     (let e1 = e\<lparr>synthesizer := False, pcm_handle := False\<rparr>
      in if model_data e1 then e1\<lparr>model_data := False, model_size := 0\<rparr> else e1)"

definition tts_init :: "'f tts_lib \<Rightarrow> string \<Rightarrow> string \<Rightarrow> tts_engine \<Rightarrow> bool \<times> tts_engine" where
  "tts_init lib model_path dev e =
     (let e1 = (tts_shutdown e)\<lparr>alsa_device := (if dev = [] then ''default'' else dev)\<rparr>;
          (sz, data) = tts_load lib model_path
      in if sz \<le> 0 \<or> \<not> data then (False, e1\<lparr>model_data := False, model_size := 0\<rparr>)
         else (True, e1\<lparr>model_data := True, model_size := sz, synthesizer := True\<rparr>))"

text \<open>The samples, or the error text; \<open>assign\<close> reads \<open>sample_count\<close> elements of the array.\<close>

definition synthesize_to_pcm :: "'f tts_lib \<Rightarrow> string \<Rightarrow> int \<Rightarrow> 'f \<Rightarrow> tts_engine \<Rightarrow> (string + 16 word list) res" where
  "synthesize_to_pcm lib text speaker_id length_scale e =
     (if \<not> synthesizer e then Inr (Inl (error_text (- 11) ''TTS model is not initialized''))
      else if text = [] then Inr (Inl (error_text (- 24) ''text is empty''))
      else if \<not> fl_positive lib length_scale then Inr (Inl (error_text (- 2) ''length_scale must be positive''))
      else case tts_infer lib text speaker_id length_scale of
             (Some audio, sample_count) \<Rightarrow>
               if sample_count \<le> 0 then Inr (Inl (error_text (- 11) ''TTS inference failed''))
               else if length audio < nat sample_count then Inl Undefined
               else Inr (Inr (take (nat sample_count) audio))
           | (None, _) \<Rightarrow> Inr (Inl (error_text (- 11) ''TTS inference failed'')))"

text \<open>\<open>static_cast<int32_t>(pcm.size())\<close> beside the file.\<close>

definition synthesize_to_wav ::
  "'f tts_lib \<Rightarrow> string \<Rightarrow> int \<Rightarrow> 'f \<Rightarrow> tts_engine \<Rightarrow> (string + 8 word list \<times> int) res" where
  "synthesize_to_wav lib text speaker_id length_scale e =
     rbind (synthesize_to_pcm lib text speaker_id length_scale e) (\<lambda>r.
       Inr (case r of
              Inl err \<Rightarrow> Inl err
            | Inr pcm \<Rightarrow> Inr (write_wav pcm, to_int32 (int (length pcm)))))"

definition speaker_count :: "'f tts_lib \<Rightarrow> tts_engine \<Rightarrow> int" where
  "speaker_count lib e = (if \<not> synthesizer e then 0 else tts_speakers lib)"

text \<open>
  The write loop. The answers of \<open>snd_pcm_writei\<close> come from a list, one per call; when the list ends the
  call has not returned yet. \<open>-EPIPE\<close> (an underrun) and a recovered error are tried again. The result
  is the error text, if any.
\<close>

definition EPIPE :: int where "EPIPE = 32"

fun write_frames ::
  "'f tts_lib \<Rightarrow> int list \<Rightarrow> 16 word list \<Rightarrow> nat \<Rightarrow> tts_engine \<Rightarrow> (string option \<times> tts_engine) res" where
  "write_frames lib answers samples written e =
     (if \<not> written < length samples then Inr (None, e)
      else case answers of
             [] \<Rightarrow> Inl NoReturn
           | ret # answers' \<Rightarrow>
               if ret = - EPIPE then write_frames lib answers' samples written e
               else if ret < 0 then
                 (if pcm_recover lib ret < 0 then
                    Inr (Some (''{'' @ quoted ''code'' @ '':-11,'' @ quoted ''message'' @ '':'' @ [dquote] @
                           ''ALSA write failed: '' @ pcm_strerror lib ret @ [dquote] @ ''}''), e)
                  else write_frames lib answers' samples written e)
               else write_frames lib answers' samples (written + nat ret)
                      (e\<lparr>device := device e @ take (nat ret) (drop written samples)\<rparr>))"

text \<open>\<open>samples\<close> is null for an empty vector or has no elements; both give the same error.\<close>

definition play_pcm :: "'f tts_lib \<Rightarrow> int list \<Rightarrow> 16 word list \<Rightarrow> tts_engine \<Rightarrow> (string option \<times> tts_engine) res" where
  "play_pcm lib answers samples e =
     (let sample_count = to_int32 (int (length samples)) in
      if samples = [] \<or> sample_count \<le> 0 then Inr (Some (error_text (- 24) ''audio samples are empty''), e)
      else
        let open_err = (if pcm_handle e then 0 else pcm_open lib (alsa_device e))
        in if open_err < 0 then
             Inr (Some (''{'' @ quoted ''code'' @ '':-11,'' @ quoted ''message'' @ '':'' @ [dquote] @
               ''ALSA open failed for device '' @ alsa_device e @ '': '' @ pcm_strerror lib open_err @ [dquote] @ ''}''), e)
           else
             let e1 = e\<lparr>pcm_handle := True\<rparr>; err = pcm_set_params lib
             in if err < 0 then
                  Inr (Some (''{'' @ quoted ''code'' @ '':-11,'' @ quoted ''message'' @ '':'' @ [dquote] @
                    ''ALSA set params failed: '' @ pcm_strerror lib err @ [dquote] @ ''}''), e1)
                else write_frames lib answers (take (nat sample_count) samples) 0 e1)"

definition synthesize_and_play ::
  "'f tts_lib \<Rightarrow> int list \<Rightarrow> string \<Rightarrow> int \<Rightarrow> 'f \<Rightarrow> tts_engine \<Rightarrow> (string option \<times> tts_engine) res" where
  "synthesize_and_play lib answers text speaker_id length_scale e =
     rbind (synthesize_to_pcm lib text speaker_id length_scale e) (\<lambda>r.
       case r of Inl err \<Rightarrow> Inr (Some err, e) | Inr pcm \<Rightarrow> play_pcm lib answers pcm e)"

section \<open>Playback\<close>

declare write_frames.simps [simp del]

lemma write_frames_done [simp]: "length samples \<le> written \<Longrightarrow> write_frames lib answers samples written e = Inr (None, e)"
  by (simp add: write_frames.simps [of lib answers])

lemma write_frames_wait [simp]: "written < length samples \<Longrightarrow> write_frames lib [] samples written e = Inl NoReturn"
  by (simp add: write_frames.simps [of lib "[]"])

lemma write_frames_again:
  "written < length samples \<Longrightarrow> a = - EPIPE \<or> a < 0 \<and> 0 \<le> pcm_recover lib a \<Longrightarrow>
   write_frames lib (a # as) samples written e = write_frames lib as samples written e"
  by (auto simp: write_frames.simps [of lib "a # as"])

lemma write_frames_give_up:
  "written < length samples \<Longrightarrow> a < 0 \<Longrightarrow> a \<noteq> - EPIPE \<Longrightarrow> pcm_recover lib a < 0 \<Longrightarrow>
   \<exists>err. write_frames lib (a # as) samples written e = Inr (Some err, e)"
  by (simp add: write_frames.simps [of lib "a # as"])

lemma write_frames_some:
  "written < length samples \<Longrightarrow> 0 \<le> a \<Longrightarrow>
   write_frames lib (a # as) samples written e =
     write_frames lib as samples (written + nat a) (e\<lparr>device := device e @ take (nat a) (drop written samples)\<rparr>)"
  by (simp add: write_frames.simps [of lib "a # as"] EPIPE_def)

lemma written_and_rest: "take m (drop k xs) @ drop (k + m) xs = drop k xs"
  by (metis append_take_drop_id drop_drop add.commute)

lemma written_and_more: "take m (drop k xs) @ take n (drop (k + m) xs) = take (m + n) (drop k xs)"
  by (simp add: take_add add.commute)

lemma write_frames_completes:
  assumes "\<forall>a \<in> set answers. a < 0 \<and> a \<noteq> - EPIPE \<longrightarrow> 0 \<le> pcm_recover lib a"
    "length samples \<le> written + sum_list (map nat answers)"
  shows "\<exists>e'. write_frames lib answers samples written e = Inr (None, e') \<and> device e' = device e @ drop written samples"
  using assms
proof (induction answers arbitrary: written e)
  case (Cons a as)
  consider "length samples \<le> written" | "written < length samples" "a < 0" | "written < length samples" "0 \<le> a"
    by linarith
  then show ?case
  proof cases
    case 2
    then have "a = - EPIPE \<or> a < 0 \<and> 0 \<le> pcm_recover lib a" using Cons.prems(1) by auto
    with 2 Cons.IH [of written e] Cons.prems show ?thesis by (simp add: write_frames_again)
  next
    case 3
    let ?e = "e\<lparr>device := device e @ take (nat a) (drop written samples)\<rparr>"
    obtain e' where "write_frames lib as samples (written + nat a) ?e = Inr (None, e')"
      "device e' = device ?e @ drop (written + nat a) samples"
      using Cons.IH [of "written + nat a" ?e] Cons.prems by (auto simp: add.assoc)
    with 3 show ?thesis by (simp add: write_frames_some written_and_rest)
  qed simp
qed simp

lemma write_frames_prefix:
  "write_frames lib answers samples written e = Inr (r, e') \<Longrightarrow>
   (\<exists>k. device e' = device e @ take k (drop written samples)) \<and> (r = None \<longrightarrow> device e' = device e @ drop written samples)"
proof (induction answers arbitrary: written e)
  case Nil
  then show ?case by (cases "written < length samples") (auto intro: exI [of _ 0])
next
  case (Cons a as)
  consider "length samples \<le> written" | "written < length samples" "a = - EPIPE \<or> a < 0 \<and> 0 \<le> pcm_recover lib a"
    | "written < length samples" "a < 0" "a \<noteq> - EPIPE" "pcm_recover lib a < 0" | "written < length samples" "0 \<le> a"
    by linarith
  then show ?case
  proof cases
    case 1
    with Cons.prems show ?thesis by (auto intro: exI [of _ 0])
  next
    case 2
    with Cons show ?thesis by (simp add: write_frames_again)
  next
    case 3
    with Cons.prems write_frames_give_up [OF 3, of as e] show ?thesis by (auto intro: exI [of _ 0])
  next
    case 4
    let ?e = "e\<lparr>device := device e @ take (nat a) (drop written samples)\<rparr>"
    have "(\<exists>k. device e' = device ?e @ take k (drop (written + nat a) samples)) \<and>
        (r = None \<longrightarrow> device e' = device ?e @ drop (written + nat a) samples)"
      using Cons.IH [of "written + nat a" ?e] Cons.prems 4 by (simp add: write_frames_some)
    then show ?thesis by (auto simp: written_and_rest written_and_more)
  qed
qed

text \<open>C31: playback terminates with everything played. If ALSA opens and keeps accepting frames, however few at a time
  and with however many underruns and recoverable errors in between, then \<open>play_pcm\<close> returns
  success as soon as the counts accepted add up to the samples, and the device got exactly the samples,
  in order. Whatever ALSA answers, an error leaves it with a prefix of them.\<close>

theorem playback_completes:
  assumes "samples \<noteq> []" "length samples < 2 ^ 31"
    and "pcm_handle e \<or> 0 \<le> pcm_open lib (alsa_device e)" "0 \<le> pcm_set_params lib"
  shows "((\<forall>a \<in> set answers. a < 0 \<and> a \<noteq> - EPIPE \<longrightarrow> 0 \<le> pcm_recover lib a) \<and> length samples \<le> sum_list (map nat answers) \<longrightarrow>
       (\<exists>e'. play_pcm lib answers samples e = Inr (None, e') \<and> device e' = device e @ samples)) \<and>
    (\<forall>r e'. play_pcm lib answers samples e = Inr (r, e') \<longrightarrow>
       (\<exists>k. device e' = device e @ take k samples) \<and> (r = None \<longrightarrow> device e' = device e @ samples))"
proof -
  have n: "to_int32 (int (length samples)) = int (length samples)"
    using assms(2) by (intro to_int32_id) (auto simp: int_min_def int_max_def)
  have "play_pcm lib answers samples e = write_frames lib answers samples 0 (e\<lparr>pcm_handle := True\<rparr>)"
    using assms n by (auto simp: play_pcm_def Let_def)
  moreover have "\<exists>e'. write_frames lib answers samples 0 (e\<lparr>pcm_handle := True\<rparr>) = Inr (None, e') \<and> device e' = device e @ samples"
    if "\<forall>a \<in> set answers. a < 0 \<and> a \<noteq> - EPIPE \<longrightarrow> 0 \<le> pcm_recover lib a" "length samples \<le> sum_list (map nat answers)"
    using write_frames_completes [of answers lib samples 0 "e\<lparr>pcm_handle := True\<rparr>"] that by simp
  moreover have "(\<exists>k. device e' = device e @ take k samples) \<and> (r = None \<longrightarrow> device e' = device e @ samples)"
    if "write_frames lib answers samples 0 (e\<lparr>pcm_handle := True\<rparr>) = Inr (r, e')" for r e'
    using write_frames_prefix [OF that] by simp
  ultimately show ?thesis by (simp only:) blast
qed

definition sample_tts :: "unit tts_lib" where
  "sample_tts = \<lparr>tts_load = \<lambda>_. (1, True), tts_infer = \<lambda>_ _ _. (None, 0), tts_speakers = 1, fl_positive = \<lambda>_. True,
     pcm_open = \<lambda>_. 0, pcm_set_params = 0, pcm_recover = \<lambda>_. 0, pcm_strerror = \<lambda>_. []\<rparr>"

theorem playback_completes_witness:
  "\<exists>e'. play_pcm sample_tts [2, - 32, - 86, 0, 1] [10, 20, 30] tts_engine_new = Inr (None, e') \<and> device e' = [10, 20, 30]"
  using playback_completes [of "[10, 20, 30]" tts_engine_new sample_tts "[2, - 32, - 86, 0, 1]"]
  by (simp add: sample_tts_def tts_engine_new_def)

end
