(* ===== verification/WorkerNodes.thy ===== *)
theory WorkerNodes
  imports Nodes JobQueue Engines
begin

text \<open>
  The nodes with a worker thread: \<open>node/llm\<close>, \<open>node/asr\<close> and \<open>node/tts\<close>. Each keeps a table of
  sessions, a bounded job queue and an engine; an inference message becomes a job, the worker runs the
  jobs one after another. The parts the three classes repeat are defined once, with what differs as
  arguments. A job names its task and channel by the session number: a weak pointer is alive while
  the number is in the table, which presumes that the unit manager never gives a number twice.
\<close>

section \<open>Sessions\<close>

record job =
  job_task :: int
  job_work_id :: string
  job_request_id :: string
  job_input :: string
  job_stream :: bool

record ('t, 'e) worker_node =
  wk_tasks :: "(int \<times> 't) list"
  wk_max_sessions :: nat
  wk_jobs :: "job node_job_queue"
  wk_engine :: 'e

type_synonym ('t, 'e) worker = "('t, 'e) worker_node stack_flow"

definition worker_new :: "zmq_env \<Rightarrow> string \<Rightarrow> nat \<Rightarrow> nat \<Rightarrow> 'e \<Rightarrow> ('t, 'e) worker" where
  "worker_new env uname max_sessions max_queue e =
     stack_flow_new env uname
       \<lparr>wk_tasks = [], wk_max_sessions = max_sessions, wk_jobs = job_queue_new max_queue, wk_engine = e\<rparr>"

definition set_tasks :: "(int \<times> 't) list \<Rightarrow> ('t, 'e) worker \<Rightarrow> ('t, 'e) worker" where
  "set_tasks ts s = s\<lparr>node := (node s)\<lparr>wk_tasks := ts\<rparr>\<rparr>"

definition set_jobs :: "job node_job_queue \<Rightarrow> ('t, 'e) worker \<Rightarrow> ('t, 'e) worker" where
  "set_jobs q s = s\<lparr>node := (node s)\<lparr>wk_jobs := q\<rparr>\<rparr>"

definition send_text :: "sf_env \<Rightarrow> string \<Rightarrow> string \<Rightarrow> 'n stack_flow \<Rightarrow> 'n stack_flow res" where
  "send_text env msg work_id s = sf_send env ''None'' (JStr ''None'') msg work_id [] s"

definition session_full :: "('t, 'e) worker \<Rightarrow> bool" where
  "session_full s \<longleftrightarrow> wk_max_sessions (node s) \<le> length (wk_tasks (node s))"

text \<open>\<open>mk\<close> builds the task, or gives the error text when it is not ready.\<close>

definition session_setup ::
  "sf_env \<Rightarrow> bool \<Rightarrow> ('e \<Rightarrow> string + 't) \<Rightarrow> string \<Rightarrow> ('t, 'e) worker \<Rightarrow> (int \<times> ('t, 'e) worker) res" where
  "session_setup env stream mk work_id s =
     (let fail = (\<lambda>msg s. rbind (send_text env msg work_id s) (\<lambda>s'. Inr (- 1, s')))
      in if session_full s then fail (error_text (- 21) ''session full'') s
         else
           rbind (sample_get_work_id_num work_id) (\<lambda>n.
           rbind (get_channel_by_id work_id s) (\<lambda>ch.
           case mk (wk_engine (node s)) of
             Inl msg \<Rightarrow> fail msg s
           | Inr t \<Rightarrow>
               rbind (subscriber_work_id (sf_zmq env) [] (set_stream stream (set_output True ch))) (\<lambda>(ret, ch').
                 let s1 = put_channel n ch' s
                 in if ret \<noteq> 0 then fail (error_text (- 11) ''subscribe failed'') s1
                    else if session_full s1 then
                      fail (error_text (- 21) ''session full'') (put_channel n (stop_subscriber [] ch') s1)
                    else
                      rbind (send_text env [] work_id (set_tasks (AList.update n t (wk_tasks (node s1))) s1))
                        (\<lambda>s2. Inr (0, s2))))))"

text \<open>\<open>missing\<close> reports that there is no such session.\<close>

definition session_exit ::
  "sf_env \<Rightarrow> (('t, 'e) worker \<Rightarrow> ('t, 'e) worker res) \<Rightarrow> string \<Rightarrow> ('t, 'e) worker \<Rightarrow> (int \<times> ('t, 'e) worker) res" where
  "session_exit env missing work_id s =
     rbind (sample_get_work_id_num work_id) (\<lambda>n.
     if map_of (wk_tasks (node s)) n = None then rbind (missing s) (\<lambda>s'. Inr (- 1, s'))
     else
       rbind (unsubscribe n (set_tasks (AList.delete n (wk_tasks (node s))) s)) (\<lambda>s1.
       rbind (send_text env [] work_id s1) (\<lambda>s2. Inr (0, s2))))"

definition session_names :: "('t, 'e) worker \<Rightarrow> json" where
  "session_names s = JArr (map (\<lambda>t. JStr (sample_get_work_id (fst t) (unit_name s))) (wk_tasks (node s)))"

section \<open>Jobs\<close>

definition enqueue_job :: "sf_env \<Rightarrow> job \<Rightarrow> ('t, 'e) worker \<Rightarrow> ('t, 'e) worker res" where
  "enqueue_job env j s =
     (let (ok, q) = queue_push j (wk_jobs (node s))
      in if \<not> ok then
           send_on env (job_task j) ''None'' (JStr ''None'') (error_text (- 22) ''queue full'') (job_work_id j) s
         else Inr (set_jobs q s))"

definition queue_inference ::
  "sf_env \<Rightarrow> bool \<Rightarrow> int \<Rightarrow> string \<Rightarrow> string \<Rightarrow> string \<Rightarrow> ('t, 'e) worker \<Rightarrow> ('t, 'e) worker res" where
  "queue_inference env stream n work_id object data s =
     (case (map_of (wk_tasks (node s)) n, map_of (llm_task_channel s) n) of
        (Some _, Some ch) \<Rightarrow>
          enqueue_job env \<lparr>job_task = n, job_work_id = work_id, job_request_id = ch_request_id ch,
                           job_input = data, job_stream = stream\<rparr> s
      | _ \<Rightarrow> Inr s)"

text \<open>
  One turn of the worker's loop, in the two parts between which other threads may run: the next job is
  taken and its request id put into the channel, then the job runs. \<open>worker_begin\<close> is \<open>None\<close> while the
  worker waits and has no job when the loop ends; the task is absent when a weak pointer has expired.
\<close>

definition worker_begin :: "('t, 'e) worker \<Rightarrow> ((job \<times> 't option) option \<times> ('t, 'e) worker) option" where
  "worker_begin s =
     (case wait_pop (wk_jobs (node s)) of
        None \<Rightarrow> None
      | Some (None, q) \<Rightarrow> Some (None, s)
      | Some (Some j, q) \<Rightarrow>
          (let s1 = set_jobs q s
           in case (map_of (wk_tasks (node s1)) (job_task j), map_of (llm_task_channel s1) (job_task j)) of
                (Some t, Some ch) \<Rightarrow>
                  Some (Some (j, Some t), put_channel (job_task j) (ch\<lparr>ch_request_id := job_request_id j\<rparr>) s1)
              | _ \<Rightarrow> Some (Some (j, None), s1)))"

definition worker_turn ::
  "(job \<Rightarrow> 't \<Rightarrow> ('t, 'e) worker \<Rightarrow> ('t, 'e) worker res) \<Rightarrow> ('t, 'e) worker \<Rightarrow> (bool \<times> ('t, 'e) worker) res option" where
  "worker_turn run s =
     (case worker_begin s of
        None \<Rightarrow> None
      | Some (None, s1) \<Rightarrow> Some (Inr (False, s1))
      | Some (Some (j, None), s1) \<Rightarrow> Some (Inr (True, s1))
      | Some (Some (j, Some t), s1) \<Rightarrow> Some (rbind (run j t s1) (\<lambda>s2. Inr (True, s2))))"

definition stop_worker :: "('t, 'e) worker \<Rightarrow> ('t, 'e) worker" where
  "stop_worker s = set_jobs (queue_stop (wk_jobs (node s))) s"

text \<open>The destructor after the worker has been joined.\<close>

definition worker_destroy :: "('t, 'e) worker \<Rightarrow> ('t, 'e) worker res" where
  "worker_destroy s = rbind (unsubscribe_all (map fst (wk_tasks (node s))) s) (\<lambda>s'. Inr (set_tasks [] s'))"

section \<open>JSON access\<close>

text \<open>\<open>value(key, default)\<close>: \<open>None\<close> for an exception; \<open>get\<close> is the conversion to the type of the default.\<close>

fun json_is_object :: "json \<Rightarrow> bool" where
  "json_is_object (JObj _) = True"
| "json_is_object _ = False"

definition json_value :: "(json \<Rightarrow> 'a option) \<Rightarrow> json \<Rightarrow> string \<Rightarrow> 'a \<Rightarrow> 'a option" where
  "json_value get body key dflt =
     (if \<not> json_is_object body then None
      else case json_field body key of None \<Rightarrow> Some dflt | Some v \<Rightarrow> get v)"

fun get_bool :: "json \<Rightarrow> bool option" where
  "get_bool (JBool b) = Some b"
| "get_bool _ = None"

fun get_string :: "json \<Rightarrow> string option" where
  "get_string (JStr s) = Some s"
| "get_string _ = None"

text \<open>Floating point: the operations the nodes use. \<open>fl_trunc\<close> is the cast of a number to an integer.\<close>

record 'f floats =
  fl_of_int :: "int \<Rightarrow> 'f"
  fl_of_double :: "double \<Rightarrow> 'f"
  fl_to_json :: "'f \<Rightarrow> json"
  fl_trunc :: "double \<Rightarrow> int"

fun get_number :: "'f floats \<Rightarrow> json \<Rightarrow> int option" where
  "get_number fl (JInt i) = Some i"
| "get_number fl (JFloat x) = Some (fl_trunc fl x)"
| "get_number fl (JBool b) = Some (if b then 1 else 0)"
| "get_number fl _ = None"

fun get_float :: "'f floats \<Rightarrow> json \<Rightarrow> 'f option" where
  "get_float fl (JInt i) = Some (fl_of_int fl i)"
| "get_float fl (JFloat x) = Some (fl_of_double fl x)"
| "get_float fl (JBool b) = Some (fl_of_int fl (if b then 1 else 0))"
| "get_float fl _ = None"

definition to_int16 :: "int \<Rightarrow> int" where
  "to_int16 v = (v + 32768) mod 65536 - 32768"

fun get_samples :: "'f floats \<Rightarrow> json \<Rightarrow> int list option" where
  "get_samples fl (JArr js) = those (map (\<lambda>j. map_option to_int16 (get_number fl j)) js)"
| "get_samples fl _ = None"

section \<open>rkllm\<close>

type_synonym rkllm_node = "(unit, rk_engine) worker"

definition rkllm_new :: "zmq_env \<Rightarrow> (string \<Rightarrow> string option) \<Rightarrow> rk_engine \<Rightarrow> rkllm_node" where
  "rkllm_new env getenv e =
     worker_new env ''rkllm'' (read_size_env (getenv ''RKLLM_MAX_SESSIONS'') 8)
       (read_size_env (getenv ''RKLLM_MAX_QUEUE_SIZE'') 64) e"

definition rkllm_setup :: "sf_env \<Rightarrow> string \<Rightarrow> string \<Rightarrow> string \<Rightarrow> rkllm_node \<Rightarrow> (int \<times> rkllm_node) res" where
  "rkllm_setup env work_id object data s = session_setup env True (\<lambda>_. Inr ()) work_id s"

text \<open>The error object is passed as the error text.\<close>

definition rkllm_exit :: "sf_env \<Rightarrow> string \<Rightarrow> string \<Rightarrow> string \<Rightarrow> rkllm_node \<Rightarrow> (int \<times> rkllm_node) res" where
  "rkllm_exit env work_id object data s =
     session_exit env (send_error_body env (error_object (- 6) ''Unit Does Not Exist'') work_id) work_id s"

definition rkllm_taskinfo :: "sf_env \<Rightarrow> string \<Rightarrow> string \<Rightarrow> string \<Rightarrow> rkllm_node \<Rightarrow> rkllm_node res" where
  "rkllm_taskinfo env work_id object data s = sf_send env ''rkllm.tasklist'' (session_names s) [] work_id [] s"

definition rkllm_on_inference_stream ::
  "sf_env \<Rightarrow> int \<Rightarrow> string \<Rightarrow> string \<Rightarrow> string \<Rightarrow> rkllm_node \<Rightarrow> rkllm_node res" where
  "rkllm_on_inference_stream env n work_id object data s = queue_inference env True n work_id object data s"

definition rkllm_on_inference ::
  "sf_env \<Rightarrow> int \<Rightarrow> string \<Rightarrow> string \<Rightarrow> string \<Rightarrow> rkllm_node \<Rightarrow> rkllm_node res" where
  "rkllm_on_inference env n work_id object data s = queue_inference env False n work_id object data s"

text \<open>The prompt of a request, or the error text.\<close>

definition rkllm_prompt :: "sf_env \<Rightarrow> string \<Rightarrow> string + string" where
  "rkllm_prompt env data =
     (case sf_parse env data of
        None \<Rightarrow> Inl (error_text (- 2) ''data.prompt must be a string'')
      | Some body \<Rightarrow>
          (case json_field body ''prompt'' of
             Some (JStr prompt) \<Rightarrow> if prompt = [] then Inl (error_text (- 24) ''prompt is empty'') else Inr prompt
           | _ \<Rightarrow> Inl (error_text (- 2) ''data.prompt must be a string'')))"

definition rkllm_inference :: "sf_env \<Rightarrow> rk_lib \<Rightarrow> rk_engine \<Rightarrow> string \<Rightarrow> (string + json) res" where
  "rkllm_inference env lib e data =
     (case rkllm_prompt env data of
        Inl err \<Rightarrow> Inr (Inl err)
      | Inr prompt \<Rightarrow>
          rbind (rk_run_plain lib prompt e) (\<lambda>(ok, out).
            Inr (if ok then Inr (json_object [(''text'', JStr out)])
                 else Inl (error_text (- 11) ''RKLLM inference failed''))))"

text \<open>\<open>inference_stream\<close>: the error text, if any, and the state the callback left.\<close>

definition rkllm_inference_stream ::
  "sf_env \<Rightarrow> rk_lib \<Rightarrow> rk_engine \<Rightarrow> string \<Rightarrow> (string \<Rightarrow> bool \<Rightarrow> 'c \<Rightarrow> 'c res) \<Rightarrow> 'c \<Rightarrow> (string option \<times> 'c) res" where
  "rkllm_inference_stream env lib e data cb c =
     (case rkllm_prompt env data of
        Inl err \<Rightarrow> Inr (Some err, c)
      | Inr prompt \<Rightarrow>
          rbind (rk_run_stream lib prompt (Some cb) e c) (\<lambda>(ok, c').
            Inr (if ok then None else Some (error_text (- 11) ''RKLLM inference failed''), c')))"

text \<open>The worker's callback: one numbered message per piece of text, the last with \<open>finish\<close>.\<close>

definition rkllm_delta :: "sf_env \<Rightarrow> job \<Rightarrow> string \<Rightarrow> bool \<Rightarrow> int \<times> rkllm_node \<Rightarrow> (int \<times> rkllm_node) res" where
  "rkllm_delta env j text finish = (\<lambda>(index, s).
     rbind (get_channel (job_task j) s) (\<lambda>ch.
     let s1 = put_channel (job_task j) (ch\<lparr>ch_request_id := job_request_id j\<rparr>) s;
         body = json_object [(''index'', JInt index), (''delta'', JStr (if finish then [] else text)),
                             (''finish'', JBool finish)]
     in rbind (send_on env (job_task j) ''rkllm.result.stream'' body [] (job_work_id j) s1)
          (\<lambda>s2. Inr (to_int32 (index + 1), s2))))"

definition rkllm_run_job :: "sf_env \<Rightarrow> rk_lib \<Rightarrow> job \<Rightarrow> unit \<Rightarrow> rkllm_node \<Rightarrow> rkllm_node res" where
  "rkllm_run_job env lib j t s =
     (let fail = (\<lambda>err s. send_on env (job_task j) ''None'' (JStr ''None'') err (job_work_id j) s)
      in if job_stream j then
           rbind (rkllm_inference_stream env lib (wk_engine (node s)) (job_input j) (rkllm_delta env j) (0, s))
             (\<lambda>(err, _, s1). case err of None \<Rightarrow> Inr s1 | Some e \<Rightarrow> fail e s1)
         else
           rbind (rkllm_inference env lib (wk_engine (node s)) (job_input j)) (\<lambda>r.
             case r of
               Inl err \<Rightarrow> fail err s
             | Inr result \<Rightarrow> send_on env (job_task j) ''rkllm.result'' result [] (job_work_id j) s))"

definition rkllm_ops :: "sf_env \<Rightarrow> (unit, rk_engine) worker_node node_ops" where
  "rkllm_ops env = \<lparr>op_setup = rkllm_setup env, op_exit = rkllm_exit env, op_pause = base_pause env,
                    op_taskinfo = rkllm_taskinfo env\<rparr>"

section \<open>asr\<close>

type_synonym 's asr_node = "('s option, asr_engine) worker"

definition asr_new :: "zmq_env \<Rightarrow> (string \<Rightarrow> string option) \<Rightarrow> asr_engine \<Rightarrow> 's asr_node" where
  "asr_new env getenv e =
     worker_new env ''asr'' (read_size_env (getenv ''ASR_MAX_SESSIONS'') 8)
       (read_size_env (getenv ''ASR_MAX_QUEUE_SIZE'') 256) e"

definition asr_setup ::
  "sf_env \<Rightarrow> 's asr_lib \<Rightarrow> string \<Rightarrow> string \<Rightarrow> string \<Rightarrow> 's asr_node \<Rightarrow> (int \<times> 's asr_node) res" where
  "asr_setup env lib work_id object data s =
     session_setup env True (\<lambda>e. case create_stream lib e of
         None \<Rightarrow> Inl (error_text (- 11) ''create ASR stream failed'')
       | Some st \<Rightarrow> Inr (Some st)) work_id s"

definition asr_exit :: "sf_env \<Rightarrow> string \<Rightarrow> string \<Rightarrow> string \<Rightarrow> 's asr_node \<Rightarrow> (int \<times> 's asr_node) res" where
  "asr_exit env work_id object data s =
     session_exit env (send_text env (error_text (- 6) ''Unit Does Not Exist'') work_id) work_id s"

definition asr_taskinfo :: "sf_env \<Rightarrow> string \<Rightarrow> string \<Rightarrow> string \<Rightarrow> 's asr_node \<Rightarrow> 's asr_node res" where
  "asr_taskinfo env work_id object data s = sf_send env ''asr.tasklist'' (session_names s) [] work_id [] s"

definition asr_on_inference ::
  "sf_env \<Rightarrow> int \<Rightarrow> string \<Rightarrow> string \<Rightarrow> string \<Rightarrow> 's asr_node \<Rightarrow> 's asr_node res" where
  "asr_on_inference env n work_id object data s = queue_inference env False n work_id object data s"

text \<open>The stream afterwards, and the result or the error text.\<close>

definition asr_inference ::
  "sf_env \<Rightarrow> 'f floats \<Rightarrow> 's asr_lib \<Rightarrow> asr_engine \<Rightarrow> string \<Rightarrow> 's option \<Rightarrow> ('s option \<times> (string + json)) res" where
  "asr_inference env fl lib e data st =
     (let bad = Inr (st, Inl (error_text (- 2) ''data must contain PCM16 samples or finish=true''));
          result = (\<lambda>text endpoint final. json_object
            [(''text'', JStr text), (''endpoint'', JBool endpoint), (''final'', JBool final)])
      in case sf_parse env data of
           None \<Rightarrow> bad
         | Some body \<Rightarrow>
             (case json_value get_bool body ''finish'' False of
                None \<Rightarrow> bad
              | Some True \<Rightarrow>
                  rbind (asr_finish lib e st) (\<lambda>(st', r).
                    Inr (case r of
                           None \<Rightarrow> (st', Inl (error_text (- 11) ''ASR finish failed''))
                         | Some text \<Rightarrow> (asr_reset lib e st', Inr (result text True True))))
              | Some False \<Rightarrow>
                  (case Option.bind (json_field body ''samples'') (get_samples fl) of
                     None \<Rightarrow> bad
                   | Some samples \<Rightarrow>
                       rbind (asr_feed lib samples e st) (\<lambda>(st', r).
                         Inr (case r of
                                None \<Rightarrow> (st', Inl (error_text (- 11) ''ASR inference failed''))
                              | Some (text, endpoint) \<Rightarrow>
                                  (if endpoint then asr_reset lib e st' else st',
                                   Inr (result text endpoint endpoint)))))))"

definition asr_run_job ::
  "sf_env \<Rightarrow> 'f floats \<Rightarrow> 's asr_lib \<Rightarrow> job \<Rightarrow> 's option \<Rightarrow> 's asr_node \<Rightarrow> 's asr_node res" where
  "asr_run_job env fl lib j st s =
     rbind (asr_inference env fl lib (wk_engine (node s)) (job_input j) st) (\<lambda>(st', r).
       let s1 = set_tasks (AList.update (job_task j) st' (wk_tasks (node s))) s
       in case r of
            Inl err \<Rightarrow> send_on env (job_task j) ''None'' (JStr ''None'') err (job_work_id j) s1
          | Inr result \<Rightarrow> send_on env (job_task j) ''asr.result.stream'' result [] (job_work_id j) s1)"

definition asr_ops :: "'s asr_lib \<Rightarrow> sf_env \<Rightarrow> ('s option, asr_engine) worker_node node_ops" where
  "asr_ops lib env = \<lparr>op_setup = asr_setup env lib, op_exit = asr_exit env, op_pause = base_pause env,
                      op_taskinfo = asr_taskinfo env\<rparr>"

section \<open>tts\<close>

type_synonym tts_node = "(unit, tts_engine) worker"

definition tts_new :: "zmq_env \<Rightarrow> (string \<Rightarrow> string option) \<Rightarrow> tts_engine \<Rightarrow> tts_node" where
  "tts_new env getenv e =
     worker_new env ''tts'' (read_size_env (getenv ''TTS_MAX_SESSIONS'') 8)
       (read_size_env (getenv ''TTS_MAX_QUEUE_SIZE'') 64) e"

definition tts_setup :: "sf_env \<Rightarrow> string \<Rightarrow> string \<Rightarrow> string \<Rightarrow> tts_node \<Rightarrow> (int \<times> tts_node) res" where
  "tts_setup env work_id object data s = session_setup env False (\<lambda>_. Inr ()) work_id s"

definition tts_exit :: "sf_env \<Rightarrow> string \<Rightarrow> string \<Rightarrow> string \<Rightarrow> tts_node \<Rightarrow> (int \<times> tts_node) res" where
  "tts_exit env work_id object data s =
     session_exit env (send_text env (error_text (- 6) ''Unit Does Not Exist'') work_id) work_id s"

definition tts_taskinfo :: "sf_env \<Rightarrow> 'f tts_lib \<Rightarrow> string \<Rightarrow> string \<Rightarrow> string \<Rightarrow> tts_node \<Rightarrow> tts_node res" where
  "tts_taskinfo env lib work_id object data s =
     sf_send env ''tts.taskinfo''
       (json_object [(''tasks'', session_names s), (''sample_rate'', JInt 16000),
                     (''speaker_count'', JInt (speaker_count lib (wk_engine (node s))))]) [] work_id [] s"

definition tts_on_inference :: "sf_env \<Rightarrow> int \<Rightarrow> string \<Rightarrow> string \<Rightarrow> string \<Rightarrow> tts_node \<Rightarrow> tts_node res" where
  "tts_on_inference env n work_id object data s = queue_inference env False n work_id object data s"

text \<open>The fields of a request, read one after another: an exception keeps the ones read before it.\<close>

record 'f tts_request =
  rq_text :: string
  rq_format :: string
  rq_play :: bool
  rq_speaker :: int
  rq_scale :: 'f

definition tts_read_steps :: "'f floats \<Rightarrow> json \<Rightarrow> ('f tts_request \<Rightarrow> 'f tts_request option) list" where
  "tts_read_steps fl body =
     [\<lambda>r. map_option (\<lambda>t. r\<lparr>rq_text := t\<rparr>) (json_value get_string body ''text'' []),
      \<lambda>r. if rq_text r = [] then map_option (\<lambda>t. r\<lparr>rq_text := t\<rparr>) (json_value get_string body ''delta'' []) else Some r,
      \<lambda>r. Option.bind (json_value get_string body ''response_format'' (rq_format r)) (\<lambda>d.
            map_option (\<lambda>f. r\<lparr>rq_format := f\<rparr>) (json_value get_string body ''format'' d)),
      \<lambda>r. map_option (\<lambda>b. r\<lparr>rq_play := b\<rparr>) (json_value get_bool body ''play'' (rq_play r)),
      \<lambda>r. map_option (\<lambda>v. r\<lparr>rq_speaker := to_int32 v\<rparr>) (json_value (get_number fl) body ''speaker_id'' 0),
      \<lambda>r. Option.bind (json_value (get_float fl) body ''speed'' (fl_of_int fl 1)) (\<lambda>d.
            map_option (\<lambda>x. r\<lparr>rq_scale := x\<rparr>) (json_value (get_float fl) body ''length_scale'' d))]"

fun read_until_failure :: "('r \<Rightarrow> 'r option) list \<Rightarrow> 'r \<Rightarrow> bool \<times> 'r" where
  "read_until_failure [] r = (True, r)"
| "read_until_failure (f # fs) r = (case f r of None \<Rightarrow> (False, r) | Some r' \<Rightarrow> read_until_failure fs r')"

definition tts_request :: "sf_env \<Rightarrow> 'f floats \<Rightarrow> string \<Rightarrow> 'f tts_request" where
  "tts_request env fl data =
     (let r0 = \<lparr>rq_text = [], rq_format = ''play'', rq_play = True, rq_speaker = 0, rq_scale = fl_of_int fl 1\<rparr>
      in case sf_parse env data of
           None \<Rightarrow> r0\<lparr>rq_text := data\<rparr>
         | Some (JStr t) \<Rightarrow> r0\<lparr>rq_text := t\<rparr>
         | Some body \<Rightarrow>
             (case read_until_failure (tts_read_steps fl body) r0 of
                (True, r) \<Rightarrow> r
              | (False, r) \<Rightarrow> r\<lparr>rq_text := data\<rparr>))"

definition tts_result :: "'f floats \<Rightarrow> 'f tts_request \<Rightarrow> int \<Rightarrow> (string \<times> json) list \<Rightarrow> json" where
  "tts_result fl r samples rest = json_object
     ([(''text'', JStr (rq_text r)), (''sample_rate'', JInt (uint kSampleRate)), (''samples'', JInt samples),
       (''speaker_id'', JInt (rq_speaker r)), (''length_scale'', fl_to_json fl (rq_scale r))] @ rest)"

definition tts_inference ::
  "sf_env \<Rightarrow> 'f floats \<Rightarrow> 'f tts_lib \<Rightarrow> int list \<Rightarrow> string \<Rightarrow> tts_engine \<Rightarrow> ((string + json) \<times> tts_engine) res" where
  "tts_inference env fl lib answers data e =
     (let r = tts_request env fl data
      in if \<not> rq_play r \<and> rq_format r = ''wav'' then
           rbind (synthesize_to_wav lib (rq_text r) (rq_speaker r) (rq_scale r) e) (\<lambda>w.
             Inr (case w of
                    Inl err \<Rightarrow> (Inl err, e)
                  | Inr (wav, n) \<Rightarrow>
                      (Inr (tts_result fl r n [(''format'', JStr ''wav''), (''audio_base64'', JStr (base64_encode wav)),
                                               (''played'', JBool False)]), e)))
         else
           rbind (synthesize_to_pcm lib (rq_text r) (rq_speaker r) (rq_scale r) e) (\<lambda>p.
             case p of
               Inl err \<Rightarrow> Inr (Inl err, e)
             | Inr pcm \<Rightarrow>
                 rbind (play_pcm lib answers pcm e) (\<lambda>(err, e').
                   Inr (case err of
                          Some msg \<Rightarrow> (Inl msg, e')
                        | None \<Rightarrow>
                            (Inr (tts_result fl r (to_int32 (int (length pcm)))
                                    [(''format'', JStr ''pcm''), (''played'', JBool True)]), e')))))"

definition tts_object_name :: "json \<Rightarrow> string res" where
  "tts_object_name result =
     (case json_value get_bool result ''played'' True of
        None \<Rightarrow> Inl JsonError
      | Some played \<Rightarrow> Inr (if played then ''tts.play.done'' else ''tts.audio''))"

definition tts_run_job ::
  "sf_env \<Rightarrow> 'f floats \<Rightarrow> 'f tts_lib \<Rightarrow> int list \<Rightarrow> job \<Rightarrow> unit \<Rightarrow> tts_node \<Rightarrow> tts_node res" where
  "tts_run_job env fl lib answers j t s =
     rbind (tts_inference env fl lib answers (job_input j) (wk_engine (node s))) (\<lambda>(r, e).
       let s1 = s\<lparr>node := (node s)\<lparr>wk_engine := e\<rparr>\<rparr>
       in case r of
            Inl err \<Rightarrow> send_on env (job_task j) ''None'' (JStr ''None'') err (job_work_id j) s1
          | Inr result \<Rightarrow>
              rbind (tts_object_name result) (\<lambda>object.
                send_on env (job_task j) object result [] (job_work_id j) s1))"

definition tts_ops :: "'f tts_lib \<Rightarrow> sf_env \<Rightarrow> (unit, tts_engine) worker_node node_ops" where
  "tts_ops lib env = \<lparr>op_setup = tts_setup env, op_exit = tts_exit env, op_pause = base_pause env,
                      op_taskinfo = tts_taskinfo env lib\<rparr>"

end
