(* ===== verification/NodeTasks.thy ===== *)
theory NodeTasks
  imports WorkerNodes
begin

text \<open>
  Sessions against channels: the base class \<open>StackFlow\<close> keeps the channels, each node its own table of
  tasks. The locale \<open>session_node\<close> states what the base class needs of a node's handlers; the five
  nodes are its instances.
\<close>

lemma case_Inr_iff:
  "(case x of None \<Rightarrow> a | Some y \<Rightarrow> f y) = Inr r \<longleftrightarrow> (x = None \<and> a = Inr r) \<or> (\<exists>y. x = Some y \<and> f y = Inr r)"
  "(case z of Inl u \<Rightarrow> g u | Inr v \<Rightarrow> h v) = Inr r \<longleftrightarrow>
     (\<exists>u. z = Inl u \<and> g u = Inr r) \<or> (\<exists>v. z = Inr v \<and> h v = Inr r)"
  "(if b then c else d) = Inr r \<longleftrightarrow> (b \<and> c = Inr r) \<or> (\<not> b \<and> d = Inr r)"
  by (auto split: option.splits sum.splits)

section \<open>What a node's operations leave alone\<close>

definition channel_ids :: "'n stack_flow \<Rightarrow> int set" where
  "channel_ids s = fst ` set (llm_task_channel s)"

named_theorems node_simps \<open>updates of a node's state seen through its selectors\<close>

lemma channel_ids_dom: "channel_ids s = dom (map_of (llm_task_channel s))"
  by (simp add: channel_ids_def dom_map_of_conv_image_fst)

lemma emit_simps [simp, node_simps]:
  "channel_ids (emit w s) = channel_ids s" "unit_name (emit w s) = unit_name s" "node (emit w s) = node s"
  "llm_task_channel (emit w s) = llm_task_channel s"
  by (simp_all add: emit_def channel_ids_def)

lemma put_channel_simps [simp, node_simps]:
  "channel_ids (put_channel n ch s) = insert n (channel_ids s)" "unit_name (put_channel n ch s) = unit_name s"
  "node (put_channel n ch s) = node s"
  by (auto simp: put_channel_def channel_ids_dom update_conv')

lemma node_update_simps [simp, node_simps]:
  "channel_ids (s\<lparr>node := x\<rparr>) = channel_ids s"
  by (simp add: channel_ids_def)

lemma get_channel_ids: "get_channel n s = Inr ch \<Longrightarrow> n \<in> channel_ids s"
  by (auto simp: get_channel_def channel_ids_dom split: option.splits)

lemma get_channel_total: "n \<in> channel_ids s \<Longrightarrow> \<exists>ch. get_channel n s = Inr ch"
  by (auto simp: get_channel_def channel_ids_dom)

lemma sf_send_emit: "sf_send env ob d e w u s = Inr s' \<Longrightarrow> \<exists>ws. s' = emit ws s"
  by (auto simp: sf_send_def rbind_Inr_iff)

lemma send_text_emit: "send_text env m w s = Inr s' \<Longrightarrow> \<exists>ws. s' = emit ws s"
  unfolding send_text_def by (rule sf_send_emit)

lemma send_on_emit: "send_on env n ob d e w s = Inr s' \<Longrightarrow> \<exists>ws. s' = emit ws s"
  by (auto simp: send_on_def rbind_Inr_iff)

text \<open>An error object is no string, so handing it to \<open>send\<close> throws.\<close>

lemma send_error_object [simp]: "send_error_body env (error_object c m) w s = Inl JsonError"
  by (simp add: send_error_body_def error_object_def json_object_def)

lemma base_handlers_throw:
  "base_pause env w ob d s = Inl JsonError" "base_setup env w ob d s = Inl JsonError"
  "base_exit env w ob d s = Inl JsonError" "base_taskinfo env w ob d s = Inl JsonError"
  by (simp_all add: base_pause_def base_setup_def base_exit_def base_taskinfo_def base_error_def)

lemma unsubscribe_ok: "n \<in> channel_ids s \<Longrightarrow> \<exists>s'. unsubscribe n s = Inr s' \<and> channel_ids s' = channel_ids s"
  using get_channel_total [of n s] by (auto simp: unsubscribe_def insert_absorb)

lemma unsubscribe_frame:
  "unsubscribe n s = Inr s' \<Longrightarrow> channel_ids s' = channel_ids s \<and> unit_name s' = unit_name s \<and> node s' = node s"
  by (auto simp: unsubscribe_def rbind_Inr_iff insert_absorb dest: get_channel_ids)

lemma unsubscribe_all_ok: "set ns \<subseteq> channel_ids s \<Longrightarrow> \<exists>s'. unsubscribe_all ns s = Inr s'"
proof (induction ns arbitrary: s)
  case (Cons n ns)
  then obtain s1 where "unsubscribe n s = Inr s1" "channel_ids s1 = channel_ids s"
    using unsubscribe_ok [of n s] by auto
  with Cons show ?case by simp
qed simp

lemma stoi_range: "stoi s = Inr n \<Longrightarrow> int_min \<le> n \<and> n \<le> int_max"
  by (auto simp: stoi_def Let_def split: prod.splits if_splits)

section \<open>Registration and release\<close>

lemma register_frame:
  assumes "sys_register_unit env u s = Inr (n, s')"
  shows "channel_ids s' = insert n (channel_ids s) \<and> unit_name s' = unit_name s \<and> node s' = node s \<and>
    int_min \<le> n \<and> n \<le> int_max"
  using assms stoi_range by (fastforce simp: sys_register_unit_def rbind_Inr_iff split: option.splits)

lemma release_frame:
  assumes "sys_release_unit_sf env i w s = Inr (r, s')" "w \<noteq> []" "sample_get_work_id_num w = Inr n"
  shows "channel_ids s' = channel_ids s - {n} \<and> unit_name s' = unit_name s \<and> node s' = node s"
  using assms by (auto simp: sys_release_unit_sf_def rbind_Inr_iff channel_ids_dom delete_conv' split: if_splits)

lemma retarget_frame:
  assumes "retarget env url w s = Inr s'"
  shows "channel_ids s' = channel_ids s \<and> unit_name s' = unit_name s \<and> node s' = node s"
  using assms by (auto simp: retarget_def rbind_Inr_iff insert_absorb split: sum.splits if_splits dest: get_channel_ids)

section \<open>Runs of a node\<close>

text \<open>
  The number the unit manager hands out is new. \<open>node_reach\<close> are the states a node passes through: its
  event loop handles an event, an inference message arrives for a task, an RPC request is queued, or
  the worker (\<open>work\<close>) takes a turn. A step that ends in a fault has no successor.
\<close>

definition fresh_number :: "sf_env \<Rightarrow> 'n stack_flow \<Rightarrow> bool" where
  "fresh_number env s \<longleftrightarrow>
     (case sys_register_unit env (unit_name s) s of Inl _ \<Rightarrow> True | Inr (n, _) \<Rightarrow> 0 \<le> n \<and> n \<notin> channel_ids s)"

inductive node_reach ::
  "(sf_env \<Rightarrow> 'n node_ops) \<Rightarrow> (sf_env \<Rightarrow> int \<Rightarrow> string \<Rightarrow> string \<Rightarrow> string \<Rightarrow> 'n stack_flow \<Rightarrow> 'n stack_flow res) \<Rightarrow>
   ('n stack_flow \<Rightarrow> 'n stack_flow \<Rightarrow> bool) \<Rightarrow> 'n stack_flow \<Rightarrow> 'n stack_flow \<Rightarrow> bool"
  for ops infer work s0 where
  start: "node_reach ops infer work s0 s0"
| event: "node_reach ops infer work s0 s \<Longrightarrow> fresh_number env s \<Longrightarrow> process_event env (ops env) e s = Inr s' \<Longrightarrow>
     node_reach ops infer work s0 s'"
| message: "node_reach ops infer work s0 s \<Longrightarrow> channel_message env n (infer env n w) raw s = Inr s' \<Longrightarrow>
     node_reach ops infer work s0 s'"
| served: "node_reach ops infer work s0 s \<Longrightarrow> serve_node action raw s = Inr (reply, s') \<Longrightarrow>
     node_reach ops infer work s0 s'"
| worked: "node_reach ops infer work s0 s \<Longrightarrow> work s s' \<Longrightarrow> node_reach ops infer work s0 s'"

lemma serve_node_frame:
  "serve_node a raw s = Inr (r, s') \<Longrightarrow> channel_ids s' = channel_ids s \<and> unit_name s' = unit_name s \<and> node s' = node s"
  by (auto simp: serve_node_def rpc_serve_def rpc_enqueue_def channel_ids_def
      split: option.splits rpc_entry.splits sum.splits if_splits)

lemma setup_work_id:
  assumes "CHR ''.'' \<notin> set u" "int_min \<le> n" "n \<le> int_max"
  shows "sample_get_work_id_num (u @ ''.'' @ int_to_string n) = Inr n"
proof -
  have "int_to_string n \<noteq> []" by (simp add: int_to_string_def)
  then show ?thesis
    using assms str_find_dot [OF assms(1), of "int_to_string n"]
    by (simp add: sample_get_work_id_num_def stoi_int_to_string)
qed

text \<open>
  What the base class needs of a node: \<open>sessions\<close> are the numbers its table holds. Set-up adds the
  number or leaves the table alone and reports failure, exit removes it or reports failure, nothing
  else touches the table, and no operation touches the base class's table of channels.
\<close>

locale session_node =
  fixes ops :: "sf_env \<Rightarrow> 'n node_ops"
    and infer :: "sf_env \<Rightarrow> int \<Rightarrow> string \<Rightarrow> string \<Rightarrow> string \<Rightarrow> 'n stack_flow \<Rightarrow> 'n stack_flow res"
    and work :: "'n stack_flow \<Rightarrow> 'n stack_flow \<Rightarrow> bool"
    and sessions :: "'n \<Rightarrow> int set"
  assumes setup_law: "op_setup (ops env) w ob d s = Inr (ret, s') \<Longrightarrow> sample_get_work_id_num w = Inr n \<Longrightarrow>
      channel_ids s' = channel_ids s \<and> unit_name s' = unit_name s \<and>
      sessions (node s') = (if ret = 0 then insert n (sessions (node s)) else sessions (node s))"
    and exit_law: "op_exit (ops env) w ob d s = Inr (ret, s') \<Longrightarrow> \<exists>n. sample_get_work_id_num w = Inr n \<and>
      channel_ids s' = channel_ids s \<and> unit_name s' = unit_name s \<and>
      (if ret = 0 then n \<in> sessions (node s) \<and> sessions (node s') = sessions (node s) - {n}
       else sessions (node s') = sessions (node s))"
    and pause_law: "op_pause (ops env) w ob d s = Inr s' \<Longrightarrow>
      channel_ids s' = channel_ids s \<and> unit_name s' = unit_name s \<and> sessions (node s') = sessions (node s)"
    and taskinfo_law: "op_taskinfo (ops env) w ob d s = Inr s' \<Longrightarrow>
      channel_ids s' = channel_ids s \<and> unit_name s' = unit_name s \<and> sessions (node s') = sessions (node s)"
    and infer_law: "infer env n w ob d s = Inr s' \<Longrightarrow>
      channel_ids s' = channel_ids s \<and> unit_name s' = unit_name s \<and> sessions (node s') = sessions (node s)"
    and work_law: "work s s' \<Longrightarrow>
      channel_ids s' = channel_ids s \<and> unit_name s' = unit_name s \<and> sessions (node s') = sessions (node s)"
begin

definition matched :: "'n stack_flow \<Rightarrow> bool" where
  "matched s \<longleftrightarrow> CHR ''.'' \<notin> set (unit_name s) \<and> channel_ids s = sessions (node s) \<and> (\<forall>n \<in> sessions (node s). 0 \<le> n)"

lemma matched_same:
  "matched s \<Longrightarrow> channel_ids s' = channel_ids s \<Longrightarrow> unit_name s' = unit_name s \<Longrightarrow>
   sessions (node s') = sessions (node s) \<Longrightarrow> matched s'"
  by (simp add: matched_def)

lemma setup_matched:
  assumes "matched s" "fresh_number env s" "sf_setup env (ops env) url raw s = Inr s'"
  shows "matched s'"
proof -
  from assms(3) obtain n s1 ch ch1 ret s2 where r: "sys_register_unit env (unit_name s) s = Inr (n, s1)"
    and su: "op_setup (ops env) (unit_name s1 @ ''.'' @ int_to_string n) (sample_json_str_get raw ''object'')
        (sample_json_str_get raw ''data'') (put_channel n ch1 s1) = Inr (ret, s2)"
    and fin: "if ret \<noteq> 0 then \<exists>b. sys_release_unit_sf env n (unit_name s1 @ ''.'' @ int_to_string n) s2 = Inr (b, s')
              else s' = s2"
    by (auto simp: sf_setup_def rbind_Inr_iff Let_def split: if_splits)
  have f: "channel_ids s1 = insert n (channel_ids s)" "unit_name s1 = unit_name s" "node s1 = node s"
    "int_min \<le> n" "n \<le> int_max"
    using register_frame [OF r] by simp_all
  have num: "sample_get_work_id_num (unit_name s1 @ ''.'' @ int_to_string n) = Inr n"
    using assms(1) f setup_work_id by (simp add: matched_def)
  have g: "channel_ids s2 = insert n (channel_ids s)" "unit_name s2 = unit_name s"
    "sessions (node s2) = (if ret = 0 then insert n (sessions (node s)) else sessions (node s))"
    using setup_law [OF su num] f by simp_all
  have new: "0 \<le> n" "n \<notin> channel_ids s" using assms(2) r by (simp_all add: fresh_number_def)
  show ?thesis
  proof (cases "ret = 0")
    case True
    with fin g new assms(1) show ?thesis by (auto simp: matched_def)
  next
    case False
    with fin obtain b where "sys_release_unit_sf env n (unit_name s1 @ ''.'' @ int_to_string n) s2 = Inr (b, s')"
      by auto
    from release_frame [OF this _ num] False g new assms(1) show ?thesis by (auto simp: matched_def)
  qed
qed

lemma exit_matched:
  assumes "matched s" "sf_exit env (ops env) url raw s = Inr s'"
  shows "matched s'"
proof -
  let ?w = "sample_json_str_get raw ''work_id''"
  from assms(2) obtain s1 ret s2 where t: "retarget env url ?w s = Inr s1"
    and ex: "op_exit (ops env) ?w (sample_json_str_get raw ''object'') (sample_json_str_get raw ''data'') s1 = Inr (ret, s2)"
    and fin: "if ret = 0 then \<exists>b. sys_release_unit_sf env (- 1) ?w s2 = Inr (b, s') else s' = s2"
    by (auto simp: sf_exit_def rbind_Inr_iff Let_def split: if_splits)
  from exit_law [OF ex] obtain n where e: "sample_get_work_id_num ?w = Inr n" "channel_ids s2 = channel_ids s1"
    "unit_name s2 = unit_name s1" "if ret = 0 then n \<in> sessions (node s1) \<and> sessions (node s2) = sessions (node s1) - {n}
       else sessions (node s2) = sessions (node s1)" by blast
  note f = retarget_frame [OF t]
  show ?thesis
  proof (cases "ret = 0")
    case True
    with e f assms(1) have "n \<noteq> WORK_ID_NONE" by (auto simp: matched_def WORK_ID_NONE_def)
    moreover have "sample_get_work_id_num [] = Inr WORK_ID_NONE" by (simp add: sample_get_work_id_num_def)
    ultimately have "?w \<noteq> []" using e(1) by auto
    from True fin obtain b where "sys_release_unit_sf env (- 1) ?w s2 = Inr (b, s')" by auto
    from release_frame [OF this \<open>?w \<noteq> []\<close> e(1)] True e f assms(1) show ?thesis by (auto simp: matched_def)
  next
    case False
    with fin e f assms(1) show ?thesis by (auto simp: matched_def)
  qed
qed

lemma pause_matched: "matched s \<Longrightarrow> sf_pause env (ops env) url raw s = Inr s' \<Longrightarrow> matched s'"
  by (auto simp: sf_pause_def rbind_Inr_iff Let_def matched_def dest!: pause_law retarget_frame)

lemma taskinfo_matched: "matched s \<Longrightarrow> sf_taskinfo env (ops env) url raw s = Inr s' \<Longrightarrow> matched s'"
  by (auto simp: sf_taskinfo_def rbind_Inr_iff Let_def matched_def dest!: taskinfo_law retarget_frame)

lemma event_matched:
  assumes "matched s" "fresh_number env s" "process_event env (ops env) e s = Inr s'"
  shows "matched s'"
proof -
  obtain k m where e: "e = (k, m)" by fastforce
  have upd: "matched (s\<lparr>sf_request_id := r, out_zmq_url := u\<rparr>)" "fresh_number env (s\<lparr>sf_request_id := r, out_zmq_url := u\<rparr>)" for r u
    using assms(1,2)
    by (auto simp: matched_def channel_ids_def fresh_number_def sys_register_unit_def rbind_def split: sum.splits option.splits)
  show ?thesis
  proof (cases k)
    case EVENT_NONE
    with assms e show ?thesis by simp
  next
    case EVENT_SETUP
    with assms(3) e upd(1) setup_matched [OF upd] show ?thesis
      by (fastforce simp: on_request_def rbind_Inr_iff Let_def split: if_splits)
  next
    case EVENT_EXIT
    with assms(3) e upd(1) exit_matched [OF upd(1)] show ?thesis
      by (fastforce simp: on_request_def rbind_Inr_iff Let_def split: if_splits)
  next
    case EVENT_PAUSE
    with assms(3) e upd(1) pause_matched [OF upd(1)] show ?thesis
      by (fastforce simp: on_request_def rbind_Inr_iff Let_def split: if_splits)
  next
    case EVENT_TASKINFO
    with assms(3) e upd(1) taskinfo_matched [OF upd(1)] show ?thesis
      by (fastforce simp: on_request_def rbind_Inr_iff Let_def split: if_splits)
  qed
qed

lemma message_matched:
  assumes "matched s" "channel_message env n (infer env n w) raw s = Inr s'"
  shows "matched s'"
proof (cases "s' = s")
  case False
  with assms(2) obtain ch ch' ob d where r: "map_of (llm_task_channel s) n = Some ch"
      "infer env n w ob d (put_channel n ch' s) = Inr s'"
    by (auto simp: channel_message_def rbind_Inr_iff split: option.splits if_splits)
  then have "insert n (channel_ids s) = channel_ids s" by (simp add: insert_absorb channel_ids_dom domI)
  with infer_law [OF r(2)] assms(1) show ?thesis by (simp add: matched_def)
qed (simp add: assms(1))

theorem reach_matched: "node_reach ops infer work s0 s \<Longrightarrow> matched s0 \<Longrightarrow> matched s"
proof (induction rule: node_reach.induct)
  case (served s action raw reply s')
  then show ?case using serve_node_frame by (metis matched_same)
next
  case (worked s s')
  then show ?case using work_law matched_same by metis
qed (auto intro: event_matched message_matched)

end

section \<open>The nodes\<close>

lemma get_channel_by_id_ids:
  "get_channel_by_id w s = Inr ch \<Longrightarrow> sample_get_work_id_num w = Inr n \<Longrightarrow> n \<in> channel_ids s"
  by (auto simp: get_channel_by_id_def dest: get_channel_ids)

definition keys_of :: "(int \<times> 'v) list \<Rightarrow> int set" where
  "keys_of xs = dom (map_of xs)"

lemma keys_of_simps [simp, node_simps]:
  "keys_of [] = {}" "keys_of (AList.update n v xs) = insert n (keys_of xs)"
  "keys_of (AList.delete n xs) = keys_of xs - {n}"
  by (auto simp: keys_of_def update_conv' delete_conv' split: if_splits)

lemma keys_of_iff: "map_of xs n = None \<longleftrightarrow> n \<notin> keys_of xs"
  by (auto simp: keys_of_def)

lemma keys_of_set: "set (map fst xs) = keys_of xs"
  by (simp add: keys_of_def dom_map_of_conv_image_fst)

definition echo_sessions :: "echo_node \<Rightarrow> int set" where
  "echo_sessions nd = keys_of (echo_tasks nd)"

definition llm_sessions :: "llm_node \<Rightarrow> int set" where
  "llm_sessions nd = keys_of (llm_tasks nd)"

definition worker_sessions :: "('t, 'e) worker_node \<Rightarrow> int set" where
  "worker_sessions nd = keys_of (wk_tasks nd)"

interpretation echo_node: session_node echo_ops echo_on_inference "\<lambda>_ _. False" echo_sessions
proof (unfold_locales, goal_cases)
  case (1 env w ob d s ret s' n)
  then show ?case
    by (auto simp: echo_ops_def echo_setup_def rbind_Inr_iff Let_def echo_sessions_def
        dest!: sf_send_emit get_channel_by_id_ids)
next
  case (2 env w ob d s ret s')
  then show ?case
    by (auto simp: echo_ops_def echo_exit_def rbind_Inr_iff Let_def echo_sessions_def keys_of_iff
        split: if_splits dest!: sf_send_emit unsubscribe_frame)
next
  case (3 env w ob d s s')
  then show ?case by (simp add: echo_ops_def base_handlers_throw)
next
  case (4 env w ob d s s')
  then show ?case by (auto simp: echo_ops_def echo_taskinfo_def dest!: sf_send_emit)
next
  case (5 env n w ob d s s')
  then show ?case by (auto simp: echo_on_inference_def split: if_splits dest!: send_on_emit)
qed simp

lemma task_output_frame:
  "task_output env n d f s = Inr s' \<Longrightarrow>
   channel_ids s' = channel_ids s \<and> unit_name s' = unit_name s \<and> llm_sessions (node s') = llm_sessions (node s)"
  by (auto simp: task_output_def Let_def llm_sessions_def split: option.splits bool.splits if_splits dest!: send_on_emit)

lemma task_inference_frame:
  "task_inference env n d s = Inr s' \<Longrightarrow>
   channel_ids s' = channel_ids s \<and> unit_name s' = unit_name s \<and> llm_sessions (node s') = llm_sessions (node s)"
  by (auto simp: task_inference_def rbind_Inr_iff dest!: task_output_frame)

lemma task_user_data_frame:
  "task_user_data env n ob d s = Inr s' \<Longrightarrow>
   channel_ids s' = channel_ids s \<and> unit_name s' = unit_name s \<and> llm_sessions (node s') = llm_sessions (node s)"
  by (auto simp: task_user_data_def Let_def split: sum.splits if_splits dest!: task_inference_frame)
    (simp_all add: llm_sessions_def)

interpretation llm_node: session_node llm_ops "\<lambda>env n w. task_user_data env n" "\<lambda>_ _. False" llm_sessions
proof (unfold_locales, goal_cases)
  case (1 env w ob d s ret s' n)
  then show ?case
    by (auto simp: llm_ops_def llm_setup_def rbind_Inr_iff Let_def llm_sessions_def case_Inr_iff
        dest!: sf_send_emit get_channel_by_id_ids)
next
  case (2 env w ob d s ret s')
  then show ?case
    by (auto simp: llm_ops_def llm_exit_def rbind_Inr_iff Let_def llm_sessions_def keys_of_iff
        split: if_splits dest!: sf_send_emit unsubscribe_frame)
next
  case (3 env w ob d s s')
  then show ?case by (simp add: llm_ops_def base_handlers_throw)
next
  case (4 env w ob d s s')
  then show ?case
    by (auto simp: llm_ops_def llm_taskinfo_def rbind_Inr_iff case_Inr_iff dest!: sf_send_emit)
next
  case (5 env n w ob d s s')
  then show ?case by (rule task_user_data_frame)
qed simp

lemma set_tasks_simps [simp, node_simps]:
  "channel_ids (set_tasks ts s) = channel_ids s" "unit_name (set_tasks ts s) = unit_name s"
  "worker_sessions (node (set_tasks ts s)) = keys_of ts" "wk_tasks (node (set_tasks ts s)) = ts"
  "llm_task_channel (set_tasks ts s) = llm_task_channel s" "wk_engine (node (set_tasks ts s)) = wk_engine (node s)"
  by (simp_all add: set_tasks_def worker_sessions_def channel_ids_def)

lemma set_jobs_simps [simp, node_simps]:
  "channel_ids (set_jobs q s) = channel_ids s" "unit_name (set_jobs q s) = unit_name s"
  "worker_sessions (node (set_jobs q s)) = worker_sessions (node s)" "wk_tasks (node (set_jobs q s)) = wk_tasks (node s)"
  "llm_task_channel (set_jobs q s) = llm_task_channel s" "wk_engine (node (set_jobs q s)) = wk_engine (node s)"
  by (simp_all add: set_jobs_def worker_sessions_def channel_ids_def)

lemma session_setup_frame:
  assumes "session_setup env st mk w s = Inr (ret, s')" "sample_get_work_id_num w = Inr n"
  shows "channel_ids s' = channel_ids s \<and> unit_name s' = unit_name s \<and>
    worker_sessions (node s') = (if ret = 0 then insert n (worker_sessions (node s)) else worker_sessions (node s))"
  using assms
  by (auto simp: session_setup_def rbind_Inr_iff Let_def case_Inr_iff
      dest!: send_text_emit get_channel_by_id_ids) (auto simp: worker_sessions_def)

lemma session_exit_frame:
  assumes "session_exit env missing w s = Inr (ret, s')"
    "\<And>s s'. missing s = Inr s' \<Longrightarrow> \<exists>ws. s' = emit ws s"
  shows "\<exists>n. sample_get_work_id_num w = Inr n \<and> channel_ids s' = channel_ids s \<and> unit_name s' = unit_name s \<and>
      (if ret = 0 then n \<in> worker_sessions (node s) \<and> worker_sessions (node s') = worker_sessions (node s) - {n}
       else worker_sessions (node s') = worker_sessions (node s))"
  using assms(1)
  by (auto simp: session_exit_def rbind_Inr_iff Let_def keys_of_iff worker_sessions_def case_Inr_iff
      dest!: send_text_emit unsubscribe_frame assms(2))

lemma queue_inference_frame:
  "queue_inference env st n w ob d s = Inr s' \<Longrightarrow>
   channel_ids s' = channel_ids s \<and> unit_name s' = unit_name s \<and> worker_sessions (node s') = worker_sessions (node s)"
  by (auto simp: queue_inference_def enqueue_job_def split: option.splits prod.splits if_splits dest!: send_on_emit)

lemma worker_turn_frame:
  assumes "worker_turn run s = Some (Inr (b, s'))"
    "\<And>j t s s'. run j t s = Inr s' \<Longrightarrow> map_of (wk_tasks (node s)) (job_task j) \<noteq> None \<Longrightarrow>
       channel_ids s' = channel_ids s \<and> unit_name s' = unit_name s \<and> worker_sessions (node s') = worker_sessions (node s)"
  shows "channel_ids s' = channel_ids s \<and> unit_name s' = unit_name s \<and> worker_sessions (node s') = worker_sessions (node s)"
proof -
  from assms(1) consider "s' = s" | q where "s' = set_jobs q s"
    | q j t ch where "map_of (wk_tasks (node s)) (job_task j) = Some t" "map_of (llm_task_channel s) (job_task j) = Some ch"
        "run j t (put_channel (job_task j) (ch\<lparr>ch_request_id := job_request_id j\<rparr>) (set_jobs q s)) = Inr s'"
    by (auto simp: worker_turn_def worker_begin_def rbind_Inr_iff Let_def split: option.splits prod.splits)
  then show ?thesis
  proof cases
    case 3
    then have "job_task j \<in> channel_ids s" by (simp add: channel_ids_dom domI)
    with assms(2) [OF 3(3)] 3(1) show ?thesis by (simp add: insert_absorb)
  qed auto
qed

lemma rk_callbacks_invariant:
  assumes "\<And>t f c c'. cb t f c = Inr c' \<Longrightarrow> P c \<Longrightarrow> P c'" "rk_callbacks (Some cb) rs x = Inr y" "P (fst x)"
  shows "P (fst y)"
  using assms(2,3)
proof (induction rs arbitrary: x)
  case (Cons r rs)
  then obtain z where z: "rkllm_callback (Some cb) r x = Inr z" "rk_callbacks (Some cb) rs z = Inr y"
    by (auto simp: rbind_Inr_iff)
  obtain c f where x: "x = (c, f)" by fastforce
  have "P (fst z)"
  proof (cases r)
    case (Run_normal t)
    with z(1) Cons.prems(2) assms(1) show ?thesis unfolding x by (cases t) (auto simp: rbind_Inr_iff)
  next
    case Run_finish
    with z(1) Cons.prems(2) assms(1) show ?thesis unfolding x by (auto simp: rbind_Inr_iff)
  qed (use z(1) Cons.prems(2) x in auto)
  then show ?case using Cons.IH z(2) by blast
qed simp

definition worker_same :: "('t, 'e) worker \<Rightarrow> ('t, 'e) worker \<Rightarrow> bool" where
  "worker_same s s' \<longleftrightarrow> channel_ids s' = channel_ids s \<and> unit_name s' = unit_name s \<and>
     worker_sessions (node s') = worker_sessions (node s)"

lemma send_on_same: "send_on env n ob d e w s = Inr s' \<Longrightarrow> worker_same s s'"
  by (auto simp: worker_same_def dest!: send_on_emit)

lemma rkllm_delta_same:
  "rkllm_delta env j t f x = Inr x' \<Longrightarrow> worker_same s (snd x) \<Longrightarrow> worker_same s (snd x')"
  by (auto simp: rkllm_delta_def rbind_Inr_iff Let_def worker_same_def insert_absorb split: prod.splits
      dest!: send_on_emit get_channel_ids)

lemma rkllm_stream_same:
  assumes "rkllm_inference_stream env lib e d (rkllm_delta env j) (0, s) = Inr (r, c')"
  shows "worker_same s (snd c')"
proof -
  have k: "worker_same s (snd x)" if r: "rk_callbacks (Some (rkllm_delta env j)) rs ((0, s), False) = Inr (x, f)" for rs x f
  proof -
    have "worker_same s (snd (fst ((0 :: int, s), False)))" by (simp add: worker_same_def)
    from rk_callbacks_invariant [where P = "\<lambda>x. worker_same s (snd x)", OF rkllm_delta_same r this]
    show ?thesis by simp
  qed
  from assms consider "c' = (0, s)"
    | rs f where "rk_callbacks (Some (rkllm_delta env j)) rs ((0, s), False) = Inr (c', f)"
    by (auto simp: rkllm_inference_stream_def rk_run_stream_def rbind_Inr_iff case_Inr_iff Let_def case_prod_beta)
  then show ?thesis by cases (simp add: worker_same_def, rule k)
qed

lemma worker_same_trans: "worker_same s t \<Longrightarrow> worker_same t u \<Longrightarrow> worker_same s u"
  by (simp add: worker_same_def)

lemma rkllm_run_job_same: "rkllm_run_job env lib j t s = Inr s' \<Longrightarrow> worker_same s s'"
proof (cases "job_stream j")
  case True
  assume "rkllm_run_job env lib j t s = Inr s'"
  with True obtain err i s1 where
    i: "rkllm_inference_stream env lib (wk_engine (node s)) (job_input j) (rkllm_delta env j) (0, s) = Inr (err, i, s1)"
    and o: "(case err of None \<Rightarrow> Inr s1 | Some e \<Rightarrow> send_on env (job_task j) ''None'' (JStr ''None'') e (job_work_id j) s1) = Inr s'"
    by (auto simp: rkllm_run_job_def rbind_Inr_iff Let_def)
  have "worker_same s s1" using rkllm_stream_same [OF i] by simp
  moreover have "worker_same s1 s'"
    using o by (cases err) (auto simp: worker_same_def dest!: send_on_emit)
  ultimately show ?thesis by (rule worker_same_trans)
next
  case False
  assume "rkllm_run_job env lib j t s = Inr s'"
  with False show ?thesis
    by (auto simp: rkllm_run_job_def rbind_Inr_iff case_Inr_iff Let_def dest: send_on_same)
qed

lemma asr_run_job_same:
  assumes "asr_run_job env fl lib j st s = Inr s'" "map_of (wk_tasks (node s)) (job_task j) \<noteq> None"
  shows "worker_same s s'"
proof -
  from assms(1) obtain st' ob d e where
    "send_on env (job_task j) ob d e (job_work_id j) (set_tasks (AList.update (job_task j) st' (wk_tasks (node s))) s) = Inr s'"
    by (auto simp: asr_run_job_def rbind_Inr_iff case_Inr_iff Let_def)
  from send_on_same [OF this] show ?thesis
    using assms(2) by (simp add: worker_same_def worker_sessions_def insert_absorb keys_of_iff)
qed

lemma tts_run_job_same: "tts_run_job env fl lib al j t s = Inr s' \<Longrightarrow> worker_same s s'"
  by (auto simp: tts_run_job_def rbind_Inr_iff case_Inr_iff Let_def worker_same_def worker_sessions_def
      dest!: send_on_emit)

text \<open>The worker threads: some turn of the loop.\<close>

definition rkllm_work :: "rkllm_node \<Rightarrow> rkllm_node \<Rightarrow> bool" where
  "rkllm_work s s' \<longleftrightarrow> (\<exists>env lib b. worker_turn (rkllm_run_job env lib) s = Some (Inr (b, s')))"

definition asr_work :: "'f floats \<Rightarrow> 's asr_lib \<Rightarrow> 's asr_node \<Rightarrow> 's asr_node \<Rightarrow> bool" where
  "asr_work fl lib s s' \<longleftrightarrow> (\<exists>env b. worker_turn (asr_run_job env fl lib) s = Some (Inr (b, s')))"

definition tts_work :: "'f floats \<Rightarrow> 'f tts_lib \<Rightarrow> tts_node \<Rightarrow> tts_node \<Rightarrow> bool" where
  "tts_work fl lib s s' \<longleftrightarrow> (\<exists>env answers b. worker_turn (tts_run_job env fl lib answers) s = Some (Inr (b, s')))"

interpretation rkllm: session_node rkllm_ops rkllm_on_inference_stream rkllm_work worker_sessions
proof (unfold_locales, goal_cases)
  case (1 env w ob d s ret s' n)
  then show ?case by (simp add: rkllm_ops_def rkllm_setup_def session_setup_frame)
next
  case (2 env w ob d s ret s')
  then show ?case
    by (intro session_exit_frame) (auto simp: rkllm_ops_def rkllm_exit_def)
next
  case (3 env w ob d s s')
  then show ?case by (simp add: rkllm_ops_def base_handlers_throw)
next
  case (4 env w ob d s s')
  then show ?case by (auto simp: rkllm_ops_def rkllm_taskinfo_def dest!: sf_send_emit)
next
  case (5 env n w ob d s s')
  then show ?case by (simp add: rkllm_on_inference_stream_def queue_inference_frame)
next
  case (6 s s')
  then obtain env lib b where "worker_turn (rkllm_run_job env lib) s = Some (Inr (b, s'))" by (auto simp: rkllm_work_def)
  then show ?case by (rule worker_turn_frame) (auto dest!: rkllm_run_job_same simp: worker_same_def)
qed

interpretation asr: session_node "asr_ops lib" asr_on_inference "asr_work fl lib" worker_sessions
  for lib :: "'s asr_lib" and fl :: "'f floats"
proof (unfold_locales, goal_cases)
  case (1 env w ob d s ret s' n)
  then show ?case by (simp add: asr_ops_def asr_setup_def session_setup_frame)
next
  case (2 env w ob d s ret s')
  then show ?case
    by (intro session_exit_frame [OF _ send_text_emit]) (auto simp: asr_ops_def asr_exit_def)
next
  case (3 env w ob d s s')
  then show ?case by (simp add: asr_ops_def base_handlers_throw)
next
  case (4 env w ob d s s')
  then show ?case by (auto simp: asr_ops_def asr_taskinfo_def dest!: sf_send_emit)
next
  case (5 env n w ob d s s')
  then show ?case by (simp add: asr_on_inference_def queue_inference_frame)
next
  case (6 s s')
  then obtain env b where "worker_turn (asr_run_job env fl lib) s = Some (Inr (b, s'))" by (auto simp: asr_work_def)
  then show ?case by (rule worker_turn_frame) (auto dest!: asr_run_job_same simp: worker_same_def)
qed

interpretation tts: session_node "tts_ops lib" tts_on_inference "tts_work fl lib" worker_sessions
  for lib :: "'f tts_lib" and fl :: "'f floats"
proof (unfold_locales, goal_cases)
  case (1 env w ob d s ret s' n)
  then show ?case by (simp add: tts_ops_def tts_setup_def session_setup_frame)
next
  case (2 env w ob d s ret s')
  then show ?case
    by (intro session_exit_frame [OF _ send_text_emit]) (auto simp: tts_ops_def tts_exit_def)
next
  case (3 env w ob d s s')
  then show ?case by (simp add: tts_ops_def base_handlers_throw)
next
  case (4 env w ob d s s')
  then show ?case by (auto simp: tts_ops_def tts_taskinfo_def dest!: sf_send_emit)
next
  case (5 env n w ob d s s')
  then show ?case by (simp add: tts_on_inference_def queue_inference_frame)
next
  case (6 s s')
  then obtain env answers b where "worker_turn (tts_run_job env fl lib answers) s = Some (Inr (b, s'))" by (auto simp: tts_work_def)
  then show ?case by (rule worker_turn_frame) (auto dest!: tts_run_job_same simp: worker_same_def)
qed

end
