(* ===== verification/Sessions.thy ===== *)
theory Sessions
  imports NodeTasks
begin

text \<open>
  Properties of the nodes: sessions and channels, a session from set-up to its answers, the order and the
  receivers of the answers a worker sends, and the pause request.
\<close>

section \<open>Properties\<close>

lemma worker_destroy_ok:
  "worker_sessions (node s) \<subseteq> channel_ids s \<Longrightarrow> \<exists>t. worker_destroy s = Inr t"
  using unsubscribe_all_ok [of "map fst (wk_tasks (node s))" s]
  by (auto simp: worker_destroy_def worker_sessions_def keys_of_set simp del: set_map)

lemma echo_destroy_ok:
  "echo_sessions (node s) \<subseteq> channel_ids s \<Longrightarrow> \<exists>t. echo_destroy s = Inr t"
  using unsubscribe_all_ok [of "map fst (echo_tasks (node s))" s]
  by (auto simp: echo_destroy_def echo_sessions_def keys_of_set simp del: set_map)

lemma llm_destroy_ok:
  "llm_sessions (node s) \<subseteq> channel_ids s \<Longrightarrow> \<exists>t. llm_destroy s = Inr t"
  using unsubscribe_all_ok [of "map fst (llm_tasks (node s))" s]
  by (auto simp: llm_destroy_def llm_sessions_def keys_of_set simp del: set_map)

lemma new_nodes_matched:
  "echo_node.matched (echo_new z)" "llm_node.matched (llm_new z)" "rkllm.matched (rkllm_new z g e1)"
  "asr.matched (asr_new z g e2)" "tts.matched (tts_new z g e3)"
  by (simp_all add: echo_node.matched_def llm_node.matched_def rkllm.matched_def asr.matched_def tts.matched_def
      echo_new_def llm_new_def rkllm_new_def asr_new_def tts_new_def worker_new_def stack_flow_new_def
      channel_ids_def echo_sessions_def llm_sessions_def worker_sessions_def)

text \<open>C27: At any time between two steps of a worker node, the sessions in its own table are exactly the
  channels the base class holds, so the destructor, which looks up the channel of every session,
  never throws.\<close>

theorem worker_sessions_are_channels:
  assumes "node_reach rkllm_ops rkllm_on_inference_stream rkllm_work (rkllm_new z getenv e1) s1"
    and "node_reach (asr_ops alib) asr_on_inference (asr_work fl alib) (asr_new z getenv e2) s2"
    and "node_reach (tts_ops tlib) tts_on_inference (tts_work fl' tlib) (tts_new z getenv e3) s3"
  shows "worker_sessions (node s1) = channel_ids s1 \<and> (\<exists>t. worker_destroy s1 = Inr t) \<and>
    worker_sessions (node s2) = channel_ids s2 \<and> (\<exists>t. worker_destroy s2 = Inr t) \<and>
    worker_sessions (node s3) = channel_ids s3 \<and> (\<exists>t. worker_destroy s3 = Inr t)"
proof -
  have "rkllm.matched s1" "asr.matched s2" "tts.matched s3"
    using rkllm.reach_matched [OF assms(1) new_nodes_matched(3)] asr.reach_matched [OF assms(2) new_nodes_matched(4)]
      tts.reach_matched [OF assms(3) new_nodes_matched(5)] by simp_all
  then show ?thesis
    by (simp add: rkllm.matched_def asr.matched_def tts.matched_def worker_destroy_ok)
qed

text \<open>The same for the nodes without a worker.\<close>

theorem sessions_are_channels:
  assumes "node_reach echo_ops echo_on_inference (\<lambda>_ _. False) (echo_new z) s1"
    and "node_reach llm_ops (\<lambda>env n w. task_user_data env n) (\<lambda>_ _. False) (llm_new z) s2"
  shows "echo_sessions (node s1) = channel_ids s1 \<and> (\<exists>t. echo_destroy s1 = Inr t) \<and>
    llm_sessions (node s2) = channel_ids s2 \<and> (\<exists>t. llm_destroy s2 = Inr t)"
proof -
  have "echo_node.matched s1" "llm_node.matched s2"
    using echo_node.reach_matched [OF assms(1) new_nodes_matched(1)] llm_node.reach_matched [OF assms(2) new_nodes_matched(2)]
    by simp_all
  then show ?thesis
    by (simp add: echo_node.matched_def llm_node.matched_def echo_destroy_ok llm_destroy_ok)
qed

section \<open>The answer of the unit manager\<close>

lemma length_small_number: "0 \<le> n \<Longrightarrow> n \<le> int_max \<Longrightarrow> length (int_to_string n) \<le> max_param0 b"
proof -
  assume n: "0 \<le> n" "n \<le> int_max"
  then have "nat n < 10 ^ 10" by (simp add: int_max_def nat_less_iff)
  then have "length (nat_to_string (nat n)) \<le> 10" by (intro length_nat_to_string) simp_all
  with n show ?thesis by (simp add: int_to_string_def max_param0_def)
qed

text \<open>The server answers the registration with number \<open>n\<close> and the two URLs.\<close>

definition grants :: "sf_env \<Rightarrow> string \<Rightarrow> int \<Rightarrow> string \<Rightarrow> string \<Rightarrow> bool" where
  "grants env u n out inp \<longleftrightarrow>
     path_exists (sf_zmq env) ''/tmp/rpc.sys'' \<and> zmq_connect (sf_zmq env) ''ipc:///tmp/rpc.sys'' = 0 \<and>
     rpc_answer (sf_zmq env) ''ipc:///tmp/rpc.sys'' ''register_unit'' u =
       set_param (int_to_string n) (set_param out inp) \<and>
     0 \<le> n \<and> n \<le> int_max \<and> out \<noteq> [] \<and> inp \<noteq> [] \<and> length out \<le> max_param0 (sf_schar env)"

lemma unit_call_sys:
  assumes "path_exists env ''/tmp/rpc.sys''" "zmq_connect env ''ipc:///tmp/rpc.sys'' = 0"
  shows "unit_call_msg env ''sys'' action data =
      Inr (Some \<lparr>msg_bytes = rpc_answer env ''ipc:///tmp/rpc.sys'' action data\<rparr>)"
    "unit_call env ''sys'' action data = Inr (rpc_answer env ''ipc:///tmp/rpc.sys'' action data)"
proof -
  obtain p' :: "unit pzmq" where "call_rpc_action env action data (pzmq_rpc ''sys'') =
      Inr (0, Some \<lparr>msg_bytes = rpc_answer env ''ipc:///tmp/rpc.sys'' action data\<rparr>, p')"
    using assms
    by (auto simp: call_rpc_action_def creat_def creat_req_def pzmq_rpc_def pzmq_blank_def default_url_head_def
        rpc_url_head_length_def eval_nat_numeral str_contains_def Let_def)
  then show "unit_call_msg env ''sys'' action data =
      Inr (Some \<lparr>msg_bytes = rpc_answer env ''ipc:///tmp/rpc.sys'' action data\<rparr>)"
    "unit_call env ''sys'' action data = Inr (rpc_answer env ''ipc:///tmp/rpc.sys'' action data)"
    by (simp_all add: unit_call_msg_def unit_call_def msg_string_def)
qed

lemma new_channel_ok:
  assumes "out \<noteq> []"
  shows "\<exists>ch p. new_channel env out inp u = Inr ch \<and> publisher_url ch = out \<and> ch_inference_url ch = inp \<and>
    ch_zmq ch = [- 1 \<mapsto> p] \<and> zmq_url p = out \<and> output_url ch = []"
proof -
  obtain p :: "unit pzmq" where p: "pzmq_socket env out ZMQ_PUB = Inr p"
    using assms by (auto simp: pzmq_socket_def Let_def)
  then have "zmq_url p = out" by (rule pzmq_socket_zmq_url) simp
  with p show ?thesis by (simp add: new_channel_def) blast
qed

lemma register_granted:
  assumes "grants env u n out inp"
  shows "\<exists>ch p. sys_register_unit env u s = Inr (n, put_channel n ch s) \<and> publisher_url ch = out \<and>
    ch_inference_url ch = inp \<and> ch_zmq ch = [- 1 \<mapsto> p] \<and> zmq_url p = out \<and> output_url ch = []"
proof -
  note g = assms [unfolded grants_def]
  obtain ch p where ch: "new_channel (sf_zmq env) out inp (unit_name s) = Inr ch" "publisher_url ch = out"
    "ch_inference_url ch = inp" "ch_zmq ch = [- 1 \<mapsto> p]" "zmq_url p = out" "output_url ch = []"
    using new_channel_ok [of out] g by blast
  have "stoi (int_to_string n) = Inr n" using g by (intro stoi_int_to_string) (auto simp: int_min_def)
  then have "sys_register_unit env u s = Inr (n, put_channel n ch s)"
    using g ch(1) length_small_number [of n "sf_schar env"]
    by (simp add: sys_register_unit_def unit_call_sys get_param_simps)
  with ch(2-) show ?thesis by blast
qed


lemma push_url_new:
  assumes "url \<noteq> []" "output_url ch \<noteq> url"
  shows "\<exists>p. set_push_url env url ch = Inr (ch\<lparr>output_url := url, ch_zmq := (ch_zmq ch)(- 2 \<mapsto> p)\<rparr>) \<and> zmq_url p = url"
proof -
  obtain p :: "unit pzmq" where p: "pzmq_socket env url ZMQ_PUSH = Inr p"
    using assms(1) by (auto simp: pzmq_socket_def Let_def)
  then have "zmq_url p = url" by (rule pzmq_socket_zmq_url) simp
  with p assms(2) show ?thesis by (intro exI [of _ p]) (simp add: set_push_url_def)
qed

lemma subscribe_inference:
  assumes "ch_inference_url ch \<noteq> []"
  shows "\<exists>p. subscriber_work_id env [] ch = Inr (0, ch\<lparr>ch_zmq := (ch_zmq ch)(0 \<mapsto> p)\<rparr>) \<and> zmq_url p = ch_inference_url ch"
proof -
  obtain p :: "unit pzmq" where p: "pzmq_socket env (ch_inference_url ch) ZMQ_SUB = Inr p"
    using assms by (auto simp: pzmq_socket_def Let_def)
  then have "zmq_url p = ch_inference_url ch" by (rule pzmq_socket_zmq_url) simp
  with p show ?thesis by (intro exI [of _ p]) (simp add: subscriber_work_id_def)
qed

lemma sf_send_line:
  assumes "url = (if zmq_url0 = [] then out_zmq_url s else zmq_url0)" "url \<noteq> []"
    "line_ok (sf_time env) (sf_request_id s) w ob d e"
  shows "sf_send env ob d e w zmq_url0 s = Inr (emit [(url, result_line (sf_time env) (sf_request_id s) w ob d e)] s)"
proof -
  obtain p :: "unit pzmq" where p: "pzmq_socket (sf_zmq env) url ZMQ_PUSH = Inr p"
    using assms(2) by (auto simp: pzmq_socket_def Let_def)
  then have "zmq_url p = url" by (rule pzmq_socket_zmq_url) simp
  with p show ?thesis unfolding sf_send_def assms(1) [symmetric] by (simp add: result_text_ok [OF assms(3)])
qed

text \<open>The acknowledgement of a request.\<close>

lemma work_id_utf8: "utf8 u \<Longrightarrow> utf8 (u @ ''.'' @ int_to_string n)"
  using utf8_append [of u "''.'' @ int_to_string n"] utf8_append [of "''.''" "int_to_string n"]
  by (simp add: utf8_int_to_string ascii_utf8 code_of_def)

lemma ack_ok: "int_ok t \<Longrightarrow> utf8 rid \<Longrightarrow> utf8 u \<Longrightarrow> line_ok t rid (u @ ''.'' @ int_to_string n) ''None'' (JStr ''None'') []"
  using work_id_utf8 [of u n] by (simp add: line_ok_def ascii_utf8 code_of_def)

lemma get_put_channel [simp]: "get_channel n (put_channel n ch s) = Inr ch"
  by (simp add: get_channel_def put_channel_def update_conv')

lemma alist_update_update: "AList.update n a (AList.update n b xs) = AList.update n a xs"
  by (induction xs) auto

lemma put_put_channel [simp]: "put_channel n ch (put_channel n ch' s) = put_channel n ch s"
  by (simp add: put_channel_def alist_update_update)

lemma map_of_put_channel [simp]: "map_of (llm_task_channel (put_channel n ch s)) n = Some ch"
  by (simp add: put_channel_def update_conv')

lemma put_channel_fields [simp]:
  "out_zmq_url (put_channel n ch s) = out_zmq_url s" "sf_request_id (put_channel n ch s) = sf_request_id s"
  "wires (put_channel n ch s) = wires s" "sf_status (put_channel n ch s) = sf_status s"
  by (simp_all add: put_channel_def)

text \<open>The channel of a task in service: it publishes on one URL and listens on the other.\<close>

definition in_service :: "int \<Rightarrow> string \<Rightarrow> string \<Rightarrow> 'n stack_flow \<Rightarrow> bool" where
  "in_service n out inp s \<longleftrightarrow>
     (\<exists>ch p q r. map_of (llm_task_channel s) n = Some ch \<and> ch_zmq ch (- 1) = Some p \<and> zmq_url p = out \<and>
        ch_zmq ch 0 = Some q \<and> zmq_url q = inp \<and> ch_zmq ch (- 2) = Some r \<and> zmq_url r = output_url ch \<and>
        enoutput ch = Some True)"

lemma echo_setup_in_service:
  assumes "grants env (unit_name s) n out inp" "CHR ''.'' \<notin> set (unit_name s)" "url \<noteq> []" "out_zmq_url s = url"
    "int_ok (sf_time env)" "utf8 (unit_name s)" "utf8 (sf_request_id s)"
  shows "\<exists>s'. sf_setup env (echo_ops env) url raw s = Inr s' \<and> in_service n out inp s' \<and>
     n \<in> echo_sessions (node s') \<and> unit_name s' = unit_name s \<and>
     wires s' = wires s @ [(url, result_line (sf_time env) (sf_request_id s)
        (unit_name s @ ''.'' @ int_to_string n) ''None'' (JStr ''None'') [])]"
proof -
  let ?w = "unit_name s @ ''.'' @ int_to_string n"
  obtain ch p where r: "sys_register_unit env (unit_name s) s = Inr (n, put_channel n ch s)" "ch_inference_url ch = inp"
    "ch_zmq ch = [- 1 \<mapsto> p]" "zmq_url p = out" "output_url ch = []"
    using register_granted [OF assms(1), of s] by blast
  obtain q where q: "set_push_url (sf_zmq env) url ch = Inr (ch\<lparr>output_url := url, ch_zmq := (ch_zmq ch)(- 2 \<mapsto> q)\<rparr>)"
    "zmq_url q = url"
    using push_url_new [of url ch "sf_zmq env"] assms(3) r(5) by blast
  have num: "sample_get_work_id_num ?w = Inr n"
    using assms(1,2) by (intro setup_work_id) (auto simp: grants_def int_min_def)
  have inp: "inp \<noteq> []" using assms(1) by (simp add: grants_def)
  let ?c = "\<lambda>rid. set_stream False (set_output True (ch\<lparr>output_url := url, ch_zmq := (ch_zmq ch)(- 2 \<mapsto> q),
      ch_request_id := rid, ch_work_id := ?w\<rparr>))"
  obtain t where t: "\<And>rid. subscriber_work_id (sf_zmq env) [] (?c rid) =
      Inr (0, (?c rid)\<lparr>ch_zmq := (ch_zmq (?c rid))(0 \<mapsto> t)\<rparr>)" "zmq_url t = inp"
  proof -
    obtain t :: "unit pzmq" where t: "pzmq_socket (sf_zmq env) inp ZMQ_SUB = Inr t"
      using inp by (auto simp: pzmq_socket_def Let_def)
    then have "zmq_url t = inp" by (rule pzmq_socket_zmq_url) simp
    with t show ?thesis
      using that [of t] r(2) by (simp add: subscriber_work_id_def set_stream_def set_output_def)
  qed
  note eqs = num [simplified] t(1) [simplified]
  have ack: "line_ok (sf_time env) (sf_request_id s) (unit_name s @ CHR ''.'' # int_to_string n) ''None'' (JStr ''None'') []"
    using ack_ok [OF assms(5,7,6), of n] by simp
  show ?thesis
    by (simp add: sf_setup_def r(1) q(1) Let_def echo_ops_def echo_setup_def eqs get_channel_by_id_def
        sf_send_line assms(3,4) ack) (simp add: in_service_def echo_sessions_def r q(2) t(2) set_stream_def set_output_def emit_def)
qed


lemma emit_fields [simp]: "wires (emit w s) = wires s @ w"
  by (simp add: emit_def)

text \<open>A message to a task in service: the client it names becomes the receiver of the replies.\<close>

lemma message_in_service:
  assumes "in_service n out inp s" "action_seen raw (str_find action_key raw)"
    "sample_json_str_get raw ''zmq_com'' = com" "com \<noteq> []"
  shows "\<exists>ch. channel_message env n cb raw s =
      cb (sample_json_str_get raw ''object'') (sample_json_str_get raw ''data'') (put_channel n ch s) \<and>
    in_service n out inp (put_channel n ch s) \<and> output_url ch = com \<and>
    ch_request_id ch = sample_json_str_get raw ''request_id''"
proof -
  obtain ch p q r where ch: "map_of (llm_task_channel s) n = Some ch" "ch_zmq ch (- 1) = Some p" "zmq_url p = out"
    "ch_zmq ch 0 = Some q" "zmq_url q = inp" "ch_zmq ch (- 2) = Some r" "zmq_url r = output_url ch" "enoutput ch = Some True"
    using assms(1) unfolding in_service_def by blast
  obtain c r' where c: "set_push_url (sf_zmq env) com ch = Inr c" "output_url c = com" "ch_zmq c (- 2) = Some r'"
    "zmq_url r' = com" "ch_zmq c (- 1) = Some p" "ch_zmq c 0 = Some q" "enoutput c = Some True"
  proof (cases "output_url ch = com")
    case True
    with that [of ch r] ch show ?thesis by (simp add: set_push_url_def)
  next
    case False
    with push_url_new [of com ch "sf_zmq env"] assms(4) that ch show ?thesis by fastforce
  qed
  let ?c = "c\<lparr>ch_request_id := sample_json_str_get raw ''request_id'', ch_work_id := sample_json_str_get raw ''work_id''\<rparr>"
  have "subscriber_event_call (sf_zmq env) raw ch =
      Inr (?c, sample_json_str_get raw ''object'', sample_json_str_get raw ''data'')"
    using assms(2-4) c(1) by (simp add: subscriber_event_call_def Let_def)
  then show ?thesis
    using ch c by (intro exI [of _ ?c]) (simp add: channel_message_def in_service_def)
qed

lemma send_on_in_service:
  assumes "in_service n out inp s" "map_of (llm_task_channel s) n = Some ch"
    "line = result_line (sf_time env) (ch_request_id ch) (if w = [] then ch_work_id ch else w) ob d e"
    "line_ok (sf_time env) (ch_request_id ch) (if w = [] then ch_work_id ch else w) ob d e"
  shows "send_on env n ob d e w s = Inr (emit [(out, line), (output_url ch, line)] s)"
  using assms(1-3) result_text_ok [OF assms(4)]
  by (auto simp: in_service_def send_on_def get_channel_def channel_send_def send_raw_to_pub_def send_raw_to_usr_def Let_def)

lemma echo_inference_printable: "utf8 msg \<Longrightarrow> printable_json (echo_inference env msg)"
  by (auto simp: echo_inference_def sf_parse_printable split: option.split)

lemma echo_message_answered:
  assumes "in_service n out inp s" "n \<in> echo_sessions (node s)" "w \<noteq> []"
    and "int_ok (sf_time env)" "utf8 w" "utf8 raw"
    and "action_seen raw (str_find action_key raw)" "sample_json_str_get raw ''zmq_com'' = com" "com \<noteq> []"
  shows "\<exists>s'. channel_message env n (echo_on_inference env n w) raw s = Inr s' \<and>
    (let line = result_line (sf_time env) (sample_json_str_get raw ''request_id'') w ''echo.result''
                  (echo_inference env (sample_json_str_get raw ''data'')) []
     in wires s' = wires s @ [(out, line), (com, line)])"
proof -
  obtain ch where ch: "channel_message env n (echo_on_inference env n w) raw s =
      echo_on_inference env n w (sample_json_str_get raw ''object'') (sample_json_str_get raw ''data'') (put_channel n ch s)"
    "in_service n out inp (put_channel n ch s)" "output_url ch = com"
    "ch_request_id ch = sample_json_str_get raw ''request_id''"
    using message_in_service [OF assms(1,7-9)] by blast
  have "line_ok (sf_time env) (ch_request_id ch) w ''echo.result'' (echo_inference env (sample_json_str_get raw ''data'')) []"
    using assms(4,5) utf8_field [OF assms(6)] ch(4) by (simp add: line_ok_def echo_inference_printable ascii_utf8 code_of_def)
  moreover have "map_of (echo_tasks (node s)) n \<noteq> None" using assms(2) by (simp add: echo_sessions_def keys_of_iff)
  ultimately show ?thesis using ch assms(3) by (simp add: echo_on_inference_def send_on_in_service [OF ch(2)])
qed

text \<open>An echo session works end to end. A set-up request for which the unit manager grants a number
  and two URLs is acknowledged to the client; after it an inference message, as the unit manager
  forwards it, is answered once with the same line on the task's own output URL and to the client the
  message names, with that message's request id and the session's work id.\<close>

theorem echo_session:
  assumes "grants env (unit_name s) n out inp" "CHR ''.'' \<notin> set (unit_name s)" "sf_status s \<noteq> 0"
    and "url \<noteq> []" "length url \<le> max_param0 (sf_schar env)"
    and "action_seen raw (str_find action_key raw)" "sample_json_str_get raw ''zmq_com'' = com" "com \<noteq> []"
    and "int_ok (sf_time env)" "utf8 (unit_name s)" "utf8 body" "utf8 raw"
  shows "\<exists>s1 s2. let w = unit_name s @ ''.'' @ int_to_string n;
      line = result_line (sf_time env) (sample_json_str_get raw ''request_id'') w ''echo.result''
               (echo_inference env (sample_json_str_get raw ''data'')) []
    in process_event env (echo_ops env) (EVENT_SETUP, \<lparr>msg_bytes = set_param url body\<rparr>) s = Inr s1 \<and>
       wires s1 = wires s @ [(url, result_line (sf_time env) (sample_json_str_get body ''request_id'') w
                                     ''None'' (JStr ''None'') [])] \<and>
       channel_message env n (echo_on_inference env n w) raw s1 = Inr s2 \<and>
       wires s2 = wires s1 @ [(out, line), (com, line)]"
proof -
  let ?s = "s\<lparr>sf_request_id := sample_json_str_get body ''request_id'', out_zmq_url := url\<rparr>"
  let ?w = "unit_name s @ ''.'' @ int_to_string n"
  obtain s1 where s1: "sf_setup env (echo_ops env) url body ?s = Inr s1" "in_service n out inp s1"
    "n \<in> echo_sessions (node s1)"
    "wires s1 = wires s @ [(url, result_line (sf_time env) (sample_json_str_get body ''request_id'') ?w
       ''None'' (JStr ''None'') [])]"
    using echo_setup_in_service [of env ?s n out inp url body] assms(1,2,4,9,10) utf8_field [OF assms(11)] by auto
  have ev: "process_event env (echo_ops env) (EVENT_SETUP, \<lparr>msg_bytes = set_param url body\<rparr>) s = Inr s1"
    using s1(1) assms(3,5) by (simp add: on_request_def get_param_simps)
  have "?w \<noteq> []" by simp
  from echo_message_answered [OF s1(2,3) this assms(9) work_id_utf8 [OF assms(10)] assms(12) assms(6-8)] ev s1(4) show ?thesis
    by (auto simp: Let_def)
qed


definition sample_zmq :: zmq_env where
  "sample_zmq = \<lparr>zmq_bind = (\<lambda>_. 0), zmq_connect = (\<lambda>_. 0), zmq_send = (\<lambda>_ s. int (length s)), path_exists = (\<lambda>_. True),
     rpc_answer = (\<lambda>url action data. set_param ''0'' (set_param ''ipc:///tmp/llm/5010.sock'' ''ipc:///tmp/llm/5011.sock''))\<rparr>"

definition sample_sf :: sf_env where
  "sample_sf = \<lparr>sf_zmq = sample_zmq, sf_time = 1700000000, sf_strtod = (\<lambda>_. 0), sf_schar = True\<rparr>"

lemma sample_clock: "int_ok (sf_time sample_sf)"
  by (simp add: sample_sf_def int_ok_def)

lemma sample_body: "utf8 ''{}''" "utf8 (sample_json_str_get ''{}'' key)"
  using utf8_field [of "''{}''" key] by (simp_all add: ascii_utf8 code_of_def)

lemma sample_grants: "grants sample_sf u 0 ''ipc:///tmp/llm/5010.sock'' ''ipc:///tmp/llm/5011.sock''"
  by (simp add: grants_def sample_sf_def sample_zmq_def int_to_string_def nat_to_string_eval int_max_def max_param0_def)

definition sample_request :: string where
  "sample_request = ''{'' @ quoted ''zmq_com'' @ '':'' @ quoted ''ipc:///tmp/llm/8000.sock'' @ '','' @ quoted ''action'' @ '':1}''"

lemma sample_request_facts:
  "action_seen sample_request (str_find action_key sample_request)"
  "sample_json_str_get sample_request ''zmq_com'' = ''ipc:///tmp/llm/8000.sock''" "utf8 sample_request"
  subgoal
    by (rule action_seen_first [of _ 38]) (simp_all add: sample_request_def action_key_def quoted_def)
  subgoal
    by (rule get_string_literal [where n = 1 and sep = "'':''" and rest = "'','' @ quoted ''action'' @ '':1}''"])
      (simp_all add: sample_request_def quoted_def)
  by (simp add: sample_request_def quoted_def ascii_utf8 code_of_def)

theorem echo_session_witness:
  "\<exists>s1 s2. process_event sample_sf (echo_ops sample_sf)
      (EVENT_SETUP, \<lparr>msg_bytes = set_param ''ipc:///tmp/llm/8000.sock'' ''{}''\<rparr>) (echo_new sample_zmq) = Inr s1 \<and>
     channel_message sample_sf 0 (echo_on_inference sample_sf 0 ''echo.0'') sample_request s1 = Inr s2 \<and>
     length (wires s2) = 3"
proof -
  have "int_to_string 0 = ''0''" by (simp add: int_to_string_def nat_to_string_eval)
  moreover have "unit_name (echo_new sample_zmq) = ''echo''" "sf_status (echo_new sample_zmq) \<noteq> 0"
    "wires (echo_new sample_zmq) = []"
    by (simp_all add: echo_new_def stack_flow_new_def)
  ultimately show ?thesis
    using echo_session [OF sample_grants _ _ _ _ sample_request_facts(1) sample_request_facts(2),
        of "echo_new sample_zmq" "''ipc:///tmp/llm/8000.sock''" "''{}''"]
    by (fastforce simp: sample_sf_def max_param0_def Let_def int_ok_def ascii_utf8 code_of_def sample_request_facts(3)
        echo_new_def stack_flow_new_def)
qed


section \<open>Worker sessions\<close>

text \<open>The client that gets the replies of a task.\<close>

definition reply_url :: "int \<Rightarrow> 'n stack_flow \<Rightarrow> string" where
  "reply_url n s = (case map_of (llm_task_channel s) n of None \<Rightarrow> [] | Some ch \<Rightarrow> output_url ch)"

definition session_open :: "int \<Rightarrow> string \<Rightarrow> string \<Rightarrow> ('t, 'e) worker \<Rightarrow> 't \<Rightarrow> bool" where
  "session_open n out inp s t \<longleftrightarrow> in_service n out inp s \<and> map_of (wk_tasks (node s)) n = Some t"

lemma set_tasks_more [simp]:
  "wires (set_tasks ts s) = wires s" "out_zmq_url (set_tasks ts s) = out_zmq_url s"
  "sf_request_id (set_tasks ts s) = sf_request_id s" "wk_jobs (node (set_tasks ts s)) = wk_jobs (node s)"
  "wires (set_jobs q s) = wires s" "wk_jobs (node (set_jobs q s)) = q"
  by (simp_all add: set_tasks_def set_jobs_def)

lemma in_service_cong: "llm_task_channel s' = llm_task_channel s \<Longrightarrow> in_service n out inp s' = in_service n out inp s"
  by (simp add: in_service_def)

lemma reply_url_cong: "llm_task_channel s' = llm_task_channel s \<Longrightarrow> reply_url n s' = reply_url n s"
  by (simp add: reply_url_def)

lemma worker_setup_open:
  assumes "grants env (unit_name s) n out inp" "CHR ''.'' \<notin> set (unit_name s)" "url \<noteq> []" "out_zmq_url s = url"
    "\<not> session_full s" "mk (wk_engine (node s)) = Inr t"
    "\<And>w ob d s. op_setup ops w ob d s = session_setup env st mk w s"
    "int_ok (sf_time env)" "utf8 (unit_name s)" "utf8 (sf_request_id s)"
  shows "\<exists>s'. sf_setup env ops url raw s = Inr s' \<and> session_open n out inp s' t \<and>
     wk_jobs (node s') = wk_jobs (node s) \<and> wk_engine (node s') = wk_engine (node s) \<and> unit_name s' = unit_name s \<and>
     wires s' = wires s @ [(url, result_line (sf_time env) (sf_request_id s)
        (unit_name s @ ''.'' @ int_to_string n) ''None'' (JStr ''None'') [])]"
proof -
  let ?w = "unit_name s @ ''.'' @ int_to_string n"
  obtain ch p where r: "sys_register_unit env (unit_name s) s = Inr (n, put_channel n ch s)" "ch_inference_url ch = inp"
    "ch_zmq ch = [- 1 \<mapsto> p]" "zmq_url p = out" "output_url ch = []"
    using register_granted [OF assms(1), of s] by blast
  obtain q where q: "set_push_url (sf_zmq env) url ch = Inr (ch\<lparr>output_url := url, ch_zmq := (ch_zmq ch)(- 2 \<mapsto> q)\<rparr>)"
    "zmq_url q = url"
    using push_url_new [of url ch "sf_zmq env"] assms(3) r(5) by blast
  have num: "sample_get_work_id_num ?w = Inr n"
    using assms(1,2) by (intro setup_work_id) (auto simp: grants_def int_min_def)
  have inp: "inp \<noteq> []" using assms(1) by (simp add: grants_def)
  obtain x :: "unit pzmq" where x: "pzmq_socket (sf_zmq env) inp ZMQ_SUB = Inr x"
    using inp by (auto simp: pzmq_socket_def Let_def)
  then have xu: "zmq_url x = inp" by (rule pzmq_socket_zmq_url) simp
  note eqs = num [simplified]
  have ack: "line_ok (sf_time env) (sf_request_id s) (unit_name s @ CHR ''.'' # int_to_string n) ''None'' (JStr ''None'') []"
    using ack_ok [OF assms(8,10,9), of n] by simp
  have full: "session_full (put_channel n c s) = session_full s" for c by (simp add: session_full_def)
  show ?thesis
    by (simp add: sf_setup_def r(1) q(1) Let_def assms(5-7) session_setup_def eqs get_channel_by_id_def full
        subscriber_work_id_def set_stream_def set_output_def r(2) x send_text_def sf_send_line assms(3,4) ack)
      (simp add: session_open_def in_service_def r q(2) xu update_conv' emit_def)
qed

lemma inference_queued:
  assumes "session_open n out inp s t" "action_seen raw (str_find action_key raw)"
    "sample_json_str_get raw ''zmq_com'' = com" "com \<noteq> []" "fst (queue_push j (wk_jobs (node s)))"
    "j = \<lparr>job_task = n, job_work_id = w, job_request_id = sample_json_str_get raw ''request_id'',
           job_input = sample_json_str_get raw ''data'', job_stream = str\<rparr>"
  shows "\<exists>s'. channel_message env n (queue_inference env str n w) raw s = Inr s' \<and> session_open n out inp s' t \<and>
    reply_url n s' = com \<and> wk_jobs (node s') = snd (queue_push j (wk_jobs (node s))) \<and> wires s' = wires s \<and>
    wk_engine (node s') = wk_engine (node s)"
proof -
  obtain ch where ch: "channel_message env n (queue_inference env str n w) raw s =
      queue_inference env str n w (sample_json_str_get raw ''object'') (sample_json_str_get raw ''data'') (put_channel n ch s)"
    "in_service n out inp (put_channel n ch s)" "output_url ch = com" "ch_request_id ch = sample_json_str_get raw ''request_id''"
    using message_in_service [of n out inp s raw com env "queue_inference env str n w"] assms(1-4)
    unfolding session_open_def by blast
  let ?q = "snd (queue_push j (wk_jobs (node s)))"
  have "queue_inference env str n w (sample_json_str_get raw ''object'') (sample_json_str_get raw ''data'') (put_channel n ch s)
      = Inr (set_jobs ?q (put_channel n ch s))"
    using assms(1,5,6) ch(4)
    by (simp add: queue_inference_def enqueue_job_def session_open_def case_prod_beta)
  moreover have "session_open n out inp (set_jobs ?q (put_channel n ch s)) t"
    using ch(2) assms(1) by (simp add: session_open_def in_service_def)
  ultimately show ?thesis
    using ch(1,3) by (simp add: reply_url_def)
qed

lemma worker_begin_open:
  assumes "session_open (job_task j) out inp s t" "wait_pop (wk_jobs (node s)) = Some (Some j, q)"
  shows "\<exists>s1 ch. worker_begin s = Some (Some (j, Some t), s1) \<and> session_open (job_task j) out inp s1 t \<and>
    map_of (llm_task_channel s1) (job_task j) = Some ch \<and> ch_request_id ch = job_request_id j \<and>
    output_url ch = reply_url (job_task j) s \<and> wires s1 = wires s \<and> wk_jobs (node s1) = q \<and>
    wk_engine (node s1) = wk_engine (node s) \<and> wk_tasks (node s1) = wk_tasks (node s)"
proof -
  obtain ch where ch: "map_of (llm_task_channel s) (job_task j) = Some ch"
    using assms(1) by (auto simp: session_open_def in_service_def)
  let ?s = "put_channel (job_task j) (ch\<lparr>ch_request_id := job_request_id j\<rparr>) (set_jobs q s)"
  have "worker_begin s = Some (Some (j, Some t), ?s)"
    using assms ch by (simp add: worker_begin_def session_open_def)
  moreover have "session_open (job_task j) out inp ?s t"
    using assms(1) ch by (simp add: session_open_def in_service_def)
  ultimately show ?thesis using ch by (simp add: reply_url_def)
qed


definition asr_reply :: "sf_env \<Rightarrow> job \<Rightarrow> string + json \<Rightarrow> string" where
  "asr_reply env j r = (case r of
       Inl err \<Rightarrow> result_line (sf_time env) (job_request_id j) (job_work_id j) ''None'' (JStr ''None'') err
     | Inr res \<Rightarrow> result_line (sf_time env) (job_request_id j) (job_work_id j) ''asr.result.stream'' res [])"

text \<open>All texts of an answer are UTF-8, so it can be printed.\<close>

definition reply_ok :: "string + json \<Rightarrow> bool" where
  "reply_ok r = (case r of Inl err \<Rightarrow> utf8 err | Inr res \<Rightarrow> printable_json res)"

lemma reply_ok_simps [simp]: "reply_ok (Inl err) = utf8 err" "reply_ok (Inr res) = printable_json res"
  by (simp_all add: reply_ok_def)

lemma utf8_error_text: "utf8 msg \<Longrightarrow> utf8 (error_text c msg)"
  by (auto simp: error_text_def quoted_def utf8_Cons_ascii code_of_def ascii_utf8
      intro!: utf8_append [OF utf8_int_to_string] utf8_append)

lemma asr_inference_printable:
  assumes "asr_inference env fl lib e data st = Inr (st', r)" "\<And>x. utf8 (asr_text lib x)"
  shows "reply_ok r"
proof -
  have e: "utf8 (error_text c msg)" if "list_all (\<lambda>c. code_of c \<le> 0x7F) msg" for c msg
    using utf8_error_text [OF ascii_utf8 [OF that]] .
  have o: "printable_json (json_object [(''text'', JStr t), (''endpoint'', JBool b), (''final'', JBool f)])" if "utf8 t" for t b f
    using that by (intro printable_json_object) (simp add: ascii_utf8 code_of_def)
  have finish_utf8: "utf8 t" if "asr_finish lib e st = Inr (x, Some t)" for x t
    using that assms(2) by (auto simp: asr_finish_def rbind_Inr_iff split: option.splits if_splits)
  have feed_utf8: "utf8 t" if "asr_feed lib samples e st = Inr (x, Some (t, b))" for samples x t b
    using that assms(2) by (auto simp: asr_feed_def rbind_Inr_iff split: option.splits if_splits)
  note d = asr_inference_def e code_of_def
  show ?thesis
  proof (cases "sf_parse env data")
    case None
    then show ?thesis using assms(1) by (auto simp: d)
  next
    case (Some body)
    consider (bad) "json_value get_bool body ''finish'' False = None"
      | (finish) "json_value get_bool body ''finish'' False = Some True"
      | (feed) "json_value get_bool body ''finish'' False = Some False" by (metis (full_types) not_None_eq)
    then show ?thesis
    proof cases
      case bad
      then show ?thesis using assms(1) Some by (auto simp: d)
    next
      case finish
      then obtain x t where t: "asr_finish lib e st = Inr (x, t)"
        using assms(1) Some by (auto simp: asr_inference_def rbind_Inr_iff)
      then show ?thesis using assms(1) Some finish finish_utf8 [of x] by (cases t) (auto simp: d intro!: o)
    next
      case feed
      show ?thesis
      proof (cases "Option.bind (json_field body ''samples'') (get_samples fl)")
        case None
        then show ?thesis using assms(1) Some feed by (auto simp: d)
      next
        case samples: (Some samples)
        then obtain x t where t: "asr_feed lib samples e st = Inr (x, t)"
          using assms(1) Some feed by (auto simp: asr_inference_def rbind_Inr_iff)
        then show ?thesis using assms(1) Some feed samples feed_utf8 [of samples x] by (cases t) (auto simp: d intro!: o)
      qed
    qed
  qed
qed

lemma asr_turn:
  assumes "session_open (job_task j) out inp s st" "wait_pop (wk_jobs (node s)) = Some (Some j, q)"
    "job_work_id j \<noteq> []" "asr_inference env fl lib (wk_engine (node s)) (job_input j) st = Inr (st', r)"
    "int_ok (sf_time env)" "utf8 (job_request_id j)" "utf8 (job_work_id j)" "\<And>x. utf8 (asr_text lib x)"
  shows "\<exists>s'. worker_turn (asr_run_job env fl lib) s = Some (Inr (True, s')) \<and>
    session_open (job_task j) out inp s' st' \<and> wk_jobs (node s') = q \<and>
    reply_url (job_task j) s' = reply_url (job_task j) s \<and>
    wires s' = wires s @ [(out, asr_reply env j r), (reply_url (job_task j) s, asr_reply env j r)]"
proof -
  obtain s1 ch where b: "worker_begin s = Some (Some (j, Some st), s1)" "session_open (job_task j) out inp s1 st"
    "map_of (llm_task_channel s1) (job_task j) = Some ch" "ch_request_id ch = job_request_id j"
    "output_url ch = reply_url (job_task j) s" "wires s1 = wires s" "wk_jobs (node s1) = q"
    "wk_engine (node s1) = wk_engine (node s)"
    using worker_begin_open [OF assms(1,2)] by blast
  let ?s = "set_tasks (AList.update (job_task j) st' (wk_tasks (node s1))) s1"
  have i: "in_service (job_task j) out inp ?s" "map_of (llm_task_channel ?s) (job_task j) = Some ch"
    using b(2,3) by (simp_all add: session_open_def in_service_def)
  have "asr_run_job env fl lib j st s1 =
      Inr (emit [(out, asr_reply env j r), (reply_url (job_task j) s, asr_reply env j r)] ?s)"
    using assms(3,4) b(4,5,8) assms(5-7) asr_inference_printable [OF assms(4,8)]
    by (cases r) (simp_all add: asr_run_job_def send_on_in_service [OF i] asr_reply_def line_ok_def ascii_utf8 code_of_def)
  with i b show ?thesis
    by (intro exI [of _ "emit [(out, asr_reply env j r), (reply_url (job_task j) s, asr_reply env j r)] ?s"])
      (simp add: worker_turn_def session_open_def in_service_def reply_url_def update_conv')
qed

text \<open>C28: A job of the recogniser is answered exactly once, whether the inference succeeds or fails, on the
  task's output URL and to the client of the task, with the job's request id and work id; the session
  stays open with the stream the inference left.\<close>

theorem asr_job_answered:
  assumes "session_open (job_task j) out inp s st" "wait_pop (wk_jobs (node s)) = Some (Some j, q)"
    "job_work_id j \<noteq> []" "asr_inference env fl lib (wk_engine (node s)) (job_input j) st = Inr (st', r)"
    "int_ok (sf_time env)" "utf8 (job_request_id j)" "utf8 (job_work_id j)" "\<And>x. utf8 (asr_text lib x)"
  shows "\<exists>s'. worker_turn (asr_run_job env fl lib) s = Some (Inr (True, s')) \<and>
    session_open (job_task j) out inp s' st' \<and> wk_jobs (node s') = q \<and>
    wires s' = wires s @ [(out, asr_reply env j r), (reply_url (job_task j) s, asr_reply env j r)]"
  using asr_turn [OF assms] by blast

text \<open>C32: The client of a queued job is not kept with the job. Two requests of different clients wait in the
  queue; the answer to the first one, with its own request id, is pushed to the client that sent the
  second.\<close>

theorem queued_answer_goes_to_last_client:
  assumes "session_open n out inp s st" "wk_jobs (node s) = job_queue_new k" "2 \<le> k" "w \<noteq> []"
    and "action_seen raw1 (str_find action_key raw1)" "sample_json_str_get raw1 ''zmq_com'' = com1" "com1 \<noteq> []"
    and "action_seen raw2 (str_find action_key raw2)" "sample_json_str_get raw2 ''zmq_com'' = com2" "com2 \<noteq> []"
    and "asr_inference env fl lib (wk_engine (node s)) (sample_json_str_get raw1 ''data'') st = Inr (st', r)"
    and "j = \<lparr>job_task = n, job_work_id = w, job_request_id = sample_json_str_get raw1 ''request_id'',
              job_input = sample_json_str_get raw1 ''data'', job_stream = False\<rparr>"
    and "int_ok (sf_time env)" "utf8 raw1" "utf8 w" "\<And>x. utf8 (asr_text lib x)"
  shows "\<exists>s1 s2 s3. channel_message env n (asr_on_inference env n w) raw1 s = Inr s1 \<and> reply_url n s1 = com1 \<and>
    channel_message env n (asr_on_inference env n w) raw2 s1 = Inr s2 \<and>
    worker_turn (asr_run_job env fl lib) s2 = Some (Inr (True, s3)) \<and>
    wires s3 = wires s @ [(out, asr_reply env j r), (com2, asr_reply env j r)]"
proof -
  have cb: "asr_on_inference env n w = queue_inference env False n w"
    by (intro ext) (simp add: asr_on_inference_def)
  let ?j = "\<lambda>raw. \<lparr>job_task = n, job_work_id = w, job_request_id = sample_json_str_get raw ''request_id'',
              job_input = sample_json_str_get raw ''data'', job_stream = False\<rparr>"
  obtain s1 where s1: "channel_message env n (asr_on_inference env n w) raw1 s = Inr s1" "session_open n out inp s1 st"
    "reply_url n s1 = com1" "wk_jobs (node s1) = \<lparr>max_size = k, jobs = [j], running = True\<rparr>" "wires s1 = wires s"
    "wk_engine (node s1) = wk_engine (node s)"
    using inference_queued [OF assms(1,5-7), of j w False] assms(2,3,12)
    unfolding cb by (auto simp: queue_push_def job_queue_new_def)
  obtain s2 where s2: "channel_message env n (asr_on_inference env n w) raw2 s1 = Inr s2" "session_open n out inp s2 st"
    "reply_url n s2 = com2" "wk_jobs (node s2) = \<lparr>max_size = k, jobs = [j, ?j raw2], running = True\<rparr>" "wires s2 = wires s"
    "wk_engine (node s2) = wk_engine (node s)"
    using inference_queued [OF s1(2) assms(8-10), of "?j raw2" w False] assms(3) s1(4-6)
    unfolding cb by (auto simp: queue_push_def)
  have "session_open (job_task j) out inp s2 st" "wait_pop (wk_jobs (node s2)) = Some (Some j, \<lparr>max_size = k, jobs = [?j raw2], running = True\<rparr>)"
    "job_work_id j \<noteq> []" "asr_inference env fl lib (wk_engine (node s2)) (job_input j) st = Inr (st', r)" "job_task j = n"
    using s2 assms(4,11,12) by (simp_all add: wait_pop_def)
  then obtain s3 where "worker_turn (asr_run_job env fl lib) s2 = Some (Inr (True, s3))"
    "wires s3 = wires s @ [(out, asr_reply env j r), (com2, asr_reply env j r)]"
    using asr_turn [of j out inp s2 st _ env fl lib st' r, OF _ _ _ _ assms(13) _ _ assms(16)] s2(3,5) assms(12,15)
      utf8_field [OF assms(14)] by auto
  with s1(1,3) s2(1) show ?thesis by blast
qed


section \<open>A streamed answer\<close>

definition delta_line :: "sf_env \<Rightarrow> job \<Rightarrow> nat \<Rightarrow> string \<Rightarrow> bool \<Rightarrow> string" where
  "delta_line env j i text finish =
     result_line (sf_time env) (job_request_id j) (job_work_id j) ''rkllm.result.stream''
       (json_object [(''index'', JInt (int i)), (''delta'', JStr (if finish then [] else text)), (''finish'', JBool finish)]) []"

definition both :: "string \<Rightarrow> string \<Rightarrow> string list \<Rightarrow> wire" where
  "both out com lines = concat (map (\<lambda>l. [(out, l), (com, l)]) lines)"

lemma both_simps [simp]:
  "both out com [] = []" "both out com (l # ls) = (out, l) # (com, l) # both out com ls"
  by (simp_all add: both_def)

lemma to_int32_Suc: "Suc i < 2 ^ 31 \<Longrightarrow> to_int32 (int i + 1) = int (Suc i)"
  using to_int32_id [of "int (Suc i)"] by (simp add: int_min_def int_max_def add.commute)

text \<open>What all lines of a job's answer have in common can be printed.\<close>

definition job_ok :: "sf_env \<Rightarrow> job \<Rightarrow> bool" where
  "job_ok env j \<longleftrightarrow> int_ok (sf_time env) \<and> utf8 (job_request_id j) \<and> utf8 (job_work_id j)"

lemma rkllm_delta_line:
  assumes "in_service (job_task j) out inp s" "reply_url (job_task j) s = com" "job_work_id j \<noteq> []" "Suc i < 2 ^ 31"
    "job_ok env j" "finish \<or> utf8 text"
  shows "\<exists>s'. rkllm_delta env j text finish (int i, s) = Inr (int (Suc i), s') \<and>
    in_service (job_task j) out inp s' \<and> reply_url (job_task j) s' = com \<and> node s' = node s \<and>
    wires s' = wires s @ both out com [delta_line env j i text finish]"
proof -
  obtain ch where ch: "map_of (llm_task_channel s) (job_task j) = Some ch"
    using assms(1) by (auto simp: in_service_def)
  let ?c = "ch\<lparr>ch_request_id := job_request_id j\<rparr>"
  let ?s = "put_channel (job_task j) ?c s"
  have i: "in_service (job_task j) out inp ?s" "map_of (llm_task_channel ?s) (job_task j) = Some ?c"
    using assms(1) ch by (simp_all add: in_service_def)
  have c: "output_url ch = com" using assms(2) ch by (simp add: reply_url_def)
  define body where "body = json_object [(''index'', JInt (int i)), (''delta'', JStr (if finish then [] else text)),
    (''finish'', JBool finish)]"
  have "printable_json body"
    unfolding body_def using assms(4,6) by (intro printable_json_object) (auto simp: ascii_utf8 code_of_def int_ok_def)
  then have "line_ok (sf_time env) (job_request_id j) (job_work_id j) ''rkllm.result.stream'' body []"
    using assms(5) by (simp add: line_ok_def job_ok_def ascii_utf8 code_of_def)
  then have "rkllm_delta env j text finish (int i, s) =
      Inr (int (Suc i), emit (both out com [delta_line env j i text finish]) ?s)"
    using assms(3) ch c to_int32_Suc [OF assms(4)]
    by (simp add: rkllm_delta_def get_channel_def send_on_in_service [OF i] delta_line_def Let_def body_def [symmetric])
  with i c show ?thesis by (simp add: in_service_def reply_url_def)
qed

lemma both_append [simp]: "both out com (ls @ ls') = both out com ls @ both out com ls'"
  by (simp add: both_def)

lemma rkllm_pieces:
  assumes "in_service (job_task j) out inp s" "reply_url (job_task j) s = com" "job_work_id j \<noteq> []"
    "i + length texts < 2 ^ 31" "job_ok env j" "\<forall>t \<in> set texts. utf8 t"
  shows "\<exists>s'. (\<forall>rest. rk_callbacks (Some (rkllm_delta env j)) (map (\<lambda>t. Run_normal (Some t)) texts @ rest) ((int i, s), False)
      = rk_callbacks (Some (rkllm_delta env j)) rest ((int (i + length texts), s'), False)) \<and> node s' = node s \<and>
    in_service (job_task j) out inp s' \<and> reply_url (job_task j) s' = com \<and>
    wires s' = wires s @ both out com (map (\<lambda>(k, t). delta_line env j k t False) (enumerate i texts))"
  using assms
proof (induction texts arbitrary: i s)
  case (Cons t texts)
  from rkllm_delta_line [of j out inp s com i env False t] Cons.prems
  obtain s1 where s1: "rkllm_delta env j t False (int i, s) = Inr (int (Suc i), s1)" "in_service (job_task j) out inp s1"
    "reply_url (job_task j) s1 = com" "node s1 = node s" "wires s1 = wires s @ both out com [delta_line env j i t False]"
    by auto
  have "Suc i + length texts < 2 ^ 31" "\<forall>t \<in> set texts. utf8 t" using Cons.prems(4,6) by simp_all
  then obtain s' where
    "\<forall>rest. rk_callbacks (Some (rkllm_delta env j)) (map (\<lambda>t. Run_normal (Some t)) texts @ rest) ((int (Suc i), s1), False)
      = rk_callbacks (Some (rkllm_delta env j)) rest ((int (Suc i + length texts), s'), False)" "node s' = node s1"
    "in_service (job_task j) out inp s'" "reply_url (job_task j) s' = com"
    "wires s' = wires s1 @ both out com (map (\<lambda>(k, t). delta_line env j k t False) (enumerate (Suc i) texts))"
    using Cons.IH [OF s1(2,3) Cons.prems(3) _ Cons.prems(5)] by blast
  with s1 show ?case by (intro exI [of _ s']) simp
qed (auto simp: both_def)

lemma rkllm_deltas:
  assumes "in_service (job_task j) out inp s" "reply_url (job_task j) s = com" "job_work_id j \<noteq> []"
    "i + length texts + 1 < 2 ^ 31" "job_ok env j" "\<forall>t \<in> set texts. utf8 t"
  shows "\<exists>s'. rk_callbacks (Some (rkllm_delta env j)) (map (\<lambda>t. Run_normal (Some t)) texts @ [Run_finish]) ((int i, s), False)
      = Inr ((int (i + length texts + 1), s'), False) \<and> node s' = node s \<and>
    in_service (job_task j) out inp s' \<and> reply_url (job_task j) s' = com \<and>
    wires s' = wires s @ both out com
      (map (\<lambda>(k, t). delta_line env j k t False) (enumerate i texts) @ [delta_line env j (i + length texts) [] True])"
proof -
  have "i + length texts < 2 ^ 31" "Suc (i + length texts) < 2 ^ 31" using assms(4) by simp_all
  then obtain s1 where s1: "\<And>rest. rk_callbacks (Some (rkllm_delta env j)) (map (\<lambda>t. Run_normal (Some t)) texts @ rest) ((int i, s), False)
      = rk_callbacks (Some (rkllm_delta env j)) rest ((int (i + length texts), s1), False)" "node s1 = node s"
    "in_service (job_task j) out inp s1" "reply_url (job_task j) s1 = com"
    "wires s1 = wires s @ both out com (map (\<lambda>(k, t). delta_line env j k t False) (enumerate i texts))"
    using rkllm_pieces [OF assms(1-3) _ assms(5,6)] by blast
  obtain s2 where "rkllm_delta env j [] True (int (i + length texts), s1) = Inr (int (Suc (i + length texts)), s2)"
    "in_service (job_task j) out inp s2" "reply_url (job_task j) s2 = com" "node s2 = node s1"
    "wires s2 = wires s1 @ both out com [delta_line env j (i + length texts) [] True]"
    using rkllm_delta_line [OF s1(3,4) assms(3) \<open>Suc (i + length texts) < 2 ^ 31\<close> assms(5)] by blast
  with s1 show ?thesis by (intro exI [of _ s2]) simp
qed

text \<open>C29: When the library produces \<open>k\<close> pieces of text and finishes, the worker sends \<open>k + 1\<close> messages, each to
  the task's output URL and to its client, numbered from 0 without gaps, the pieces in order and the
  last one empty and marked as the end; all carry the job's request id.\<close>

theorem rkllm_stream_numbered:
  assumes "session_open (job_task j) out inp s ()" "wait_pop (wk_jobs (node s)) = Some (Some j, q)"
    and "job_work_id j \<noteq> []" "job_stream j" "rk_handle (wk_engine (node s))"
    and "rkllm_prompt env (job_input j) = Inr prompt"
    and "rk_run lib prompt = (map (\<lambda>t. Run_normal (Some t)) texts @ [Run_finish], 0)" "length texts + 1 < 2 ^ 31"
    and "job_ok env j" "\<forall>t \<in> set texts. utf8 t"
  shows "\<exists>s'. worker_turn (rkllm_run_job env lib) s = Some (Inr (True, s')) \<and> wk_jobs (node s') = q \<and>
    session_open (job_task j) out inp s' () \<and>
    wires s' = wires s @ both out (reply_url (job_task j) s)
      (map (\<lambda>(k, t). delta_line env j k t False) (enumerate 0 texts) @ [delta_line env j (length texts) [] True])"
proof -
  obtain s1 where b: "worker_begin s = Some (Some (j, Some ()), s1)" "session_open (job_task j) out inp s1 ()"
    "reply_url (job_task j) s1 = reply_url (job_task j) s" "wires s1 = wires s" "wk_jobs (node s1) = q"
    "wk_engine (node s1) = wk_engine (node s)" "wk_tasks (node s1) = wk_tasks (node s)"
    using worker_begin_open [OF assms(1,2)] by (fastforce simp: reply_url_def)
  have "prompt \<noteq> []" using assms(6) by (auto simp: rkllm_prompt_def split: option.splits json.splits if_splits)
  moreover obtain s' where s': "rk_callbacks (Some (rkllm_delta env j)) (map (\<lambda>t. Run_normal (Some t)) texts @ [Run_finish])
      ((0, s1), False) = Inr ((int (length texts + 1), s'), False)" "node s' = node s1" "in_service (job_task j) out inp s'"
    "wires s' = wires s1 @ both out (reply_url (job_task j) s)
      (map (\<lambda>(k, t). delta_line env j k t False) (enumerate 0 texts) @ [delta_line env j (length texts) [] True])"
    using rkllm_deltas [of j out inp s1 _ 0 texts env, OF _ b(3) assms(3)] b(2) assms(8-10)
    by (auto simp: session_open_def)
  ultimately have "rkllm_run_job env lib j () s1 = Inr s'"
    using assms(4-7) b(6) by (simp add: rkllm_run_job_def rkllm_inference_stream_def rk_run_stream_def)
  with b s' show ?thesis by (simp add: worker_turn_def session_open_def)
qed

lemma delta_throws:
  assumes "in_service (job_task j) out inp s" "\<not> utf8 text" "job_ok env j" "i < 2 ^ 31"
  shows "rkllm_delta env j text False (int i, s) = Inl JsonError"
proof -
  obtain ch where ch: "map_of (llm_task_channel s) (job_task j) = Some ch" using assms(1) by (auto simp: in_service_def)
  have "result_text (sf_time env) rid w ''rkllm.result.stream''
      (json_object [(''index'', JInt (int i)), (''delta'', JStr text), (''finish'', JBool False)]) [] = Inl JsonError" for rid w
    using assms(2-4)
    by (intro result_text_bad) (simp_all add: result_json_def json_object_def code_of_def job_ok_def int_ok_def)
  then show ?thesis
    using ch by (simp add: rkllm_delta_def get_channel_def send_on_def channel_send_def Let_def)
qed

text \<open>C30: A piece of text that is not UTF-8 ends the node. The library's pieces are tokens, which may split a character;
  \<open>dump()\<close> of the message for such a piece throws \<open>type_error\<close>, which neither the callback nor the worker's loop
  catches, although the pieces before it were sent.\<close>

theorem rkllm_broken_piece:
  assumes "session_open (job_task j) out inp s ()" "wait_pop (wk_jobs (node s)) = Some (Some j, q)"
    and "job_work_id j \<noteq> []" "job_stream j" "rk_handle (wk_engine (node s))"
    and "rkllm_prompt env (job_input j) = Inr prompt"
    and "rk_run lib prompt = (map (\<lambda>t. Run_normal (Some t)) texts @ Run_normal (Some piece) # rest, ret)"
    and "length texts < 2 ^ 31" "job_ok env j" "\<forall>t \<in> set texts. utf8 t" "\<not> utf8 piece"
  shows "worker_turn (rkllm_run_job env lib) s = Some (Inl JsonError)"
proof -
  obtain s1 where b: "worker_begin s = Some (Some (j, Some ()), s1)" "session_open (job_task j) out inp s1 ()"
    "wk_engine (node s1) = wk_engine (node s)"
    using worker_begin_open [OF assms(1,2)] by blast
  have p: "prompt \<noteq> []" using assms(6) by (auto simp: rkllm_prompt_def split: option.splits json.splits if_splits)
  obtain s2 where s2: "\<And>rest. rk_callbacks (Some (rkllm_delta env j)) (map (\<lambda>t. Run_normal (Some t)) texts @ rest) ((int 0, s1), False)
      = rk_callbacks (Some (rkllm_delta env j)) rest ((int (0 + length texts), s2), False)" "in_service (job_task j) out inp s2"
    using rkllm_pieces [of j out inp s1 _ 0 texts env, OF _ refl assms(3) _ assms(9,10)] b(2) assms(8)
    by (auto simp: session_open_def)
  have "rk_callbacks (Some (rkllm_delta env j)) (fst (rk_run lib prompt)) ((0, s1), False) = Inl JsonError"
    using s2(1) [of "Run_normal (Some piece) # rest"] delta_throws [OF s2(2) assms(11,9,8)] by (simp add: assms(7))
  then have "rkllm_run_job env lib j () s1 = Inl JsonError"
    using assms(4-7) b(3) p by (simp add: rkllm_run_job_def rkllm_inference_stream_def rk_run_stream_def)
  with b(1) show ?thesis by (simp add: worker_turn_def)
qed

text \<open>C33: No node survives a pause request. Whatever the node, as long as it has the base class's \<open>pause\<close>, as
  all five do, the handler throws \<open>type_error\<close> on a request whose reply URL contains no field
  \<open>work_id\<close>; nothing catches it in the event loop.\<close>

theorem pause_ends_every_node:
  assumes "op_pause ops = base_pause env" "sf_status s \<noteq> 0" "url \<noteq> []" "length url \<le> max_param0 (sf_schar env)"
    "str_find (quoted ''work_id'') url = None"
  shows "process_event env ops (EVENT_PAUSE, \<lparr>msg_bytes = set_param url raw\<rparr>) s = Inl JsonError"
proof -
  have w: "sample_json_str_get url ''work_id'' = []" using assms(5) by (simp add: sample_json_str_get_def)
  have push: "\<exists>c. set_push_url (sf_zmq env) url ch = Inr c" for ch
    using push_url_new [OF assms(3), of ch] by (cases "output_url ch = url") (auto simp: set_push_url_def)
  have "\<exists>s1. retarget env url [] t = Inr s1" for t :: "'a stack_flow"
  proof (cases "get_channel WORK_ID_NONE t")
    case (Inl f)
    then show ?thesis
      by (auto simp: retarget_def sample_get_work_id_num_def get_channel_def is_exception_def split: option.splits)
  next
    case (Inr ch)
    with push [of ch] show ?thesis by (auto simp: retarget_def sample_get_work_id_num_def)
  qed
  then have "sf_pause env ops url url t = Inl JsonError" for t :: "'a stack_flow"
    using assms(1) w by (metis sf_pause_def base_handlers_throw(1) rbind_simps(2))
  then show ?thesis
    using assms(2,4) by (simp add: on_request_def get_param_simps)
qed

theorem pause_ends_every_node_witness:
  "process_event sample_sf (echo_ops sample_sf)
     (EVENT_PAUSE, \<lparr>msg_bytes = set_param ''ipc:///tmp/llm/8000.sock'' ''{}''\<rparr>) (echo_new sample_zmq) = Inl JsonError"
  by (rule pause_ends_every_node)
    (simp_all add: echo_ops_def echo_new_def stack_flow_new_def sample_sf_def max_param0_def quoted_def)


section \<open>Witnesses\<close>

lemma sample_session:
  assumes "grants env ''asr'' 0 ''ipc:///tmp/llm/5010.sock'' ''ipc:///tmp/llm/5011.sock''" "int_ok (sf_time env)"
  shows "\<exists>s :: ('t, 'e) worker. session_open 0 ''ipc:///tmp/llm/5010.sock'' ''ipc:///tmp/llm/5011.sock'' s t \<and>
     wk_jobs (node s) = job_queue_new 2 \<and> wk_engine (node s) = e"
proof -
  let ?s = "(worker_new sample_zmq ''asr'' 8 2 e)\<lparr>out_zmq_url := ''x''\<rparr> :: ('t, 'e) worker"
  let ?ops = "\<lparr>op_setup = \<lambda>w ob d s. session_setup env True (\<lambda>_. Inr t) w s, op_exit = \<lambda>_ _ _ s. Inr (0, s),
     op_pause = \<lambda>_ _ _ s. Inr s, op_taskinfo = \<lambda>_ _ _ s. Inr s\<rparr>"
  have s: "unit_name ?s = ''asr''" "\<not> session_full ?s" "wk_jobs (node ?s) = job_queue_new 2" "wk_engine (node ?s) = e"
    "sf_request_id ?s = []"
    by (simp_all add: worker_new_def stack_flow_new_def session_full_def)
  then have "\<exists>s'. sf_setup env ?ops ''x'' [] ?s = Inr s' \<and>
      session_open 0 ''ipc:///tmp/llm/5010.sock'' ''ipc:///tmp/llm/5011.sock'' s' t \<and>
      wk_jobs (node s') = wk_jobs (node ?s) \<and> wk_engine (node s') = wk_engine (node ?s) \<and> unit_name s' = unit_name ?s \<and>
      wires s' = wires ?s @ [(''x'', result_line (sf_time env) (sf_request_id ?s)
        (unit_name ?s @ ''.'' @ int_to_string 0) ''None'' (JStr ''None'') [])]"
    using assms by (intro worker_setup_open [where mk = "\<lambda>_. Inr t" and st = True]) (simp_all add: ascii_utf8 code_of_def)
  with s(3,4) show ?thesis by (metis (no_types, lifting))
qed

definition sample_asr_lib :: "unit asr_lib" where
  "sample_asr_lib = \<lparr>asr_create_ok = (\<lambda>_. True), asr_stream = Some (), asr_accept = (\<lambda>_ x. x), asr_input_finished = (\<lambda>x. x),
     asr_ready = (\<lambda>_. False), asr_decode = (\<lambda>x. x), asr_text = (\<lambda>_. []), asr_endpoint = (\<lambda>_. False)\<rparr>"

definition sample_tts_lib :: "unit tts_lib" where
  "sample_tts_lib = \<lparr>tts_load = (\<lambda>_. (1, True)), tts_infer = (\<lambda>_ _ _. (Some [1, 2], 2)), tts_speakers = 1, fl_positive = (\<lambda>_. True),
     pcm_open = (\<lambda>_. 0), pcm_set_params = 0, pcm_recover = (\<lambda>_. 0), pcm_strerror = (\<lambda>_. [])\<rparr>"

definition sample_floats :: "unit floats" where
  "sample_floats = \<lparr>fl_of_int = (\<lambda>_. ()), fl_of_double = (\<lambda>_. ()), fl_to_json = (\<lambda>_. JNull), fl_trunc = (\<lambda>_. 0)\<rparr>"

definition sample_job :: job where
  "sample_job = \<lparr>job_task = 0, job_work_id = ''asr.0'', job_request_id = ''7'', job_input = ''{}'', job_stream = True\<rparr>"

lemma sample_parse: "sf_parse sample_sf [] = None" "sf_parse sample_sf ''{}'' = Some (JObj [])"
proof -
  have "\<exists>e. json_parse (\<lambda>_. 0) [] = Inr (Inl e)" by (intro exI) code_simp
  then show "sf_parse sample_sf [] = None" by (auto simp: sf_parse_def sample_sf_def)
  show "sf_parse sample_sf ''{}'' = Some (JObj [])" using sf_parse_dump [of sample_sf "JObj []"] by simp
qed

lemma sample_asr_inference:
  "d = [] \<or> d = ''{}'' \<Longrightarrow> asr_inference sample_sf sample_floats sample_asr_lib \<lparr>recognizer = True\<rparr> d (Some ()) =
     Inr (Some (), Inl (error_text (- 2) ''data must contain PCM16 samples or finish=true''))"
  by (auto simp: asr_inference_def sample_parse json_value_def)

lemma sample_job_texts:
  "utf8 (job_request_id sample_job)" "utf8 (job_work_id sample_job)" "\<And>x. utf8 (asr_text sample_asr_lib x)"
  "job_ok sample_sf sample_job"
  by (simp_all add: sample_job_def sample_asr_lib_def sample_clock job_ok_def ascii_utf8 code_of_def)

theorem asr_job_answered_witness:
  "\<exists>s s'. worker_turn (asr_run_job sample_sf sample_floats sample_asr_lib) s = Some (Inr (True, s')) \<and>
     length (wires s') = length (wires s) + 2"
proof -
  obtain s :: "unit asr_node" where s0: "session_open 0 ''ipc:///tmp/llm/5010.sock'' ''ipc:///tmp/llm/5011.sock'' s (Some ()) \<and>
      wk_jobs (node s) = job_queue_new 2 \<and> wk_engine (node s) = \<lparr>recognizer = True\<rparr>"
    by (rule exE [OF sample_session [OF sample_grants sample_clock, of "(Some ())" "\<lparr>recognizer = True\<rparr>"]])
  note s = s0 [THEN conjunct1] s0 [THEN conjunct2, THEN conjunct2]
  let ?s = "set_jobs \<lparr>max_size = 2, jobs = [sample_job], running = True\<rparr> s"
  have "session_open (job_task sample_job) ''ipc:///tmp/llm/5010.sock'' ''ipc:///tmp/llm/5011.sock'' ?s (Some ())"
    "wait_pop (wk_jobs (node ?s)) = Some (Some sample_job, \<lparr>max_size = 2, jobs = [], running = True\<rparr>)"
    "job_work_id sample_job \<noteq> []"
    "asr_inference sample_sf sample_floats sample_asr_lib (wk_engine (node ?s)) (job_input sample_job) (Some ()) =
       Inr (Some (), Inl (error_text (- 2) ''data must contain PCM16 samples or finish=true''))"
    using s by (simp_all add: session_open_def in_service_def sample_job_def wait_pop_def sample_asr_inference)
  from asr_job_answered [OF this sample_clock sample_job_texts(1-3)] obtain s' line where
    "worker_turn (asr_run_job sample_sf sample_floats sample_asr_lib) ?s = Some (Inr (True, s'))"
    "wires s' = wires ?s @ [(''ipc:///tmp/llm/5010.sock'', line), (reply_url (job_task sample_job) ?s, line)]"
    by blast
  then show ?thesis by (intro exI [of _ ?s] exI [of _ s']) simp
qed

theorem queued_answer_goes_to_last_client_witness:
  "\<exists>s s1 s2 s3. channel_message sample_sf 0 (asr_on_inference sample_sf 0 ''asr.0'') sample_request s = Inr s1 \<and>
    channel_message sample_sf 0 (asr_on_inference sample_sf 0 ''asr.0'') sample_request s1 = Inr s2 \<and>
    worker_turn (asr_run_job sample_sf sample_floats sample_asr_lib) s2 = Some (Inr (True, s3)) \<and>
    length (wires s3) = length (wires s) + 2"
proof -
  obtain s :: "unit asr_node" where s0: "session_open 0 ''ipc:///tmp/llm/5010.sock'' ''ipc:///tmp/llm/5011.sock'' s (Some ()) \<and>
      wk_jobs (node s) = job_queue_new 2 \<and> wk_engine (node s) = \<lparr>recognizer = True\<rparr>"
    by (rule exE [OF sample_session [OF sample_grants sample_clock, of "(Some ())" "\<lparr>recognizer = True\<rparr>"]])
  note s = s0 [THEN conjunct1] s0 [THEN conjunct2, THEN conjunct1] s0 [THEN conjunct2, THEN conjunct2]
  have i: "asr_inference sample_sf sample_floats sample_asr_lib (wk_engine (node s)) (sample_json_str_get sample_request ''data'') (Some ()) =
       Inr (Some (), Inl (error_text (- 2) ''data must contain PCM16 samples or finish=true''))"
    by (simp add: s(3) sample_asr_inference sample_json_str_get_def sample_request_def quoted_def)
  have w: "utf8 ''asr.0''" by (simp add: ascii_utf8 code_of_def)
  have n: "(2 :: nat) \<le> 2" "''asr.0'' \<noteq> []" "''ipc:///tmp/llm/8000.sock'' \<noteq> []" by simp_all
  obtain s1 s2 s3 line where
    r: "channel_message sample_sf 0 (asr_on_inference sample_sf 0 ''asr.0'') sample_request s = Inr s1"
    "channel_message sample_sf 0 (asr_on_inference sample_sf 0 ''asr.0'') sample_request s1 = Inr s2"
    "worker_turn (asr_run_job sample_sf sample_floats sample_asr_lib) s2 = Some (Inr (True, s3))"
    "wires s3 = wires s @ [(''ipc:///tmp/llm/5010.sock'', line), (''ipc:///tmp/llm/8000.sock'', line)]"
    using queued_answer_goes_to_last_client [OF s(1,2) n(1,2) sample_request_facts(1,2) n(3) sample_request_facts(1,2) n(3) i refl
        sample_clock sample_request_facts(3) w sample_job_texts(3)]
    by blast
  then have "length (wires s3) = length (wires s) + 2" by simp
  with r(1-3) show ?thesis by blast
qed

definition sample_prompt_job :: job where
  "sample_prompt_job = sample_job\<lparr>job_input := dump (JObj [(''prompt'', JStr ''hi'')])\<rparr>"

lemma sample_prompt:
  obtains s :: rkllm_node where "session_open (job_task sample_prompt_job) ''ipc:///tmp/llm/5010.sock'' ''ipc:///tmp/llm/5011.sock'' s ()"
    "wait_pop (wk_jobs (node s)) = Some (Some sample_prompt_job, \<lparr>max_size = 2, jobs = [], running = True\<rparr>)"
    "job_work_id sample_prompt_job \<noteq> []" "job_stream sample_prompt_job" "rk_handle (wk_engine (node s))"
    "rkllm_prompt sample_sf (job_input sample_prompt_job) = Inr ''hi''" "job_ok sample_sf sample_prompt_job"
proof -
  obtain s :: rkllm_node where s0: "session_open 0 ''ipc:///tmp/llm/5010.sock'' ''ipc:///tmp/llm/5011.sock'' s () \<and>
      wk_jobs (node s) = job_queue_new 2 \<and> wk_engine (node s) = \<lparr>rk_handle = True\<rparr>"
    by (rule exE [OF sample_session [OF sample_grants sample_clock, of "()" "\<lparr>rk_handle = True\<rparr>"]])
  note s = s0 [THEN conjunct1] s0 [THEN conjunct2, THEN conjunct2]
  have p: "wf_json (reads_back (sf_strtod sample_sf)) (JObj [(''prompt'', JStr ''hi'')])"
    by (simp add: ascii_utf8 code_of_def)
  show thesis
    by (rule that [of "set_jobs \<lparr>max_size = 2, jobs = [sample_prompt_job], running = True\<rparr> s"])
      (use s sample_job_texts(4) sf_parse_dump [OF p] in \<open>simp_all add: sample_prompt_job_def session_open_def in_service_def
        sample_job_def wait_pop_def rkllm_prompt_def job_ok_def del: dump.simps\<close>)
qed

theorem rkllm_stream_numbered_witness:
  "\<exists>env lib s s'. worker_turn (rkllm_run_job env lib) s = Some (Inr (True, s')) \<and>
     length (wires s') = length (wires s) + 6"
proof -
  let ?lib = "\<lparr>rk_init = (\<lambda>_. 0), rk_run = (\<lambda>_. (map (\<lambda>t. Run_normal (Some t)) [''a'', ''b''] @ [Run_finish], 0))\<rparr>"
  have r: "rk_run ?lib ''hi'' = (map (\<lambda>t. Run_normal (Some t)) [''a'', ''b''] @ [Run_finish], 0)"
    "length [''a'', ''b''] + 1 < 2 ^ 31" "\<forall>t \<in> set [''a'', ''b'']. utf8 t"
    by (simp_all add: ascii_utf8 code_of_def)
  obtain s :: rkllm_node where s: "session_open (job_task sample_prompt_job) ''ipc:///tmp/llm/5010.sock'' ''ipc:///tmp/llm/5011.sock'' s ()"
    "wait_pop (wk_jobs (node s)) = Some (Some sample_prompt_job, \<lparr>max_size = 2, jobs = [], running = True\<rparr>)"
    "job_work_id sample_prompt_job \<noteq> []" "job_stream sample_prompt_job" "rk_handle (wk_engine (node s))"
    "rkllm_prompt sample_sf (job_input sample_prompt_job) = Inr ''hi''" "job_ok sample_sf sample_prompt_job"
    by (rule sample_prompt)
  obtain s' where
    t: "worker_turn (rkllm_run_job sample_sf ?lib) s = Some (Inr (True, s'))"
    and w: "wires s' = wires s @ both ''ipc:///tmp/llm/5010.sock'' (reply_url (job_task sample_prompt_job) s)
      (map (\<lambda>(k, t). delta_line sample_sf sample_prompt_job k t False) (enumerate 0 [''a'', ''b'']) @
       [delta_line sample_sf sample_prompt_job (length [''a'', ''b'']) [] True])"
    using rkllm_stream_numbered [OF s(1-6) r(1,2) s(7) r(3)] by blast
  have "length (wires s') = length (wires s) + 6" unfolding w by simp
  with t show ?thesis by blast
qed

text \<open>The first byte of a two-byte character, and then its second.\<close>

theorem rkllm_broken_piece_witness:
  "\<exists>s. worker_turn (rkllm_run_job sample_sf \<lparr>rk_init = (\<lambda>_. 0),
       rk_run = (\<lambda>_. (map (\<lambda>t. Run_normal (Some t)) [''a''] @
         Run_normal (Some [char_of (195 :: nat)]) # [Run_normal (Some [char_of (169 :: nat)]), Run_finish], 0))\<rparr>) s =
     Some (Inl JsonError)"
proof -
  have u: "\<not> utf8 [char_of (195 :: nat)]" by (simp add: utf8_def lead_ranges_def utf8_follow_def code_of_def)
  show ?thesis
    by (rule sample_prompt, rule exI, rule rkllm_broken_piece [where texts = "[''a'']" and prompt = "''hi''", OF _ _ _ _ _ _ _ _ _ _ u])
      (assumption | simp add: ascii_utf8 code_of_def)+
qed

lemma sample_fresh: "channel_ids s = {} \<Longrightarrow> unit_name s = u \<Longrightarrow> fresh_number sample_sf s"
  using register_granted [OF sample_grants, of u s] by (auto simp: fresh_number_def)

theorem sessions_are_channels_witness:
  "\<exists>s t. node_reach echo_ops echo_on_inference (\<lambda>_ _. False) (echo_new sample_zmq) s \<and> 0 \<in> channel_ids s \<and> echo_destroy s = Inr t"
proof -
  let ?e = "(EVENT_SETUP, \<lparr>msg_bytes = set_param ''ipc:///tmp/llm/8000.sock'' ''{}''\<rparr>)"
  let ?s = "(echo_new sample_zmq)\<lparr>sf_request_id := sample_json_str_get ''{}'' ''request_id'', out_zmq_url := ''ipc:///tmp/llm/8000.sock''\<rparr>"
  have u: "unit_name (echo_new sample_zmq) = ''echo''" "channel_ids (echo_new sample_zmq) = {}" "sf_status (echo_new sample_zmq) \<noteq> 0"
    by (simp_all add: echo_new_def stack_flow_new_def channel_ids_def)
  obtain s where s: "sf_setup sample_sf (echo_ops sample_sf) ''ipc:///tmp/llm/8000.sock'' ''{}'' ?s = Inr s" "0 \<in> echo_sessions (node s)"
    using echo_setup_in_service [OF sample_grants, of ?s "''ipc:///tmp/llm/8000.sock''" "''{}''"] u
      sample_clock sample_body(2) by (fastforce simp: ascii_utf8 code_of_def)
  have "process_event sample_sf (echo_ops sample_sf) ?e (echo_new sample_zmq) = Inr s"
    using s(1) u(3) by (simp add: on_request_def get_param_simps max_param0_def sample_sf_def)
  then have r: "node_reach echo_ops echo_on_inference (\<lambda>_ _. False) (echo_new sample_zmq) s"
    using node_reach.event [OF node_reach.start sample_fresh [OF u(2,1)]] by blast
  from sessions_are_channels [OF r node_reach.start [of _ _ _ "llm_new sample_zmq"]] s(2) r
  show ?thesis by blast
qed

theorem worker_sessions_are_channels_witness:
  "\<exists>s t. node_reach (tts_ops sample_tts_lib) tts_on_inference (tts_work sample_floats sample_tts_lib)
       (tts_new sample_zmq (\<lambda>_. None) tts_engine_new) s \<and> 0 \<in> channel_ids s \<and> worker_destroy s = Inr t"
proof -
  let ?n = "tts_new sample_zmq (\<lambda>_. None) tts_engine_new"
  let ?s = "?n\<lparr>sf_request_id := sample_json_str_get ''{}'' ''request_id'', out_zmq_url := ''ipc:///tmp/llm/8000.sock''\<rparr>"
  have u: "unit_name ?n = ''tts''" "channel_ids ?n = {}" "sf_status ?n \<noteq> 0" "\<not> session_full ?s"
    by (simp_all add: tts_new_def worker_new_def stack_flow_new_def channel_ids_def session_full_def read_size_env_def)
  have op: "op_setup (tts_ops sample_tts_lib sample_sf) w ob d s = session_setup sample_sf False (\<lambda>_. Inr ()) w s" for w ob d s
    by (simp add: tts_ops_def tts_setup_def)
  obtain s where s: "sf_setup sample_sf (tts_ops sample_tts_lib sample_sf) ''ipc:///tmp/llm/8000.sock'' ''{}'' ?s = Inr s"
    "session_open 0 ''ipc:///tmp/llm/5010.sock'' ''ipc:///tmp/llm/5011.sock'' s ()"
    using worker_setup_open [OF sample_grants, of ?s "''ipc:///tmp/llm/8000.sock''" "\<lambda>_. Inr ()" "()"
        "tts_ops sample_tts_lib sample_sf" False "''{}''", OF _ _ _ u(4) _ op sample_clock] u(1) sample_body(2)
    by (auto simp: ascii_utf8 code_of_def)
  have "process_event sample_sf (tts_ops sample_tts_lib sample_sf)
      (EVENT_SETUP, \<lparr>msg_bytes = set_param ''ipc:///tmp/llm/8000.sock'' ''{}''\<rparr>) ?n = Inr s"
    using s(1) u(3) by (simp add: on_request_def get_param_simps max_param0_def sample_sf_def)
  then have r: "node_reach (tts_ops sample_tts_lib) tts_on_inference (tts_work sample_floats sample_tts_lib) ?n s"
    using node_reach.event [OF node_reach.start sample_fresh [OF u(2,1)]] by blast
  have "0 \<in> channel_ids s" using s(2) by (auto simp: session_open_def in_service_def channel_ids_dom)
  moreover have "\<exists>t. worker_destroy s = Inr t"
    using worker_sessions_are_channels [OF node_reach.start node_reach.start r] by blast
  ultimately show ?thesis using r by blast
qed

end
