(* ===== verification/JsonNumber.thy ===== *)
theory JsonNumber
  imports JsonScan
begin

text \<open>The state machine of the lexer for numbers reads exactly the numbers of RFC 8259.\<close>

section \<open>The grammar\<close>

definition digits1 :: "string \<Rightarrow> bool" where
  "digits1 s \<longleftrightarrow> s \<noteq> [] \<and> list_all is_digit s"

definition exp_part :: "string \<Rightarrow> bool" where
  "exp_part s \<longleftrightarrow> s = [] \<or> (\<exists>e ds. is_exp e \<and> digits1 ds \<and> (s = e # ds \<or> s = e # CHR ''+'' # ds \<or> s = e # CHR ''-'' # ds))"

definition frac_part :: "string \<Rightarrow> bool" where
  "frac_part s \<longleftrightarrow> s = [] \<or> (\<exists>ds. s = CHR ''.'' # ds \<and> digits1 ds)"

definition int_part :: "string \<Rightarrow> bool" where
  "int_part s \<longleftrightarrow> s = ''0'' \<or> (\<exists>d ds. s = d # ds \<and> digit19 d \<and> list_all is_digit ds)"

text \<open>\<open>number = [ minus ] int [ frac ] [ exp ]\<close>\<close>

definition rfc_number :: "string \<Rightarrow> bool" where
  "rfc_number s \<longleftrightarrow> (\<exists>i f e. int_part i \<and> frac_part f \<and> exp_part e \<and> (s = i @ f @ e \<or> s = CHR ''-'' # i @ f @ e))"

section \<open>The labels\<close>

definition num_accepts :: "num_state \<Rightarrow> string \<Rightarrow> bool" where
  "num_accepts st s \<longleftrightarrow> (\<exists>st' ty. num_run st Value_unsigned s = Some (st', ty) \<and> num_final st')"

lemma num_run_type:
  "num_run st ty s = Some (st', ty') \<Longrightarrow> \<exists>ty''. num_run st ty2 s = Some (st', ty'')"
proof (induction s arbitrary: st ty ty2)
  case (Cons c s)
  then obtain st1 where "number_label st c = Goto st1" "num_run st1 (label_type st ty) s = Some (st', ty')"
    by (cases "number_label st c") auto
  with Cons.IH show ?case by simp
qed simp

lemma num_accepts_Nil: "num_accepts st [] \<longleftrightarrow> num_final st"
  by (simp add: num_accepts_def)

lemma num_accepts_Cons: "num_accepts st (c # s) \<longleftrightarrow> (\<exists>st'. number_label st c = Goto st' \<and> num_accepts st' s)"
  using num_run_type by (cases "number_label st c") (auto simp: num_accepts_def, blast+)

lemmas label_defs = scan_number_minus_def scan_number_zero_def scan_number_any1_def scan_number_decimal1_def
  scan_number_decimal2_def scan_number_exponent_def scan_number_sign_def scan_number_any2_def

lemma not_digit: "\<not> is_digit (CHR ''.'')" "\<not> is_digit (CHR ''+'')" "\<not> is_digit (CHR ''-'')" "is_exp e \<Longrightarrow> \<not> is_digit e"
  "is_exp e \<Longrightarrow> e \<noteq> CHR ''.''" "\<not> is_exp (CHR ''.'')" "is_digit c \<Longrightarrow> \<not> is_exp c" "is_digit c \<Longrightarrow> c \<noteq> CHR ''.''"
  by (auto simp: is_digit_def is_exp_def code_of_def)

lemma accepts_any2: "num_accepts Any2 s \<longleftrightarrow> list_all is_digit s"
  by (induction s) (auto simp: num_accepts_Nil num_accepts_Cons num_final_def label_defs split: if_splits)

lemma accepts_sign: "num_accepts Sign s \<longleftrightarrow> digits1 s"
  by (cases s) (auto simp: num_accepts_Nil num_accepts_Cons num_final_def label_defs accepts_any2 digits1_def split: if_splits)

lemma accepts_exponent:
  "num_accepts Exponent s \<longleftrightarrow> (\<exists>ds. digits1 ds \<and> (s = ds \<or> s = CHR ''+'' # ds \<or> s = CHR ''-'' # ds))"
proof (cases s)
  case (Cons c r)
  then have "num_accepts Exponent s \<longleftrightarrow> (c = CHR ''+'' \<or> c = CHR ''-'') \<and> digits1 r \<or> is_digit c \<and> list_all is_digit r"
    using not_digit by (auto simp: num_accepts_Cons label_defs accepts_sign accepts_any2 split: if_splits)
  then show ?thesis using Cons not_digit by (auto simp: digits1_def)
qed (auto simp: num_accepts_Nil num_final_def digits1_def)

text \<open>What may follow the digits: the labels that read more digits read them first.\<close>

lemma accepts_exp: "is_exp e \<Longrightarrow> num_accepts Exponent s \<longleftrightarrow> exp_part (e # s)"
  by (auto simp: accepts_exponent exp_part_def)

lemma exp_part_head: "exp_part (c # s) \<Longrightarrow> is_exp c"
  by (auto simp: exp_part_def)

lemma accepts_decimal2: "num_accepts Decimal2 s \<longleftrightarrow> (\<exists>ds e. s = ds @ e \<and> list_all is_digit ds \<and> exp_part e)"
proof
  show "num_accepts Decimal2 s \<Longrightarrow> \<exists>ds e. s = ds @ e \<and> list_all is_digit ds \<and> exp_part e"
  proof (induction s)
    case Nil
    then show ?case by (auto simp: exp_part_def)
  next
    case (Cons c s)
    then consider "is_digit c" "num_accepts Decimal2 s" | "is_exp c" "num_accepts Exponent s"
      by (auto simp: num_accepts_Cons label_defs split: if_splits)
    then show ?case
    proof cases
      case 1
      then obtain ds e where "s = ds @ e" "list_all is_digit ds" "exp_part e" using Cons.IH by blast
      with 1(1) show ?thesis by (intro exI [of _ "c # ds"] exI [of _ e]) simp
    next
      case 2
      then show ?thesis using accepts_exp by (intro exI [of _ "[]"] exI [of _ "c # s"]) simp
    qed
  qed
next
  assume "\<exists>ds e. s = ds @ e \<and> list_all is_digit ds \<and> exp_part e"
  then obtain ds e where s: "s = ds @ e" "list_all is_digit ds" "exp_part e" by blast
  have "num_accepts Decimal2 e"
    using s(3) accepts_exp exp_part_head not_digit(4)
    by (cases e) (auto simp: num_accepts_Nil num_final_def num_accepts_Cons label_defs)
  then have "num_accepts Decimal2 (ds @ e)"
    using s(2) by (induction ds) (simp_all add: num_accepts_Cons label_defs)
  then show "num_accepts Decimal2 s" using s(1) by simp
qed

definition frac_exp :: "string \<Rightarrow> bool" where
  "frac_exp s \<longleftrightarrow> (\<exists>f e. s = f @ e \<and> frac_part f \<and> exp_part e)"

lemma accepts_decimal1: "num_accepts Decimal1 s \<longleftrightarrow> (\<exists>ds e. s = ds @ e \<and> digits1 ds \<and> exp_part e)"
proof -
  have "num_accepts Decimal1 s \<longleftrightarrow> (\<exists>d ds e. s = d # ds @ e \<and> is_digit d \<and> list_all is_digit ds \<and> exp_part e)"
    by (cases s) (auto simp: num_accepts_Nil num_final_def num_accepts_Cons label_defs accepts_decimal2)
  also have "\<dots> \<longleftrightarrow> (\<exists>ds e. s = ds @ e \<and> digits1 ds \<and> exp_part e)"
    unfolding digits1_def by (metis append_Cons list.exhaust list.distinct(1) list.pred_inject(2))
  finally show ?thesis .
qed

lemma frac_exp_cases:
  "frac_exp [] " "frac_exp (c # s) \<longleftrightarrow> c = CHR ''.'' \<and> num_accepts Decimal1 s \<or> is_exp c \<and> num_accepts Exponent s"
proof -
  show "frac_exp []" by (simp add: frac_exp_def frac_part_def exp_part_def)
  have "frac_exp (c # s) \<longleftrightarrow> (\<exists>ds e. c # s = CHR ''.'' # ds @ e \<and> digits1 ds \<and> exp_part e) \<or> exp_part (c # s)"
    unfolding frac_exp_def frac_part_def by (metis append_Cons append_Nil)
  then show "frac_exp (c # s) \<longleftrightarrow> c = CHR ''.'' \<and> num_accepts Decimal1 s \<or> is_exp c \<and> num_accepts Exponent s"
    using accepts_exp [of c s] exp_part_head [of c s] by (simp add: accepts_decimal1) blast
qed

lemma accepts_zero: "num_accepts Zero s \<longleftrightarrow> frac_exp s"
  by (cases s) (auto simp: frac_exp_cases num_accepts_Nil num_final_def num_accepts_Cons label_defs not_digit split: if_splits)

lemma accepts_any1: "num_accepts Any1 s \<longleftrightarrow> (\<exists>ds r. s = ds @ r \<and> list_all is_digit ds \<and> frac_exp r)"
proof
  show "num_accepts Any1 s \<Longrightarrow> \<exists>ds r. s = ds @ r \<and> list_all is_digit ds \<and> frac_exp r"
  proof (induction s)
    case Nil
    then show ?case using frac_exp_cases(1) by simp
  next
    case (Cons c s)
    then consider "is_digit c" "num_accepts Any1 s" | "frac_exp (c # s)"
      by (auto simp: num_accepts_Cons label_defs frac_exp_cases split: if_splits)
    then show ?case
    proof cases
      case 1
      then obtain ds r where "s = ds @ r" "list_all is_digit ds" "frac_exp r" using Cons.IH by blast
      with 1(1) show ?thesis by (intro exI [of _ "c # ds"] exI [of _ r]) simp
    next
      case 2
      then show ?thesis by (intro exI [of _ "[]"] exI [of _ "c # s"]) simp
    qed
  qed
next
  assume "\<exists>ds r. s = ds @ r \<and> list_all is_digit ds \<and> frac_exp r"
  then obtain ds r where s: "s = ds @ r" "list_all is_digit ds" "frac_exp r" by blast
  have "num_accepts Any1 r"
    using s(3) not_digit
    by (cases r) (auto simp: frac_exp_cases num_accepts_Nil num_final_def num_accepts_Cons label_defs)
  then have "num_accepts Any1 (ds @ r)"
    using s(2) by (induction ds) (simp_all add: num_accepts_Cons label_defs)
  then show "num_accepts Any1 s" using s(1) by simp
qed

section \<open>Numbers\<close>

definition unsigned_number :: "string \<Rightarrow> bool" where
  "unsigned_number s \<longleftrightarrow> (\<exists>i r. int_part i \<and> frac_exp r \<and> s = i @ r)"

lemma unsigned_number_Cons:
  "unsigned_number (c # s) \<longleftrightarrow> c = CHR ''0'' \<and> num_accepts Zero s \<or> digit19 c \<and> num_accepts Any1 s"
  unfolding unsigned_number_def int_part_def accepts_zero accepts_any1
  by (auto simp: Cons_eq_append_conv)

lemma rfc_number_iff: "rfc_number s \<longleftrightarrow> unsigned_number s \<or> (\<exists>r. s = CHR ''-'' # r \<and> unsigned_number r)"
  unfolding rfc_number_def unsigned_number_def frac_exp_def by blast

lemma accepts_minus: "num_accepts Minus s \<longleftrightarrow> unsigned_number s"
proof (cases s)
  case (Cons c r)
  then show ?thesis
    using digit19_simps [of c] by (auto simp: num_accepts_Cons label_defs unsigned_number_Cons split: if_splits)
qed (simp add: num_accepts_Nil num_final_def unsigned_number_def int_part_def)

lemma num_type_accepts:
  "num_type (c # s) \<noteq> None \<longleftrightarrow> (c = CHR ''-'' \<or> is_digit c) \<and> num_accepts (num_start c) s"
  by (auto simp: num_accepts_def split: option.splits)


end
