(* ===== verification/NetBuffer.thy ===== *)
theory NetBuffer
  imports Prelude
begin

text \<open>
  \<open>network/include/network/Buffer.h\<close>, \<open>Buffer.cc\<close>, \<open>Endian.h\<close> and \<open>util.cc\<close>: the input and output
  buffers of a TCP connection. A buffer is its storage with a reader and a writer index; every
  \<open>assert\<close> of the code is a fault of the model. The contract of a byte queue is a locale, so that the
  connection's proofs need nothing of the indices.
\<close>

section \<open>The contract of a byte queue\<close>

datatype queue_call = Put string | Take nat

fun run_calls ::
  "(string \<Rightarrow> 'b \<Rightarrow> 'b res) \<Rightarrow> (nat \<Rightarrow> 'b \<Rightarrow> (string \<times> 'b) res) \<Rightarrow> queue_call list \<Rightarrow> 'b \<Rightarrow> (string \<times> 'b) res" where
  "run_calls put get [] b = Inr ([], b)"
| "run_calls put get (Put d # cs) b = rbind (put d b) (run_calls put get cs)"
| "run_calls put get (Take n # cs) b =
     rbind (get n b) (\<lambda>(s, b'). rbind (run_calls put get cs b') (\<lambda>(t, b''). Inr (s @ t, b'')))"

fun bytes_put :: "queue_call list \<Rightarrow> string" where
  "bytes_put [] = []"
| "bytes_put (Put d # cs) = d @ bytes_put cs"
| "bytes_put (Take _ # cs) = bytes_put cs"

text \<open>A run never takes more bytes than the queue holds.\<close>

fun takes_fit :: "queue_call list \<Rightarrow> nat \<Rightarrow> bool" where
  "takes_fit [] k = True"
| "takes_fit (Put d # cs) k = takes_fit cs (k + length d)"
| "takes_fit (Take n # cs) k = (n \<le> k \<and> takes_fit cs (k - n))"

locale byte_queue =
  fixes inv :: "'b \<Rightarrow> bool"
    and content :: "'b \<Rightarrow> string"
    and put :: "string \<Rightarrow> 'b \<Rightarrow> 'b res"
    and get :: "nat \<Rightarrow> 'b \<Rightarrow> (string \<times> 'b) res"
  assumes put_ok: "inv b \<Longrightarrow> \<exists>b'. put d b = Inr b' \<and> inv b' \<and> content b' = content b @ d"
    and get_ok: "inv b \<Longrightarrow> n \<le> length (content b) \<Longrightarrow>
      \<exists>b'. get n b = Inr (take n (content b), b') \<and> inv b' \<and> content b' = drop n (content b)"
begin

lemma run_stream:
  "inv b \<Longrightarrow> takes_fit cs (length (content b)) \<Longrightarrow>
   \<exists>out b'. run_calls put get cs b = Inr (out, b') \<and> inv b' \<and> out @ content b' = content b @ bytes_put cs"
proof (induction cs arbitrary: b)
  case Nil
  then show ?case by simp
next
  case (Cons c cs)
  show ?case
  proof (cases c)
    case (Put d)
    obtain b1 where b1: "put d b = Inr b1" "inv b1" "content b1 = content b @ d"
      using put_ok [OF Cons.prems(1)] by blast
    from Cons.IH [OF b1(2)] Cons.prems(2) Put b1 show ?thesis by auto
  next
    case (Take n)
    then have n: "n \<le> length (content b)" using Cons.prems(2) by simp
    obtain b1 where b1: "get n b = Inr (take n (content b), b1)" "inv b1" "content b1 = drop n (content b)"
      using get_ok [OF Cons.prems(1) n] by blast
    from Cons.IH [OF b1(2)] Cons.prems(2) Take b1 obtain out b' where
      "run_calls put get cs b1 = Inr (out, b')" "inv b'" "out @ content b' = drop n (content b) @ bytes_put cs"
      by auto
    moreover from this(3) have "(take n (content b) @ out) @ content b' = content b @ bytes_put cs"
      by (metis append.assoc append_take_drop_id)
    ultimately show ?thesis using Take b1(1) by simp
  qed
qed

end

section \<open>The buffer\<close>

record buffer =
  storage :: "char list"
  readerIndex :: nat
  writerIndex :: nat

definition kCheapPrepend :: nat where "kCheapPrepend = 8"
definition kInitialSize :: nat where "kInitialSize = 1024 * 4"

definition buffer_new :: "nat \<Rightarrow> buffer" where
  "buffer_new initialSize =
     \<lparr>storage = replicate (kCheapPrepend + initialSize) nul, readerIndex = kCheapPrepend,
      writerIndex = kCheapPrepend\<rparr>"

definition readableBytes :: "buffer \<Rightarrow> nat" where
  "readableBytes b = writerIndex b - readerIndex b"

definition writableBytes :: "buffer \<Rightarrow> nat" where
  "writableBytes b = length (storage b) - writerIndex b"

definition prependableBytes :: "buffer \<Rightarrow> nat" where
  "prependableBytes b = readerIndex b"

text \<open>The bytes \<open>peek()\<close> points at, up to the writer index.\<close>

definition buf_content :: "buffer \<Rightarrow> string" where
  "buf_content b = take (readableBytes b) (drop (readerIndex b) (storage b))"

definition retrieveAll :: "buffer \<Rightarrow> buffer" where
  "retrieveAll b = b\<lparr>readerIndex := kCheapPrepend, writerIndex := kCheapPrepend\<rparr>"

definition retrieve :: "nat \<Rightarrow> buffer \<Rightarrow> buffer res" where
  "retrieve len b =
     require (len \<le> readableBytes b) AssertFailed
       (Inr (if len < readableBytes b then b\<lparr>readerIndex := readerIndex b + len\<rparr> else retrieveAll b))"

definition retrieveAsString :: "nat \<Rightarrow> buffer \<Rightarrow> (string \<times> buffer) res" where
  "retrieveAsString len b =
     require (len \<le> readableBytes b) AssertFailed
       (rbind (retrieve len b) (\<lambda>b'. Inr (take len (drop (readerIndex b) (storage b)), b')))"

definition retrieveAllAsString :: "buffer \<Rightarrow> (string \<times> buffer) res" where
  "retrieveAllAsString b = retrieveAsString (readableBytes b) b"

definition resize_storage :: "nat \<Rightarrow> char list \<Rightarrow> char list" where
  "resize_storage n xs = take n xs @ replicate (n - length xs) nul"

definition makeSpace :: "nat \<Rightarrow> buffer \<Rightarrow> buffer res" where
  "makeSpace len b =
     (if writableBytes b + prependableBytes b < len + kCheapPrepend then
        Inr (b\<lparr>storage := resize_storage (writerIndex b + len) (storage b)\<rparr>)
      else
        require (kCheapPrepend < readerIndex b) AssertFailed
          (let readable = readableBytes b;
               b' = b\<lparr>storage := write_at (storage b) kCheapPrepend (buf_content b),
                      readerIndex := kCheapPrepend, writerIndex := kCheapPrepend + readable\<rparr>
           in require (readable = readableBytes b') AssertFailed (Inr b')))"

definition ensureWritableBytes :: "nat \<Rightarrow> buffer \<Rightarrow> buffer res" where
  "ensureWritableBytes len b =
     rbind (if writableBytes b < len then makeSpace len b else Inr b) (\<lambda>b'.
       require (len \<le> writableBytes b') AssertFailed (Inr b'))"

definition hasWritten :: "nat \<Rightarrow> buffer \<Rightarrow> buffer res" where
  "hasWritten len b =
     require (len \<le> writableBytes b) AssertFailed (Inr (b\<lparr>writerIndex := writerIndex b + len\<rparr>))"

definition unwrite :: "nat \<Rightarrow> buffer \<Rightarrow> buffer res" where
  "unwrite len b =
     require (len \<le> readableBytes b) AssertFailed (Inr (b\<lparr>writerIndex := writerIndex b - len\<rparr>))"

definition buf_append :: "string \<Rightarrow> buffer \<Rightarrow> buffer res" where
  "buf_append data b =
     rbind (ensureWritableBytes (length data) b) (\<lambda>b'.
       hasWritten (length data) (b'\<lparr>storage := write_at (storage b') (writerIndex b') data\<rparr>))"

definition prepend :: "string \<Rightarrow> buffer \<Rightarrow> buffer res" where
  "prepend data b =
     require (length data \<le> prependableBytes b) AssertFailed
       (let r = readerIndex b - length data
        in Inr (b\<lparr>readerIndex := r, storage := write_at (storage b) r data\<rparr>))"

section \<open>Integers in network byte order\<close>

text \<open>
  The memory image of an integer depends on the byte order of the host (\<open>big\<close>); \<open>htobe\<close> and \<open>betoh\<close>
  swap the bytes on a little-endian one.
\<close>

fun be_bytes :: "nat \<Rightarrow> nat \<Rightarrow> string" where
  "be_bytes 0 v = []"
| "be_bytes (Suc n) v = be_bytes n (v div 256) @ [char_of v]"

definition be_value :: "string \<Rightarrow> nat" where
  "be_value s = foldl (\<lambda>v c. 256 * v + code_of c) 0 s"

definition word_bytes :: "'a::len word \<Rightarrow> string" where
  "word_bytes x = be_bytes (LENGTH('a) div 8) (unat x)"

definition host_to_network :: "bool \<Rightarrow> 'a::len word \<Rightarrow> 'a word" where
  "host_to_network big x = (if big then x else word_of_nat (be_value (rev (word_bytes x))))"

definition network_to_host :: "bool \<Rightarrow> 'a::len word \<Rightarrow> 'a word" where
  "network_to_host big x = (if big then x else word_of_nat (be_value (rev (word_bytes x))))"

definition memory_image :: "bool \<Rightarrow> 'a::len word \<Rightarrow> string" where
  "memory_image big x = (if big then word_bytes x else rev (word_bytes x))"

definition load_image :: "bool \<Rightarrow> string \<Rightarrow> 'a::len word" where
  "load_image big s = word_of_nat (be_value (if big then s else rev s))"

definition append_int :: "bool \<Rightarrow> 'a::len word \<Rightarrow> buffer \<Rightarrow> buffer res" where
  "append_int big x b = buf_append (memory_image big (host_to_network big x)) b"

definition prepend_int :: "bool \<Rightarrow> 'a::len word \<Rightarrow> buffer \<Rightarrow> buffer res" where
  "prepend_int big x b = prepend (memory_image big (host_to_network big x)) b"

definition peek_int :: "bool \<Rightarrow> nat \<Rightarrow> buffer \<Rightarrow> 'a::len word res" where
  "peek_int big len b =
     require (len \<le> readableBytes b) AssertFailed
       (Inr (network_to_host big (load_image big (take len (drop (readerIndex b) (storage b))))))"

definition read_int :: "bool \<Rightarrow> nat \<Rightarrow> buffer \<Rightarrow> ('a::len word \<times> buffer) res" where
  "read_int big len b = rbind (peek_int big len b) (\<lambda>x. rbind (retrieve len b) (\<lambda>b'. Inr (x, b')))"

definition appendInt64 :: "bool \<Rightarrow> 64 word \<Rightarrow> buffer \<Rightarrow> buffer res" where "appendInt64 big x b = append_int big x b"
definition appendInt32 :: "bool \<Rightarrow> 32 word \<Rightarrow> buffer \<Rightarrow> buffer res" where "appendInt32 big x b = append_int big x b"
definition appendInt16 :: "bool \<Rightarrow> 16 word \<Rightarrow> buffer \<Rightarrow> buffer res" where "appendInt16 big x b = append_int big x b"
definition appendInt8 :: "8 word \<Rightarrow> buffer \<Rightarrow> buffer res" where "appendInt8 x b = buf_append (memory_image True x) b"
definition peekInt64 :: "bool \<Rightarrow> buffer \<Rightarrow> 64 word res" where "peekInt64 big b = peek_int big 8 b"
definition peekInt32 :: "bool \<Rightarrow> buffer \<Rightarrow> 32 word res" where "peekInt32 big b = peek_int big 4 b"
definition peekInt16 :: "bool \<Rightarrow> buffer \<Rightarrow> 16 word res" where "peekInt16 big b = peek_int big 2 b"
definition peekInt8 :: "buffer \<Rightarrow> 8 word res" where "peekInt8 b = peek_int True 1 b"
definition readInt64 :: "bool \<Rightarrow> buffer \<Rightarrow> (64 word \<times> buffer) res" where "readInt64 big b = read_int big 8 b"
definition readInt32 :: "bool \<Rightarrow> buffer \<Rightarrow> (32 word \<times> buffer) res" where "readInt32 big b = read_int big 4 b"
definition readInt16 :: "bool \<Rightarrow> buffer \<Rightarrow> (16 word \<times> buffer) res" where "readInt16 big b = read_int big 2 b"
definition readInt8 :: "buffer \<Rightarrow> (8 word \<times> buffer) res" where "readInt8 b = read_int True 1 b"
definition prependInt64 :: "bool \<Rightarrow> 64 word \<Rightarrow> buffer \<Rightarrow> buffer res" where "prependInt64 big x b = prepend_int big x b"
definition prependInt32 :: "bool \<Rightarrow> 32 word \<Rightarrow> buffer \<Rightarrow> buffer res" where "prependInt32 big x b = prepend_int big x b"
definition prependInt16 :: "bool \<Rightarrow> 16 word \<Rightarrow> buffer \<Rightarrow> buffer res" where "prependInt16 big x b = prepend_int big x b"
definition prependInt8 :: "8 word \<Rightarrow> buffer \<Rightarrow> buffer res" where "prependInt8 x b = prepend (memory_image True x) b"

section \<open>Reading from a descriptor\<close>

text \<open>
  \<open>readFd\<close>: \<open>readv room\<close> is the kernel's answer to a read of at most \<open>room\<close> bytes, an error number or
  the bytes. The result is the return value, the saved error and the buffer.
\<close>

definition extrabuf_size :: nat where "extrabuf_size = 1024 * 1024"

definition readFd :: "(nat \<Rightarrow> int + string) \<Rightarrow> buffer \<Rightarrow> (int \<times> int option \<times> buffer) res" where
  "readFd readv b =
     (let writable = writableBytes b;
          room = (if writable < extrabuf_size then writable + extrabuf_size else writable)
      in case readv room of
           Inl err \<Rightarrow> Inr (- 1, Some err, b)
         | Inr d \<Rightarrow>
             let b1 = b\<lparr>storage := write_at (storage b) (writerIndex b) (take writable d)\<rparr>
             in if length d \<le> writable then
                  Inr (int (length d), None, b1\<lparr>writerIndex := writerIndex b + length d\<rparr>)
                else
                  rbind (buf_append (drop writable d) (b1\<lparr>writerIndex := length (storage b1)\<rparr>)) (\<lambda>b2.
                    Inr (int (length d), None, b2)))"

section \<open>util.cc\<close>

text \<open>\<open>g_pid\<close> and \<open>t_thread_id\<close> are never assigned, so the system is asked every time.\<close>

definition getPid :: "int \<Rightarrow> int \<Rightarrow> int" where
  "getPid g_pid sys = (if g_pid \<noteq> 0 then g_pid else sys)"

definition getThreadId :: "int \<Rightarrow> int \<Rightarrow> int" where
  "getThreadId t_thread_id sys = (if t_thread_id \<noteq> 0 then t_thread_id else sys)"

definition getNowMs :: "int \<Rightarrow> int \<Rightarrow> int" where
  "getNowMs tv_sec tv_usec = tv_sec * 1000 + tv_usec div 1000"

definition getInt32FromNetByte :: "bool \<Rightarrow> string \<Rightarrow> 32 word" where
  "getInt32FromNetByte big buf = network_to_host big (load_image big (take 4 buf))"

section \<open>What the buffer keeps\<close>

text \<open>The picture in the header: reader, writer and size in order, and room for the cheap prepend.\<close>

definition buffer_ok :: "buffer \<Rightarrow> bool" where
  "buffer_ok b \<longleftrightarrow> readerIndex b \<le> writerIndex b \<and> writerIndex b \<le> length (storage b) \<and>
     kCheapPrepend \<le> length (storage b)"

named_theorems buf_simps \<open>the accessors of a buffer\<close>

lemmas [buf_simps] = readableBytes_def writableBytes_def prependableBytes_def buf_content_def buffer_ok_def

lemma buffer_new_ok [simp, wf_intros]: "buffer_ok (buffer_new n)" "buf_content (buffer_new n) = []"
  by (simp_all add: buffer_new_def buf_simps)

lemma length_content [simp]: "buffer_ok b \<Longrightarrow> length (buf_content b) = readableBytes b"
  by (auto simp: buf_simps min_def)

lemma retrieve_ok:
  assumes "buffer_ok b" "n \<le> readableBytes b"
  shows "\<exists>b'. retrieve n b = Inr b' \<and> buffer_ok b' \<and> buf_content b' = drop n (buf_content b) \<and> storage b' = storage b"
  using assms
  by (auto simp: retrieve_def retrieveAll_def buf_simps drop_take min_def add.commute)

lemma retrieve_too_much: "readableBytes b < n \<Longrightarrow> retrieve n b = Inl AssertFailed"
  by (simp add: retrieve_def require_def)

lemma retrieveAsString_ok:
  assumes "buffer_ok b" "n \<le> readableBytes b"
  shows "\<exists>b'. retrieveAsString n b = Inr (take n (buf_content b), b') \<and> buffer_ok b' \<and>
     buf_content b' = drop n (buf_content b)"
  using retrieve_ok [OF assms] assms(2)
  by (auto simp: retrieveAsString_def buf_content_def min_def)

lemma makeSpace_ok:
  assumes "buffer_ok b" "writableBytes b < len"
  shows "\<exists>b'. makeSpace len b = Inr b' \<and> buffer_ok b' \<and> buf_content b' = buf_content b \<and> len \<le> writableBytes b'"
proof (cases "writableBytes b + prependableBytes b < len + kCheapPrepend")
  case True
  then show ?thesis using assms
    by (auto simp: makeSpace_def resize_storage_def buf_simps)
next
  case False
  then have "kCheapPrepend < readerIndex b" using assms(2) by (simp add: buf_simps)
  then show ?thesis using False assms
    by (auto simp: makeSpace_def write_at_def buf_simps require_def Let_def)
qed

lemma ensureWritableBytes_ok:
  assumes "buffer_ok b"
  shows "\<exists>b'. ensureWritableBytes len b = Inr b' \<and> buffer_ok b' \<and> buf_content b' = buf_content b \<and> len \<le> writableBytes b'"
  using makeSpace_ok [OF assms, of len] assms by (auto simp: ensureWritableBytes_def not_less)

lemma write_content:
  assumes "buffer_ok b" "length d \<le> writableBytes b"
  defines "b' \<equiv> b\<lparr>storage := write_at (storage b) (writerIndex b) d, writerIndex := writerIndex b + length d\<rparr>"
  shows "buffer_ok b'" "buf_content b' = buf_content b @ d"
proof -
  have "writerIndex b + length d \<le> length (storage b)" using assms(1,2) by (auto simp: buf_simps)
  then show "buffer_ok b'" using assms(1) by (simp add: b'_def buffer_ok_def)
  have "take (writerIndex b + length d) (write_at (storage b) (writerIndex b) d) = take (writerIndex b) (storage b) @ d"
    using assms by (simp add: write_at_def buf_simps)
  moreover have "buf_content x = drop (readerIndex x) (take (writerIndex x) (storage x))" for x
    by (simp add: buf_simps drop_take)
  ultimately show "buf_content b' = buf_content b @ d"
    using assms by (simp add: buffer_ok_def)
qed

lemma buf_append_ok:
  assumes "buffer_ok b"
  shows "\<exists>b'. buf_append d b = Inr b' \<and> buffer_ok b' \<and> buf_content b' = buf_content b @ d"
proof -
  obtain b1 where b1: "ensureWritableBytes (length d) b = Inr b1" "buffer_ok b1" "buf_content b1 = buf_content b"
    "length d \<le> writableBytes b1"
    using ensureWritableBytes_ok [OF assms] by blast
  from write_content [OF b1(2,4)] b1 show ?thesis
    by (auto simp: buf_append_def hasWritten_def buf_simps)
qed

lemma prepend_ok:
  assumes "buffer_ok b" "length d \<le> prependableBytes b"
  shows "\<exists>b'. prepend d b = Inr b' \<and> buffer_ok b' \<and> buf_content b' = d @ buf_content b \<and>
     prependableBytes b' = prependableBytes b - length d"
proof -
  let ?r = "readerIndex b - length d"
  have r: "?r + length d = readerIndex b" using assms(2) by (simp add: buf_simps)
  then have "drop ?r (write_at (storage b) ?r d) = d @ drop (readerIndex b) (storage b)"
    using assms by (subst drop_write_at) (auto simp: buf_simps)
  moreover have "buffer_ok (b\<lparr>readerIndex := ?r, storage := write_at (storage b) ?r d\<rparr>)"
    using assms r by (auto simp: buffer_ok_def)
  moreover have "writerIndex b - ?r = length d + readableBytes b"
    using assms r by (auto simp: buf_simps)
  ultimately show ?thesis using assms r
    by (simp add: prepend_def readableBytes_def prependableBytes_def buf_content_def Let_def)
qed

interpretation buf: byte_queue buffer_ok buf_content buf_append retrieveAsString
proof
  show "\<exists>b'. buf_append d b = Inr b' \<and> buffer_ok b' \<and> buf_content b' = buf_content b @ d" if "buffer_ok b" for b d
    using that by (rule buf_append_ok)
  show "\<exists>b'. retrieveAsString n b = Inr (take n (buf_content b), b') \<and> buffer_ok b' \<and> buf_content b' = drop n (buf_content b)"
    if "buffer_ok b" "n \<le> length (buf_content b)" for b n
    using that by (intro retrieveAsString_ok) simp_all
qed

lemma readFd_ok:
  assumes "buffer_ok b"
    "\<And>room d. readv room = Inr d \<Longrightarrow> length d \<le> room"
  shows "\<exists>n err b'. readFd readv b = Inr (n, err, b') \<and> buffer_ok b' \<and>
    (case readv (if writableBytes b < extrabuf_size then writableBytes b + extrabuf_size else writableBytes b) of
       Inl e \<Rightarrow> n = - 1 \<and> err = Some e \<and> b' = b
     | Inr d \<Rightarrow> n = int (length d) \<and> err = None \<and> buf_content b' = buf_content b @ d)"
proof (cases "readv (if writableBytes b < extrabuf_size then writableBytes b + extrabuf_size else writableBytes b)")
  case (Inl e)
  then show ?thesis using assms(1) by (simp add: readFd_def Let_def)
next
  case (Inr d)
  show ?thesis
  proof (cases "length d \<le> writableBytes b")
    case True
    then show ?thesis using Inr write_content [OF assms(1) True] by (simp add: readFd_def Let_def)
  next
    case False
    let ?d1 = "take (writableBytes b) d"
    let ?b1 = "b\<lparr>storage := write_at (storage b) (writerIndex b) ?d1,
      writerIndex := length (write_at (storage b) (writerIndex b) ?d1)\<rparr>"
    have l: "length ?d1 = writableBytes b" using False by simp
    then have "length (write_at (storage b) (writerIndex b) ?d1) = writerIndex b + length ?d1"
      using assms(1) by (simp add: buf_simps)
    then have "buffer_ok ?b1" "buf_content ?b1 = buf_content b @ ?d1"
      using write_content [OF assms(1), of ?d1] l by simp_all
    then obtain b2 where "buf_append (drop (writableBytes b) d) ?b1 = Inr b2" "buffer_ok b2"
      "buf_content b2 = (buf_content b @ ?d1) @ drop (writableBytes b) d"
      using buf_append_ok [of ?b1 "drop (writableBytes b) d"] by auto
    then show ?thesis using Inr False by (simp add: readFd_def Let_def)
  qed
qed

section \<open>Byte order\<close>

lemma length_be_bytes [simp]: "length (be_bytes n v) = n"
  by (induction n arbitrary: v) simp_all

lemma be_value_snoc: "be_value (s @ [c]) = 256 * be_value s + code_of c"
  by (simp add: be_value_def)

lemma be_value_bound: "be_value s < 256 ^ length s"
proof (induction s rule: rev_induct)
  case (snoc c s)
  have "256 * be_value s + code_of c < 256 * be_value s + 256" by simp
  also have "\<dots> \<le> 256 * 256 ^ length s" using snoc by simp
  finally show ?case by (simp add: be_value_snoc)
qed (simp add: be_value_def)

lemma be_value_be_bytes: "v < 256 ^ n \<Longrightarrow> be_value (be_bytes n v) = v"
proof (induction n arbitrary: v)
  case (Suc n)
  have "v div 256 < 256 ^ n" using Suc.prems by (simp add: less_mult_imp_div_less mult.commute)
  then show ?case using Suc.IH by (simp add: be_value_snoc)
qed (simp add: be_value_def)

lemma be_bytes_be_value: "be_bytes (length s) (be_value s) = s"
proof (induction s rule: rev_induct)
  case (snoc c s)
  have "(256 * be_value s + code_of c) div 256 = be_value s" by simp
  moreover have "char_of (256 * be_value s + code_of c) = c"
    by (metis add.commute char_of_code_of char_of_mod_256 mod_mult_self2)
  ultimately show ?case using snoc by (simp add: be_value_snoc)
qed simp

text \<open>The widths of the code: a whole number of bytes.\<close>

definition whole_bytes :: "'a::len itself \<Rightarrow> bool" where
  "whole_bytes t \<longleftrightarrow> LENGTH('a) = 8 * (LENGTH('a) div 8)"

lemma two_power_bytes:
  assumes "whole_bytes TYPE('a::len)"
  shows "(2::nat) ^ LENGTH('a) = 256 ^ (LENGTH('a) div 8)"
proof -
  have "(2::nat) ^ LENGTH('a) = 2 ^ (8 * (LENGTH('a) div 8))"
    using assms by (simp add: whole_bytes_def)
  also have "\<dots> = (2 ^ 8) ^ (LENGTH('a) div 8)" by (rule power_mult)
  finally show ?thesis by simp
qed

lemma length_word_bytes [simp]: "length (word_bytes (x :: 'a::len word)) = LENGTH('a) div 8"
  by (simp add: word_bytes_def)

lemma word_bytes_value:
  fixes x :: "'a::len word"
  assumes "whole_bytes TYPE('a)"
  shows "word_of_nat (be_value (word_bytes x)) = x"
proof -
  have "unat x < 256 ^ (LENGTH('a) div 8)"
    unfolding two_power_bytes [OF assms, symmetric] by (rule unsigned_less)
  then show ?thesis by (simp add: word_bytes_def be_value_be_bytes)
qed

lemma word_bytes_of_value:
  assumes "whole_bytes TYPE('a::len)" "length s = LENGTH('a) div 8"
  shows "word_bytes (word_of_nat (be_value s) :: 'a word) = s"
proof -
  have "be_value s < 2 ^ LENGTH('a)"
    using be_value_bound [of s] assms(2) two_power_bytes [OF assms(1)] by simp
  then have "unat (word_of_nat (be_value s) :: 'a word) = be_value s"
    by (simp add: unat_of_nat)
  then show ?thesis using be_bytes_be_value [of s] assms(2) by (simp add: word_bytes_def)
qed

lemma memory_image_network:
  fixes x :: "'a::len word"
  assumes "whole_bytes TYPE('a)"
  shows "memory_image big (host_to_network big x) = word_bytes x"
  using word_bytes_of_value [OF assms, of "rev (word_bytes x)"]
  by (simp add: memory_image_def host_to_network_def)

lemma load_network_image:
  assumes "whole_bytes TYPE('a::len)"
  shows "network_to_host big (load_image big (word_bytes x)) = (x :: 'a word)"
  using word_bytes_value [OF assms, of x] word_bytes_of_value [OF assms, of "rev (word_bytes x)"]
  by (simp add: load_image_def network_to_host_def)

lemma whole_widths [simp]:
  "whole_bytes TYPE(64)" "whole_bytes TYPE(32)" "whole_bytes TYPE(16)" "whole_bytes TYPE(8)"
  by (simp_all add: whole_bytes_def)

lemma append_int_ok:
  fixes x :: "'a::len word"
  assumes "buffer_ok b" "whole_bytes TYPE('a)"
  shows "\<exists>b'. append_int big x b = Inr b' \<and> buffer_ok b' \<and> buf_content b' = buf_content b @ word_bytes x"
  using buf_append_ok [OF assms(1)] by (simp add: append_int_def memory_image_network [OF assms(2)])

lemma take_content:
  "buffer_ok b \<Longrightarrow> n \<le> readableBytes b \<Longrightarrow> take n (drop (readerIndex b) (storage b)) = take n (buf_content b)"
  by (simp add: buf_content_def min_def)

lemma read_int_ok:
  fixes x :: "'a::len word"
  assumes "buffer_ok b" "whole_bytes TYPE('a)" "buf_content b = word_bytes x @ rest" "n = LENGTH('a) div 8"
  shows "\<exists>b'. read_int big n b = Inr (x, b') \<and> buffer_ok b' \<and> buf_content b' = rest"
proof -
  have n: "n \<le> readableBytes b" using length_content [OF assms(1)] assms(3,4) by simp
  then show ?thesis
    using retrieve_ok [OF assms(1) n] take_content [OF assms(1) n] assms(3,4) load_network_image [OF assms(2), of big x]
    by (auto simp: read_int_def peek_int_def)
qed

lemma read_int_short: "readableBytes b < n \<Longrightarrow> read_int big n b = Inl AssertFailed"
  by (simp add: read_int_def peek_int_def require_def)

section \<open>Properties\<close>

text \<open>C15: a new buffer, given any sequence of appends and of reads that never ask for more than is there,
  fails no assertion, whatever the sizes, and hands out the bytes appended, each once and in order.\<close>

theorem buffer_is_a_stream:
  assumes "takes_fit cs 0"
  shows "\<exists>out b. run_calls buf_append retrieveAsString cs (buffer_new n) = Inr (out, b) \<and>
     out @ buf_content b = bytes_put cs \<and> buffer_ok b"
  using buf.run_stream [OF buffer_new_ok(1) [of n], of cs] assms by simp blast

theorem buffer_is_a_stream_witness:
  "\<exists>out b. run_calls buf_append retrieveAsString [Put ''hello'', Take 3, Put '' world'', Take 8] (buffer_new 2)
     = Inr (out, b) \<and> out @ buf_content b = ''hello world''"
  using buffer_is_a_stream [of "[Put ''hello'', Take 3, Put '' world'', Take 8]" 2] by auto

text \<open>C16: an integer of 8, 16, 32 or 64 bits appended on a host of either byte order travels as the same
  bytes, most significant first, and is read back as the same value on a host of either byte order;
  with too few bytes readable the read fails its assertion.\<close>

theorem integer_roundtrip:
  assumes "buffer_ok b"
  shows "(\<exists>b1. appendInt64 big x b = Inr b1 \<and> buf_content b1 = buf_content b @ be_bytes 8 (unat x)) \<and>
    (\<exists>b1. appendInt32 big y b = Inr b1 \<and> buf_content b1 = buf_content b @ be_bytes 4 (unat y)) \<and>
    (\<exists>b1. appendInt16 big z b = Inr b1 \<and> buf_content b1 = buf_content b @ be_bytes 2 (unat z)) \<and>
    (\<exists>b1. appendInt8 w b = Inr b1 \<and> buf_content b1 = buf_content b @ be_bytes 1 (unat w)) \<and>
    (buf_content b = be_bytes 8 (unat x) @ r \<longrightarrow> (\<exists>b2. readInt64 big' b = Inr (x, b2) \<and> buf_content b2 = r)) \<and>
    (buf_content b = be_bytes 4 (unat y) @ r \<longrightarrow> (\<exists>b2. readInt32 big' b = Inr (y, b2) \<and> buf_content b2 = r)) \<and>
    (buf_content b = be_bytes 2 (unat z) @ r \<longrightarrow> (\<exists>b2. readInt16 big' b = Inr (z, b2) \<and> buf_content b2 = r)) \<and>
    (buf_content b = be_bytes 1 (unat w) @ r \<longrightarrow> (\<exists>b2. readInt8 b = Inr (w, b2) \<and> buf_content b2 = r)) \<and>
    (readableBytes b < 8 \<longrightarrow> readInt64 big' b = Inl AssertFailed)"
proof -
  have wb: "word_bytes x = be_bytes 8 (unat x)" "word_bytes y = be_bytes 4 (unat y)"
    "word_bytes z = be_bytes 2 (unat z)" "word_bytes w = be_bytes 1 (unat w)"
    by (simp_all add: word_bytes_def)
  have i8: "appendInt8 w b = append_int True w b"
    by (simp add: appendInt8_def append_int_def host_to_network_def)
  note app = append_int_ok [OF assms]
  note rd = read_int_ok [OF assms]
  have "\<exists>b1. appendInt64 big x b = Inr b1 \<and> buf_content b1 = buf_content b @ be_bytes 8 (unat x)"
    using app [where x = x and big = big] by (auto simp: appendInt64_def wb)
  moreover have "\<exists>b1. appendInt32 big y b = Inr b1 \<and> buf_content b1 = buf_content b @ be_bytes 4 (unat y)"
    using app [where x = y and big = big] by (auto simp: appendInt32_def wb)
  moreover have "\<exists>b1. appendInt16 big z b = Inr b1 \<and> buf_content b1 = buf_content b @ be_bytes 2 (unat z)"
    using app [where x = z and big = big] by (auto simp: appendInt16_def wb)
  moreover have "\<exists>b1. appendInt8 w b = Inr b1 \<and> buf_content b1 = buf_content b @ be_bytes 1 (unat w)"
    using app [where x = w and big = True] by (auto simp: i8 wb)
  moreover have "\<exists>b2. readInt64 big' b = Inr (x, b2) \<and> buf_content b2 = r"
    if "buf_content b = be_bytes 8 (unat x) @ r"
    using rd [OF whole_widths(1) that [folded wb(1)] refl, of "big'"] by (auto simp: readInt64_def)
  moreover have "\<exists>b2. readInt32 big' b = Inr (y, b2) \<and> buf_content b2 = r"
    if "buf_content b = be_bytes 4 (unat y) @ r"
    using rd [OF whole_widths(2) that [folded wb(2)] refl, of "big'"] by (auto simp: readInt32_def)
  moreover have "\<exists>b2. readInt16 big' b = Inr (z, b2) \<and> buf_content b2 = r"
    if "buf_content b = be_bytes 2 (unat z) @ r"
    using rd [OF whole_widths(3) that [folded wb(3)] refl, of "big'"] by (auto simp: readInt16_def)
  moreover have "\<exists>b2. readInt8 b = Inr (w, b2) \<and> buf_content b2 = r"
    if "buf_content b = be_bytes 1 (unat w) @ r"
    using rd [OF whole_widths(4) that [folded wb(4)] refl, of "True"] by (auto simp: readInt8_def)
  moreover have "readInt64 big' b = Inl AssertFailed" if "readableBytes b < 8"
    using that by (simp add: readInt64_def read_int_short)
  ultimately show ?thesis by (intro conjI impI)
qed

theorem integer_roundtrip_witness:
  "\<exists>b1. appendInt32 False 258 (buffer_new 0) = Inr b1 \<and> buf_content b1 = be_bytes 4 258"
  using integer_roundtrip [OF buffer_new_ok(1) [of 0], where big = False and y = 258] by simp

lemma append_new_prependable:
  "buf_append msg (buffer_new n) = Inr b \<Longrightarrow> prependableBytes b = 8"
  by (auto simp: buf_append_def ensureWritableBytes_def makeSpace_def hasWritten_def buffer_new_def
      kCheapPrepend_def buf_simps rbind_Inr_iff split: if_splits)

text \<open>A header can be put in front of a message after the message: the cheap prepend of a new
  buffer takes a 64-bit number, reading it back leaves exactly the message, and there is no room for
  a second header of any size.\<close>

theorem prepend_header:
  "\<exists>b1 b2 b3. buf_append msg (buffer_new n) = Inr b1 \<and> prependInt64 big x b1 = Inr b2 \<and>
     buf_content b2 = be_bytes 8 (unat x) @ msg \<and> readInt64 big' b2 = Inr (x, b3) \<and> buf_content b3 = msg \<and>
     prependInt8 y b2 = Inl AssertFailed"
proof -
  obtain b1 where b1: "buf_append msg (buffer_new n) = Inr b1" "buffer_ok b1" "buf_content b1 = msg"
    using buf_append_ok [OF buffer_new_ok(1)] by auto
  have "length (word_bytes x) \<le> prependableBytes b1" "prependableBytes b1 = 8"
    using append_new_prependable [OF b1(1)] by simp_all
  then obtain b2 where b2: "prepend (word_bytes x) b1 = Inr b2" "buffer_ok b2" "buf_content b2 = word_bytes x @ msg"
    "prependableBytes b2 = 0"
    using prepend_ok [OF b1(2), of "word_bytes x"] b1(3) by auto
  have "prependInt64 big x b1 = Inr b2"
    using b2(1) by (simp add: prependInt64_def prepend_int_def memory_image_network)
  moreover obtain b3 where "read_int big' 8 b2 = Inr (x, b3)" "buf_content b3 = msg"
    using read_int_ok [OF b2(2) _ b2(3), of 8 big'] by auto
  moreover have "prependInt8 y b2 = Inl AssertFailed"
    using b2(4) by (simp add: prependInt8_def prepend_def memory_image_def require_def)
  ultimately show ?thesis
    using b1(1) b2(3) by (auto simp: readInt64_def word_bytes_def)
qed

text \<open>Reading a descriptor appends to the buffer exactly the bytes the kernel delivered, also those
  that went to the spare array on the stack, for any split between the two; an error leaves the
  buffer as it was and is saved. A read asks for at least 1 MiB.\<close>

theorem readFd_appends:
  assumes "buffer_ok b" "\<And>room d. readv room = Inr d \<Longrightarrow> length d \<le> room"
  shows "\<exists>room n err b'. 1024 * 1024 \<le> room \<and> readFd readv b = Inr (n, err, b') \<and> buffer_ok b' \<and>
    (case readv room of
       Inl e \<Rightarrow> n = - 1 \<and> err = Some e \<and> b' = b
     | Inr d \<Rightarrow> n = int (length d) \<and> err = None \<and> buf_content b' = buf_content b @ d)"
  using readFd_ok [OF assms]
  by (intro exI [of _ "if writableBytes b < extrabuf_size then writableBytes b + extrabuf_size else writableBytes b"])
    (simp add: extrabuf_size_def not_less)

theorem readFd_appends_witness:
  "\<exists>n err b'. readFd (\<lambda>room. Inr (take room ''hello'')) (buffer_new 2) = Inr (n, err, b') \<and> buf_content b' = ''hello''"
  using readFd_appends [OF buffer_new_ok(1) [of 2], of "\<lambda>room. Inr (take room ''hello'')"] by auto

end
