(* ===== verification/Reactor.thy ===== *)
theory Reactor
  imports Prelude
begin

unbundle bit_operations_syntax

text \<open>
  The reactor of \<open>network/\<close>: \<open>Channel\<close> and \<open>Poller\<close> over the kernel's epoll set, and \<open>EventLoop\<close> with its
  queue of functors. Channels are objects named by a number; the store \<open>chans\<close> holds their fields. The
  epoll set maps a descriptor to the events asked for and the channel, and \<open>epoll_ctl\<close> fails as
  documented: \<open>ADD\<close> on a descriptor in the set, \<open>MOD\<close> and \<open>DEL\<close> on one that is not.
\<close>

section \<open>Channels and the epoll set\<close>

record channel =
  ch_fd :: int
  ch_events :: "32 word"
  ch_revents :: "32 word"
  ch_index :: int
  added_to_loop :: bool

record reactor =
  chans :: "nat \<Rightarrow> channel option"
  po_channels :: "int \<Rightarrow> nat option"
  epoll :: "int \<Rightarrow> (32 word \<times> nat) option"
  po_size :: nat
  active :: "nat list"
  current :: "nat option"
  event_handling :: bool

definition EPOLLIN :: "32 word" where "EPOLLIN = 0x1"
definition EPOLLPRI :: "32 word" where "EPOLLPRI = 0x2"
definition EPOLLOUT :: "32 word" where "EPOLLOUT = 0x4"
definition EPOLLERR :: "32 word" where "EPOLLERR = 0x8"
definition EPOLLHUP :: "32 word" where "EPOLLHUP = 0x10"
definition POLLNVAL :: "32 word" where "POLLNVAL = 0x20"
definition EPOLLRDHUP :: "32 word" where "EPOLLRDHUP = 0x2000"

definition kNew :: int where "kNew = - 1"
definition kAdded :: int where "kAdded = 1"
definition kDeleted :: int where "kDeleted = 2"
definition kInitEventListSize :: nat where "kInitEventListSize = 16"

definition channel_new :: "int \<Rightarrow> channel" where
  "channel_new fd = \<lparr>ch_fd = fd, ch_events = 0, ch_revents = 0, ch_index = kNew, added_to_loop = False\<rparr>"

definition poller_new :: reactor where
  "poller_new = \<lparr>chans = Map.empty, po_channels = Map.empty, epoll = Map.empty, po_size = kInitEventListSize,
     active = [], current = None, event_handling = False\<rparr>"

definition is_none_event :: "channel \<Rightarrow> bool" where "is_none_event ch \<longleftrightarrow> ch_events ch = 0"
definition is_writing :: "channel \<Rightarrow> bool" where "is_writing ch \<longleftrightarrow> ch_events ch AND EPOLLOUT \<noteq> 0"
definition is_reading :: "channel \<Rightarrow> bool" where "is_reading ch \<longleftrightarrow> ch_events ch AND EPOLLIN \<noteq> 0"

text \<open>A pointer to no channel is undefined.\<close>

definition the_channel :: "nat \<Rightarrow> reactor \<Rightarrow> channel res" where
  "the_channel c r = (case chans r c of None \<Rightarrow> Inl Undefined | Some ch \<Rightarrow> Inr ch)"

definition put_chan :: "nat \<Rightarrow> channel \<Rightarrow> reactor \<Rightarrow> reactor" where
  "put_chan c ch r = r\<lparr>chans := (chans r)(c \<mapsto> ch)\<rparr>"

datatype epoll_op = EPOLL_CTL_ADD | EPOLL_CTL_MOD | EPOLL_CTL_DEL

fun epoll_ctl :: "epoll_op \<Rightarrow> int \<Rightarrow> 32 word \<times> nat \<Rightarrow> reactor \<Rightarrow> reactor option" where
  "epoll_ctl EPOLL_CTL_ADD fd ev r = (if epoll r fd \<noteq> None then None else Some (r\<lparr>epoll := (epoll r)(fd \<mapsto> ev)\<rparr>))"
| "epoll_ctl EPOLL_CTL_MOD fd ev r = (if epoll r fd = None then None else Some (r\<lparr>epoll := (epoll r)(fd \<mapsto> ev)\<rparr>))"
| "epoll_ctl EPOLL_CTL_DEL fd ev r = (if epoll r fd = None then None else Some (r\<lparr>epoll := (epoll r)(fd := None)\<rparr>))"

definition poller_update :: "epoll_op \<Rightarrow> nat \<Rightarrow> channel \<Rightarrow> reactor \<Rightarrow> reactor res" where
  "poller_update oper c ch r =
     (case epoll_ctl oper (ch_fd ch) (ch_events ch, c) r of
        None \<Rightarrow> if oper = EPOLL_CTL_DEL then Inr r else Inl Fatal
      | Some r' \<Rightarrow> Inr r')"

definition update_channel :: "nat \<Rightarrow> reactor \<Rightarrow> reactor res" where
  "update_channel c r =
     rbind (the_channel c r) (\<lambda>ch.
     let fd = ch_fd ch; i = ch_index ch in
     if i = kNew \<or> i = kDeleted then
       rbind (if i = kNew then
                require (po_channels r fd = None) AssertFailed (Inr (r\<lparr>po_channels := (po_channels r)(fd \<mapsto> c)\<rparr>))
              else require (po_channels r fd = Some c) AssertFailed (Inr r)) (\<lambda>r1.
       let ch' = ch\<lparr>ch_index := kAdded\<rparr>
       in poller_update EPOLL_CTL_ADD c ch' (put_chan c ch' r1))
     else
       require (po_channels r fd = Some c \<and> i = kAdded) AssertFailed
         (if is_none_event ch then
            rbind (poller_update EPOLL_CTL_DEL c ch r) (\<lambda>r1. Inr (put_chan c (ch\<lparr>ch_index := kDeleted\<rparr>) r1))
          else poller_update EPOLL_CTL_MOD c ch r))"

definition remove_channel :: "nat \<Rightarrow> reactor \<Rightarrow> reactor res" where
  "remove_channel c r =
     rbind (the_channel c r) (\<lambda>ch.
     let fd = ch_fd ch; i = ch_index ch in
     require (po_channels r fd = Some c \<and> is_none_event ch \<and> (i = kAdded \<or> i = kDeleted)) AssertFailed
       (let r1 = r\<lparr>po_channels := (po_channels r)(fd := None)\<rparr>
        in rbind (if i = kAdded then poller_update EPOLL_CTL_DEL c ch r1 else Inr r1) (\<lambda>r2.
             Inr (put_chan c (ch\<lparr>ch_index := kNew\<rparr>) r2))))"

definition has_channel :: "nat \<Rightarrow> reactor \<Rightarrow> bool res" where
  "has_channel c r = rbind (the_channel c r) (\<lambda>ch. Inr (po_channels r (ch_fd ch) = Some c))"

text \<open>\<open>Channel::update\<close> after a change of the events, and \<open>Channel::remove\<close> through the loop.\<close>

definition set_events :: "(32 word \<Rightarrow> 32 word) \<Rightarrow> nat \<Rightarrow> reactor \<Rightarrow> reactor res" where
  "set_events f c r =
     rbind (the_channel c r) (\<lambda>ch.
       update_channel c (put_chan c (ch\<lparr>ch_events := f (ch_events ch), added_to_loop := True\<rparr>) r))"

definition enable_reading :: "nat \<Rightarrow> reactor \<Rightarrow> reactor res" where
  "enable_reading = set_events (\<lambda>e. e OR EPOLLIN)"

definition disable_reading :: "nat \<Rightarrow> reactor \<Rightarrow> reactor res" where
  "disable_reading = set_events (\<lambda>e. e AND NOT EPOLLIN)"

definition enable_writing :: "nat \<Rightarrow> reactor \<Rightarrow> reactor res" where
  "enable_writing = set_events (\<lambda>e. e OR EPOLLOUT)"

definition disable_writing :: "nat \<Rightarrow> reactor \<Rightarrow> reactor res" where
  "disable_writing = set_events (\<lambda>e. e AND NOT EPOLLOUT)"

definition disable_all :: "nat \<Rightarrow> reactor \<Rightarrow> reactor res" where
  "disable_all = set_events (\<lambda>_. 0)"

definition loop_remove_channel :: "nat \<Rightarrow> reactor \<Rightarrow> reactor res" where
  "loop_remove_channel c r =
     require (event_handling r \<longrightarrow> current r = Some c \<or> c \<notin> set (active r)) AssertFailed (remove_channel c r)"

definition channel_remove :: "nat \<Rightarrow> reactor \<Rightarrow> reactor res" where
  "channel_remove c r =
     rbind (the_channel c r) (\<lambda>ch.
       require (is_none_event ch) AssertFailed
         (loop_remove_channel c (put_chan c (ch\<lparr>added_to_loop := False\<rparr>) r)))"

text \<open>The destructor's assertions, in the loop's thread.\<close>

definition channel_destroy :: "nat \<Rightarrow> reactor \<Rightarrow> reactor res" where
  "channel_destroy c r =
     rbind (the_channel c r) (\<lambda>ch.
     rbind (has_channel c r) (\<lambda>has.
       require (\<not> added_to_loop ch \<and> \<not> has) AssertFailed (Inr (r\<lparr>chans := (chans r)(c := None)\<rparr>))))"

text \<open>\<open>epoll_wait\<close> answers with events; \<open>fillActiveChannels\<close> stores them into the channels.\<close>

fun fill_active :: "(int \<times> 32 word \<times> nat) list \<Rightarrow> reactor \<Rightarrow> reactor res" where
  "fill_active [] r = Inr r"
| "fill_active ((fd, ev, c) # es) r =
     rbind (the_channel c r) (\<lambda>ch.
       require (po_channels r (ch_fd ch) = Some c) AssertFailed
         (fill_active es (put_chan c (ch\<lparr>ch_revents := ev\<rparr>) (r\<lparr>active := active r @ [c]\<rparr>))))"

definition poll :: "(int \<times> 32 word \<times> nat) list \<Rightarrow> reactor \<Rightarrow> reactor res" where
  "poll es r =
     (if es = [] then Inr (r\<lparr>active := []\<rparr>)
      else require (length es \<le> po_size r) AssertFailed
        (rbind (fill_active es (r\<lparr>active := []\<rparr>)) (\<lambda>r1.
           Inr (if length es = po_size r then r1\<lparr>po_size := po_size r * 2\<rparr> else r1))))"

text \<open>\<open>handleEvent\<close>: the callbacks it runs for the events received, in this order.\<close>

datatype callback = Close_callback | Read_callback | Write_callback | Error_callback

definition handle_event :: "32 word \<Rightarrow> callback list" where
  "handle_event ev =
     (if ev AND EPOLLHUP \<noteq> 0 \<and> ev AND EPOLLIN = 0 then [Close_callback] else []) @
     (if ev AND (EPOLLIN OR EPOLLPRI OR EPOLLRDHUP) \<noteq> 0 then [Read_callback] else []) @
     (if ev AND EPOLLOUT \<noteq> 0 then [Write_callback] else []) @
     (if ev AND (EPOLLERR OR POLLNVAL) \<noteq> 0 then [Error_callback] else [])"

section \<open>The event loop's functors\<close>

text \<open>
  The loop's thread polls, handles the active channels, then takes the whole queue and calls it. Other
  threads push a functor under the lock and write to the event descriptor afterwards, in two steps.
  \<open>saw_wakeup\<close> is whether the last poll reported the event descriptor, \<open>early\<close> whether the loop's own
  thread queued a functor before \<open>loop()\<close>, which writes no wake-up. \<open>queued\<close> and \<open>ran\<close> record what
  was queued and what has been called.
\<close>

datatype 'f loop_phase = Idle | Polling | Handling | Calling "'f list" | Stopped

record 'f event_loop =
  lp_phase :: "'f loop_phase"
  pending_functors :: "'f list"
  wakeup_count :: nat
  saw_wakeup :: bool
  waking :: nat
  quitting :: bool
  early :: bool
  queued :: "'f list"
  ran :: "'f list"

definition event_loop_new :: "'f event_loop" where
  "event_loop_new = \<lparr>lp_phase = Idle, pending_functors = [], wakeup_count = 0, saw_wakeup = False, waking = 0,
     quitting = False, early = False, queued = [], ran = []\<rparr>"

definition wakeup :: "'f event_loop \<Rightarrow> 'f event_loop" where
  "wakeup l = l\<lparr>wakeup_count := min (wakeup_count l + 1) 18446744073709551614\<rparr>"

fun calling_pending :: "'f loop_phase \<Rightarrow> bool" where
  "calling_pending (Calling _) = True"
| "calling_pending _ = False"

definition push_functor :: "'f \<Rightarrow> 'f event_loop \<Rightarrow> 'f event_loop" where
  "push_functor f l = l\<lparr>pending_functors := pending_functors l @ [f], queued := queued l @ [f]\<rparr>"

definition queue_in_loop_own :: "'f \<Rightarrow> 'f event_loop \<Rightarrow> 'f event_loop" where
  "queue_in_loop_own f l =
     (let l1 = (push_functor f l)\<lparr>early := early l \<or> lp_phase l = Idle\<rparr>
      in if calling_pending (lp_phase l1) then wakeup l1 else l1)"

definition queue_in_loop_other :: "'f \<Rightarrow> 'f event_loop \<Rightarrow> 'f event_loop" where
  "queue_in_loop_other f l = (push_functor f l)\<lparr>waking := waking l + 1\<rparr>"

definition finish_wakeup :: "'f event_loop \<Rightarrow> 'f event_loop" where
  "finish_wakeup l = (wakeup l)\<lparr>waking := waking l - 1\<rparr>"

definition quit_loop :: "bool \<Rightarrow> 'f event_loop \<Rightarrow> 'f event_loop" where
  "quit_loop own l = (if own then l\<lparr>quitting := True\<rparr> else l\<lparr>quitting := True, waking := waking l + 1\<rparr>)"

definition start_loop :: "'f event_loop \<Rightarrow> 'f event_loop" where
  "start_loop l = l\<lparr>lp_phase := Polling, quitting := False\<rparr>"

definition poll_returns :: "'f event_loop \<Rightarrow> 'f event_loop" where
  "poll_returns l = l\<lparr>lp_phase := Handling, saw_wakeup := (0 < wakeup_count l)\<rparr>"

definition loop_handle_read :: "'f event_loop \<Rightarrow> 'f event_loop" where
  "loop_handle_read l = l\<lparr>wakeup_count := 0, saw_wakeup := False\<rparr>"

definition take_functors :: "'f event_loop \<Rightarrow> 'f event_loop" where
  "take_functors l = l\<lparr>lp_phase := Calling (pending_functors l), pending_functors := [], early := False\<rparr>"

definition call_functor :: "'f \<Rightarrow> 'f list \<Rightarrow> 'f event_loop \<Rightarrow> 'f event_loop" where
  "call_functor f fs l = l\<lparr>lp_phase := Calling fs, ran := ran l @ [f]\<rparr>"

definition end_iteration :: "'f event_loop \<Rightarrow> 'f event_loop" where
  "end_iteration l = l\<lparr>lp_phase := (if quitting l then Stopped else Polling)\<rparr>"

inductive loop_step :: "'f event_loop \<Rightarrow> 'f event_loop \<Rightarrow> bool" where
  begin_loop: "lp_phase l = Idle \<Longrightarrow> loop_step l (start_loop l)"
| polled: "lp_phase l = Polling \<Longrightarrow> loop_step l (poll_returns l)"
| read_wakeup: "lp_phase l = Handling \<Longrightarrow> saw_wakeup l \<Longrightarrow> loop_step l (loop_handle_read l)"
| taken: "lp_phase l = Handling \<Longrightarrow> \<not> saw_wakeup l \<Longrightarrow> loop_step l (take_functors l)"
| called: "lp_phase l = Calling (f # fs) \<Longrightarrow> loop_step l (call_functor f fs l)"
| iterated: "lp_phase l = Calling [] \<Longrightarrow> loop_step l (end_iteration l)"
| own_queue: "lp_phase l \<noteq> Polling \<Longrightarrow> lp_phase l \<noteq> Stopped \<Longrightarrow> loop_step l (queue_in_loop_own f l)"
| other_queue: "loop_step l (queue_in_loop_other f l)"
| other_wakes: "0 < waking l \<Longrightarrow> loop_step l (finish_wakeup l)"
| own_quit: "lp_phase l \<noteq> Polling \<Longrightarrow> loop_step l (quit_loop True l)"
| other_quit: "loop_step l (quit_loop False l)"

inductive_cases loop_stepE: "loop_step l l'"

inductive loop_reach :: "'f event_loop \<Rightarrow> bool" where
  new: "loop_reach event_loop_new"
| step: "loop_reach l \<Longrightarrow> loop_step l l' \<Longrightarrow> loop_reach l'"

section \<open>Properties\<close>

fun batch :: "'f loop_phase \<Rightarrow> 'f list" where
  "batch (Calling fs) = fs"
| "batch _ = []"

lemmas loop_defs = start_loop_def poll_returns_def loop_handle_read_def take_functors_def call_functor_def
  end_iteration_def queue_in_loop_own_def queue_in_loop_other_def finish_wakeup_def quit_loop_def wakeup_def
  push_functor_def Let_def

definition awake :: "'f event_loop \<Rightarrow> bool" where
  "awake l \<longleftrightarrow> 0 < wakeup_count l \<or> 0 < waking l \<or> early l"

lemma loop_step_order:
  "loop_step l l' \<Longrightarrow> queued l = ran l @ batch (lp_phase l) @ pending_functors l \<Longrightarrow>
   queued l' = ran l' @ batch (lp_phase l') @ pending_functors l'"
  by (elim loop_stepE) (cases "lp_phase l"; auto simp: loop_defs)+

lemma loop_step_awake:
  "loop_step l l' \<Longrightarrow> (lp_phase l \<noteq> Handling \<Longrightarrow> pending_functors l \<noteq> [] \<Longrightarrow> awake l) \<Longrightarrow>
   lp_phase l' \<noteq> Handling \<Longrightarrow> pending_functors l' \<noteq> [] \<Longrightarrow> awake l'"
  by (elim loop_stepE) (cases "lp_phase l"; auto simp: loop_defs awake_def split: if_splits)+

text \<open>C34: whatever the loop's thread and the other threads do, every functor queued is called exactly once, in
  the order of the queue; and while the loop is blocked in \<open>poll\<close> with functors waiting, it is about to
  return: the event descriptor is readable, or a thread that pushed has its write to it still ahead.
  The one exception are functors the loop's own thread queued before it called \<open>loop()\<close>.\<close>

theorem no_functor_lost:
  assumes "loop_reach l"
  shows "queued l = ran l @ batch (lp_phase l) @ pending_functors l \<and>
    \<not> (lp_phase l = Polling \<and> pending_functors l \<noteq> [] \<and> wakeup_count l = 0 \<and> waking l = 0 \<and> \<not> early l)"
proof -
  have "queued l = ran l @ batch (lp_phase l) @ pending_functors l \<and>
    (lp_phase l \<noteq> Handling \<and> pending_functors l \<noteq> [] \<longrightarrow> awake l)"
    using assms
  proof (induction rule: loop_reach.induct)
    case (step l l')
    with loop_step_order loop_step_awake show ?case by metis
  qed (simp add: event_loop_new_def)
  then show ?thesis by (auto simp: awake_def)
qed

theorem no_functor_lost_witness:
  "\<exists>l. loop_reach l \<and> lp_phase l = Polling \<and> pending_functors l = [7 :: nat] \<and> 0 < waking l"
proof -
  let ?l = "queue_in_loop_other (7 :: nat) (start_loop event_loop_new)"
  have r: "loop_reach ?l"
    by (intro loop_reach.step [OF loop_reach.step [OF loop_reach.new begin_loop] other_queue])
      (simp add: event_loop_new_def)
  have p: "lp_phase ?l = Polling" "pending_functors ?l = [7]" "wakeup_count ?l = 0" "\<not> early ?l"
    by (simp_all add: loop_defs event_loop_new_def)
  with no_functor_lost [OF r] have "0 < waking ?l" by simp
  with r p show ?thesis by blast
qed

section \<open>The poller\<close>

definition chan_ok :: "reactor \<Rightarrow> int \<Rightarrow> nat \<Rightarrow> bool" where
  "chan_ok r fd c \<longleftrightarrow> (\<exists>ch. chans r c = Some ch \<and> ch_fd ch = fd \<and>
     (ch_index ch = kAdded \<and> epoll r fd = Some (ch_events ch, c) \<or> ch_index ch = kDeleted \<and> epoll r fd = None))"

definition poller_ok :: "reactor \<Rightarrow> bool" where
  "poller_ok r \<longleftrightarrow>
     (\<forall>fd c. po_channels r fd = Some c \<longrightarrow> chan_ok r fd c) \<and>
     (\<forall>fd. po_channels r fd = None \<longrightarrow> epoll r fd = None) \<and>
     (\<forall>c ch. chans r c = Some ch \<and> po_channels r (ch_fd ch) \<noteq> Some c \<longrightarrow> ch_index ch = kNew)"

lemmas index_defs = kNew_def kAdded_def kDeleted_def

lemma chan_okD:
  assumes "poller_ok r" "chans r c = Some ch" "po_channels r (ch_fd ch) = Some c"
  shows "ch_index ch = kAdded \<and> epoll r (ch_fd ch) = Some (ch_events ch, c) \<or> ch_index ch = kDeleted \<and> epoll r (ch_fd ch) = None"
proof -
  from assms have "chan_ok r (ch_fd ch) c" by (simp add: poller_ok_def)
  with assms(2) show ?thesis by (simp add: chan_ok_def)
qed

lemma po_unique: "poller_ok r \<Longrightarrow> chans r c = Some ch \<Longrightarrow> po_channels r fd = Some c \<Longrightarrow> fd = ch_fd ch"
  by (fastforce simp: poller_ok_def chan_ok_def)

lemma require_same [simp]: "require b e (Inl e) = Inl e"
  by (simp add: require_def)

text \<open>The invariant after a change that concerns one channel and its descriptor only.\<close>

lemma poller_ok_change:
  assumes "poller_ok r" "chans r c = Some ch" "ch_fd ch' = ch_fd ch"
    "chans r' = (chans r)(c \<mapsto> ch')" "\<And>fd. fd \<noteq> ch_fd ch \<Longrightarrow> po_channels r' fd = po_channels r fd"
    "\<And>fd. fd \<noteq> ch_fd ch \<Longrightarrow> epoll r' fd = epoll r fd" "po_channels r (ch_fd ch) \<in> {None, Some c}"
    "po_channels r' (ch_fd ch) = Some c \<and> chan_ok r' (ch_fd ch) c \<or>
     po_channels r' (ch_fd ch) = None \<and> epoll r' (ch_fd ch) = None \<and> ch_index ch' = kNew"
  shows "poller_ok r'"
proof -
  have other: "chan_ok r' fd d" if "po_channels r' fd = Some d" for fd d
  proof (cases "fd = ch_fd ch")
    case False
    with that assms(5) have p: "po_channels r fd = Some d" by simp
    then have "chan_ok r fd d" "d \<noteq> c" using assms(1) po_unique [OF assms(1,2)] False by (auto simp: poller_ok_def)
    then show ?thesis using False assms(4,6) by (simp add: chan_ok_def)
  qed (use that assms(8) in auto)
  have "ch_index k = kNew" if "chans r' d = Some k" "po_channels r' (ch_fd k) \<noteq> Some d" for d k
  proof (cases "d = c")
    case True
    with that assms(3,4,8) show ?thesis by auto
  next
    case False
    with that(1) assms(4) have k: "chans r d = Some k" by simp
    have "po_channels r (ch_fd k) \<noteq> Some d"
      using that(2) assms(5,7) False by (cases "ch_fd k = ch_fd ch") auto
    with k assms(1) show ?thesis by (simp add: poller_ok_def)
  qed
  moreover have "epoll r' fd = None" if "po_channels r' fd = None" for fd
    using that assms(1,5,6,8) by (cases "fd = ch_fd ch") (auto simp: poller_ok_def)
  ultimately show ?thesis unfolding poller_ok_def using other by blast
qed

lemma set_events_ok:
  assumes "poller_ok r" "chans r c = Some ch" "po_channels r (ch_fd ch) \<in> {None, Some c}"
  shows "\<exists>r'. set_events f c r = Inr r' \<and> poller_ok r' \<and> po_channels r' = (po_channels r)(ch_fd ch \<mapsto> c) \<and>
    epoll r' = (epoll r)(ch_fd ch := (if ch_index ch = kAdded \<and> f (ch_events ch) = 0 then None else Some (f (ch_events ch), c))) \<and>
    (\<exists>i. chans r' = (chans r)(c \<mapsto> ch\<lparr>ch_events := f (ch_events ch), added_to_loop := True, ch_index := i\<rparr>)) \<and>
    event_handling r' = event_handling r"
proof -
  let ?new = "\<lambda>i. ch\<lparr>ch_events := f (ch_events ch), added_to_loop := True, ch_index := i\<rparr>"
  let ?ep = "(epoll r)(ch_fd ch := (if ch_index ch = kAdded \<and> f (ch_events ch) = 0 then None else Some (f (ch_events ch), c)))"
  have "\<exists>r' i. set_events f c r = Inr r' \<and> chans r' = (chans r)(c \<mapsto> ?new i) \<and>
      po_channels r' = (po_channels r)(ch_fd ch \<mapsto> c) \<and> epoll r' = ?ep \<and>
      (i = kAdded \<and> ?ep (ch_fd ch) = Some (f (ch_events ch), c) \<or> i = kDeleted \<and> ?ep (ch_fd ch) = None) \<and>
      event_handling r' = event_handling r"
  proof (cases "po_channels r (ch_fd ch) = None")
    case True
    then have "ch_index ch = kNew" "epoll r (ch_fd ch) = None" using assms(1,2) by (auto simp: poller_ok_def)
    with True assms(2) show ?thesis
      by (simp add: set_events_def the_channel_def put_chan_def update_channel_def poller_update_def index_defs Let_def)
  next
    case False
    with assms(3) have p: "po_channels r (ch_fd ch) = Some c" by simp
    consider "ch_index ch = kAdded" "epoll r (ch_fd ch) = Some (ch_events ch, c)" "f (ch_events ch) = 0"
      | "ch_index ch = kAdded" "epoll r (ch_fd ch) = Some (ch_events ch, c)" "f (ch_events ch) \<noteq> 0"
      | "ch_index ch = kDeleted" "epoll r (ch_fd ch) = None"
      using chan_okD [OF assms(1,2) p] by (cases "f (ch_events ch) = 0") auto
    then show ?thesis
    proof cases
      case 1
      with p assms(2) show ?thesis
        by (simp add: set_events_def the_channel_def put_chan_def update_channel_def poller_update_def index_defs
            is_none_event_def Let_def fun_upd_idem)
    next
      case 2
      then have "?new 1 = ch\<lparr>ch_events := f (ch_events ch), added_to_loop := True\<rparr>"
        by (cases ch) (simp add: index_defs)
      with 2 p assms(2) show ?thesis
        by (auto simp: set_events_def the_channel_def put_chan_def update_channel_def poller_update_def index_defs
            is_none_event_def Let_def fun_upd_idem intro!: exI [of _ "1 :: int"])
    next
      case 3
      with p assms(2) show ?thesis
        by (simp add: set_events_def the_channel_def put_chan_def update_channel_def poller_update_def index_defs
            is_none_event_def Let_def fun_upd_idem)
    qed
  qed
  then obtain r' i where r: "set_events f c r = Inr r'" "chans r' = (chans r)(c \<mapsto> ?new i)"
    "po_channels r' = (po_channels r)(ch_fd ch \<mapsto> c)" "epoll r' = ?ep"
    "i = kAdded \<and> ?ep (ch_fd ch) = Some (f (ch_events ch), c) \<or> i = kDeleted \<and> ?ep (ch_fd ch) = None"
    "event_handling r' = event_handling r" by blast
  have "poller_ok r'"
    by (rule poller_ok_change [OF assms(1,2) _ r(2)]) (use assms(3) r in \<open>auto simp: chan_ok_def\<close>)
  with r show ?thesis by blast
qed

lemma channel_remove_ok:
  assumes "poller_ok r" "chans r c = Some ch" "po_channels r (ch_fd ch) = Some c" "ch_events ch = 0"
    "\<not> event_handling r \<or> current r = Some c \<or> c \<notin> set (active r)"
  shows "\<exists>r'. channel_remove c r = Inr r' \<and> poller_ok r' \<and> po_channels r' = (po_channels r)(ch_fd ch := None) \<and>
    epoll r' = (epoll r)(ch_fd ch := None) \<and>
    chans r' = (chans r)(c \<mapsto> ch\<lparr>added_to_loop := False, ch_index := kNew\<rparr>) \<and>
    event_handling r' = event_handling r"
proof -
  let ?r = "r\<lparr>chans := (chans r)(c \<mapsto> ch\<lparr>added_to_loop := False, ch_index := kNew\<rparr>),
      po_channels := (po_channels r)(ch_fd ch := None), epoll := (epoll r)(ch_fd ch := None)\<rparr>"
  have "channel_remove c r = Inr ?r"
    using chan_okD [OF assms(1-3)] assms(2-5)
    by (auto simp: channel_remove_def loop_remove_channel_def remove_channel_def the_channel_def put_chan_def
        poller_update_def index_defs is_none_event_def Let_def fun_upd_idem)
  moreover have "poller_ok ?r"
    by (rule poller_ok_change [OF assms(1,2)]) (use assms(3) in auto)
  ultimately show ?thesis by simp
qed

text \<open>The operations a channel's owner performs on it.\<close>

datatype chan_op = Enable_reading | Disable_reading | Enable_writing | Disable_writing | Disable_all | Remove

fun run_chan_op :: "chan_op \<Rightarrow> nat \<Rightarrow> reactor \<Rightarrow> reactor res" where
  "run_chan_op Enable_reading = enable_reading"
| "run_chan_op Disable_reading = disable_reading"
| "run_chan_op Enable_writing = enable_writing"
| "run_chan_op Disable_writing = disable_writing"
| "run_chan_op Disable_all = disable_all"
| "run_chan_op Remove = channel_remove"

fun new_events :: "chan_op \<Rightarrow> 32 word \<Rightarrow> 32 word" where
  "new_events Enable_reading e = e OR EPOLLIN"
| "new_events Disable_reading e = e AND NOT EPOLLIN"
| "new_events Enable_writing e = e OR EPOLLOUT"
| "new_events Disable_writing e = e AND NOT EPOLLOUT"
| "new_events _ e = 0"

lemma run_chan_op_events: "oper \<noteq> Remove \<Longrightarrow> run_chan_op oper = set_events (new_events oper)"
  by (cases oper) (auto simp: enable_reading_def disable_reading_def enable_writing_def disable_writing_def
      disable_all_def fun_eq_iff set_events_def the_channel_def split: option.splits)

text \<open>C35: the poller's table and the kernel's set agree with the channels after every operation: an update of
  a channel whose descriptor no other channel has never fails an assertion or an \<open>epoll_ctl\<close>, and
  leaves in the set exactly the events asked for, nothing when they were cleared on a registered
  channel; removing it needs the events cleared first, empties both entries, and is an assertion
  failure otherwise.\<close>

theorem poller_agrees:
  assumes "poller_ok r" "chans r c = Some ch" "po_channels r (ch_fd ch) \<in> {None, Some c}"
    "\<not> event_handling r \<or> current r = Some c \<or> c \<notin> set (active r)"
  shows "if oper = Remove then
      (if ch_events ch = 0 \<and> po_channels r (ch_fd ch) = Some c
       then \<exists>r'. run_chan_op oper c r = Inr r' \<and> poller_ok r' \<and> po_channels r' (ch_fd ch) = None \<and> epoll r' (ch_fd ch) = None
       else run_chan_op oper c r = Inl AssertFailed)
    else \<exists>r'. run_chan_op oper c r = Inr r' \<and> poller_ok r' \<and> po_channels r' (ch_fd ch) = Some c \<and>
      epoll r' (ch_fd ch) = (if new_events oper (ch_events ch) = 0 \<and> ch_index ch = kAdded then None
                             else Some (new_events oper (ch_events ch), c))"
proof (cases "oper = Remove")
  case True
  show ?thesis
  proof (cases "ch_events ch = 0 \<and> po_channels r (ch_fd ch) = Some c")
    case ok: True
    with channel_remove_ok [of r c ch] assms True show ?thesis by auto
  next
    case False
    with assms True show ?thesis
      by (auto simp: channel_remove_def the_channel_def is_none_event_def loop_remove_channel_def remove_channel_def
          put_chan_def Let_def)
  qed
next
  case False
  from set_events_ok [OF assms(1-3), of "new_events oper"] False show ?thesis
    by (auto simp: run_chan_op_events)
qed

lemma poller_ok_new:
  assumes "poller_ok r" "chans r c = None"
  shows "poller_ok (put_chan c (channel_new fd) r)"
proof -
  have "d \<noteq> c" if "po_channels r fd' = Some d" for d fd'
    using that assms unfolding poller_ok_def chan_ok_def by (metis option.distinct(1))
  with assms(1) show ?thesis
    by (auto simp: poller_ok_def chan_ok_def put_chan_def channel_new_def)
qed

lemma poller_ok_destroy:
  assumes "poller_ok r" "chans r c = Some ch" "po_channels r (ch_fd ch) \<noteq> Some c"
  shows "poller_ok (r\<lparr>chans := (chans r)(c := None)\<rparr>)"
proof -
  have "d \<noteq> c" if "po_channels r fd = Some d" for d fd
    using that assms po_unique [OF assms(1,2), of fd] by auto
  with assms(1) show ?thesis by (auto simp: poller_ok_def chan_ok_def)
qed

lemma poller_new_channel:
  "poller_ok (poller_new\<lparr>chans := [0 \<mapsto> channel_new fd]\<rparr>)"
  by (auto simp: poller_ok_def poller_new_def channel_new_def index_defs)

theorem poller_agrees_witness:
  "\<exists>r'. run_chan_op Enable_reading 0 (poller_new\<lparr>chans := [0 \<mapsto> channel_new 5]\<rparr>) = Inr r' \<and> epoll r' 5 = Some (1, 0)"
  using poller_agrees [OF poller_new_channel, of 5 0 "channel_new 5" Enable_reading]
  by (auto simp: poller_new_def channel_new_def EPOLLIN_def)

end
