(* ===== verification/TcpConnection.thy ===== *)
theory TcpConnection
  imports NetBuffer Reactor
begin

text \<open>
  \<open>network/\<close>'s \<open>TcpConnection\<close> as a state machine: the state of the connection with its two buffers, the
  poller its channel is registered in, and what it has done so far, the bytes handed to the kernel and the
  callbacks of the user. What the kernel answers to a read or a write is an argument of the operation
  that asks. A functor given to the loop is queued in \<open>posted\<close> and run later; \<open>runInLoop\<close> from the loop's
  own thread runs it at once. The user's callbacks are recorded in \<open>calls\<close>: what they do to the
  connection are further steps, because the code runs a callback as the last thing a handler does to the
  connection, or in a state where the operations do nothing.
\<close>

section \<open>State\<close>

datatype conn_state = kDisconnected | kConnecting | kConnected | kDisconnecting

datatype conn_functor =
    Send_in_loop string
  | Shutdown_in_loop
  | Force_close_in_loop
  | Start_read_in_loop
  | Stop_read_in_loop
  | Write_complete
  | Connect_destroyed

datatype user_call = Connection_cb conn_state | Message_cb string | Write_complete_cb | Close_cb

record tcp_conn =
  tc_state :: conn_state
  tc_reading :: bool
  tc_channel :: nat
  input_buffer :: buffer
  output_buffer :: buffer
  has_write_complete :: bool
  net :: reactor
  posted :: "conn_functor list"
  calls :: "user_call list"
  sent_bytes :: string
  write_shut :: bool

text \<open>The channel \<open>c\<close> of the descriptor \<open>fd\<close> is made with the connection.\<close>

definition tcp_connection_new :: "nat \<Rightarrow> int \<Rightarrow> bool \<Rightarrow> reactor \<Rightarrow> tcp_conn" where
  "tcp_connection_new c fd wc r =
     \<lparr>tc_state = kConnecting, tc_reading = True, tc_channel = c, input_buffer = buffer_new kInitialSize,
      output_buffer = buffer_new kInitialSize, has_write_complete = wc, net = put_chan c (channel_new fd) r,
      posted = [], calls = [], sent_bytes = [], write_shut = False\<rparr>"

definition EPIPE :: int where "EPIPE = 32"
definition EWOULDBLOCK :: int where "EWOULDBLOCK = 11"
definition ECONNRESET :: int where "ECONNRESET = 104"

datatype write_result = Wrote nat | Write_errno int

section \<open>Operations\<close>

definition on_channel :: "(nat \<Rightarrow> reactor \<Rightarrow> reactor res) \<Rightarrow> tcp_conn \<Rightarrow> tcp_conn res" where
  "on_channel f s = rbind (f (tc_channel s) (net s)) (\<lambda>r. Inr (s\<lparr>net := r\<rparr>))"

definition post :: "conn_functor \<Rightarrow> tcp_conn \<Rightarrow> tcp_conn" where
  "post f s = s\<lparr>posted := posted s @ [f]\<rparr>"

definition call_user :: "user_call \<Rightarrow> tcp_conn \<Rightarrow> tcp_conn" where
  "call_user c s = s\<lparr>calls := calls s @ [c]\<rparr>"

definition fault_error :: "int \<Rightarrow> bool" where
  "fault_error e \<longleftrightarrow> e \<noteq> EWOULDBLOCK \<and> (e = EPIPE \<or> e = ECONNRESET)"

text \<open>The direct write of \<open>sendInLoop\<close>: bytes written, bytes remaining, \<open>faultError\<close>.\<close>

definition write_directly :: "write_result \<Rightarrow> string \<Rightarrow> tcp_conn \<Rightarrow> nat \<times> nat \<times> bool \<times> tcp_conn" where
  "write_directly w data s =
     (case w of
        Wrote n \<Rightarrow>
          let remaining = length data - n; s1 = s\<lparr>sent_bytes := sent_bytes s @ take n data\<rparr>
          in (n, remaining, False, if remaining = 0 \<and> has_write_complete s then post Write_complete s1 else s1)
      | Write_errno e \<Rightarrow> (0, length data, fault_error e, s))"

definition send_in_loop :: "write_result \<Rightarrow> string \<Rightarrow> tcp_conn \<Rightarrow> tcp_conn res" where
  "send_in_loop w data s =
     (if tc_state s = kDisconnected then Inr s
      else rbind (the_channel (tc_channel s) (net s)) (\<lambda>ch.
        let (nwrote, remaining, faultError, s1) =
              (if \<not> is_writing ch \<and> readableBytes (output_buffer s) = 0 then write_directly w data s
               else (0, length data, False, s))
        in if \<not> faultError \<and> 0 < remaining then
             rbind (buf_append (drop nwrote data) (output_buffer s1)) (\<lambda>b.
               let s2 = s1\<lparr>output_buffer := b\<rparr>
               in if \<not> is_writing ch then on_channel enable_writing s2 else Inr s2)
           else Inr s1))"

text \<open>\<open>own\<close> is whether the caller is the loop's thread. The argument buffer is emptied in either case.\<close>

definition tcp_send :: "bool \<Rightarrow> write_result \<Rightarrow> buffer \<Rightarrow> tcp_conn \<Rightarrow> (buffer \<times> tcp_conn) res" where
  "tcp_send own w buf s =
     (if tc_state s = kConnected then
        if own then rbind (send_in_loop w (buf_content buf) s) (\<lambda>s1. Inr (retrieveAll buf, s1))
        else rbind (retrieveAllAsString buf) (\<lambda>(d, buf1). Inr (buf1, post (Send_in_loop d) s))
      else Inr (buf, s))"

definition shutdown_in_loop :: "tcp_conn \<Rightarrow> tcp_conn res" where
  "shutdown_in_loop s =
     rbind (the_channel (tc_channel s) (net s)) (\<lambda>ch.
       Inr (if is_writing ch then s else s\<lparr>write_shut := True\<rparr>))"

definition tcp_shutdown :: "bool \<Rightarrow> tcp_conn \<Rightarrow> tcp_conn res" where
  "tcp_shutdown own s =
     (if tc_state s = kConnected then
        let s1 = s\<lparr>tc_state := kDisconnecting\<rparr>
        in if own then shutdown_in_loop s1 else Inr (post Shutdown_in_loop s1)
      else Inr s)"

definition handle_close :: "tcp_conn \<Rightarrow> tcp_conn res" where
  "handle_close s =
     require (tc_state s = kConnected \<or> tc_state s = kDisconnecting) AssertFailed
       (rbind (on_channel disable_all (s\<lparr>tc_state := kDisconnected\<rparr>)) (\<lambda>s1.
          Inr (call_user Close_cb (call_user (Connection_cb (tc_state s1)) s1))))"

definition force_close :: "tcp_conn \<Rightarrow> tcp_conn res" where
  "force_close s =
     (if tc_state s = kConnected \<or> tc_state s = kDisconnecting
      then Inr (post Force_close_in_loop (s\<lparr>tc_state := kDisconnecting\<rparr>)) else Inr s)"

text \<open>The timer that should close the connection is commented out.\<close>

definition force_close_with_delay :: "tcp_conn \<Rightarrow> tcp_conn res" where
  "force_close_with_delay s =
     (if tc_state s = kConnected \<or> tc_state s = kDisconnecting
      then Inr (s\<lparr>tc_state := kDisconnecting\<rparr>) else Inr s)"

definition force_close_in_loop :: "tcp_conn \<Rightarrow> tcp_conn res" where
  "force_close_in_loop s =
     (if tc_state s = kConnected \<or> tc_state s = kDisconnecting then handle_close s else Inr s)"

definition start_read_in_loop :: "tcp_conn \<Rightarrow> tcp_conn res" where
  "start_read_in_loop s =
     rbind (the_channel (tc_channel s) (net s)) (\<lambda>ch.
       if \<not> tc_reading s \<or> \<not> is_reading ch
       then rbind (on_channel enable_reading s) (\<lambda>s1. Inr (s1\<lparr>tc_reading := True\<rparr>)) else Inr s)"

definition stop_read_in_loop :: "tcp_conn \<Rightarrow> tcp_conn res" where
  "stop_read_in_loop s =
     rbind (the_channel (tc_channel s) (net s)) (\<lambda>ch.
       if tc_reading s \<or> is_reading ch
       then rbind (on_channel disable_reading s) (\<lambda>s1. Inr (s1\<lparr>tc_reading := False\<rparr>)) else Inr s)"

definition start_read :: "bool \<Rightarrow> tcp_conn \<Rightarrow> tcp_conn res" where
  "start_read own s = (if own then start_read_in_loop s else Inr (post Start_read_in_loop s))"

definition stop_read :: "bool \<Rightarrow> tcp_conn \<Rightarrow> tcp_conn res" where
  "stop_read own s = (if own then stop_read_in_loop s else Inr (post Stop_read_in_loop s))"

definition connect_established :: "tcp_conn \<Rightarrow> tcp_conn res" where
  "connect_established s =
     require (tc_state s = kConnecting) AssertFailed
       (rbind (on_channel enable_reading (s\<lparr>tc_state := kConnected\<rparr>)) (\<lambda>s1.
          Inr (call_user (Connection_cb (tc_state s1)) s1)))"

definition connect_destroyed :: "tcp_conn \<Rightarrow> tcp_conn res" where
  "connect_destroyed s =
     rbind (if tc_state s = kConnected then
              rbind (on_channel disable_all (s\<lparr>tc_state := kDisconnected\<rparr>)) (\<lambda>s1.
                Inr (call_user (Connection_cb (tc_state s1)) s1))
            else Inr s) (on_channel channel_remove)"

text \<open>The destructor, which destroys the channel too.\<close>

definition tcp_connection_destroy :: "tcp_conn \<Rightarrow> reactor res" where
  "tcp_connection_destroy s =
     require (tc_state s = kDisconnected) AssertFailed (channel_destroy (tc_channel s) (net s))"

text \<open>\<open>handleRead\<close>: the message callback gets the whole input buffer; \<open>handleError\<close> only logs.\<close>

definition handle_error :: "tcp_conn \<Rightarrow> tcp_conn res" where
  "handle_error s = Inr s"

definition handle_read :: "(nat \<Rightarrow> int + string) \<Rightarrow> tcp_conn \<Rightarrow> tcp_conn res" where
  "handle_read readv s =
     rbind (readFd readv (input_buffer s)) (\<lambda>(n, err, b).
       let s1 = s\<lparr>input_buffer := b\<rparr>
       in if 0 < n then Inr (call_user (Message_cb (buf_content b)) s1)
          else if n = 0 then handle_close s1 else handle_error s1)"

definition handle_write :: "write_result \<Rightarrow> tcp_conn \<Rightarrow> tcp_conn res" where
  "handle_write w s =
     rbind (the_channel (tc_channel s) (net s)) (\<lambda>ch.
     if is_writing ch then
       (case w of
          Wrote n \<Rightarrow>
            if 0 < n then
              let s1 = s\<lparr>sent_bytes := sent_bytes s @ take n (buf_content (output_buffer s))\<rparr>
              in rbind (retrieve n (output_buffer s1)) (\<lambda>b.
                 let s2 = s1\<lparr>output_buffer := b\<rparr>
                 in if readableBytes b = 0 then
                      rbind (on_channel disable_writing s2) (\<lambda>s3.
                      let s4 = (if has_write_complete s3 then post Write_complete s3 else s3)
                      in if tc_state s4 = kDisconnecting then shutdown_in_loop s4 else Inr s4)
                    else Inr s2)
            else Inr s
        | Write_errno e \<Rightarrow> Inr s)
     else Inr s)"

text \<open>The callbacks of one reported event, in the order of \<open>handleEvent\<close>.\<close>

fun run_callback :: "(nat \<Rightarrow> int + string) \<Rightarrow> write_result \<Rightarrow> callback \<Rightarrow> tcp_conn \<Rightarrow> tcp_conn res" where
  "run_callback readv w Close_callback s = handle_close s"
| "run_callback readv w Read_callback s = handle_read readv s"
| "run_callback readv w Write_callback s = handle_write w s"
| "run_callback readv w Error_callback s = handle_error s"

fun run_callbacks :: "(nat \<Rightarrow> int + string) \<Rightarrow> write_result \<Rightarrow> callback list \<Rightarrow> tcp_conn \<Rightarrow> tcp_conn res" where
  "run_callbacks readv w [] s = Inr s"
| "run_callbacks readv w (c # cs) s = rbind (run_callback readv w c s) (run_callbacks readv w cs)"

fun run_functor :: "write_result \<Rightarrow> conn_functor \<Rightarrow> tcp_conn \<Rightarrow> tcp_conn res" where
  "run_functor w (Send_in_loop d) s = send_in_loop w d s"
| "run_functor w Shutdown_in_loop s = shutdown_in_loop s"
| "run_functor w Force_close_in_loop s = force_close_in_loop s"
| "run_functor w Start_read_in_loop s = start_read_in_loop s"
| "run_functor w Stop_read_in_loop s = stop_read_in_loop s"
| "run_functor w Write_complete s = Inr (call_user Write_complete_cb s)"
| "run_functor w Connect_destroyed s = connect_destroyed s"

section \<open>Runs of a connection\<close>

text \<open>
  What can happen to a connection: the server's and the client's call of \<open>connectEstablished\<close>, calls of the
  user from the loop's thread and from others, events the poller reports, the next functor of the loop.
  \<open>Erased\<close> is the owner's answer to the close callback, which takes the connection out of its table and
  queues \<open>connectDestroyed\<close>; \<open>Owner_gone\<close> is the destructor of the server, which runs it at once.
\<close>

datatype conn_event =
    Established
  | Own_send buffer write_result
  | Other_send buffer
  | Own_shutdown
  | Other_shutdown
  | Force_close
  | Force_close_delay
  | Consume nat
  | Reported "32 word" "nat \<Rightarrow> int + string" write_result
  | Next_functor write_result
  | Erased
  | Owner_gone

fun conn_do :: "conn_event \<Rightarrow> tcp_conn \<Rightarrow> tcp_conn res" where
  "conn_do Established s = connect_established s"
| "conn_do (Own_send b w) s = rbind (tcp_send True w b s) (\<lambda>p. Inr (snd p))"
| "conn_do (Other_send b) s = rbind (tcp_send False (Wrote 0) b s) (\<lambda>p. Inr (snd p))"
| "conn_do Own_shutdown s = tcp_shutdown True s"
| "conn_do Other_shutdown s = tcp_shutdown False s"
| "conn_do Force_close s = force_close s"
| "conn_do Force_close_delay s = force_close_with_delay s"
| "conn_do (Consume n) s = rbind (retrieve n (input_buffer s)) (\<lambda>b. Inr (s\<lparr>input_buffer := b\<rparr>))"
| "conn_do (Reported ev readv w) s = run_callbacks readv w (handle_event ev) s"
| "conn_do (Next_functor w) s =
     (case posted s of [] \<Rightarrow> Inr s | f # fs \<Rightarrow> run_functor w f (s\<lparr>posted := fs\<rparr>))"
| "conn_do Erased s = Inr (post Connect_destroyed s)"
| "conn_do Owner_gone s = connect_destroyed s"

text \<open>
  What the kernel can answer to a write of \<open>len\<close> bytes: at most \<open>len\<close>, and only \<open>EPIPE\<close> once the
  sending side is shut down. The poller reports the events asked for, errors and hang-ups, of a
  connection in its set.
\<close>

definition write_answer :: "write_result \<Rightarrow> nat \<Rightarrow> tcp_conn \<Rightarrow> bool" where
  "write_answer w len s =
     (case w of Wrote n \<Rightarrow> n \<le> len \<and> (write_shut s \<longrightarrow> len = 0) | Write_errno e \<Rightarrow> write_shut s \<longrightarrow> e = EPIPE)"

definition live :: "tcp_conn \<Rightarrow> bool" where
  "live s \<longleftrightarrow> tc_state s = kConnected \<or> tc_state s = kDisconnecting"

definition registered :: "tcp_conn \<Rightarrow> bool" where
  "registered s \<longleftrightarrow> (case chans (net s) (tc_channel s) of None \<Rightarrow> False
     | Some ch \<Rightarrow> po_channels (net s) (ch_fd ch) = Some (tc_channel s))"

fun enabled :: "conn_event \<Rightarrow> tcp_conn \<Rightarrow> bool" where
  "enabled Established s = (tc_state s = kConnecting)"
| "enabled (Own_send b w) s = (buffer_ok b \<and> write_answer w (readableBytes b) s)"
| "enabled (Other_send b) s = buffer_ok b"
| "enabled (Consume n) s = (n \<le> readableBytes (input_buffer s))"
| "enabled (Reported ev readv w) s =
     (live s \<and> ev AND (EPOLLPRI OR EPOLLRDHUP) = 0 \<and>
      (\<forall>room d. readv room = Inr d \<longrightarrow> length d \<le> room) \<and> write_answer w (readableBytes (output_buffer s)) s)"
| "enabled (Next_functor w) s =
     (case posted s of [] \<Rightarrow> False | f # fs \<Rightarrow> write_answer w (case f of Send_in_loop d \<Rightarrow> length d | _ \<Rightarrow> 0) s)"
| "enabled Erased s = (Close_cb \<in> set (calls s) \<and> Connect_destroyed \<notin> set (posted s) \<and> registered s)"
| "enabled Owner_gone s = (tc_state s = kConnected)"
| "enabled e s = True"

text \<open>The bytes \<open>sendInLoop\<close> takes charge of: all, unless the peer is gone.\<close>

definition taken :: "write_result \<Rightarrow> string \<Rightarrow> tcp_conn \<Rightarrow> string" where
  "taken w d s =
     (if tc_state s = kDisconnected then []
      else case w of Wrote n \<Rightarrow> d
        | Write_errno e \<Rightarrow> if fault_error e \<and> buf_content (output_buffer s) = [] then [] else d)"

fun accepted :: "conn_event \<Rightarrow> tcp_conn \<Rightarrow> string" where
  "accepted (Own_send b w) s = (if tc_state s = kConnected then taken w (buf_content b) s else [])"
| "accepted (Next_functor w) s = (case posted s of Send_in_loop d # fs \<Rightarrow> taken w d s | _ \<Rightarrow> [])"
| "accepted e s = []"

inductive conn_reach :: "int \<Rightarrow> tcp_conn \<Rightarrow> string \<Rightarrow> bool" for fd where
  new: "poller_ok r \<Longrightarrow> \<not> event_handling r \<Longrightarrow> chans r c = None \<Longrightarrow> po_channels r fd = None \<Longrightarrow>
    conn_reach fd (tcp_connection_new c fd wc r) []"
| step: "conn_reach fd s d \<Longrightarrow> enabled e s \<Longrightarrow> conn_do e s = Inr s' \<Longrightarrow> conn_reach fd s' (d @ accepted e s)"

section \<open>The invariant\<close>

text \<open>The order in which the user and the owner may be called back.\<close>

datatype cb_state = Cb_new | Cb_up | Cb_down | Cb_closed

fun cb_next :: "user_call \<Rightarrow> cb_state option \<Rightarrow> cb_state option" where
  "cb_next (Connection_cb kConnected) (Some Cb_new) = Some Cb_up"
| "cb_next (Connection_cb kDisconnected) (Some Cb_up) = Some Cb_down"
| "cb_next (Message_cb m) (Some Cb_up) = Some Cb_up"
| "cb_next Write_complete_cb (Some p) = (if p = Cb_new then None else Some p)"
| "cb_next Close_cb (Some Cb_down) = Some Cb_closed"
| "cb_next _ _ = None"

definition cb_phase :: "user_call list \<Rightarrow> cb_state option" where
  "cb_phase cs = fold cb_next cs (Some Cb_new)"

lemma cb_phase_append [simp]: "cb_phase (cs @ ds) = fold cb_next ds (cb_phase cs)"
  by (simp add: cb_phase_def)

definition chan_net :: "int \<Rightarrow> 32 word \<Rightarrow> bool \<Rightarrow> nat \<Rightarrow> reactor \<Rightarrow> bool" where
  "chan_net fd ev reg c r \<longleftrightarrow> poller_ok r \<and> \<not> event_handling r \<and>
     (\<exists>ch. chans r c = Some ch \<and> ch_fd ch = fd \<and> ch_events ch = ev) \<and>
     po_channels r fd = (if reg then Some c else None) \<and>
     epoll r fd = (if reg \<and> ev \<noteq> 0 then Some (ev, c) else None)"

definition conn_live :: "int \<Rightarrow> string \<Rightarrow> tcp_conn \<Rightarrow> bool" where
  "conn_live fd d s \<longleftrightarrow>
     chan_net fd (if buf_content (output_buffer s) = [] then 1 else 5) True (tc_channel s) (net s) \<and>
     sent_bytes s @ buf_content (output_buffer s) = d \<and> (write_shut s \<longrightarrow> buf_content (output_buffer s) = []) \<and>
     Connect_destroyed \<notin> set (posted s) \<and> cb_phase (calls s) = Some Cb_up \<and> Close_cb \<notin> set (calls s)"

definition conn_closed :: "int \<Rightarrow> string \<Rightarrow> tcp_conn \<Rightarrow> bool" where
  "conn_closed fd d s \<longleftrightarrow>
     (\<exists>reg. chan_net fd 0 reg (tc_channel s) (net s) \<and> (Connect_destroyed \<in> set (posted s) \<longrightarrow> reg)) \<and>
     (\<exists>rest. d = sent_bytes s @ rest) \<and> count_list (posted s) Connect_destroyed \<le> 1 \<and>
     cb_phase (calls s) \<in> {Some Cb_down, Some Cb_closed}"

definition conn_fresh :: "int \<Rightarrow> string \<Rightarrow> tcp_conn \<Rightarrow> bool" where
  "conn_fresh fd d s \<longleftrightarrow> chan_net fd 0 False (tc_channel s) (net s) \<and> buf_content (output_buffer s) = [] \<and>
     sent_bytes s = [] \<and> d = [] \<and> \<not> write_shut s \<and> posted s = [] \<and> calls s = []"

definition conn_ok :: "int \<Rightarrow> string \<Rightarrow> tcp_conn \<Rightarrow> bool" where
  "conn_ok fd d s \<longleftrightarrow> buffer_ok (input_buffer s) \<and> buffer_ok (output_buffer s) \<and>
     Start_read_in_loop \<notin> set (posted s) \<and> Stop_read_in_loop \<notin> set (posted s) \<and>
     (case tc_state s of kConnecting \<Rightarrow> conn_fresh fd d s | kDisconnected \<Rightarrow> conn_closed fd d s
      | kConnected \<Rightarrow> conn_live fd d s \<and> \<not> write_shut s \<and> Shutdown_in_loop \<notin> set (posted s)
      | kDisconnecting \<Rightarrow> conn_live fd d s)"

lemma chan_net_set:
  assumes "chan_net fd ev reg c r" "f ev \<noteq> 0 \<or> reg \<and> ev \<noteq> 0"
  shows "\<exists>r'. set_events f c r = Inr r' \<and> chan_net fd (f ev) True c r'"
proof -
  obtain ch where ch: "chans r c = Some ch" "ch_fd ch = fd" "ch_events ch = ev" and p: "poller_ok r"
    using assms(1) by (auto simp: chan_net_def)
  have "ch_index ch = kAdded" if "f ev = 0"
    using chan_okD [OF p ch(1)] assms that ch by (auto simp: chan_net_def)
  then show ?thesis
    using set_events_ok [OF p ch(1), of f] assms ch by (cases reg) (auto simp: chan_net_def)
qed

lemma chan_net_remove:
  assumes "chan_net fd 0 True c r"
  shows "\<exists>r'. channel_remove c r = Inr r' \<and> chan_net fd 0 False c r'"
  using assms channel_remove_ok [of r c] by (fastforce simp: chan_net_def)

lemmas event_bits = EPOLLIN_def EPOLLOUT_def is_writing_def is_reading_def

lemma live_channel:
  assumes "conn_live fd d s"
  shows "\<exists>ch. the_channel (tc_channel s) (net s) = Inr ch \<and> (is_writing ch \<longleftrightarrow> buf_content (output_buffer s) \<noteq> [])"
  using assms by (auto simp: conn_live_def chan_net_def the_channel_def event_bits)

lemma readable_zero: "buffer_ok b \<Longrightarrow> readableBytes b = 0 \<longleftrightarrow> buf_content b = []"
  using length_content [of b] by (metis length_0_conv)

text \<open>What a write leaves alone.\<close>

definition quiet :: "tcp_conn \<Rightarrow> tcp_conn \<Rightarrow> bool" where
  "quiet s s' \<longleftrightarrow> input_buffer s' = input_buffer s \<and> tc_state s' = tc_state s \<and> tc_reading s' = tc_reading s \<and>
     set (posted s') \<subseteq> insert Write_complete (set (posted s))"

lemma append_live:
  assumes "conn_live fd d s" "buffer_ok (output_buffer s)" "data \<noteq> []" "\<not> write_shut s"
    "the_channel (tc_channel s) (net s) = Inr ch"
  shows "\<exists>s'. rbind (buf_append data (output_buffer s)) (\<lambda>b.
      let s2 = s\<lparr>output_buffer := b\<rparr> in if \<not> is_writing ch then on_channel enable_writing s2 else Inr s2) = Inr s' \<and>
    conn_live fd (d @ data) s' \<and> buffer_ok (output_buffer s') \<and> quiet s s' \<and> write_shut s' = write_shut s"
proof -
  obtain b where b: "buf_append data (output_buffer s) = Inr b" "buffer_ok b"
    "buf_content b = buf_content (output_buffer s) @ data"
    using buf_append_ok [OF assms(2)] by blast
  have w: "is_writing ch \<longleftrightarrow> buf_content (output_buffer s) \<noteq> []" using live_channel [OF assms(1)] assms(5) by auto
  show ?thesis
  proof (cases "buf_content (output_buffer s) = []")
    case True
    then have "chan_net fd 1 True (tc_channel s) (net s)" using assms(1) by (simp add: conn_live_def)
    from chan_net_set [OF this, of "\<lambda>e. e OR EPOLLOUT"] obtain r where
      "enable_writing (tc_channel s) (net s) = Inr r" "chan_net fd 5 True (tc_channel s) r"
      by (auto simp: enable_writing_def event_bits)
    then show ?thesis using assms(1,3,4) b w True by (auto simp: on_channel_def conn_live_def quiet_def)
  next
    case False
    then show ?thesis using assms(1,3,4) b w by (auto simp: conn_live_def quiet_def)
  qed
qed

lemma send_live:
  assumes "conn_live fd d s" "buffer_ok (output_buffer s)" "tc_state s \<noteq> kDisconnected" "write_answer w (length data) s"
  shows "\<exists>s'. send_in_loop w data s = Inr s' \<and> conn_live fd (d @ taken w data s) s' \<and> buffer_ok (output_buffer s') \<and>
    quiet s s' \<and> write_shut s' = write_shut s"
proof -
  obtain ch where ch: "the_channel (tc_channel s) (net s) = Inr ch"
    and wr: "is_writing ch \<longleftrightarrow> buf_content (output_buffer s) \<noteq> []" using live_channel [OF assms(1)] by blast
  note eqs = send_in_loop_def ch wr assms(3) readable_zero [OF assms(2)] taken_def quiet_def
  show ?thesis
  proof (cases "buf_content (output_buffer s) = []")
    case False
    then have "\<not> write_shut s" using assms(1) by (auto simp: conn_live_def)
    with append_live [OF assms(1,2) _ this ch, of data] False assms(1,2) show ?thesis
      by (cases "data = []") (auto simp: eqs split: write_result.splits)
  next
    case empty: True
    show ?thesis
    proof (cases w)
      case (Write_errno e)
      show ?thesis
      proof (cases "fault_error e \<or> data = []")
        case True
        then show ?thesis using Write_errno empty assms(1,2)
          by (auto simp: eqs write_directly_def)
      next
        case False
        then have "\<not> write_shut s" using assms(4) Write_errno
          by (auto simp: write_answer_def fault_error_def EPIPE_def EWOULDBLOCK_def)
        with append_live [OF assms(1,2) _ this ch, of data] False empty Write_errno show ?thesis
          by (auto simp: eqs write_directly_def)
      qed
    next
      case (Wrote n)
      let ?s1 = "s\<lparr>sent_bytes := sent_bytes s @ take n data\<rparr>"
      show ?thesis
      proof (cases "n = length data")
        case True
        then show ?thesis using Wrote empty assms(1,2)
          by (auto simp: eqs write_directly_def post_def conn_live_def Let_def)
      next
        case False
        then have n: "n < length data" "\<not> write_shut s" using assms(4) Wrote by (auto simp: write_answer_def)
        then have l: "conn_live fd (d @ take n data) ?s1" using assms(1) empty by (simp add: conn_live_def)
        from append_live [OF l _ _ _, of "drop n data" ch] n assms(2) ch Wrote empty show ?thesis
          by (auto simp: eqs write_directly_def Let_def)
      qed
    qed
  qed
qed

lemma close_live:
  assumes "conn_live fd d s" "live s"
  shows "\<exists>s'. handle_close s = Inr s' \<and> conn_closed fd d s' \<and> tc_state s' = kDisconnected \<and>
    input_buffer s' = input_buffer s \<and> posted s' = posted s \<and> output_buffer s' = output_buffer s \<and> write_shut s' = write_shut s"
proof -
  let ?ev = "if buf_content (output_buffer s) = [] then 1 else 5 :: 32 word"
  have "chan_net fd ?ev True (tc_channel s) (net s)" using assms(1) by (simp add: conn_live_def)
  moreover have "?ev \<noteq> 0" by simp
  ultimately obtain r where
    "disable_all (tc_channel s) (net s) = Inr r" "chan_net fd 0 True (tc_channel s) r"
    using chan_net_set [of fd ?ev True "tc_channel s" "net s" "\<lambda>_. 0"] unfolding disable_all_def by blast
  then show ?thesis
    using assms by (auto simp: handle_close_def on_channel_def call_user_def conn_live_def conn_closed_def live_def
        count_notin)
qed

lemma shutdown_live:
  assumes "conn_live fd d s"
  shows "\<exists>s'. shutdown_in_loop s = Inr s' \<and> conn_live fd d s' \<and> buffer_ok (output_buffer s') = buffer_ok (output_buffer s) \<and>
    quiet s s'"
proof -
  obtain ch where ch: "the_channel (tc_channel s) (net s) = Inr ch"
    and "is_writing ch \<longleftrightarrow> buf_content (output_buffer s) \<noteq> []" using live_channel [OF assms(1)] by blast
  with assms have "conn_live fd d (if is_writing ch then s else s\<lparr>write_shut := True\<rparr>)"
    by (cases "buf_content (output_buffer s) = []") (simp_all add: conn_live_def)
  with ch show ?thesis by (auto simp: shutdown_in_loop_def quiet_def)
qed

lemma write_live:
  assumes "conn_live fd d s" "buffer_ok (output_buffer s)" "write_answer w (readableBytes (output_buffer s)) s"
    "tc_state s = kConnected \<longrightarrow> \<not> write_shut s"
  shows "\<exists>s'. handle_write w s = Inr s' \<and> conn_live fd d s' \<and> buffer_ok (output_buffer s') \<and>
    quiet s s' \<and> (tc_state s = kConnected \<longrightarrow> \<not> write_shut s')"
proof -
  obtain ch where ch: "the_channel (tc_channel s) (net s) = Inr ch"
    and wr: "is_writing ch \<longleftrightarrow> buf_content (output_buffer s) \<noteq> []" using live_channel [OF assms(1)] by blast
  show ?thesis
  proof (cases "\<exists>n. w = Wrote n \<and> 0 < n \<and> buf_content (output_buffer s) \<noteq> []")
    case False
    then show ?thesis using ch wr assms by (auto simp: handle_write_def quiet_def split: write_result.splits)
  next
    case True
    then obtain n where n: "w = Wrote n" "0 < n" "n \<le> readableBytes (output_buffer s)" "buf_content (output_buffer s) \<noteq> []"
      using assms(3) by (auto simp: write_answer_def)
    then obtain b where b: "retrieve n (output_buffer s) = Inr b" "buffer_ok b"
      "buf_content b = drop n (buf_content (output_buffer s))" using retrieve_ok assms(2) by blast
    let ?s2 = "s\<lparr>sent_bytes := sent_bytes s @ take n (buf_content (output_buffer s)), output_buffer := b\<rparr>"
    show ?thesis
    proof (cases "buf_content b = []")
      case False
      then show ?thesis using ch wr n b assms
        by (auto simp: handle_write_def conn_live_def readable_zero quiet_def)
    next
      case empty: True
      have "chan_net fd 5 True (tc_channel s) (net s)" using assms(1) n(4) by (simp add: conn_live_def)
      from chan_net_set [OF this, of "\<lambda>e. e AND NOT EPOLLOUT"] obtain r where
        r: "disable_writing (tc_channel s) (net s) = Inr r" "chan_net fd 1 True (tc_channel s) r"
        by (auto simp: disable_writing_def event_bits)
      let ?s3 = "?s2\<lparr>net := r\<rparr>"
      let ?s4 = "if has_write_complete s then post Write_complete ?s3 else ?s3"
      have l: "conn_live fd d ?s4" "tc_state ?s4 = tc_state s"
        using assms(1) b(3) empty r(2) n(4) by (auto simp: conn_live_def post_def)
      have "handle_write w s = (if tc_state ?s4 = kDisconnecting then shutdown_in_loop ?s4 else Inr ?s4)"
        using ch wr n b r(1) empty by (simp add: handle_write_def readable_zero on_channel_def Let_def)
      with shutdown_live [OF l(1)] l b(2) assms(2-4) show ?thesis
        by (cases "tc_state s = kDisconnecting") (auto simp: post_def quiet_def)
    qed
  qed
qed

lemma conn_ok_live:
  "live s \<Longrightarrow> conn_ok fd d s \<longleftrightarrow> buffer_ok (input_buffer s) \<and> buffer_ok (output_buffer s) \<and>
     Start_read_in_loop \<notin> set (posted s) \<and> Stop_read_in_loop \<notin> set (posted s) \<and> conn_live fd d s \<and>
     (tc_state s = kConnected \<longrightarrow> \<not> write_shut s \<and> Shutdown_in_loop \<notin> set (posted s))"
  by (auto simp: conn_ok_def live_def)

lemma conn_ok_closed:
  "tc_state s = kDisconnected \<Longrightarrow>
   conn_ok fd d s \<longleftrightarrow> buffer_ok (input_buffer s) \<and> buffer_ok (output_buffer s) \<and>
     Start_read_in_loop \<notin> set (posted s) \<and> Stop_read_in_loop \<notin> set (posted s) \<and> conn_closed fd d s"
  by (simp add: conn_ok_def)

lemma live_not_closed [simp]: "live s \<Longrightarrow> tc_state s \<noteq> kDisconnected"
  by (auto simp: live_def)

lemma quiet_live: "quiet s s' \<Longrightarrow> live s \<Longrightarrow> live s'"
  by (simp add: live_def quiet_def)

lemma closed_channel:
  assumes "conn_closed fd d s"
  shows "\<exists>ch. the_channel (tc_channel s) (net s) = Inr ch \<and> \<not> is_writing ch"
  using assms by (auto simp: conn_closed_def chan_net_def the_channel_def event_bits)

lemma close_ok:
  assumes "conn_ok fd d s" "live s"
  shows "\<exists>s'. handle_close s = Inr s' \<and> conn_ok fd d s' \<and> tc_state s' = kDisconnected"
  using close_live [of fd d s] assms by (auto simp: conn_ok_live conn_ok_closed)

lemma write_ok:
  assumes "conn_ok fd d s" "live s \<and> write_answer w (readableBytes (output_buffer s)) s \<or> tc_state s = kDisconnected"
  shows "\<exists>s'. handle_write w s = Inr s' \<and> conn_ok fd d s'"
  using assms(2)
proof
  assume "live s \<and> write_answer w (readableBytes (output_buffer s)) s"
  then obtain s' where "handle_write w s = Inr s'" "conn_live fd d s'" "buffer_ok (output_buffer s')" "quiet s s'"
    "tc_state s = kConnected \<longrightarrow> \<not> write_shut s'" "live s"
    using write_live [of fd d s w] assms(1) by (auto simp: conn_ok_live)
  with assms(1) quiet_live [of s s'] show ?thesis by (auto simp: conn_ok_live quiet_def)
next
  assume "tc_state s = kDisconnected"
  with closed_channel [of fd d s] assms(1) show ?thesis by (auto simp: conn_ok_closed handle_write_def)
qed

lemma read_ok:
  assumes "conn_ok fd d s" "live s" "\<And>room d. readv room = Inr d \<Longrightarrow> length d \<le> room"
  shows "\<exists>s'. handle_read readv s = Inr s' \<and> conn_ok fd d s' \<and>
    (live s' \<and> output_buffer s' = output_buffer s \<and> write_shut s' = write_shut s \<or> tc_state s' = kDisconnected)"
proof -
  have b: "buffer_ok (input_buffer s)" using assms(1) by (simp add: conn_ok_def)
  obtain n err b' where r: "readFd readv (input_buffer s) = Inr (n, err, b')" "buffer_ok b'"
    using readFd_ok [OF b assms(3)] by blast
  have ok: "conn_ok fd d (s\<lparr>input_buffer := b'\<rparr>)" "live (s\<lparr>input_buffer := b'\<rparr>)"
    using assms(1,2) r(2) by (auto simp: conn_ok_live live_def conn_ok_def conn_live_def)
  consider "0 < n" | "n = 0" | "n < 0" by linarith
  then show ?thesis
  proof cases
    case 1
    have "conn_ok fd d (call_user (Message_cb (buf_content b')) (s\<lparr>input_buffer := b'\<rparr>))"
      using ok by (auto simp: call_user_def conn_ok_def live_def conn_live_def)
    then show ?thesis using r 1 ok(2) by (auto simp: handle_read_def call_user_def live_def)
  next
    case 2
    with close_ok [OF ok] r show ?thesis by (auto simp: handle_read_def)
  next
    case 3
    with r ok show ?thesis by (auto simp: handle_read_def handle_error_def)
  qed
qed

lemma reported_callbacks:
  assumes "ev AND (EPOLLPRI OR EPOLLRDHUP) = 0"
  shows "\<exists>cs ws es. handle_event ev = cs @ ws @ es \<and> cs \<in> {[], [Close_callback], [Read_callback]} \<and>
    ws \<in> {[], [Write_callback]} \<and> es \<in> {[], [Error_callback]}"
proof -
  have "ev AND (EPOLLIN OR EPOLLPRI OR EPOLLRDHUP) = (ev AND EPOLLIN) OR (ev AND (EPOLLPRI OR EPOLLRDHUP))"
    by (simp add: and.assoc or.assoc bit.conj_disj_distrib)
  then have "ev AND (EPOLLIN OR EPOLLPRI OR EPOLLRDHUP) = ev AND EPOLLIN" using assms by simp
  then show ?thesis
    by (intro exI [of _ "(if ev AND EPOLLHUP \<noteq> 0 \<and> ev AND EPOLLIN = 0 then [Close_callback] else []) @
                         (if ev AND EPOLLIN \<noteq> 0 then [Read_callback] else [])"]
              exI [of _ "if ev AND EPOLLOUT \<noteq> 0 then [Write_callback] else []"]
              exI [of _ "if ev AND (EPOLLERR OR POLLNVAL) \<noteq> 0 then [Error_callback] else []"])
      (simp add: handle_event_def)
qed

lemma run_callbacks_append:
  "run_callbacks readv w (cs @ ds) s = rbind (run_callbacks readv w cs s) (run_callbacks readv w ds)"
proof (induction cs arbitrary: s)
  case (Cons c cs)
  then show ?case by (cases "run_callback readv w c s") simp_all
qed simp

lemma reported_ok:
  assumes "conn_ok fd d s" "enabled (Reported ev readv w) s"
  shows "\<exists>s'. run_callbacks readv w (handle_event ev) s = Inr s' \<and> conn_ok fd d s'"
proof -
  obtain cs ws es where l: "handle_event ev = cs @ ws @ es" "cs \<in> {[], [Close_callback], [Read_callback]}"
    "ws \<in> {[], [Write_callback]}" "es \<in> {[], [Error_callback]}"
    using reported_callbacks assms(2) by (metis enabled.simps(5))
  have "\<exists>s1. run_callbacks readv w cs s = Inr s1 \<and> conn_ok fd d s1 \<and>
      (live s1 \<and> write_answer w (readableBytes (output_buffer s1)) s1 \<or> tc_state s1 = kDisconnected)"
    using l(2) close_ok [OF assms(1)] read_ok [OF assms(1), of readv] assms
    by (auto simp: write_answer_def split: write_result.splits)
  then obtain s1 where s1: "run_callbacks readv w cs s = Inr s1" "conn_ok fd d s1"
    "live s1 \<and> write_answer w (readableBytes (output_buffer s1)) s1 \<or> tc_state s1 = kDisconnected" by blast
  obtain s2 where s2: "run_callbacks readv w ws s1 = Inr s2" "conn_ok fd d s2"
    using l(3) write_ok [OF s1(2,3)] s1(2) by auto
  have "run_callbacks readv w es s2 = Inr s2" using l(4) by (auto simp: handle_error_def)
  with s1 s2 show ?thesis by (simp add: l(1) run_callbacks_append)
qed

lemma destroyed_ok:
  assumes "conn_ok fd d s" "tc_state s = kConnected \<or> tc_state s = kDisconnected \<and> registered s"
    "Connect_destroyed \<notin> set (posted s)"
  shows "\<exists>s'. connect_destroyed s = Inr s' \<and> conn_ok fd d s' \<and> tc_state s' = kDisconnected"
proof -
  have remove: "\<exists>r'. on_channel channel_remove t = Inr (t\<lparr>net := r'\<rparr>) \<and> chan_net fd 0 False (tc_channel t) r'"
    if "chan_net fd 0 True (tc_channel t) (net t)" for t
    using chan_net_remove [OF that] by (auto simp: on_channel_def)
  show ?thesis
  proof (cases "tc_state s = kConnected")
    case True
    then have l: "conn_live fd d s" "live s" using assms(1) by (auto simp: conn_ok_def live_def)
    let ?ev = "if buf_content (output_buffer s) = [] then 1 else 5 :: 32 word"
    have "chan_net fd ?ev True (tc_channel s) (net s)" "?ev \<noteq> 0" using l(1) by (simp_all add: conn_live_def)
    then obtain r where r: "disable_all (tc_channel s) (net s) = Inr r" "chan_net fd 0 True (tc_channel s) r"
      using chan_net_set [of fd ?ev True "tc_channel s" "net s" "\<lambda>_. 0"] unfolding disable_all_def by blast
    let ?t = "call_user (Connection_cb kDisconnected) (s\<lparr>tc_state := kDisconnected, net := r\<rparr>)"
    obtain r' where r': "on_channel channel_remove ?t = Inr (?t\<lparr>net := r'\<rparr>)" "chan_net fd 0 False (tc_channel ?t) r'"
      using remove [of ?t] r(2) by (auto simp: call_user_def)
    have "connect_destroyed s = Inr (?t\<lparr>net := r'\<rparr>)"
      using True r(1) r'(1) by (simp add: connect_destroyed_def on_channel_def call_user_def)
    with r'(2) l(1) assms(1,3) show ?thesis
      by (auto simp: conn_ok_def call_user_def conn_live_def conn_closed_def count_notin)
  next
    case False
    with assms obtain reg where reg: "chan_net fd 0 reg (tc_channel s) (net s)"
      and c: "conn_closed fd d s" "registered s" by (auto simp: conn_ok_def conn_closed_def)
    then have "chan_net fd 0 True (tc_channel s) (net s)"
      by (cases reg) (auto simp: registered_def chan_net_def)
    with remove [of s] obtain r' where "connect_destroyed s = Inr (s\<lparr>net := r'\<rparr>)" "chan_net fd 0 False (tc_channel s) r'"
      using False by (auto simp: connect_destroyed_def)
    with False assms c(1) show ?thesis by (auto simp: conn_ok_def conn_closed_def)
  qed
qed

lemma sent_ok:
  assumes "conn_ok fd d s" "tc_state s \<noteq> kConnecting" "write_answer w (length data) s"
  shows "\<exists>s'. send_in_loop w data s = Inr s' \<and> conn_ok fd (d @ taken w data s) s'"
proof (cases "tc_state s = kDisconnected")
  case True
  then show ?thesis using assms(1) by (auto simp: send_in_loop_def taken_def)
next
  case False
  then have "live s" using assms(2) by (cases "tc_state s") (simp_all add: live_def)
  moreover from this obtain s' where "send_in_loop w data s = Inr s'" "conn_live fd (d @ taken w data s) s'"
    "buffer_ok (output_buffer s')" "quiet s s'" "write_shut s' = write_shut s"
    using send_live [of fd d s w data] assms(1,3) False by (auto simp: conn_ok_live)
  ultimately show ?thesis using assms(1) quiet_live [of s s'] by (auto simp: conn_ok_live quiet_def)
qed

lemma established_ok:
  assumes "conn_ok fd d s" "tc_state s = kConnecting"
  shows "\<exists>s'. connect_established s = Inr s' \<and> conn_ok fd d s' \<and> tc_state s' = kConnected \<and> tc_reading s' = tc_reading s"
proof -
  have f: "conn_fresh fd d s" using assms by (simp add: conn_ok_def)
  with chan_net_set [of fd 0 False "tc_channel s" "net s" "\<lambda>e. e OR EPOLLIN"] obtain r where
    "enable_reading (tc_channel s) (net s) = Inr r" "chan_net fd 1 True (tc_channel s) r"
    by (auto simp: conn_fresh_def enable_reading_def event_bits)
  then show ?thesis
    using f assms by (auto simp: connect_established_def on_channel_def call_user_def conn_ok_def conn_fresh_def
        conn_live_def cb_phase_def)
qed

lemma functor_ok:
  assumes "conn_ok fd d s" "enabled (Next_functor w) s"
  shows "\<exists>s'. conn_do (Next_functor w) s = Inr s' \<and> conn_ok fd (d @ accepted (Next_functor w) s) s'"
proof -
  obtain f fs where p: "posted s = f # fs" using assms(2) by (cases "posted s") auto
  let ?s = "s\<lparr>posted := fs\<rparr>"
  have ok: "conn_ok fd d ?s" and nc: "tc_state s \<noteq> kConnecting"
    using assms(1) p by (auto simp: conn_ok_def conn_live_def conn_closed_def conn_fresh_def split: conn_state.splits if_splits)
  have live: "live s \<or> tc_state s = kDisconnected" using nc by (cases "tc_state s") (simp_all add: live_def)
  show ?thesis
  proof (cases f)
    case (Send_in_loop data)
    then have "write_answer w (length data) ?s" using assms(2) p by (auto simp: write_answer_def split: write_result.splits)
    moreover have "taken w data ?s = taken w data s" by (cases w) (simp_all add: taken_def)
    ultimately show ?thesis using sent_ok [OF ok, of w data] nc p Send_in_loop by simp
  next
    case Shutdown_in_loop
    show ?thesis
    proof (cases "live s")
      case True
      then have l: "live ?s" "tc_state s = kDisconnecting"
        using assms(1) p Shutdown_in_loop by (auto simp: live_def conn_ok_def)
      obtain s' where "shutdown_in_loop ?s = Inr s'" "conn_live fd d s'" "quiet ?s s'"
          "buffer_ok (output_buffer s') = buffer_ok (output_buffer ?s)"
        using shutdown_live [of fd d ?s] ok l(1) by (auto simp: conn_ok_live)
      with l ok p Shutdown_in_loop quiet_live [of ?s s'] show ?thesis by (auto simp: conn_ok_live quiet_def)
    next
      case False
      with live have c: "tc_state ?s = kDisconnected" by simp
      with ok closed_channel [of fd d ?s] show ?thesis using p Shutdown_in_loop
        by (auto simp: conn_ok_closed shutdown_in_loop_def conn_closed_def)
    qed
  next
    case Force_close_in_loop
    with close_ok [OF ok] live p ok show ?thesis by (auto simp: force_close_in_loop_def live_def)
  next
    case Write_complete
    then show ?thesis using ok p nc
      by (cases "tc_state s") (auto simp: conn_ok_def call_user_def conn_live_def conn_closed_def)
  next
    case Connect_destroyed
    then have c: "tc_state s = kDisconnected" "conn_closed fd d s"
      using assms(1) p nc by (cases "tc_state s"; auto simp: conn_ok_def conn_live_def)+
    then have "chan_net fd 0 True (tc_channel s) (net s)" "Connect_destroyed \<notin> set fs"
      using p Connect_destroyed by (auto simp: conn_closed_def count_list_0_iff)
    then have "registered ?s" by (auto simp: registered_def chan_net_def)
    with destroyed_ok [OF ok] c p Connect_destroyed \<open>Connect_destroyed \<notin> set fs\<close> show ?thesis by auto
  next
    case Start_read_in_loop
    with assms(1) p show ?thesis by (simp add: conn_ok_def)
  next
    case Stop_read_in_loop
    with assms(1) p show ?thesis by (simp add: conn_ok_def)
  qed
qed

lemma post_live:
  "conn_ok fd d s \<Longrightarrow> live s \<Longrightarrow> f \<noteq> Start_read_in_loop \<Longrightarrow> f \<noteq> Stop_read_in_loop \<Longrightarrow> f \<noteq> Connect_destroyed \<Longrightarrow>
   f = Shutdown_in_loop \<longrightarrow> tc_state s = kDisconnecting \<Longrightarrow> conn_ok fd d (post f s)"
  by (auto simp: conn_ok_def conn_live_def post_def live_def)

lemma disconnecting_live:
  "conn_ok fd d s \<Longrightarrow> live s \<Longrightarrow> conn_ok fd d (s\<lparr>tc_state := kDisconnecting\<rparr>) \<and> live (s\<lparr>tc_state := kDisconnecting\<rparr>)"
  by (auto simp: conn_ok_def conn_live_def live_def)

lemma shutdown_ok:
  assumes "conn_ok fd d s"
  shows "\<exists>s'. tcp_shutdown own s = Inr s' \<and> conn_ok fd d s'"
proof (cases "tc_state s = kConnected")
  case True
  let ?s = "s\<lparr>tc_state := kDisconnecting\<rparr>"
  have l: "conn_ok fd d ?s" "live ?s" using disconnecting_live [OF assms] True by (simp_all add: live_def)
  obtain s' where "shutdown_in_loop ?s = Inr s'" "conn_live fd d s'" "quiet ?s s'"
      "buffer_ok (output_buffer s') = buffer_ok (output_buffer ?s)"
    using shutdown_live [of fd d ?s] l by (auto simp: conn_ok_live)
  with l True quiet_live [of ?s s'] post_live [OF l, of Shutdown_in_loop] show ?thesis
    by (cases own) (auto simp: tcp_shutdown_def conn_ok_live quiet_def Let_def)
qed (use assms in \<open>auto simp: tcp_shutdown_def\<close>)

lemma tcp_send_ok:
  assumes "conn_ok fd d s" "buffer_ok b" "own \<longrightarrow> write_answer w (readableBytes b) s"
  shows "\<exists>b' s'. tcp_send own w b s = Inr (b', s') \<and>
    conn_ok fd (d @ (if own \<and> tc_state s = kConnected then taken w (buf_content b) s else [])) s'"
proof (cases "tc_state s = kConnected")
  case True
  then have l: "live s" by (simp add: live_def)
  show ?thesis
  proof (cases own)
    case own: True
    then show ?thesis using sent_ok [OF assms(1), of w "buf_content b"] assms(2,3) True
      by (auto simp: tcp_send_def)
  next
    case False
    obtain b' where "retrieveAllAsString b = Inr (buf_content b, b')"
      using retrieveAsString_ok [OF assms(2) order.refl] length_content [OF assms(2)]
      by (auto simp: retrieveAllAsString_def)
    then show ?thesis using post_live [OF assms(1) l, of "Send_in_loop (buf_content b)"] False True
      by (simp add: tcp_send_def)
  qed
qed (use assms(1) in \<open>auto simp: tcp_send_def\<close>)

lemma conn_do_ok:
  assumes "conn_ok fd d s" "enabled e s"
  shows "\<exists>s'. conn_do e s = Inr s' \<and> conn_ok fd (d @ accepted e s) s'"
proof (cases e)
  case Established
  with established_ok [OF assms(1)] assms(2) show ?thesis by auto
next
  case (Own_send b w)
  with tcp_send_ok [OF assms(1), of b True w] assms(2) show ?thesis by auto
next
  case (Other_send b)
  with tcp_send_ok [OF assms(1), of b False "Wrote 0"] assms(2) show ?thesis by auto
next
  case Force_close
  with post_live [of fd d "s\<lparr>tc_state := kDisconnecting\<rparr>" Force_close_in_loop] disconnecting_live [of fd d s] assms(1)
  show ?thesis by (auto simp: force_close_def live_def)
next
  case Force_close_delay
  with disconnecting_live [of fd d s] assms(1) show ?thesis by (auto simp: force_close_with_delay_def live_def)
next
  case (Consume n)
  with assms have "buffer_ok (input_buffer s)" "n \<le> readableBytes (input_buffer s)" by (simp_all add: conn_ok_def)
  then obtain b where "retrieve n (input_buffer s) = Inr b" "buffer_ok b" using retrieve_ok by blast
  with Consume assms(1) show ?thesis
    by (auto simp: conn_ok_def conn_fresh_def conn_live_def conn_closed_def split: conn_state.splits)
next
  case (Next_functor w)
  with functor_ok [OF assms(1)] assms(2) show ?thesis by simp
next
  case Erased
  with assms have "tc_state s = kDisconnected" "registered s" "Connect_destroyed \<notin> set (posted s)"
    by (auto simp: conn_ok_def conn_live_def conn_fresh_def split: conn_state.splits)
  with Erased assms(1) show ?thesis
    by (auto simp: conn_ok_closed post_def conn_closed_def count_notin registered_def chan_net_def split: if_splits)
next
  case Owner_gone
  then have "tc_state s = kConnected" using assms(2) by simp
  moreover from this have "Connect_destroyed \<notin> set (posted s)" using assms(1) by (simp add: conn_ok_def conn_live_def)
  ultimately show ?thesis using destroyed_ok [OF assms(1)] Owner_gone by auto
qed (use assms reported_ok shutdown_ok in auto)

lemma conn_reach_ok: "conn_reach fd s d \<Longrightarrow> conn_ok fd d s"
proof (induction rule: conn_reach.induct)
  case (new r c wc)
  let ?r = "put_chan c (channel_new fd) r"
  have "poller_ok ?r" using new(1,3) by (rule poller_ok_new)
  moreover have "epoll r fd = None" using new by (simp add: poller_ok_def)
  ultimately have "chan_net fd 0 False c ?r"
    using new by (simp add: chan_net_def put_chan_def channel_new_def)
  then show ?case
    by (simp add: conn_ok_def tcp_connection_new_def conn_fresh_def)
next
  case (step s d e s')
  then show ?case using conn_do_ok by fastforce
qed

section \<open>Properties\<close>

text \<open>C36: no byte is lost, doubled or reordered. In every run of a connection, the bytes handed to the kernel
  followed by the output buffer are the bytes \<open>sendInLoop\<close> took charge of, in order, as long as the
  connection is up; after it is down they are a prefix of them. While it is up, the kernel is asked for
  write events exactly when the output buffer is not empty, and when the sending side has been shut
  down every byte taken has been handed to the kernel before.\<close>

theorem connection_delivers:
  assumes "conn_reach fd s d"
  shows "(\<exists>rest. d = sent_bytes s @ rest) \<and>
    (live s \<longrightarrow> sent_bytes s @ buf_content (output_buffer s) = d \<and>
       epoll (net s) fd = Some (if buf_content (output_buffer s) = [] then EPOLLIN else EPOLLIN OR EPOLLOUT, tc_channel s) \<and>
       (write_shut s \<longrightarrow> sent_bytes s = d))"
  using conn_reach_ok [OF assms]
  by (cases "tc_state s")
    (auto simp: conn_ok_def conn_live_def conn_closed_def conn_fresh_def live_def chan_net_def event_bits)


text \<open>The user sees the callbacks in order: the connection goes up once, then messages, then it goes
  down once; the owner's close callback comes at most once, after that. The phase tells the state.\<close>

theorem callbacks_in_order:
  assumes "conn_reach fd s d"
  shows "case tc_state s of kConnecting \<Rightarrow> cb_phase (calls s) = Some Cb_new
    | kDisconnected \<Rightarrow> cb_phase (calls s) \<in> {Some Cb_down, Some Cb_closed}
    | _ \<Rightarrow> cb_phase (calls s) = Some Cb_up"
  using conn_reach_ok [OF assms]
  by (cases "tc_state s") (simp_all add: conn_ok_def conn_live_def conn_closed_def conn_fresh_def cb_phase_def)

text \<open>Destroying a connection that was asked to shut down but is still up fails the assertion of
  \<open>Channel::remove\<close>: only the state \<open>kConnected\<close> is closed by \<open>connectDestroyed\<close>. The server's destructor
  does this to every connection in its table.\<close>

theorem destroy_while_disconnecting:
  assumes "conn_reach fd s d" "tc_state s = kDisconnecting"
  shows "connect_destroyed s = Inl AssertFailed"
proof -
  have "conn_live fd d s" using conn_reach_ok [OF assms(1)] assms(2) by (simp add: conn_ok_def)
  then show ?thesis
    using assms(2) by (auto simp: connect_destroyed_def on_channel_def channel_remove_def the_channel_def
        is_none_event_def conn_live_def chan_net_def)
qed

text \<open>\<open>startRead\<close> and \<open>stopRead\<close> are not safe around a close. A \<open>stopReadInLoop\<close> that runs after the connection
  went down, for instance because another thread asked for it just before, puts the closed channel
  back into the kernel's set with no events; the next hang-up, which the kernel always reports, runs
  the close handler a second time and fails its assertion.\<close>

theorem stop_read_after_close:
  assumes "conn_reach fd s d" "live s" "tc_reading s"
  shows "\<exists>s1 s2. handle_close s = Inr s1 \<and> stop_read_in_loop s1 = Inr s2 \<and>
    epoll (net s2) fd = Some (0, tc_channel s) \<and>
    run_callbacks readv w (handle_event EPOLLHUP) s2 = Inl AssertFailed"
proof -
  have l: "conn_live fd d s" using conn_reach_ok [OF assms(1)] assms(2) by (simp add: conn_ok_live)
  let ?ev = "if buf_content (output_buffer s) = [] then 1 else 5 :: 32 word"
  have "chan_net fd ?ev True (tc_channel s) (net s)" "?ev \<noteq> 0" using l by (simp_all add: conn_live_def)
  then obtain r where r: "disable_all (tc_channel s) (net s) = Inr r" "chan_net fd 0 True (tc_channel s) r"
    using chan_net_set [of fd ?ev True "tc_channel s" "net s" "\<lambda>_. 0"] unfolding disable_all_def by blast
  obtain ch where ch: "chans r (tc_channel s) = Some ch" "ch_fd ch = fd" "ch_events ch = 0" "ch_index ch = kDeleted"
    using r(2) chan_okD [of r "tc_channel s"] by (auto simp: chan_net_def)
  let ?s1 = "s\<lparr>tc_state := kDisconnected, net := r, calls := calls s @ [Connection_cb kDisconnected, Close_cb]\<rparr>"
  have "handle_close s = Inr ?s1"
    using r(1) assms(2) by (auto simp: handle_close_def live_def on_channel_def call_user_def)
  moreover obtain s2 where "stop_read_in_loop ?s1 = Inr s2" "epoll (net s2) fd = Some (0, tc_channel s)"
      "tc_state s2 = kDisconnected"
    using r(2) ch assms(3) set_events_ok [of r "tc_channel s" ch "\<lambda>e. e AND NOT EPOLLIN"]
    by (auto simp: stop_read_in_loop_def the_channel_def on_channel_def disable_reading_def chan_net_def index_defs)
  moreover have "handle_event EPOLLHUP = [Close_callback]"
    by (simp add: handle_event_def EPOLLHUP_def EPOLLIN_def EPOLLPRI_def EPOLLRDHUP_def EPOLLOUT_def EPOLLERR_def POLLNVAL_def)
  ultimately show ?thesis by (auto simp: handle_close_def)
qed

section \<open>The properties at work\<close>

lemma sample_up: "\<exists>s. conn_reach 5 s [] \<and> tc_state s = kConnected \<and> tc_reading s"
proof -
  let ?s = "tcp_connection_new 0 5 True poller_new"
  have "poller_ok poller_new" by (simp add: poller_ok_def poller_new_def)
  then have r: "conn_reach 5 ?s []"
    by (rule conn_reach.new) (simp_all add: poller_new_def)
  from established_ok [OF conn_reach_ok [OF r]] obtain s' where
    "conn_do Established ?s = Inr s'" "tc_state s' = kConnected" "tc_reading s'"
    by (auto simp: tcp_connection_new_def)
  with conn_reach.step [OF r, of Established s'] show ?thesis by (auto simp: tcp_connection_new_def)
qed

definition sample_buffer :: buffer where
  "sample_buffer = \<lparr>storage = replicate 8 nul @ ''hello'', readerIndex = 8, writerIndex = 13\<rparr>"

lemma sample_buffer_ok: "buffer_ok sample_buffer" "buf_content sample_buffer = ''hello''" "readableBytes sample_buffer = 5"
  by (simp_all add: sample_buffer_def buf_simps kCheapPrepend_def)

lemma sample_sent: "\<exists>s. conn_reach 5 s ''hello'' \<and> tc_state s = kConnected \<and> tc_reading s"
proof -
  obtain s where s: "conn_reach 5 s []" "tc_state s = kConnected" "tc_reading s" using sample_up by blast
  have ok: "conn_ok 5 [] s" by (rule conn_reach_ok [OF s(1)])
  then have l: "conn_live 5 [] s" "buffer_ok (output_buffer s)" "\<not> write_shut s" using s(2) by (simp_all add: conn_ok_def)
  obtain s' where s': "send_in_loop (Wrote 3) ''hello'' s = Inr s'" "quiet s s'"
    using send_live [OF l(1,2), of "Wrote 3" "''hello''"] l(3) s(2) by (auto simp: write_answer_def)
  have "conn_do (Own_send sample_buffer (Wrote 3)) s = Inr s'"
    using s' s(2) by (simp add: tcp_send_def sample_buffer_ok)
  from conn_reach.step [OF s(1) _ this] have "conn_reach 5 s' ''hello''"
    using s(2) l(3) by (simp add: sample_buffer_ok write_answer_def taken_def)
  with s s' show ?thesis by (auto simp: quiet_def)
qed

lemma sample_disconnecting: "\<exists>s. conn_reach 5 s ''hello'' \<and> tc_state s = kDisconnecting \<and> tc_reading s"
proof -
  obtain s where s: "conn_reach 5 s ''hello''" "tc_state s = kConnected" "tc_reading s" using sample_sent by blast
  have "conn_do Force_close s = Inr (post Force_close_in_loop (s\<lparr>tc_state := kDisconnecting\<rparr>))"
    using s(2) by (simp add: force_close_def)
  from conn_reach.step [OF s(1) _ this] s(3) show ?thesis by (auto simp: post_def)
qed

theorem connection_delivers_witness:
  "\<exists>s. conn_reach 5 s ''hello'' \<and> sent_bytes s @ buf_content (output_buffer s) = ''hello''"
proof -
  obtain s where "conn_reach 5 s ''hello''" "tc_state s = kConnected" using sample_sent by blast
  with connection_delivers [OF this(1)] show ?thesis by (auto simp: live_def)
qed


theorem callbacks_in_order_witness:
  "\<exists>s. conn_reach 5 s ''hello'' \<and> cb_phase (calls s) = Some Cb_up"
proof -
  obtain s where "conn_reach 5 s ''hello''" "tc_state s = kDisconnecting" using sample_disconnecting by blast
  with callbacks_in_order [OF this(1)] show ?thesis by auto
qed

theorem destroy_while_disconnecting_witness:
  "\<exists>s. conn_reach 5 s ''hello'' \<and> tc_state s = kDisconnecting \<and> connect_destroyed s = Inl AssertFailed"
proof -
  obtain s where "conn_reach 5 s ''hello''" "tc_state s = kDisconnecting" using sample_disconnecting by blast
  with destroy_while_disconnecting [OF this] show ?thesis by blast
qed

theorem stop_read_after_close_witness:
  "\<exists>s s1 s2. conn_reach 5 s ''hello'' \<and> handle_close s = Inr s1 \<and> stop_read_in_loop s1 = Inr s2 \<and>
     run_callbacks (\<lambda>_. Inr []) (Wrote 0) (handle_event EPOLLHUP) s2 = Inl AssertFailed"
proof -
  obtain s where s: "conn_reach 5 s ''hello''" "tc_state s = kConnected" "tc_reading s" using sample_sent by blast
  then have "live s" by (simp add: live_def)
  from stop_read_after_close [OF s(1) this s(3)] s(1) show ?thesis by blast
qed

end
