(* ===== verification/NetAddress.thy ===== *)
theory NetAddress
  imports NetBuffer
begin

text \<open>
  \<open>InetAddress\<close> and the address functions of \<open>SocketsOps\<close> over the 28 bytes of the union of \<open>sockaddr_in\<close>
  and \<open>sockaddr_in6\<close>: the family in bytes 0 and 1, the port in network order in 2 and 3, the IPv4
  address in 4 to 7, the IPv6 address in 8 to 23, the scope in 24 to 27. \<open>inet_pton\<close> and \<open>inet_ntop\<close> are
  parameters, \<open>big\<close> is whether the machine is big-endian, \<open>junk\<close> what the memory held before.
\<close>

definition AF_INET :: "16 word" where "AF_INET = 2"
definition AF_INET6 :: "16 word" where "AF_INET6 = 10"
definition INET_ADDRSTRLEN :: nat where "INET_ADDRSTRLEN = 16"
definition INET6_ADDRSTRLEN :: nat where "INET6_ADDRSTRLEN = 46"

definition inet_family :: "bool \<Rightarrow> string \<Rightarrow> 16 word" where
  "inet_family big a = load_image big (take 2 a)"

definition port_net_endian :: "bool \<Rightarrow> string \<Rightarrow> 16 word" where
  "port_net_endian big a = load_image big (take 2 (drop 2 a))"

definition inet_port :: "bool \<Rightarrow> string \<Rightarrow> 16 word" where
  "inet_port big a = network_to_host big (port_net_endian big a)"

definition sin_addr :: "string \<Rightarrow> string" where "sin_addr a = take 4 (drop 4 a)"
definition sin6_addr :: "string \<Rightarrow> string" where "sin6_addr a = take 16 (drop 8 a)"

definition family_and_port :: "bool \<Rightarrow> 16 word \<Rightarrow> 16 word \<Rightarrow> string \<Rightarrow> string" where
  "family_and_port big family port a =
     write_at (write_at a 0 (memory_image big family)) 2 (memory_image big (host_to_network big port))"

definition in6addr_loopback :: string where "in6addr_loopback = replicate 15 nul @ [CHR 0x01]"
definition INADDR_LOOPBACK :: "32 word" where "INADDR_LOOPBACK = 0x7F000001"
definition INADDR_ANY :: "32 word" where "INADDR_ANY = 0"

definition inet_address_new :: "bool \<Rightarrow> string \<Rightarrow> 16 word \<Rightarrow> bool \<Rightarrow> bool \<Rightarrow> string" where
  "inet_address_new big junk port loopbackOnly ipv6 =
     (if ipv6 then
        write_at (family_and_port big AF_INET6 port (write_at junk 0 (replicate 28 nul))) 8
          (if loopbackOnly then in6addr_loopback else replicate 16 nul)
      else
        write_at (family_and_port big AF_INET port (write_at junk 0 (replicate 16 nul))) 4
          (memory_image big (host_to_network big (if loopbackOnly then INADDR_LOOPBACK else INADDR_ANY))))"

type_synonym pton = "16 word \<Rightarrow> string \<Rightarrow> string option"
type_synonym ntop = "16 word \<Rightarrow> string \<Rightarrow> string"

text \<open>\<open>c_str()\<close>: what a C function sees of a \<open>std::string\<close>.\<close>

definition c_str :: "string \<Rightarrow> string" where "c_str s = takeWhile (\<lambda>c. c \<noteq> nul) s"

definition fromIpPort4 :: "bool \<Rightarrow> pton \<Rightarrow> string \<Rightarrow> 16 word \<Rightarrow> string \<Rightarrow> string" where
  "fromIpPort4 big pton ip port a =
     (let a1 = family_and_port big AF_INET port a
      in case pton AF_INET ip of None \<Rightarrow> a1 | Some b \<Rightarrow> write_at a1 4 b)"

definition fromIpPort6 :: "bool \<Rightarrow> pton \<Rightarrow> string \<Rightarrow> 16 word \<Rightarrow> string \<Rightarrow> string" where
  "fromIpPort6 big pton ip port a =
     (let a1 = family_and_port big AF_INET6 port a
      in case pton AF_INET6 ip of None \<Rightarrow> a1 | Some b \<Rightarrow> write_at a1 8 b)"

definition inet_address_of :: "bool \<Rightarrow> pton \<Rightarrow> string \<Rightarrow> string \<Rightarrow> 16 word \<Rightarrow> bool \<Rightarrow> string" where
  "inet_address_of big pton junk ip port ipv6 =
     (if ipv6 \<or> CHR '':'' \<in> set (c_str ip) then fromIpPort6 big pton (c_str ip) port (write_at junk 0 (replicate 28 nul))
      else fromIpPort4 big pton (c_str ip) port (write_at junk 0 (replicate 16 nul)))"

text \<open>\<open>toIp\<close> into an empty buffer of \<open>n\<close> bytes; another family leaves it empty.\<close>

definition toIp_buf :: "bool \<Rightarrow> ntop \<Rightarrow> nat \<Rightarrow> string \<Rightarrow> string res" where
  "toIp_buf big ntop n a =
     (if inet_family big a = AF_INET then
        require (INET_ADDRSTRLEN \<le> n) AssertFailed (Inr (ntop AF_INET (sin_addr a)))
      else if inet_family big a = AF_INET6 then
        require (INET6_ADDRSTRLEN \<le> n) AssertFailed (Inr (ntop AF_INET6 (sin6_addr a)))
      else Inr [])"

definition toIpPort_buf :: "bool \<Rightarrow> ntop \<Rightarrow> nat \<Rightarrow> string \<Rightarrow> string res" where
  "toIpPort_buf big ntop n a =
     (if inet_family big a = AF_INET6 then
        rbind (toIp_buf big ntop (n - 1) a) (\<lambda>ip.
          let buf = CHR ''['' # ip; e = length buf
          in require (e < n) AssertFailed
               (Inr (buf @ snprintf_trunc (n - e) ('']:'' @ nat_to_string (unat (inet_port big a))))))
      else
        rbind (toIp_buf big ntop n a) (\<lambda>buf.
          let e = length buf
          in require (e < n) AssertFailed
               (Inr (buf @ snprintf_trunc (n - e) ('':'' @ nat_to_string (unat (inet_port big a)))))))"

definition toIp :: "bool \<Rightarrow> ntop \<Rightarrow> string \<Rightarrow> string res" where "toIp big ntop = toIp_buf big ntop 64"
definition toIpPort :: "bool \<Rightarrow> ntop \<Rightarrow> string \<Rightarrow> string res" where "toIpPort big ntop = toIpPort_buf big ntop 64"

definition ipv4_net_endian :: "bool \<Rightarrow> string \<Rightarrow> 32 word res" where
  "ipv4_net_endian big a =
     require (inet_family big a = AF_INET) AssertFailed (Inr (load_image big (sin_addr a)))"

definition setScopeId :: "bool \<Rightarrow> 32 word \<Rightarrow> string \<Rightarrow> string" where
  "setScopeId big scope a =
     (if inet_family big a = AF_INET6 then write_at a 24 (memory_image big scope) else a)"

text \<open>\<open>gethostbyname_r\<close> fails or finds an entry: its address type, length and first address.\<close>

definition inet_resolve :: "(16 word \<times> nat \<times> string) option \<Rightarrow> string \<Rightarrow> (bool \<times> string) res" where
  "inet_resolve he out =
     (case he of
        None \<Rightarrow> Inr (False, out)
      | Some (addrtype, len, addr) \<Rightarrow>
          require (addrtype = AF_INET \<and> len = 4) AssertFailed (Inr (True, write_at out 4 (take 4 addr))))"

text \<open>\<open>getsockname\<close> and \<open>getpeername\<close> fill zeroed memory, or leave it zero when they fail.\<close>

definition get_addr :: "string option \<Rightarrow> string" where
  "get_addr answer = (case answer of None \<Rightarrow> replicate 28 nul | Some a \<Rightarrow> write_at (replicate 28 nul) 0 a)"

definition isSelfConnect :: "bool \<Rightarrow> string option \<Rightarrow> string option \<Rightarrow> bool" where
  "isSelfConnect big sockname peername =
     (let l = get_addr sockname; p = get_addr peername
      in if inet_family big l = AF_INET then port_net_endian big l = port_net_endian big p \<and> sin_addr l = sin_addr p
         else if inet_family big l = AF_INET6 then port_net_endian big l = port_net_endian big p \<and> sin6_addr l = sin6_addr p
         else False)"

section \<open>Socket calls\<close>

text \<open>A call answers a value or fails with an error number.\<close>

definition or_die :: "int + 'a \<Rightarrow> 'a res" where
  "or_die r = (case r of Inl e \<Rightarrow> Inl Fatal | Inr x \<Rightarrow> Inr x)"

definition createNonblockingOrDie :: "int + int \<Rightarrow> int res" where "createNonblockingOrDie sock = or_die sock"
definition bindOrDie :: "int + unit \<Rightarrow> unit res" where "bindOrDie r = or_die r"
definition listenOrDie :: "int + unit \<Rightarrow> unit res" where "listenOrDie r = or_die r"

text \<open>\<open>getSocketError\<close>: the pending error of the socket, or why it could not be read.\<close>

definition getSocketError :: "int + int \<Rightarrow> int" where
  "getSocketError r = (case r of Inl e \<Rightarrow> e | Inr optval \<Rightarrow> optval)"

text \<open>The errors of \<open>accept4\<close> after which \<open>sockets::accept\<close> returns: EAGAIN, ECONNABORTED, EINTR, EPROTO, EPERM,
  EMFILE; all others are fatal.\<close>

definition accept_expected :: "int set" where "accept_expected = {11, 103, 4, 71, 1, 24}"

definition sockets_accept :: "int + int \<Rightarrow> (int \<times> int option) res" where
  "sockets_accept r =
     (case r of Inr fd \<Rightarrow> Inr (fd, None)
      | Inl e \<Rightarrow> if e \<in> accept_expected then Inr (- 1, Some e) else Inl Fatal)"

text \<open>\<open>Socket::accept\<close> assigns the peer's address only when there is a connection.\<close>

definition socket_accept :: "int + int \<times> string \<Rightarrow> string \<Rightarrow> int \<times> string" where
  "socket_accept r peeraddr =
     (case r of Inl e \<Rightarrow> (- 1, peeraddr) | Inr (fd, a) \<Rightarrow> (fd, write_at (replicate 28 nul) 0 a))"

section \<open>Properties\<close>

lemma load_memory_image [simp]: "load_image big (memory_image big (x :: 16 word)) = x"
  using word_bytes_value [of x] by (simp add: load_image_def memory_image_def)

lemma length_memory_image [simp]: "length (memory_image big (x :: 'a::len word)) = LENGTH('a) div 8"
  by (simp add: memory_image_def)

lemma port_through_network [simp]: "network_to_host big (host_to_network big (x :: 16 word)) = x"
  using load_network_image [where x = x and big = big] load_memory_image [of big "host_to_network big x"]
  by (simp add: memory_image_network)

lemma layout4:
  assumes "length z = 28" "length b = 4"
  shows "write_at (family_and_port big fam port z) 4 b =
    memory_image big fam @ memory_image big (host_to_network big port) @ b @ drop 8 z"
  using assms by (simp add: family_and_port_def write_at_def)

lemma layout6:
  assumes "length z = 28" "length b = 16"
  shows "write_at (family_and_port big fam port z) 8 b =
    memory_image big fam @ memory_image big (host_to_network big port) @ take 4 (drop 4 z) @ b @ drop 24 z"
  using assms by (simp add: family_and_port_def write_at_def)

lemma address_fields:
  fixes fam port :: "16 word"
  assumes "a = memory_image big fam @ memory_image big (host_to_network big port) @ rest"
  shows "inet_family big a = fam" "inet_port big a = port" "drop 4 a = rest"
  using assms by (simp_all add: inet_family_def inet_port_def port_net_endian_def)

lemma decimal_port: "length (nat_to_string (unat (port :: 16 word))) \<le> 5"
  using unsigned_less [of port, where ?'a = nat] by (intro length_nat_to_string) simp_all

lemma family_codes [simp]: "AF_INET \<noteq> AF_INET6" "AF_INET6 \<noteq> AF_INET"
  by (simp_all add: AF_INET_def AF_INET6_def)

lemma c_str_id: "nul \<notin> set s \<Longrightarrow> c_str s = s"
  unfolding c_str_def by (rule takeWhile_eq_all_conv [THEN iffD2]) auto

lemma resolve_keeps:
  fixes fam port :: "16 word"
  assumes "a = memory_image big fam @ memory_image big (host_to_network big port) @ rest"
  shows "\<exists>out. inet_resolve (Some (AF_INET, 4, host)) a = Inr (True, out) \<and> inet_port big out = port \<and>
    inet_family big out = inet_family big (a :: string)"
proof -
  have w: "write_at a 4 (take 4 host) = memory_image big fam @ memory_image big (host_to_network big port) @
      take 4 host @ drop (length (take 4 host)) rest"
    using assms by (simp add: write_at_def)
  then show ?thesis
    using address_fields [OF assms] address_fields [OF w] by (simp add: inet_resolve_def)
qed

lemma ip_port_text:
  assumes "inet_family big a = fam" "fam = AF_INET \<or> fam = AF_INET6" "inet_port big a = port"
    and "fam = AF_INET \<Longrightarrow> ntop AF_INET (sin_addr a) = ip \<and> length ip < 16"
    and "fam = AF_INET6 \<Longrightarrow> ntop AF_INET6 (sin6_addr a) = ip \<and> length ip < 46"
  shows "toIp big ntop a = Inr ip"
    "toIpPort big ntop a = Inr ((if fam = AF_INET6 then ''['' @ ip @ '']:'' else ip @ '':'') @ nat_to_string (unat port))"
  using assms decimal_port [of port]
  by (auto simp: toIp_def toIpPort_def toIp_buf_def toIpPort_buf_def INET_ADDRSTRLEN_def INET6_ADDRSTRLEN_def
      snprintf_trunc_id Let_def)

text \<open>An address made from an IP string and a port reads back as written. On either byte order and whatever
  the memory held, \<open>toIpPort\<close> of an IPv4 address is the string, a colon and the decimal port, of an IPv6
  address the string in brackets, a colon and the port, and \<open>port\<close> is the port; nothing is truncated.
  Resolving a host name afterwards changes neither the port nor the family.\<close>

theorem ip_port_roundtrip:
  assumes "length junk = 28" "nul \<notin> set ip"
    and v4: "CHR '':'' \<notin> set ip \<Longrightarrow> pton AF_INET ip = Some b4 \<and> length b4 = 4 \<and> ntop AF_INET b4 = ip \<and> length ip < 16"
    and v6: "CHR '':'' \<in> set ip \<Longrightarrow> pton AF_INET6 ip = Some b6 \<and> length b6 = 16 \<and> ntop AF_INET6 b6 = ip \<and> length ip < 46"
    and a: "a = inet_address_of big pton junk ip port False"
  shows "inet_port big a = port \<and> toIp big ntop a = Inr ip \<and>
    toIpPort big ntop a = Inr ((if CHR '':'' \<in> set ip then ''['' @ ip @ '']:'' else ip @ '':'') @ nat_to_string (unat port)) \<and>
    (\<exists>out. inet_resolve (Some (AF_INET, 4, host)) a = Inr (True, out) \<and> inet_port big out = port \<and>
       inet_family big out = inet_family big a)"
proof (cases "CHR '':'' \<in> set ip")
  case False
  let ?z = "write_at junk 0 (replicate 16 nul)"
  have l: "a = memory_image big AF_INET @ memory_image big (host_to_network big port) @ b4 @ drop 8 ?z"
    using False a v4 assms(1,2) layout4 [of ?z b4] by (simp add: inet_address_of_def c_str_id fromIpPort4_def)
  have "sin_addr a = b4" using address_fields(3) [OF l] v4 False by (simp add: sin_addr_def)
  with ip_port_text [OF address_fields(1) [OF l] _ address_fields(2) [OF l], of ntop ip] resolve_keeps [OF l]
    address_fields(2) [OF l] False v4
  show ?thesis by auto
next
  case True
  let ?z = "write_at junk 0 (replicate 28 nul)"
  have l: "a = memory_image big AF_INET6 @ memory_image big (host_to_network big port) @ take 4 (drop 4 ?z) @ b6 @ drop 24 ?z"
    using True a v6 assms(1,2) layout6 [of ?z b6] by (simp add: inet_address_of_def c_str_id fromIpPort6_def)
  have "sin6_addr a = b6" using l assms(1) v6 True by (simp add: sin6_addr_def write_at_def)
  with ip_port_text [OF address_fields(1) [OF l] _ address_fields(2) [OF l], of ntop ip] resolve_keeps [OF l]
    address_fields(2) [OF l] True v6
  show ?thesis by auto
qed

theorem ip_port_roundtrip_witness:
  "toIpPort False (\<lambda>_ _. ''10.0.0.1'')
     (inet_address_of False (\<lambda>_ _. Some [CHR 0x0A, nul, nul, CHR 0x01]) (replicate 28 nul) ''10.0.0.1'' 10001 False) =
   Inr (''10.0.0.1:'' @ nat_to_string 10001)"
  using ip_port_roundtrip [of "replicate 28 nul" "''10.0.0.1''" "\<lambda>_ _. Some [CHR 0x0A, nul, nul, CHR 0x01]"
      "[CHR 0x0A, nul, nul, CHR 0x01]" "\<lambda>_ _. ''10.0.0.1''" _ "inet_address_of False
        (\<lambda>_ _. Some [CHR 0x0A, nul, nul, CHR 0x01]) (replicate 28 nul) ''10.0.0.1'' 10001 False" False 10001]
  by simp

end
