(* ===== verification/TcpServer.thy ===== *)
theory TcpServer
  imports NetAddress Reactor
begin

text \<open>
  The server side of \<open>network/\<close>: \<open>Acceptor\<close> over the process's table of descriptors, \<open>EventLoopThread\<close> with the
  hand-over of its loop, \<open>EventLoopThreadPool\<close>, and \<open>TcpServer\<close> with its table of connections. Loops and
  connections are named by numbers. The thread-init callback is the user's; the repository sets none.
\<close>

section \<open>Acceptor\<close>

text \<open>
  \<open>backlog\<close> are the peers the kernel holds ready, \<open>free_fds\<close> how many descriptors the process may still open,
  \<open>idle_open\<close> whether \<open>idleFd_\<close> is an open one. \<open>handed\<close> are the peers whose connection went to the callback,
  \<open>turned_away\<close> those whose connection was closed at once.
\<close>

record acceptor =
  backlog :: "nat list"
  free_fds :: nat
  idle_open :: bool
  has_new_connection_cb :: bool
  ac_listening :: bool
  handed :: "nat list"
  turned_away :: "nat list"

definition EMFILE :: int where "EMFILE = 24"
definition EAGAIN :: int where "EAGAIN = 11"

text \<open>The constructor dies when the socket cannot be made or bound, and asserts the spare descriptor.\<close>

definition acceptor_new :: "int + int \<Rightarrow> int + unit \<Rightarrow> nat \<Rightarrow> nat list \<Rightarrow> acceptor res" where
  "acceptor_new sock bound fds peers =
     rbind (createNonblockingOrDie sock) (\<lambda>fd.
     require (0 < fds) AssertFailed
       (rbind (bindOrDie bound) (\<lambda>_.
          Inr \<lparr>backlog = peers, free_fds = fds - 1, idle_open = True, has_new_connection_cb = False,
               ac_listening = False, handed = [], turned_away = []\<rparr>)))"

text \<open>\<open>k\<close> is the number of the acceptor's channel in the poller \<open>r\<close>.\<close>

definition acceptor_listen :: "int + unit \<Rightarrow> nat \<Rightarrow> reactor \<Rightarrow> acceptor \<Rightarrow> (acceptor \<times> reactor) res" where
  "acceptor_listen listened k r a =
     rbind (listenOrDie listened) (\<lambda>_. rbind (enable_reading k r) (\<lambda>r1. Inr (a\<lparr>ac_listening := True\<rparr>, r1)))"

text \<open>\<open>accept\<close>, \<open>close\<close> of the spare descriptor and \<open>open\<close> of \<open>/dev/null\<close> as the kernel does them.\<close>

definition kernel_accept :: "acceptor \<Rightarrow> (int + nat) \<times> acceptor" where
  "kernel_accept a =
     (if free_fds a = 0 then (Inl EMFILE, a)
      else case backlog a of
             [] \<Rightarrow> (Inl EAGAIN, a)
           | p # ps \<Rightarrow> (Inr p, a\<lparr>backlog := ps, free_fds := free_fds a - 1\<rparr>))"

definition close_idle :: "acceptor \<Rightarrow> acceptor" where
  "close_idle a = (if idle_open a then a\<lparr>idle_open := False, free_fds := free_fds a + 1\<rparr> else a)"

definition open_idle :: "acceptor \<Rightarrow> acceptor" where
  "open_idle a = (if free_fds a = 0 then a\<lparr>idle_open := False\<rparr> else a\<lparr>idle_open := True, free_fds := free_fds a - 1\<rparr>)"

definition acceptor_destroy :: "nat \<Rightarrow> reactor \<Rightarrow> acceptor \<Rightarrow> (acceptor \<times> reactor) res" where
  "acceptor_destroy k r a =
     rbind (disable_all k r) (\<lambda>r1. rbind (channel_remove k r1) (\<lambda>r2. Inr (close_idle a, r2)))"

definition acceptor_handle_read :: "acceptor \<Rightarrow> acceptor" where
  "acceptor_handle_read a =
     (case kernel_accept a of
        (Inr p, a1) \<Rightarrow>
          if has_new_connection_cb a1 then a1\<lparr>handed := handed a1 @ [p]\<rparr>
          else a1\<lparr>free_fds := free_fds a1 + 1, turned_away := turned_away a1 @ [p]\<rparr>
      | (Inl e, a1) \<Rightarrow>
          if e = EMFILE then
            let a2 = close_idle a1;
                a3 = (case kernel_accept a2 of
                        (Inr p, a') \<Rightarrow> a'\<lparr>idle_open := True, turned_away := turned_away a' @ [p]\<rparr>
                      | (Inl e', a') \<Rightarrow> a'\<lparr>idle_open := False\<rparr>)
            in open_idle (close_idle a3)
          else a1)"

section \<open>The thread of a loop\<close>

text \<open>
  \<open>startLoop\<close> makes the thread and waits under the lock until \<open>loop_\<close> is set; \<open>threadFunc\<close> makes the loop, runs
  the callback, publishes the loop under the lock and notifies. The loop ends when the destructor
  quits it, which is after \<open>startLoop\<close> returned.
\<close>

datatype thread_pc = Making | Publishing | Looping | Ended
datatype starter_pc = Checking | Waiting | Returned nat

record loop_thread =
  lt_loop :: "nat option"
  lt_thread :: thread_pc
  lt_starter :: starter_pc

definition loop_thread_new :: loop_thread where
  "loop_thread_new = \<lparr>lt_loop = None, lt_thread = Making, lt_starter = Checking\<rparr>"

definition publish_loop :: "nat \<Rightarrow> loop_thread \<Rightarrow> loop_thread" where
  "publish_loop l t = t\<lparr>lt_loop := Some l, lt_thread := Looping,
     lt_starter := (if lt_starter t = Waiting then Checking else lt_starter t)\<rparr>"

definition check_loop :: "loop_thread \<Rightarrow> loop_thread" where
  "check_loop t = t\<lparr>lt_starter := (case lt_loop t of None \<Rightarrow> Waiting | Some l \<Rightarrow> Returned l)\<rparr>"

inductive thread_step :: "nat \<Rightarrow> loop_thread \<Rightarrow> loop_thread \<Rightarrow> bool" for l where
  made: "lt_thread t = Making \<Longrightarrow> thread_step l t (t\<lparr>lt_thread := Publishing\<rparr>)"
| published: "lt_thread t = Publishing \<Longrightarrow> thread_step l t (publish_loop l t)"
| checked: "lt_starter t = Checking \<Longrightarrow> thread_step l t (check_loop t)"
| spurious: "lt_starter t = Waiting \<Longrightarrow> thread_step l t (t\<lparr>lt_starter := Checking\<rparr>)"
| quit: "lt_thread t = Looping \<Longrightarrow> lt_starter t = Returned k \<Longrightarrow> thread_step l t (t\<lparr>lt_thread := Ended, lt_loop := None\<rparr>)"

inductive thread_reach :: "nat \<Rightarrow> loop_thread \<Rightarrow> bool" for l where
  new: "thread_reach l loop_thread_new"
| step: "thread_reach l t \<Longrightarrow> thread_step l t t' \<Longrightarrow> thread_reach l t'"

inductive_cases thread_stepE: "thread_step l t t'"

section \<open>The pool\<close>

record thread_pool =
  base_loop :: nat
  pool_started :: bool
  num_threads :: int
  next_loop :: nat
  pool_loops :: "nat list"

definition thread_pool_new :: "nat \<Rightarrow> thread_pool" where
  "thread_pool_new base = \<lparr>base_loop = base, pool_started = False, num_threads = 0, next_loop = 0, pool_loops = []\<rparr>"

text \<open>The name of a thread is made from an array nobody writes: the bytes \<open>stack\<close> it happens to hold up to a zero
  byte, which may lie outside.\<close>

definition thread_name :: "string \<Rightarrow> string res" where
  "thread_name stack = (if nul \<in> set stack then Inr (takeWhile (\<lambda>c. c \<noteq> nul) stack) else Inl Undefined)"

text \<open>\<open>made i\<close> is the loop that \<open>startLoop\<close> of the thread \<open>i\<close> returns.\<close>

fun start_threads :: "(nat \<Rightarrow> string) \<Rightarrow> (nat \<Rightarrow> nat) \<Rightarrow> nat \<Rightarrow> nat list res" where
  "start_threads stack made 0 = Inr []"
| "start_threads stack made (Suc n) =
     rbind (start_threads stack made n) (\<lambda>ls. rbind (thread_name (stack n)) (\<lambda>_. Inr (ls @ [made n])))"

definition pool_start :: "(nat \<Rightarrow> string) \<Rightarrow> (nat \<Rightarrow> nat) \<Rightarrow> thread_pool \<Rightarrow> thread_pool res" where
  "pool_start stack made p =
     require (\<not> pool_started p) AssertFailed
       (rbind (start_threads stack made (nat (num_threads p))) (\<lambda>ls.
          Inr (p\<lparr>pool_started := True, pool_loops := pool_loops p @ ls\<rparr>)))"

definition getNextLoop :: "thread_pool \<Rightarrow> (nat \<times> thread_pool) res" where
  "getNextLoop p =
     require (pool_started p) AssertFailed
       (if pool_loops p = [] then Inr (base_loop p, p)
        else require (next_loop p < length (pool_loops p)) Undefined
               (Inr (pool_loops p ! next_loop p,
                     p\<lparr>next_loop := (if length (pool_loops p) \<le> next_loop p + 1 then 0 else next_loop p + 1)\<rparr>)))"

definition getLoopForHash :: "nat \<Rightarrow> thread_pool \<Rightarrow> nat" where
  "getLoopForHash h p = (if pool_loops p = [] then base_loop p else pool_loops p ! (h mod length (pool_loops p)))"

definition getAllLoops :: "thread_pool \<Rightarrow> nat list res" where
  "getAllLoops p =
     require (pool_started p) AssertFailed (Inr (if pool_loops p = [] then [base_loop p] else pool_loops p))"

section \<open>The server\<close>

text \<open>
  \<open>conns\<close> are the connection objects, by the serial number they were made with, with their name and loop;
  \<open>connections\<close> is the table by name. \<open>base_posted\<close> are the calls of \<open>removeConnectionInLoop\<close> queued in the
  acceptor's loop by other loops, \<open>io_posted\<close> what the server had a connection's loop do, and \<open>closed\<close> the
  connections whose close callback has run.
\<close>

datatype srv_functor = Connect_established_of nat | Connect_destroyed_of nat

record server =
  srv_name :: string
  srv_ip_port :: string
  next_conn_id :: int
  srv_pool :: thread_pool
  srv_listening :: bool
  connections :: "string \<Rightarrow> nat option"
  conns :: "nat \<Rightarrow> (string \<times> nat) option"
  base_posted :: "nat list"
  io_posted :: "(nat \<times> srv_functor) list"
  closed :: "nat set"

definition server_new :: "nat \<Rightarrow> string \<Rightarrow> string \<Rightarrow> server" where
  "server_new base ipPort name_arg =
     \<lparr>srv_name = name_arg, srv_ip_port = ipPort, next_conn_id = 1, srv_pool = thread_pool_new base,
      srv_listening = False, connections = Map.empty, conns = Map.empty, base_posted = [], io_posted = [],
      closed = {}\<rparr>"

definition setThreadNum :: "int \<Rightarrow> server \<Rightarrow> server res" where
  "setThreadNum n s = require (0 \<le> n) AssertFailed (Inr (s\<lparr>srv_pool := (srv_pool s)\<lparr>num_threads := n\<rparr>\<rparr>))"

definition server_start :: "(nat \<Rightarrow> string) \<Rightarrow> (nat \<Rightarrow> nat) \<Rightarrow> server \<Rightarrow> server res" where
  "server_start stack made s =
     rbind (pool_start stack made (srv_pool s)) (\<lambda>p.
     require (\<not> srv_listening s) AssertFailed (Inr (s\<lparr>srv_pool := p, srv_listening := True\<rparr>)))"

definition conn_name :: "server \<Rightarrow> int \<Rightarrow> string" where
  "conn_name s i = srv_name s @ snprintf_trunc 64 (''-'' @ srv_ip_port s @ ''#'' @ int_to_string i)"

text \<open>\<open>++nextConnId_\<close> past the largest \<open>int\<close> is undefined.\<close>

definition newConnection :: "server \<Rightarrow> server res" where
  "newConnection s =
     rbind (getNextLoop (srv_pool s)) (\<lambda>(loop, p).
     let i = next_conn_id s; c = nat i; nm = conn_name s i
     in require (i < int_max) Undefined
          (Inr (s\<lparr>srv_pool := p, next_conn_id := i + 1, conns := (conns s)(c \<mapsto> (nm, loop)),
                 connections := (connections s)(nm \<mapsto> c),
                 io_posted := io_posted s @ [(loop, Connect_established_of c)]\<rparr>)))"

definition removeConnectionInLoop :: "nat \<Rightarrow> server \<Rightarrow> server res" where
  "removeConnectionInLoop c s =
     (case conns s c of
        None \<Rightarrow> Inl Undefined
      | Some (nm, loop) \<Rightarrow>
          require (connections s nm \<noteq> None) AssertFailed
            (Inr (s\<lparr>connections := (connections s)(nm := None),
                   io_posted := io_posted s @ [(loop, Connect_destroyed_of c)]\<rparr>)))"

text \<open>The close callback, called in the connection's own loop.\<close>

definition removeConnection :: "nat \<Rightarrow> server \<Rightarrow> server res" where
  "removeConnection c s =
     (case conns s c of
        None \<Rightarrow> Inl Undefined
      | Some (nm, loop) \<Rightarrow>
          if loop = base_loop (srv_pool s) then removeConnectionInLoop c s
          else Inr (s\<lparr>base_posted := base_posted s @ [c]\<rparr>))"

text \<open>The destructor has every connection of the table destroyed in its loop (here by serial number; the code goes
  by name).\<close>

definition server_destroy :: "server \<Rightarrow> (nat \<times> srv_functor) list" where
  "server_destroy s =
     concat (map (\<lambda>c. case conns s c of None \<Rightarrow> []
       | Some (nm, loop) \<Rightarrow> if connections s nm = Some c then [(loop, Connect_destroyed_of c)] else [])
       [1..<nat (next_conn_id s)])"

text \<open>What happens to a started server: the acceptor hands it a connection, the close callback of a connection
  runs (once, as \<open>TcpConnection\<close> does), the acceptor's loop runs a queued removal.\<close>

datatype server_event = Accepted | Close_called nat | Base_runs

fun server_do :: "server_event \<Rightarrow> server \<Rightarrow> server res" where
  "server_do Accepted s = newConnection s"
| "server_do (Close_called c) s = removeConnection c (s\<lparr>closed := insert c (closed s)\<rparr>)"
| "server_do Base_runs s =
     (case base_posted s of [] \<Rightarrow> Inr s | c # cs \<Rightarrow> removeConnectionInLoop c (s\<lparr>base_posted := cs\<rparr>))"

fun server_enabled :: "server_event \<Rightarrow> server \<Rightarrow> bool" where
  "server_enabled Accepted s = (next_conn_id s < int_max)"
| "server_enabled (Close_called c) s = (conns s c \<noteq> None \<and> c \<notin> closed s)"
| "server_enabled Base_runs s = True"

inductive server_reach :: "nat \<Rightarrow> string \<Rightarrow> string \<Rightarrow> int \<Rightarrow> (nat \<Rightarrow> nat) \<Rightarrow> server \<Rightarrow> bool"
  for base ipPort name_arg n made where
  started: "rbind (setThreadNum n (server_new base ipPort name_arg)) (server_start stack made) = Inr s \<Longrightarrow>
    server_reach base ipPort name_arg n made s"
| step: "server_reach base ipPort name_arg n made s \<Longrightarrow> server_enabled e s \<Longrightarrow> server_do e s = Inr s' \<Longrightarrow>
    server_reach base ipPort name_arg n made s'"

section \<open>Properties of the acceptor and the threads\<close>

text \<open>With the descriptor table full, the spare descriptor is spent on turning the waiting peer away: the
  backlog shrinks by that peer, no connection is handed on, and the spare one is held again, so a
  listening socket does not keep the loop spinning. Without the spare one nothing changes.\<close>

theorem full_table_turns_peer_away:
  assumes "free_fds a = 0" "backlog a = p # ps"
  shows "acceptor_handle_read a =
    (if idle_open a then a\<lparr>backlog := ps, turned_away := turned_away a @ [p]\<rparr> else a)"
  using assms
  by (cases a) (simp add: acceptor_handle_read_def kernel_accept_def close_idle_def open_idle_def EMFILE_def)


lemma start_threads_result:
  "start_threads stack made n = (if \<forall>i<n. nul \<in> set (stack i) then Inr (map made [0..<n]) else Inl Undefined)"
  by (induction n) (auto simp: thread_name_def less_Suc_eq)

text \<open>Starting a server with \<open>n\<close> threads gives it \<open>n\<close> loops in order, the acceptor's own one when \<open>n\<close> is 0;
  but the name of each thread is read from memory nobody wrote, and when that holds no zero byte the
  start is undefined behaviour. Starting it a second time fails the pool's assertion, although the
  header calls that harmless.\<close>

theorem server_start_once:
  assumes "0 \<le> n"
  shows "\<exists>s0. setThreadNum n (server_new base ipPort nm) = Inr s0 \<and>
    (if \<forall>i < nat n. nul \<in> set (stack i)
     then \<exists>s. server_start stack made s0 = Inr s \<and>
       getAllLoops (srv_pool s) = Inr (if n = 0 then [base] else map made [0..<nat n]) \<and>
       server_start stack' made' s = Inl AssertFailed
     else server_start stack made s0 = Inl Undefined)"
  using assms
  by (auto simp: setThreadNum_def server_new_def server_start_def pool_start_def thread_pool_new_def
      start_threads_result getAllLoops_def)

section \<open>The server's table\<close>

lemma int_to_string_pos: "0 \<le> i \<Longrightarrow> int_to_string i = nat_to_string (nat i)"
  using int_to_string_of_nat [of "nat i"] by simp

lemma conn_name_inject:
  assumes "length (srv_ip_port s) \<le> 51" "1 \<le> i" "i \<le> int_max" "1 \<le> j" "j \<le> int_max" "conn_name s i = conn_name s j"
  shows "i = j"
proof -
  have len: "length (nat_to_string (nat k)) \<le> 10" if "1 \<le> k" "k \<le> int_max" for k
    using that by (intro length_nat_to_string) (auto simp: int_max_def)
  have "snprintf_trunc 64 (''-'' @ srv_ip_port s @ ''#'' @ int_to_string k) = ''-'' @ srv_ip_port s @ ''#'' @ nat_to_string (nat k)"
    if "1 \<le> k" "k \<le> int_max" for k
    using that len [OF that] assms(1) by (simp add: snprintf_trunc_id int_to_string_pos)
  then have "nat_to_string (nat i) = nat_to_string (nat j)" using assms by (simp add: conn_name_def)
  with assms(2,4) show ?thesis by simp
qed

definition loop_of :: "thread_pool \<Rightarrow> nat \<Rightarrow> nat" where
  "loop_of p c = (if pool_loops p = [] then base_loop p else pool_loops p ! ((c - 1) mod length (pool_loops p)))"

text \<open>The abstract server: which connections are open, and which of them are about to leave the table.\<close>

definition in_table :: "server \<Rightarrow> nat \<Rightarrow> bool" where
  "in_table s c \<longleftrightarrow> conns s c \<noteq> None \<and> (c \<in> closed s \<longrightarrow> c \<in> set (base_posted s))"

definition server_ok :: "server \<Rightarrow> bool" where
  "server_ok s \<longleftrightarrow> pool_started (srv_pool s) \<and> 1 \<le> next_conn_id s \<and> next_conn_id s \<le> int_max \<and>
     (pool_loops (srv_pool s) \<noteq> [] \<longrightarrow>
        next_loop (srv_pool s) = (nat (next_conn_id s) - 1) mod length (pool_loops (srv_pool s))) \<and>
     (\<forall>c. conns s c = (if 1 \<le> c \<and> int c < next_conn_id s then Some (conn_name s (int c), loop_of (srv_pool s) c) else None)) \<and>
     (\<forall>nm c. connections s nm = Some c \<longleftrightarrow> in_table s c \<and> nm = conn_name s (int c)) \<and>
     distinct (base_posted s) \<and> set (base_posted s) \<subseteq> closed s \<and> (\<forall>c \<in> closed s. conns s c \<noteq> None)"

lemma server_started_ok:
  assumes "rbind (setThreadNum n (server_new base ipPort name_arg)) (server_start stack made) = Inr s"
  shows "server_ok s" "srv_ip_port s = ipPort" "base_loop (srv_pool s) = base" "pool_loops (srv_pool s) = map made [0..<nat n]"
  using assms
  by (auto simp: start_threads_result setThreadNum_def server_new_def server_start_def pool_start_def rbind_Inr_iff thread_pool_new_def
      server_ok_def int_max_def in_table_def split: if_splits)

lemma conn_name_cong: "srv_name s' = srv_name s \<Longrightarrow> srv_ip_port s' = srv_ip_port s \<Longrightarrow> conn_name s' i = conn_name s i"
  by (simp add: conn_name_def)

lemma loop_of_next: "loop_of (p\<lparr>next_loop := k\<rparr>) c = loop_of p c"
  by (simp add: loop_of_def)

lemma closed_in_server:
  assumes "server_ok s"
  shows "e \<in> closed s \<Longrightarrow> conns s e \<noteq> None" "set (base_posted s) \<subseteq> closed s" "distinct (base_posted s)"
  using assms unfolding server_ok_def by blast+

lemma next_turn:
  assumes "0 < (n::nat)"
  shows "(if n \<le> k mod n + 1 then 0 else k mod n + 1) = Suc k mod n"
proof -
  have "k mod n < n" using assms by simp
  then show ?thesis by (auto simp: mod_Suc)
qed

lemma getNextLoop_turn:
  assumes "pool_started p" "pool_loops p \<noteq> []" "next_loop p = k mod length (pool_loops p)"
  shows "getNextLoop p =
    Inr (pool_loops p ! (k mod length (pool_loops p)), p\<lparr>next_loop := Suc k mod length (pool_loops p)\<rparr>)"
  using assms next_turn [of "length (pool_loops p)" k, symmetric] by (simp add: getNextLoop_def)

lemma accepted_ok:
  assumes "server_ok s" "length (srv_ip_port s) \<le> 51" "next_conn_id s < int_max"
  shows "\<exists>s'. newConnection s = Inr s' \<and> server_ok s' \<and> srv_ip_port s' = srv_ip_port s \<and>
    base_loop (srv_pool s') = base_loop (srv_pool s) \<and> pool_loops (srv_pool s') = pool_loops (srv_pool s)"
proof -
  let ?i = "next_conn_id s" let ?c = "nat ?i" let ?p = "srv_pool s"
  have pos: "1 \<le> ?i" and st: "pool_started ?p" using assms(1) by (simp_all add: server_ok_def)
  obtain p where p: "getNextLoop ?p = Inr (loop_of ?p ?c, p)" "pool_started p" "pool_loops p = pool_loops ?p"
    "base_loop p = base_loop ?p" "pool_loops p \<noteq> [] \<longrightarrow> next_loop p = ?c mod length (pool_loops p)"
  proof (cases "pool_loops ?p = []")
    case True
    with that [of ?p] st show ?thesis by (simp add: getNextLoop_def loop_of_def)
  next
    case False
    have k: "next_loop ?p = (?c - 1) mod length (pool_loops ?p)" "Suc (?c - 1) = ?c"
      using assms(1) False pos by (simp_all add: server_ok_def)
    from getNextLoop_turn [OF st False k(1)]
    have "getNextLoop ?p = Inr (loop_of ?p ?c, ?p\<lparr>next_loop := ?c mod length (pool_loops ?p)\<rparr>)"
      unfolding k(2) using False by (simp add: loop_of_def)
    then show ?thesis by (rule that) (use st in simp_all)
  qed
  have fresh: "conns s ?c = None" "?c \<notin> closed s" using assms(1) pos by (auto simp: server_ok_def)
  have new: "conn_name s (int c) \<noteq> conn_name s ?i" if "in_table s c" for c
  proof -
    have "1 \<le> c" "int c < ?i" using that assms(1) by (auto simp: in_table_def server_ok_def split: if_splits)
    then show ?thesis using conn_name_inject [OF assms(2), of "int c" ?i] pos assms(3) by fastforce
  qed
  let ?s = "s\<lparr>srv_pool := p, next_conn_id := ?i + 1, conns := (conns s)(?c \<mapsto> (conn_name s ?i, loop_of ?p ?c)),
    connections := (connections s)(conn_name s ?i \<mapsto> ?c),
    io_posted := io_posted s @ [(loop_of ?p ?c, Connect_established_of ?c)]\<rparr>"
  have names: "conn_name ?s i = conn_name s i" for i by (simp add: conn_name_def)
  have loops: "loop_of p c = loop_of ?p c" for c using p by (simp add: loop_of_def)
  have table: "in_table ?s c \<longleftrightarrow> in_table s c \<or> c = ?c" for c using fresh by (auto simp: in_table_def)
  have num: "int ?c = ?i" using pos by simp
  have tab: "connections ?s nm = Some e \<longleftrightarrow> in_table ?s e \<and> nm = conn_name ?s (int e)" for nm e
  proof (cases "nm = conn_name s ?i")
    case True
    then show ?thesis unfolding table names using new [of e] num by auto
  next
    case False
    then show ?thesis unfolding table names using assms(1) num by (auto simp: server_ok_def)
  qed
  have obj: "conns ?s e = (if 1 \<le> e \<and> int e < next_conn_id ?s then Some (conn_name ?s (int e), loop_of (srv_pool ?s) e) else None)" for e
  proof (cases "e = ?c")
    case True
    then show ?thesis unfolding names using pos num by (simp add: loops)
  next
    case False
    then show ?thesis unfolding names using assms(1) num by (auto simp: server_ok_def loops)
  qed
  have shut: "\<forall>e \<in> closed ?s. conns ?s e \<noteq> None" "set (base_posted ?s) \<subseteq> closed ?s" "distinct (base_posted ?s)"
    using closed_in_server [OF assms(1)] by auto
  have turn: "next_loop (srv_pool ?s) = (nat (next_conn_id ?s) - 1) mod length (pool_loops (srv_pool ?s))"
    if "pool_loops (srv_pool ?s) \<noteq> []"
    using that p(5) pos by (simp add: nat_add_distrib)
  have "pool_started (srv_pool ?s)" "1 \<le> next_conn_id ?s" "next_conn_id ?s \<le> int_max" using p(2) pos assms(3) by simp_all
  then have "server_ok ?s" using tab obj shut turn unfolding server_ok_def by blast
  moreover have "newConnection s = Inr ?s" using p(1) assms(3) by (simp add: newConnection_def Let_def)
  ultimately show ?thesis using p by simp
qed

lemma removed_ok:
  assumes "server_ok s" "length (srv_ip_port s) \<le> 51" "in_table s c"
    "s1 = s\<lparr>closed := insert c (closed s), base_posted := remove1 c (base_posted s)\<rparr>"
  shows "\<exists>s'. removeConnectionInLoop c s1 = Inr s' \<and> server_ok s' \<and> srv_ip_port s' = srv_ip_port s \<and>
    base_loop (srv_pool s') = base_loop (srv_pool s) \<and> pool_loops (srv_pool s') = pool_loops (srv_pool s)"
proof -
  have c: "1 \<le> c" "int c < next_conn_id s" "conns s c = Some (conn_name s (int c), loop_of (srv_pool s) c)"
    using assms(1,3) by (auto simp: server_ok_def in_table_def split: if_splits)
  have other: "conn_name s (int d) \<noteq> conn_name s (int c)" if "in_table s d" "d \<noteq> c" for d
  proof -
    have "1 \<le> d" "int d < next_conn_id s" using that assms(1) by (auto simp: in_table_def server_ok_def split: if_splits)
    then show ?thesis using conn_name_inject [OF assms(2), of "int d" "int c"] that c(1,2) assms(1)
      by (fastforce simp: server_ok_def)
  qed
  let ?s = "s1\<lparr>connections := (connections s)(conn_name s (int c) := None),
    io_posted := io_posted s @ [(loop_of (srv_pool s) c, Connect_destroyed_of c)]\<rparr>"
  have names: "conn_name ?s i = conn_name s i" for i by (simp add: conn_name_def assms(4))
  have d: "distinct (base_posted s)" using assms(1) by (simp add: server_ok_def)
  have table: "in_table ?s e \<longleftrightarrow> in_table s e \<and> e \<noteq> c" for e using d by (auto simp: in_table_def assms(4))
  have t: "connections s (conn_name s (int c)) = Some c" using assms(1,3) by (simp add: server_ok_def)
  have tab: "connections ?s nm = Some e \<longleftrightarrow> in_table ?s e \<and> nm = conn_name ?s (int e)" for nm e
  proof (cases "nm = conn_name s (int c)")
    case True
    then show ?thesis unfolding table names using other [of e] by auto
  next
    case False
    then show ?thesis unfolding table names using assms(1) by (auto simp: server_ok_def)
  qed
  have shut: "conns ?s e \<noteq> None" if "e \<in> closed ?s" for e
    using that c(3) closed_in_server(1) [OF assms(1)] by (cases "e = c") (auto simp: assms(4))
  have sub: "set (base_posted ?s) \<subseteq> closed ?s" "distinct (base_posted ?s)"
    using closed_in_server [OF assms(1)] by (auto simp: assms(4) notin_set_remove1)
  have rest: "conns ?s = conns s" "srv_pool ?s = srv_pool s" "next_conn_id ?s = next_conn_id s"
    by (simp_all add: assms(4))
  have "server_ok ?s"
    using assms(1) tab shut sub unfolding server_ok_def rest names by blast
  moreover have "removeConnectionInLoop c s1 = Inr ?s" using c(3) t by (simp add: removeConnectionInLoop_def assms(4))
  ultimately show ?thesis using assms(4) by simp
qed

lemma server_do_ok:
  assumes "server_ok s" "length (srv_ip_port s) \<le> 51" "server_enabled e s"
  shows "\<exists>s'. server_do e s = Inr s' \<and> server_ok s' \<and> srv_ip_port s' = srv_ip_port s \<and>
    base_loop (srv_pool s') = base_loop (srv_pool s) \<and> pool_loops (srv_pool s') = pool_loops (srv_pool s)"
proof (cases e)
  case Accepted
  with accepted_ok [OF assms(1,2)] assms(3) show ?thesis by simp
next
  case (Close_called c)
  then have c: "in_table s c" "c \<notin> closed s" "c \<notin> set (base_posted s)"
    "conns s c = Some (conn_name s (int c), loop_of (srv_pool s) c)"
    using assms(1,3) by (auto simp: in_table_def server_ok_def split: if_splits)
  show ?thesis
  proof (cases "loop_of (srv_pool s) c = base_loop (srv_pool s)")
    case True
    have "s\<lparr>closed := insert c (closed s)\<rparr> = s\<lparr>closed := insert c (closed s), base_posted := remove1 c (base_posted s)\<rparr>"
      using c(3) by (cases s) (simp add: remove1_idem)
    from removed_ok [OF assms(1,2) c(1) this] show ?thesis using Close_called c(4) True
      by (simp add: removeConnection_def)
  next
    case False
    let ?s = "s\<lparr>closed := insert c (closed s), base_posted := base_posted s @ [c]\<rparr>"
    have table: "in_table ?s d \<longleftrightarrow> in_table s d" for d using c by (auto simp: in_table_def)
    have names: "conn_name ?s i = conn_name s i" for i by (simp add: conn_name_def)
    have "\<forall>e \<in> closed ?s. conns ?s e \<noteq> None" "set (base_posted ?s) \<subseteq> closed ?s" "distinct (base_posted ?s)"
      using closed_in_server [OF assms(1)] c(3,4) by auto
    moreover have rest: "conns ?s = conns s" "srv_pool ?s = srv_pool s" "next_conn_id ?s = next_conn_id s"
        "connections ?s = connections s" by simp_all
    ultimately have "server_ok ?s"
      using assms(1) unfolding server_ok_def rest names table by blast
    then show ?thesis using Close_called c(4) False by (simp add: removeConnection_def)
  qed
next
  case Base_runs
  show ?thesis
  proof (cases "base_posted s")
    case Nil
    with Base_runs assms(1) show ?thesis by simp
  next
    case (Cons c cs)
    then have "in_table s c" "c \<in> closed s" using closed_in_server [OF assms(1)] by (auto simp: in_table_def)
    moreover from this have "s\<lparr>base_posted := cs\<rparr> = s\<lparr>closed := insert c (closed s), base_posted := remove1 c (base_posted s)\<rparr>"
      using Cons by (cases s) (simp add: insert_absorb)
    ultimately show ?thesis using removed_ok [OF assms(1,2), of c] Base_runs Cons by simp
  qed
qed

lemma server_reach_ok:
  assumes "server_reach base ipPort nm n made s" "length ipPort \<le> 51"
  shows "server_ok s \<and> srv_ip_port s = ipPort \<and> base_loop (srv_pool s) = base \<and> pool_loops (srv_pool s) = map made [0..<nat n]"
  using assms(1)
proof (induction rule: server_reach.induct)
  case (started stack s)
  with server_started_ok [OF started] show ?case by simp
next
  case (step s e s')
  with server_do_ok [of s e] assms(2) show ?case by fastforce
qed

text \<open>C38: the table of connections is right at any time. Whatever the order of accepts, closes and queued
  removals, for the first \<open>2\<^sup>3\<^sup>1 - 2\<close> connections no assertion fails; an entry is in the table under
  its own name exactly while its connection is open or its removal is still queued in the acceptor's
  loop; and the connections are dealt to the threads' loops in turn, to the acceptor's loop when
  there are none.\<close>

theorem server_tracks_connections:
  assumes "server_reach base ipPort nm n made s" "length ipPort \<le> 51"
  shows "(\<forall>name c. connections s name = Some c \<longleftrightarrow>
       conns s c \<noteq> None \<and> (c \<in> closed s \<longrightarrow> c \<in> set (base_posted s)) \<and> name = conn_name s (int c)) \<and>
    (\<forall>c < nat (next_conn_id s). 0 < c \<longrightarrow>
       conns s c = Some (conn_name s (int c), if n \<le> 0 then base else made ((c - 1) mod nat n))) \<and>
    (\<forall>e. server_enabled e s \<longrightarrow> (\<exists>s'. server_do e s = Inr s'))"
proof -
  note ok = server_reach_ok [OF assms]
  have loop: "loop_of (srv_pool s) c = (if n \<le> 0 then base else made ((c - 1) mod nat n))" for c
    using ok by (auto simp: loop_of_def)
  from ok have "server_ok s" by simp
  then have "\<forall>c < nat (next_conn_id s). 0 < c \<longrightarrow> conns s c = Some (conn_name s (int c), loop_of (srv_pool s) c)"
    "\<forall>name c. connections s name = Some c \<longleftrightarrow> in_table s c \<and> name = conn_name s (int c)"
    by (auto simp: server_ok_def)
  moreover have "\<exists>s'. server_do e s = Inr s'" if "server_enabled e s" for e
    using server_do_ok [of s e] ok assms(2) that by auto
  ultimately show ?thesis unfolding loop in_table_def by blast
qed

section \<open>The properties at work\<close>

theorem full_table_turns_peer_away_witness:
  "acceptor_handle_read \<lparr>backlog = [7, 8], free_fds = 0, idle_open = True, has_new_connection_cb = True,
     ac_listening = True, handed = [], turned_away = []\<rparr> =
   \<lparr>backlog = [8], free_fds = 0, idle_open = True, has_new_connection_cb = True,
     ac_listening = True, handed = [], turned_away = [7]\<rparr>"
  by (subst full_table_turns_peer_away [of _ 7 "[8]"]) simp_all


theorem server_start_once_witness:
  "\<exists>s0. setThreadNum 2 (server_new 0 ''0.0.0.0:10001'' ''ZMQBridge'') = Inr s0 \<and>
     server_start (\<lambda>_. ''abc'') Suc s0 = Inl Undefined"
proof -
  have "\<not> (\<forall>i < nat 2. nul \<in> set ((\<lambda>_. ''abc'') i))" by (auto intro: exI [of _ 0])
  then show ?thesis
    using server_start_once [of 2 0 "''0.0.0.0:10001''" "''ZMQBridge''" "\<lambda>_. ''abc''" Suc]
    by (simp only: if_False)
qed

lemma sample_server:
  "\<exists>s. server_reach 0 ''0.0.0.0:10001'' ''ZMQBridge'' 2 (\<lambda>i. i + 1) s \<and> next_conn_id s = 2"
proof -
  obtain s where s: "rbind (setThreadNum 2 (server_new 0 ''0.0.0.0:10001'' ''ZMQBridge''))
      (server_start (\<lambda>_. [nul]) (\<lambda>i. i + 1)) = Inr s" "next_conn_id s = 1"
    by (simp add: setThreadNum_def server_new_def server_start_def pool_start_def start_threads_result thread_pool_new_def)
  then have r: "server_reach 0 ''0.0.0.0:10001'' ''ZMQBridge'' 2 (\<lambda>i. i + 1) s" by (rule_tac server_reach.started)
  have "server_ok s" "length (srv_ip_port s) \<le> 51" using server_reach_ok [OF r] by simp_all
  from accepted_ok [OF this] s(2) obtain s' where s': "server_do Accepted s = Inr s'" by (auto simp: int_max_def)
  then have "next_conn_id s' = 2" using s(2) by (auto simp: newConnection_def rbind_Inr_iff Let_def)
  moreover have "server_reach 0 ''0.0.0.0:10001'' ''ZMQBridge'' 2 (\<lambda>i. i + 1) s'"
    by (rule server_reach.step [OF r _ s']) (simp add: s(2) int_max_def)
  ultimately show ?thesis by blast
qed

theorem server_tracks_connections_witness:
  "\<exists>s. server_reach 0 ''0.0.0.0:10001'' ''ZMQBridge'' 2 (\<lambda>i. i + 1) s \<and> conns s 1 = Some (conn_name s 1, 1)"
proof -
  obtain s where s: "server_reach 0 ''0.0.0.0:10001'' ''ZMQBridge'' 2 (\<lambda>i. i + 1) s" "next_conn_id s = 2"
    using sample_server by blast
  have "length ''0.0.0.0:10001'' \<le> 51" by simp
  from server_tracks_connections [OF s(1) this] s show ?thesis by auto
qed

end
