(* ===== verification/TcpClient.thy ===== *)
theory TcpClient
  imports NetAddress Reactor "HOL-Library.Multiset"
begin

text \<open>
  The client side of \<open>network/\<close>: \<open>Connector\<close>, which makes a non-blocking socket, waits for it to connect and hands
  it on, over the poller of its loop, and \<open>TcpClient\<close>, which owns one connector and at most one connection.
\<close>

section \<open>Connector\<close>

text \<open>
  \<open>cn_channel\<close> is \<open>channel_\<close>, the number of its channel object in the poller \<open>cn_net\<close>; a channel object is numbered
  by its descriptor. \<open>cn_closed\<close> are the descriptors closed, \<open>cn_handed\<close> those given to the new-connection
  callback, \<open>cn_made\<close> all that were made. \<open>cn_posted\<close> are the functors queued in the loop.
\<close>

datatype cn_states = CnDisconnected | CnConnecting | CnConnected

datatype cn_functor = Cn_start_in_loop | Cn_stop_in_loop | Cn_reset_channel

record connector =
  cn_connect :: bool
  cn_state :: cn_states
  cn_channel :: "nat option"
  cn_net :: reactor
  retry_delay_ms :: int
  cn_posted :: "cn_functor list"
  cn_made :: "int list"
  cn_closed :: "int list"
  cn_handed :: "int list"

definition kInitRetryDelayMs :: int where "kInitRetryDelayMs = 500"

definition connector_new :: "reactor \<Rightarrow> connector" where
  "connector_new r =
     \<lparr>cn_connect = False, cn_state = CnDisconnected, cn_channel = None, cn_net = r, retry_delay_ms = kInitRetryDelayMs,
      cn_posted = [], cn_made = [], cn_closed = [], cn_handed = []\<rparr>"

definition connector_destroy :: "connector \<Rightarrow> unit res" where
  "connector_destroy c = require (cn_channel c = None) AssertFailed (Inr ())"

definition cn_close :: "int \<Rightarrow> connector \<Rightarrow> connector" where
  "cn_close fd c = c\<lparr>cn_closed := cn_closed c @ [fd]\<rparr>"

text \<open>The timer that should start the next attempt is commented out: \<open>retry\<close> only closes the socket.\<close>

definition retry :: "int \<Rightarrow> connector \<Rightarrow> connector" where
  "retry fd c = (cn_close fd c)\<lparr>cn_state := CnDisconnected\<rparr>"

definition connecting :: "int \<Rightarrow> connector \<Rightarrow> connector res" where
  "connecting fd c =
     require (cn_channel c = None) AssertFailed
       (rbind (enable_writing (nat fd) (put_chan (nat fd) (channel_new fd) (cn_net c))) (\<lambda>r.
          Inr (c\<lparr>cn_state := CnConnecting, cn_channel := Some (nat fd), cn_net := r\<rparr>)))"

text \<open>The errors of \<open>connect\<close>: 0, EINPROGRESS, EINTR, EISCONN go on; EAGAIN, EADDRINUSE, EADDRNOTAVAIL,
  ECONNREFUSED, ENETUNREACH retry; all others close the socket.\<close>

definition connect_goes_on :: "int set" where "connect_goes_on = {0, 115, 4, 106}"
definition connect_retries :: "int set" where "connect_retries = {11, 98, 99, 111, 101}"

text \<open>\<open>sock\<close> is the new socket, \<open>err\<close> the error of \<open>connect\<close> on it, 0 for none.\<close>

definition connector_connect :: "int + int \<Rightarrow> int \<Rightarrow> connector \<Rightarrow> connector res" where
  "connector_connect sock err c =
     rbind (createNonblockingOrDie sock) (\<lambda>fd.
     let c1 = c\<lparr>cn_made := cn_made c @ [fd]\<rparr>
     in if err \<in> connect_goes_on then connecting fd c1
        else if err \<in> connect_retries then Inr (retry fd c1)
        else Inr (cn_close fd c1))"

definition connector_start_in_loop :: "int + int \<Rightarrow> int \<Rightarrow> connector \<Rightarrow> connector res" where
  "connector_start_in_loop sock err c =
     require (cn_state c = CnDisconnected) AssertFailed
       (if cn_connect c then connector_connect sock err c else Inr c)"

definition cn_post :: "cn_functor \<Rightarrow> connector \<Rightarrow> connector" where
  "cn_post f c = c\<lparr>cn_posted := cn_posted c @ [f]\<rparr>"

definition connector_start :: "bool \<Rightarrow> int + int \<Rightarrow> int \<Rightarrow> connector \<Rightarrow> connector res" where
  "connector_start own sock err c =
     (let c1 = c\<lparr>cn_connect := True\<rparr>
      in if own then connector_start_in_loop sock err c1 else Inr (cn_post Cn_start_in_loop c1))"

definition connector_restart :: "int + int \<Rightarrow> int \<Rightarrow> connector \<Rightarrow> connector res" where
  "connector_restart sock err c =
     connector_start_in_loop sock err
       (c\<lparr>cn_state := CnDisconnected, retry_delay_ms := kInitRetryDelayMs, cn_connect := True\<rparr>)"

definition connector_stop :: "connector \<Rightarrow> connector" where
  "connector_stop c = cn_post Cn_stop_in_loop (c\<lparr>cn_connect := False\<rparr>)"

definition removeAndResetChannel :: "connector \<Rightarrow> (int \<times> connector) res" where
  "removeAndResetChannel c =
     (case cn_channel c of
        None \<Rightarrow> Inl Undefined
      | Some k \<Rightarrow>
          rbind (disable_all k (cn_net c)) (\<lambda>r1.
          rbind (channel_remove k r1) (\<lambda>r2.
          rbind (the_channel k r2) (\<lambda>ch. Inr (ch_fd ch, cn_post Cn_reset_channel (c\<lparr>cn_net := r2\<rparr>))))))"

definition connector_stop_in_loop :: "connector \<Rightarrow> connector res" where
  "connector_stop_in_loop c =
     (if cn_state c = CnConnecting
      then rbind (removeAndResetChannel (c\<lparr>cn_state := CnDisconnected\<rparr>)) (\<lambda>(fd, c1). Inr (retry fd c1))
      else Inr c)"

text \<open>\<open>channel_.reset()\<close> destroys the channel, if there is one.\<close>

definition resetChannel :: "connector \<Rightarrow> connector res" where
  "resetChannel c =
     (case cn_channel c of
        None \<Rightarrow> Inr c
      | Some k \<Rightarrow> rbind (channel_destroy k (cn_net c)) (\<lambda>r. Inr (c\<lparr>cn_channel := None, cn_net := r\<rparr>)))"

text \<open>\<open>so_error\<close> is the answer of \<open>getSocketError\<close>, \<open>self\<close> that of \<open>isSelfConnect\<close>.\<close>

definition connector_handle_write :: "int \<Rightarrow> bool \<Rightarrow> connector \<Rightarrow> connector res" where
  "connector_handle_write so_error self c =
     (if cn_state c = CnConnecting then
        rbind (removeAndResetChannel c) (\<lambda>(fd, c1).
          if so_error \<noteq> 0 then Inr (retry fd c1)
          else if self then Inr (retry fd c1)
          else
            let c2 = c1\<lparr>cn_state := CnConnected\<rparr>
            in Inr (if cn_connect c2 then c2\<lparr>cn_handed := cn_handed c2 @ [fd]\<rparr> else cn_close fd c2))
      else require (cn_state c = CnDisconnected) AssertFailed (Inr c))"

definition connector_handle_error :: "connector \<Rightarrow> connector res" where
  "connector_handle_error c =
     (if cn_state c = CnConnecting
      then rbind (removeAndResetChannel c) (\<lambda>(fd, c1). Inr (retry fd c1)) else Inr c)"

fun run_cn_functor :: "int + int \<Rightarrow> int \<Rightarrow> cn_functor \<Rightarrow> connector \<Rightarrow> connector res" where
  "run_cn_functor sock err Cn_start_in_loop c = connector_start_in_loop sock err c"
| "run_cn_functor sock err Cn_stop_in_loop c = connector_stop_in_loop c"
| "run_cn_functor sock err Cn_reset_channel c = resetChannel c"

text \<open>The events of the connector's channel: it has a write and an error callback only.\<close>

fun run_cn_callback :: "int \<Rightarrow> bool \<Rightarrow> callback \<Rightarrow> connector \<Rightarrow> connector res" where
  "run_cn_callback so_error self Write_callback c = connector_handle_write so_error self c"
| "run_cn_callback so_error self Error_callback c = connector_handle_error c"
| "run_cn_callback so_error self _ c = Inr c"

fun run_cn_callbacks :: "int \<Rightarrow> bool \<Rightarrow> callback list \<Rightarrow> connector \<Rightarrow> connector res" where
  "run_cn_callbacks so_error self [] c = Inr c"
| "run_cn_callbacks so_error self (b # bs) c =
     rbind (run_cn_callback so_error self b c) (run_cn_callbacks so_error self bs)"

section \<open>TcpClient\<close>

text \<open>
  \<open>cl_connection\<close> is the serial number of the connection object, \<open>cl_names\<close> the objects made with their descriptor
  and name. \<open>cl_posted\<close> is what the client had its connections do: \<open>connectEstablished\<close> and
  \<open>connectDestroyed\<close>, and the calls of \<open>shutdown\<close> and \<open>forceClose\<close>.
\<close>

datatype cl_action = Cl_established nat | Cl_destroyed nat | Cl_shutdown nat | Cl_force_close nat | Cl_set_close_callback nat

record tcp_client =
  cl_connector :: connector
  cl_name :: string
  cl_retry :: bool
  cl_connect :: bool
  cl_next_id :: int
  cl_connection :: "nat option"
  cl_names :: "(nat \<times> int \<times> string) list"
  cl_posted :: "cl_action list"

definition tcp_client_new :: "reactor \<Rightarrow> string \<Rightarrow> tcp_client" where
  "tcp_client_new r nm =
     \<lparr>cl_connector = connector_new r, cl_name = nm, cl_retry = False, cl_connect = True, cl_next_id = 1,
      cl_connection = None, cl_names = [], cl_posted = []\<rparr>"

definition cl_post :: "cl_action \<Rightarrow> tcp_client \<Rightarrow> tcp_client" where
  "cl_post a t = t\<lparr>cl_posted := cl_posted t @ [a]\<rparr>"

definition on_connector :: "(connector \<Rightarrow> connector res) \<Rightarrow> tcp_client \<Rightarrow> tcp_client res" where
  "on_connector f t = rbind (f (cl_connector t)) (\<lambda>c. Inr (t\<lparr>cl_connector := c\<rparr>))"

definition client_connect :: "bool \<Rightarrow> int + int \<Rightarrow> int \<Rightarrow> tcp_client \<Rightarrow> tcp_client res" where
  "client_connect own sock err t = on_connector (connector_start own sock err) (t\<lparr>cl_connect := True\<rparr>)"

definition client_disconnect :: "tcp_client \<Rightarrow> tcp_client" where
  "client_disconnect t =
     (let t1 = t\<lparr>cl_connect := False\<rparr>
      in case cl_connection t1 of None \<Rightarrow> t1 | Some k \<Rightarrow> cl_post (Cl_shutdown k) t1)"

definition client_stop :: "tcp_client \<Rightarrow> tcp_client" where
  "client_stop t = t\<lparr>cl_connect := False, cl_connector := connector_stop (cl_connector t)\<rparr>"

definition enableRetry :: "tcp_client \<Rightarrow> tcp_client" where "enableRetry t = t\<lparr>cl_retry := True\<rparr>"

text \<open>\<open>peer\<close> is the peer's address as \<open>toIpPort\<close> writes it; the name part fits 31 characters.\<close>

definition client_newConnection :: "string \<Rightarrow> int \<Rightarrow> tcp_client \<Rightarrow> tcp_client res" where
  "client_newConnection peer fd t =
     (let i = cl_next_id t; k = nat i;
          nm = cl_name t @ snprintf_trunc 32 ('':'' @ peer @ ''#'' @ int_to_string i)
      in require (i < int_max) Undefined
           (Inr (cl_post (Cl_established k)
              (t\<lparr>cl_next_id := i + 1, cl_names := cl_names t @ [(k, fd, nm)], cl_connection := Some k\<rparr>))))"

text \<open>The close callback of the client's connection.\<close>

definition client_removeConnection :: "int + int \<Rightarrow> int \<Rightarrow> nat \<Rightarrow> tcp_client \<Rightarrow> tcp_client res" where
  "client_removeConnection sock err k t =
     require (cl_connection t = Some k) AssertFailed
       (let t1 = cl_post (Cl_destroyed k) (t\<lparr>cl_connection := None\<rparr>)
        in if cl_retry t1 \<and> cl_connect t1 then on_connector (connector_restart sock err) t1 else Inr t1)"

text \<open>The destructor; \<open>unique\<close> is whether nobody else holds the connection.\<close>

definition client_destroy :: "bool \<Rightarrow> tcp_client \<Rightarrow> tcp_client" where
  "client_destroy unique t =
     (case cl_connection t of
        Some k \<Rightarrow>
          let t1 = cl_post (Cl_set_close_callback k) t
          in if unique then cl_post (Cl_force_close k) t1 else t1
      | None \<Rightarrow> t\<lparr>cl_connector := connector_stop (cl_connector t)\<rparr>)"

section \<open>Runs of a connector\<close>

text \<open>
  A new socket gets a descriptor no channel of the poller has. The connector is restarted by the client
  only after it was connected; events are reported while its channel is in the kernel's set.
\<close>

datatype cn_event =
    Cn_start bool int int
  | Cn_stop
  | Cn_restart int int
  | Cn_functor int int
  | Cn_reported "32 word" int bool

fun cn_do :: "cn_event \<Rightarrow> connector \<Rightarrow> connector res" where
  "cn_do (Cn_start own fd err) c = connector_start own (Inr fd) err c"
| "cn_do Cn_stop c = Inr (connector_stop c)"
| "cn_do (Cn_restart fd err) c = connector_restart (Inr fd) err c"
| "cn_do (Cn_functor fd err) c =
     (case cn_posted c of [] \<Rightarrow> Inr c | f # fs \<Rightarrow> run_cn_functor (Inr fd) err f (c\<lparr>cn_posted := fs\<rparr>))"
| "cn_do (Cn_reported ev so_error self) c = run_cn_callbacks so_error self (handle_event ev) c"

definition fresh_fd :: "int \<Rightarrow> connector \<Rightarrow> bool" where
  "fresh_fd fd c \<longleftrightarrow> 0 \<le> fd \<and> po_channels (cn_net c) fd = None \<and>
     (chans (cn_net c) (nat fd) = None \<or> cn_channel c = Some (nat fd))"

fun cn_enabled :: "cn_event \<Rightarrow> connector \<Rightarrow> bool" where
  "cn_enabled (Cn_start own fd err) c = fresh_fd fd c"
| "cn_enabled Cn_stop c = True"
| "cn_enabled (Cn_restart fd err) c = (fresh_fd fd c \<and> cn_state c = CnConnected)"
| "cn_enabled (Cn_functor fd err) c = fresh_fd fd c"
| "cn_enabled (Cn_reported ev so_error self) c = (cn_state c = CnConnecting)"

text \<open>The assertions that can fail: a start in another state than disconnected, or while the channel of the
  attempt before is not destroyed yet.\<close>

definition start_fails :: "int \<Rightarrow> connector \<Rightarrow> bool" where
  "start_fails err c \<longleftrightarrow> err \<in> connect_goes_on \<and> cn_channel c \<noteq> None"

fun cn_asserts :: "cn_event \<Rightarrow> connector \<Rightarrow> bool" where
  "cn_asserts (Cn_start own fd err) c = (own \<and> (cn_state c \<noteq> CnDisconnected \<or> start_fails err c))"
| "cn_asserts (Cn_restart fd err) c = start_fails err c"
| "cn_asserts (Cn_functor fd err) c =
     (case cn_posted c of Cn_start_in_loop # fs \<Rightarrow> cn_state c \<noteq> CnDisconnected \<or> (cn_connect c \<and> start_fails err c)
      | _ \<Rightarrow> False)"
| "cn_asserts _ c = False"

inductive cn_reach :: "connector \<Rightarrow> bool" where
  new: "poller_ok r \<Longrightarrow> \<not> event_handling r \<Longrightarrow> cn_reach (connector_new r)"
| step: "cn_reach c \<Longrightarrow> cn_enabled e c \<Longrightarrow> cn_do e c = Inr c' \<Longrightarrow> cn_reach c'"

definition cn_ok :: "connector \<Rightarrow> bool" where
  "cn_ok c \<longleftrightarrow> poller_ok (cn_net c) \<and> \<not> event_handling (cn_net c) \<and>
     (case cn_channel c of
        None \<Rightarrow> cn_state c \<noteq> CnConnecting \<and> Cn_reset_channel \<notin> set (cn_posted c) \<and>
          mset (cn_made c) = mset (cn_closed c) + mset (cn_handed c)
      | Some k \<Rightarrow> \<exists>ch. chans (cn_net c) k = Some ch \<and>
          (if cn_state c = CnConnecting
           then po_channels (cn_net c) (ch_fd ch) = Some k \<and> Cn_reset_channel \<notin> set (cn_posted c) \<and> ch_events ch \<noteq> 0 \<and>
             mset (cn_made c) = mset (cn_closed c) + mset (cn_handed c) + {#ch_fd ch#}
           else po_channels (cn_net c) (ch_fd ch) \<noteq> Some k \<and> \<not> added_to_loop ch \<and>
             count_list (cn_posted c) Cn_reset_channel = 1 \<and>
             mset (cn_made c) = mset (cn_closed c) + mset (cn_handed c)))"

lemma connecting_ok:
  assumes "poller_ok (cn_net c)" "\<not> event_handling (cn_net c)" "fresh_fd fd c" "cn_channel c = None"
    "Cn_reset_channel \<notin> set (cn_posted c)" "mset (cn_made c) = mset (cn_closed c) + mset (cn_handed c) + {#fd#}"
  shows "\<exists>c'. connecting fd c = Inr c' \<and> cn_ok c' \<and> cn_state c' = CnConnecting \<and> cn_posted c' = cn_posted c"
proof -
  have f: "chans (cn_net c) (nat fd) = None" "po_channels (cn_net c) fd = None"
    using assms(3,4) by (auto simp: fresh_fd_def)
  let ?r = "put_chan (nat fd) (channel_new fd) (cn_net c)"
  have r: "poller_ok ?r" "chans ?r (nat fd) = Some (channel_new fd)" "po_channels ?r (ch_fd (channel_new fd)) = None"
      "\<not> event_handling ?r"
    using poller_ok_new [OF assms(1) f(1)] f(2) assms(2) by (simp_all add: put_chan_def channel_new_def)
  have zero: "ch_fd (channel_new fd) = fd" "ch_events (channel_new fd) = 0" by (simp_all add: channel_new_def)
  obtain r' i where r': "enable_writing (nat fd) ?r = Inr r'" "poller_ok r'" "\<not> event_handling r'"
    "chans r' (nat fd) = Some ((channel_new fd)\<lparr>ch_events := EPOLLOUT, added_to_loop := True, ch_index := i\<rparr>)"
    "po_channels r' fd = Some (nat fd)"
    using set_events_ok [OF r(1,2), of "\<lambda>e. e OR EPOLLOUT"] r(3,4) unfolding enable_writing_def zero by auto
  have "connecting fd c = Inr (c\<lparr>cn_state := CnConnecting, cn_channel := Some (nat fd), cn_net := r'\<rparr>)"
    using r'(1) assms(4) by (simp add: connecting_def)
  with r' assms(5,6) show ?thesis by (simp add: cn_ok_def zero EPOLLOUT_def)
qed

lemma removed_channel:
  assumes "cn_ok c" "cn_state c = CnConnecting"
  shows "\<exists>fd c1. removeAndResetChannel c = Inr (fd, c1) \<and> cn_connect c1 = cn_connect c \<and>
    cn_posted c1 = cn_posted c @ [Cn_reset_channel] \<and>
    cn_ok (retry fd c1) \<and> cn_ok (cn_close fd (c1\<lparr>cn_state := CnConnected\<rparr>)) \<and>
    cn_ok (c1\<lparr>cn_state := CnConnected, cn_handed := cn_handed c1 @ [fd]\<rparr>)"
proof -
  let ?r = "cn_net c"
  obtain k ch where k: "cn_channel c = Some k" "chans ?r k = Some ch" "po_channels ?r (ch_fd ch) = Some k"
    "Cn_reset_channel \<notin> set (cn_posted c)" "mset (cn_made c) = mset (cn_closed c) + mset (cn_handed c) + {#ch_fd ch#}"
    and p: "poller_ok ?r" "\<not> event_handling ?r"
    using assms by (auto simp: cn_ok_def split: option.splits)
  obtain r1 i where r1: "disable_all k ?r = Inr r1" "poller_ok r1" "\<not> event_handling r1"
    "chans r1 k = Some (ch\<lparr>ch_events := 0, added_to_loop := True, ch_index := i\<rparr>)"
    "po_channels r1 (ch_fd ch) = Some k"
    using set_events_ok [OF p(1) k(2), of "\<lambda>_. 0"] k(3) p(2) unfolding disable_all_def by auto
  obtain r2 where r2: "channel_remove k r1 = Inr r2" "poller_ok r2" "\<not> event_handling r2" "po_channels r2 (ch_fd ch) = None"
    "chans r2 k = Some (ch\<lparr>ch_events := 0, added_to_loop := False, ch_index := kNew\<rparr>)"
    using channel_remove_ok [OF r1(2,4)] r1(3,5) by auto
  let ?c1 = "cn_post Cn_reset_channel (c\<lparr>cn_net := r2\<rparr>)"
  have "removeAndResetChannel c = Inr (ch_fd ch, ?c1)"
    using k(1) r1(1) r2(1,5) by (simp add: removeAndResetChannel_def the_channel_def)
  with r2 k show ?thesis by (simp add: cn_ok_def cn_post_def count_notin retry_def cn_close_def)
qed

lemma removeAndResetChannel_state:
  "removeAndResetChannel (c\<lparr>cn_state := st\<rparr>) = rbind (removeAndResetChannel c) (\<lambda>(fd, c1). Inr (fd, c1\<lparr>cn_state := st\<rparr>))"
proof (cases "cn_channel c")
  case (Some k)
  show ?thesis
  proof (cases "disable_all k (cn_net c)")
    case (Inr r1)
    show ?thesis
    proof (cases "channel_remove k r1")
      case r2: (Inr r2)
      show ?thesis using Some Inr r2 by (cases "the_channel k r2") (simp_all add: removeAndResetChannel_def cn_post_def)
    qed (simp add: Some Inr removeAndResetChannel_def)
  qed (simp add: Some removeAndResetChannel_def)
qed (simp add: removeAndResetChannel_def)

lemma start_in_loop_ok:
  assumes "cn_ok c" "fresh_fd fd c" "cn_state c = CnDisconnected"
  shows "if cn_connect c \<and> start_fails err c then connector_start_in_loop (Inr fd) err c = Inl AssertFailed
    else \<exists>c'. connector_start_in_loop (Inr fd) err c = Inr c' \<and> cn_ok c'"
proof (cases "cn_connect c")
  case False
  then show ?thesis using assms(1,3) by (simp add: connector_start_in_loop_def)
next
  case True
  let ?c = "c\<lparr>cn_made := cn_made c @ [fd]\<rparr>"
  have m: "mset (cn_made c) = mset (cn_closed c) + mset (cn_handed c)"
    using assms(1,3) by (auto simp: cn_ok_def split: option.splits)
  have start: "connector_start_in_loop (Inr fd) err c =
      (if err \<in> connect_goes_on then connecting fd ?c
       else if err \<in> connect_retries then Inr (retry fd ?c) else Inr (cn_close fd ?c))"
    using True assms(3)
    by (simp add: connector_start_in_loop_def connector_connect_def createNonblockingOrDie_def or_die_def Let_def)
  show ?thesis
  proof (cases "err \<in> connect_goes_on")
    case False
    have "cn_ok (retry fd ?c)" "cn_ok (cn_close fd ?c)"
      using assms(1,3) m by (auto simp: cn_ok_def retry_def cn_close_def split: option.splits)
    with False show ?thesis by (simp add: start start_fails_def)
  next
    case on: True
    show ?thesis
    proof (cases "cn_channel c = None")
      case True
      have "poller_ok (cn_net ?c)" "\<not> event_handling (cn_net ?c)" "fresh_fd fd ?c" "cn_channel ?c = None"
        "Cn_reset_channel \<notin> set (cn_posted ?c)" "mset (cn_made ?c) = mset (cn_closed ?c) + mset (cn_handed ?c) + {#fd#}"
        using assms True m by (auto simp: cn_ok_def fresh_fd_def)
      from connecting_ok [OF this] have "\<exists>c'. connecting fd ?c = Inr c' \<and> cn_ok c'" by blast
      with True on show ?thesis by (simp add: start start_fails_def)
    next
      case False
      then obtain k where "cn_channel c = Some k" by blast
      then have "connecting fd ?c = Inl AssertFailed" by (simp add: connecting_def)
      with False on \<open>cn_connect c\<close> show ?thesis by (simp add: start start_fails_def)
    qed
  qed
qed

lemma cn_ok_post: "f \<noteq> Cn_reset_channel \<Longrightarrow> cn_ok c \<Longrightarrow> cn_ok (cn_post f c)"
  by (auto simp: cn_ok_def cn_post_def split: option.splits)

lemma cn_ok_flags [simp]: "cn_ok (c\<lparr>cn_connect := b, retry_delay_ms := n\<rparr>) = cn_ok c" "cn_ok (c\<lparr>cn_connect := b\<rparr>) = cn_ok c"
  by (simp_all add: cn_ok_def cong: option.case_cong)

lemma give_up_ok:
  assumes "cn_ok c" "cn_state c = CnConnecting"
  shows "\<exists>c'. rbind (removeAndResetChannel c) (\<lambda>(fd, c1). Inr (retry fd c1)) = Inr c' \<and> cn_ok c' \<and>
    cn_state c' = CnDisconnected \<and> cn_posted c' = cn_posted c @ [Cn_reset_channel]"
proof -
  obtain fd c1 where r: "removeAndResetChannel c = Inr (fd, c1)" "cn_posted c1 = cn_posted c @ [Cn_reset_channel]"
    "cn_ok (retry fd c1)"
    using removed_channel [OF assms] by blast
  then show ?thesis by (simp add: retry_def cn_close_def)
qed

lemma stop_in_loop_ok: "cn_ok c \<Longrightarrow> \<exists>c'. connector_stop_in_loop c = Inr c' \<and> cn_ok c'"
proof (cases "cn_state c = CnConnecting")
  case True
  moreover assume "cn_ok c"
  ultimately obtain fd c1 where "removeAndResetChannel c = Inr (fd, c1)"
    "cn_ok (retry fd c1)"
    using removed_channel by blast
  moreover have "retry fd (c1\<lparr>cn_state := CnDisconnected\<rparr>) = retry fd c1"
    by (simp add: retry_def cn_close_def)
  ultimately show ?thesis using True
    by (simp add: connector_stop_in_loop_def removeAndResetChannel_state)
qed (simp add: connector_stop_in_loop_def)

lemma handle_error_ok: "cn_ok c \<Longrightarrow> \<exists>c'. connector_handle_error c = Inr c' \<and> cn_ok c'"
  using give_up_ok [of c] by (auto simp: connector_handle_error_def)

lemma handle_write_ok:
  assumes "cn_ok c" "cn_state c = CnConnecting"
  shows "\<exists>c'. connector_handle_write so_error self c = Inr c' \<and> cn_ok c'"
proof -
  obtain fd c1 where r: "removeAndResetChannel c = Inr (fd, c1)"
    and ok: "cn_ok (retry fd c1)" "cn_ok (cn_close fd (c1\<lparr>cn_state := CnConnected\<rparr>))"
      "cn_ok (c1\<lparr>cn_state := CnConnected, cn_handed := cn_handed c1 @ [fd]\<rparr>)"
    using removed_channel [OF assms] by blast
  then show ?thesis using assms(2) by (simp add: connector_handle_write_def Let_def)
qed

lemma cn_callbacks_append:
  "run_cn_callbacks e sf (xs @ ys) c = rbind (run_cn_callbacks e sf xs c) (run_cn_callbacks e sf ys)"
proof (induction xs arbitrary: c)
  case (Cons x xs)
  then show ?case by (cases "run_cn_callback e sf x c") simp_all
qed simp

lemma cn_reported_ok:
  assumes "cn_ok c" "cn_state c = CnConnecting"
  shows "\<exists>c'. run_cn_callbacks so_error self (handle_event ev) c = Inr c' \<and> cn_ok c'"
proof -
  let ?a = "(if ev AND EPOLLHUP \<noteq> 0 \<and> ev AND EPOLLIN = 0 then [Close_callback] else []) @
     (if ev AND (EPOLLIN OR EPOLLPRI OR EPOLLRDHUP) \<noteq> 0 then [Read_callback] else [])"
  let ?w = "if ev AND EPOLLOUT \<noteq> 0 then [Write_callback] else []"
  let ?e = "if ev AND (EPOLLERR OR POLLNVAL) \<noteq> 0 then [Error_callback] else []"
  have "run_cn_callbacks so_error self ?a c = Inr c" by simp
  moreover obtain c1 where w: "run_cn_callbacks so_error self ?w c = Inr c1" "cn_ok c1"
  proof (cases "ev AND EPOLLOUT = 0")
    case False
    with handle_write_ok [OF assms, of so_error self] that show ?thesis by auto
  qed (use assms(1) that in simp)
  moreover obtain c2 where "run_cn_callbacks so_error self ?e c1 = Inr c2" "cn_ok c2"
  proof (cases "ev AND (EPOLLERR OR POLLNVAL) = 0")
    case False
    with handle_error_ok [OF w(2)] that show ?thesis by auto
  qed (use w(2) that in simp)
  moreover have "handle_event ev = ?a @ ?w @ ?e" by (simp add: handle_event_def)
  ultimately show ?thesis by (simp only: cn_callbacks_append rbind_simps) blast
qed

lemma resetChannel_ok:
  assumes "cn_ok c" "cn_posted c = Cn_reset_channel # fs"
  shows "\<exists>c'. resetChannel (c\<lparr>cn_posted := fs\<rparr>) = Inr c' \<and> cn_ok c'"
proof -
  obtain k ch where k: "cn_channel c = Some k" "chans (cn_net c) k = Some ch" "cn_state c \<noteq> CnConnecting"
    "po_channels (cn_net c) (ch_fd ch) \<noteq> Some k" "\<not> added_to_loop ch" "count_list (cn_posted c) Cn_reset_channel = 1"
    "mset (cn_made c) = mset (cn_closed c) + mset (cn_handed c)" "poller_ok (cn_net c)" "\<not> event_handling (cn_net c)"
    using assms by (auto simp: cn_ok_def split: option.splits if_splits)
  have "channel_destroy k (cn_net c) = Inr ((cn_net c)\<lparr>chans := (chans (cn_net c))(k := None)\<rparr>)"
    using k(2,4,5) by (simp add: channel_destroy_def the_channel_def has_channel_def)
  moreover have "Cn_reset_channel \<notin> set fs" using k(6) assms(2) by (simp add: count_list_0_iff)
  ultimately show ?thesis
    using k poller_ok_destroy [OF k(8,2,4)] by (simp add: resetChannel_def cn_ok_def)
qed

lemma cn_do_ok:
  assumes "cn_ok c" "cn_enabled e c"
  shows "if cn_asserts e c then cn_do e c = Inl AssertFailed else \<exists>c'. cn_do e c = Inr c' \<and> cn_ok c'"
proof (cases e)
  case (Cn_start own fd err)
  let ?c = "c\<lparr>cn_connect := True\<rparr>"
  have ok: "cn_ok ?c" "fresh_fd fd ?c" "start_fails err ?c = start_fails err c"
    using assms Cn_start by (simp_all add: fresh_fd_def start_fails_def)
  show ?thesis
  proof (cases "own \<and> cn_state c = CnDisconnected")
    case True
    with start_in_loop_ok [OF ok(1,2), of err] ok(3) Cn_start show ?thesis by (auto simp: connector_start_def split: if_splits)
  next
    case False
    then show ?thesis using Cn_start ok(1) cn_ok_post [of Cn_start_in_loop ?c]
      by (auto simp: connector_start_def connector_start_in_loop_def)
  qed
next
  case Cn_stop
  with assms(1) show ?thesis by (simp add: connector_stop_def cn_ok_post)
next
  case (Cn_restart fd err)
  let ?c = "c\<lparr>cn_state := CnDisconnected, retry_delay_ms := kInitRetryDelayMs, cn_connect := True\<rparr>"
  have "cn_ok ?c" "fresh_fd fd ?c" "start_fails err ?c = start_fails err c"
    using assms Cn_restart by (auto simp: fresh_fd_def start_fails_def cn_ok_def split: option.splits)
  with start_in_loop_ok [of ?c fd err] Cn_restart show ?thesis by (auto simp: connector_restart_def split: if_splits)
next
  case (Cn_functor fd err)
  show ?thesis
  proof (cases "cn_posted c")
    case Nil
    with Cn_functor assms(1) show ?thesis by auto
  next
    case (Cons f fs)
    let ?c = "c\<lparr>cn_posted := fs\<rparr>"
    have ok: "cn_ok ?c" if "f \<noteq> Cn_reset_channel"
      using assms(1) Cons that by (auto simp: cn_ok_def split: option.splits if_splits)
    show ?thesis
    proof (cases f)
      case Cn_start_in_loop
      have "fresh_fd fd ?c" "start_fails err ?c = start_fails err c"
        using assms(2) Cn_functor by (simp_all add: fresh_fd_def start_fails_def)
      with start_in_loop_ok [of ?c fd err] ok Cn_start_in_loop Cn_functor Cons show ?thesis
        by (cases "cn_state c = CnDisconnected") (auto simp: connector_start_in_loop_def split: if_splits)
    next
      case Cn_stop_in_loop
      with stop_in_loop_ok [OF ok] Cn_functor Cons show ?thesis by simp
    next
      case Cn_reset_channel
      with resetChannel_ok [OF assms(1)] Cn_functor Cons show ?thesis by simp
    qed
  qed
next
  case (Cn_reported ev so_error self)
  with cn_reported_ok [OF assms(1)] assms(2) show ?thesis by simp
qed

lemma cn_reach_ok: "cn_reach c \<Longrightarrow> cn_ok c"
proof (induction rule: cn_reach.induct)
  case (step c e c')
  with cn_do_ok [of c e] show ?case by (cases "cn_asserts e c") auto
qed (simp add: connector_new_def cn_ok_def)

section \<open>Properties\<close>

text \<open>C40: no descriptor leaks and none is closed twice. In every run, the sockets made are exactly those closed,
  those handed to the client and the one of the attempt under way; and the operations return except
  where an assertion says so: a start in another state than disconnected, also after an earlier
  connection has ended, or one that connects while the channel of the last attempt still exists.\<close>

theorem sockets_accounted:
  assumes "cn_reach c" "cn_enabled e c"
  shows "(\<exists>under_way. mset (cn_made c) = mset (cn_closed c) + mset (cn_handed c) + under_way \<and>
      size under_way = (if cn_state c = CnConnecting then 1 else 0)) \<and>
    (if cn_asserts e c then cn_do e c = Inl AssertFailed else \<exists>c'. cn_do e c = Inr c' \<and> cn_reach c')"
proof (rule conjI)
  have ok: "cn_ok c" by (rule cn_reach_ok [OF assms(1)])
  show "\<exists>under_way. mset (cn_made c) = mset (cn_closed c) + mset (cn_handed c) + under_way \<and>
      size under_way = (if cn_state c = CnConnecting then 1 else 0)"
  proof (cases "cn_state c = CnConnecting")
    case True
    with ok obtain fd where "mset (cn_made c) = mset (cn_closed c) + mset (cn_handed c) + {#fd#}"
      by (auto simp: cn_ok_def split: option.splits)
    with True show ?thesis by (intro exI [of _ "{#fd#}"]) simp
  next
    case False
    with ok have "mset (cn_made c) = mset (cn_closed c) + mset (cn_handed c)"
      by (auto simp: cn_ok_def split: option.splits)
    with False show ?thesis by (intro exI [of _ "{#}"]) simp
  qed
  show "if cn_asserts e c then cn_do e c = Inl AssertFailed else \<exists>c'. cn_do e c = Inr c' \<and> cn_reach c'"
    using cn_do_ok [OF ok assms(2)] cn_reach.step [OF assms] by (cases "cn_asserts e c") auto
qed

text \<open>An attempt that is refused is never repeated, although the connector announces a retry and wants to be
  connected: whether \<open>connect\<close> fails at once or the error comes with the write event, the socket is closed
  and no functor that would start again is queued.\<close>

theorem refused_attempt_is_not_repeated:
  assumes "cn_reach c"
  shows "(cn_state c = CnDisconnected \<and> cn_connect c \<and> err \<in> connect_retries \<longrightarrow>
      (\<exists>c'. connector_start_in_loop (Inr fd) err c = Inr c' \<and> cn_state c' = CnDisconnected \<and> cn_connect c' \<and>
         cn_closed c' = cn_closed c @ [fd] \<and> cn_posted c' = cn_posted c)) \<and>
    (cn_state c = CnConnecting \<and> so_error \<noteq> 0 \<longrightarrow>
      (\<exists>c'. connector_handle_write so_error self c = Inr c' \<and> cn_state c' = CnDisconnected \<and>
         cn_posted c' = cn_posted c @ [Cn_reset_channel]))"
proof (intro conjI impI)
  assume a: "cn_state c = CnDisconnected \<and> cn_connect c \<and> err \<in> connect_retries"
  then have "err \<notin> connect_goes_on" by (auto simp: connect_retries_def connect_goes_on_def)
  with a show "\<exists>c'. connector_start_in_loop (Inr fd) err c = Inr c' \<and> cn_state c' = CnDisconnected \<and> cn_connect c' \<and>
      cn_closed c' = cn_closed c @ [fd] \<and> cn_posted c' = cn_posted c"
    by (simp add: connector_start_in_loop_def connector_connect_def createNonblockingOrDie_def or_die_def retry_def
        cn_close_def Let_def)
next
  assume a: "cn_state c = CnConnecting \<and> so_error \<noteq> 0"
  obtain fd' c1 where "removeAndResetChannel c = Inr (fd', c1)" "cn_posted c1 = cn_posted c @ [Cn_reset_channel]"
    using removed_channel [OF cn_reach_ok [OF assms]] a by blast
  with a show "\<exists>c'. connector_handle_write so_error self c = Inr c' \<and> cn_state c' = CnDisconnected \<and>
      cn_posted c' = cn_posted c @ [Cn_reset_channel]"
    by (simp add: connector_handle_write_def retry_def cn_close_def)
qed

lemma sample_connector: "\<exists>c. cn_reach c \<and> cn_state c = CnConnecting"
proof -
  let ?c = "connector_new poller_new"
  have r: "cn_reach ?c" by (rule cn_reach.new) (simp_all add: poller_ok_def poller_new_def)
  have e: "cn_enabled (Cn_start True 5 115) ?c"
    by (simp add: fresh_fd_def connector_new_def poller_new_def)
  obtain c where c: "cn_do (Cn_start True 5 115) ?c = Inr c"
    using cn_do_ok [OF cn_reach_ok [OF r] e] by (auto simp: start_fails_def connector_new_def)
  then have "cn_state c = CnConnecting"
    by (auto simp: connector_start_def connector_start_in_loop_def connector_connect_def connecting_def
        connector_new_def createNonblockingOrDie_def or_die_def connect_goes_on_def rbind_Inr_iff)
  with cn_reach.step [OF r e c] show ?thesis by blast
qed

theorem sockets_accounted_witness:
  "\<exists>c c' u. cn_reach c \<and> mset (cn_made c) = mset (cn_closed c) + mset (cn_handed c) + u \<and> size u = 1 \<and>
     cn_do (Cn_reported EPOLLOUT 0 False) c = Inr c'"
proof -
  obtain c where c: "cn_reach c" "cn_state c = CnConnecting" using sample_connector by blast
  have "cn_enabled (Cn_reported EPOLLOUT 0 False) c" using c(2) by simp
  from sockets_accounted [OF c(1) this] have
    "\<exists>u. mset (cn_made c) = mset (cn_closed c) + mset (cn_handed c) + u \<and> size u = 1"
    "\<exists>c'. cn_do (Cn_reported EPOLLOUT 0 False) c = Inr c'" using c(2) by auto
  with c(1) show ?thesis by blast
qed

theorem refused_attempt_is_not_repeated_witness:
  "\<exists>c c'. cn_reach c \<and> connector_handle_write 111 False c = Inr c' \<and> cn_state c' = CnDisconnected"
proof -
  obtain c where c: "cn_reach c" "cn_state c = CnConnecting" using sample_connector by blast
  have "\<exists>c'. connector_handle_write 111 False c = Inr c' \<and> cn_state c' = CnDisconnected"
    using refused_attempt_is_not_repeated [OF c(1), of 0 0 111 False] c(2) by auto
  with c(1) show ?thesis by blast
qed

end
