(* ===== verification/Spec2Isabelle.thy ===== *)
theory Spec2Isabelle
  imports UnitSession Sessions JsonNumber TtsCodec TcpConnection TcpServer TcpClient
begin

text \<open>
  A model of Edge-Flow-Infra, the C++ runtime under \<open>src/\<close> that runs inference nodes behind one TCP port.

  The parts and how they interact. Clients send JSON requests over TCP to the unit manager
  (\<open>unit-manager/\<close>), which serves them on the reactor library \<open>network/\<close>. Each connection is a session
  with a ZMQ socket of its own on which the answers come back. The manager turns a request into an RPC call to the node that
  owns the named unit, or publishes it on the unit's inference socket when its action is
  \<open>inference\<close>. A node (\<open>node/\<close>) is a class over \<open>infra-controller/\<close>'s \<open>StackFlow\<close>: it registers with the manager
  by RPC, which allocates a unit with two ports and answers its two URLs; the node then keeps one task and
  one channel of sockets per unit, runs the inference messages, directly or through a job queue and a
  worker thread around an engine, and sends each result to the unit's output URL and to the client's URL. All
  the sockets and RPC calls are those of \<open>hybrid-comm/\<close>.

  Theories, in the order they build on each other.
  \<^item> \<open>Prelude\<close>: faults (exceptions, failed assertions, undefined behaviour) as values of a sum, sequencing,
    and the parts of \<open>std::string\<close> the sources use. \<open>SlotPool\<close>, and the locales \<open>bounded_queue\<close> of \<open>JobQueue\<close>,
    \<open>byte_queue\<close> of \<open>NetBuffer\<close> and \<open>session_node\<close> of \<open>NodeTasks\<close>, are the interfaces: each is interpreted on the model of the
    code that provides it.
  \<^item> \<open>ZmqParam\<close> (\<open>pzmq_data\<close>), \<open>Pzmq\<close> (\<open>pzmq.hpp\<close>): messages, sockets, RPC calls and the RPC server's step.
  \<^item> \<open>StackFlowUtil\<close> (\<open>StackFlowUtil.cpp\<close>): the text scanner, work ids, UTF-8, streams. \<open>Format\<close>: the \<open>printf\<close> and
    \<open>scanf\<close> conversions of the URLs.
  \<^item> \<open>Json\<close> (values, and the text a value stands for), \<open>JsonLexer\<close>, \<open>JsonParser\<close>, \<open>JsonSerializer\<close>: the lexer, the parser with
    its two DOM builders, and the serializer of \<open>utils/json.hpp\<close>, which every process includes. Their lemmas:
    \<open>JsonUtf8\<close> (the UTF-8 automaton), \<open>JsonText\<close> (what is printed), \<open>JsonScan\<close> (tokens), \<open>JsonDom\<close> (the parser returns),
    \<open>JsonRoundTrip\<close>, \<open>JsonCodepoint\<close> (UTF-8 as code points), \<open>JsonSound\<close> (parsed values are well formed), \<open>JsonNumber\<close>
    (the number grammar), \<open>JsonFields\<close> (texts the processes build by hand).
  \<^item> \<open>UnitServer\<close> (\<open>all.h\<close>, \<open>unit_data\<close>, \<open>remote_server.cpp\<close>), \<open>UnitBus\<close> (\<open>remote_action.cpp\<close>, \<open>zmq_bus.cpp\<close>),
    \<open>UnitSession\<close> (\<open>session.h\<close>, \<open>tcp_comm.cpp\<close>, \<open>config.cpp\<close>, \<open>main.cpp\<close>): the manager. Its state \<open>um_state\<close>
    holds the globals: the data base, the port list, the counter, and what was sent.
  \<^item> \<open>LlmChannel\<close> (\<open>channel.cpp\<close>), \<open>StackFlow\<close> (\<open>StackFlow.h\<close>, \<open>StackFlow.cpp\<close>): the base class of a node, over the state
    \<open>'n\<close> a node adds. \<open>JobQueue\<close> (\<open>NodeJobQueue.h\<close>, \<open>NodeRuntimeUtil.h\<close>). \<open>Nodes\<close> (echo, test), \<open>TtsCodec\<close>, \<open>Engines\<close>,
    \<open>WorkerNodes\<close> (llm, asr, tts): the node classes. \<open>NodeTasks\<close> and \<open>Sessions\<close> hold their properties.
  \<^item> \<open>NetBuffer\<close> (\<open>Buffer\<close>, \<open>Endian.h\<close>), \<open>NetAddress\<close> (\<open>InetAddress\<close>, \<open>SocketsOps\<close>), \<open>Reactor\<close> (\<open>Channel\<close>, \<open>Poller\<close>,
    \<open>EventLoop\<close>), \<open>TcpConnection\<close>, \<open>TcpServer\<close> (with \<open>Acceptor\<close> and the loop threads), \<open>TcpClient\<close> (with \<open>Connector\<close>).

  What the lemmas show.
  \<^item> The manager: the port list, the data base and the live units agree under every RPC sequence, so no two units share a port or
    a URL; every kind of request has its exact outcome; sessions get their ports in turn; the start-up reaches the
    allocator's invariant.
  \<^item> The nodes: a node's tasks and the base class's channels name the same sessions in every reachable state; every job is
    answered once; streamed answers are numbered; the queue keeps the accepted jobs in order; the codecs agree with
    RFC 4648 and the WAV format; playback ends.
  \<^item> The network: a buffer is a byte queue; functors run once, in order, without a lost wake-up; the poller's table, the kernel's
    epoll set and the channels agree; a connection delivers the bytes it took, in order, and fails no assertion; the server's
    table is the set of open connections; no socket of the connector is lost.
  \<^item> JSON: printing gives exactly the intended text without leaving its buffers, or fails on text that is not UTF-8; the parser returns
    on every input, its values are well formed, and what was printed is read back as it was; the UTF-8 automaton accepts the
    encodings of code points and nothing else, the number scanner the numbers of RFC 8259. In a node this
    means that a piece of an answer that cuts a UTF-8 character ends the process (\<open>rkllm_broken_piece\<close>).
  \<^item> Across the processes: \<open>inference_reaches_session\<close> below follows one unit from its allocation in the manager through the node's
    set-up, an inference request and its answer.
  \<^item> The faults found are theorems too, where a definition shows them.

  Representation. A \<open>std::string\<close> is a list of bytes, a map of the code a partial map or an association list when its
  order matters, an object shared by pointer a number into a store. Threads are the order of the steps that run under one mutex or on
  one loop. libzmq, simdjson, \<open>strtod\<close>, the engines' libraries, the clock and the kernel are arguments that say
  what a call answers; a double of a JSON value is the text that \<open>strtod\<close> answers, nothing where it overflows. Loops are structural recursions or have a measure. \<open>decode_all\<close>, whose loop asks the
  recogniser whether to go on, is a partial function into \<open>option\<close>. \<open>write_frames\<close> takes the device's answers as a list; \<open>playback_completes\<close> says
  which lists are long enough. No definition takes fuel.

  Bounds. The work-id counter is an atomic \<open>int\<close> and wraps: the allocator's invariant is promised for the allocations that keep it
  in range. Where \<open>char\<close> is signed, a first parameter of a message holds 127 bytes, else 255. Session ports
  wrap from 65535 to 8000. WAV sizes wrap at 4 GiB.

  Not modelled, and why.
  \<^item> \<open>libzmq/\<close> is vendored. Of \<open>utils/json.hpp\<close> the processes use no binary formats, JSON pointers, patches, iterators or SAX
    and callback parsers, and none is modelled; doubles are printed as kept, without Grisu. \<open>sample_log.h\<close> only prints, except that its macros capture an
    \<open>else\<close> of \<open>zmq_bus.cpp\<close>, which \<open>UnitBus\<close> reflects.
  \<^item> \<open>main\<close> of the nodes: signal handlers and a sleep loop. Socket options and \<open>getTcpInfoString\<close>: they only call the
    system. \<open>file_exists\<close>: the same. The time-out of a poll, and timers, which the code has commented out.
  \<^item> \<open>sys_sql_select\<close> of the base class has no return statement, so no value. Its destructor joins the same thread in a loop.
  \<^item> The runs of a connection for which no assertion fails do not contain \<open>startRead\<close> and \<open>stopRead\<close>:
    \<open>stop_read_after_close\<close> shows what they do after a close. The poller's flag that events are being handled stays
    unset in the runs of one connection or connector: a handler there removes no channel but its own, which the assertion allows. Descriptors other threads open while
    the acceptor uses its spare one are left out.
  \<^item> The gateway, the web front ends, the samples, the demo and the deployment files are not part of the C++ runtime.
\<close>

section \<open>A unit across the processes\<close>

lemma allocated_unit:
  assumes "sys_allocate_unit env unit s = Inr (u, s')"
  shows "ud_port u = work_id_number_counter s" "ud_work_id u = unit @ ''.'' @ int_to_string (work_id_number_counter s)"
    "key_sql s' (ud_work_id u) = Some (Any_unit u)" "\<exists>p. ud_channel u = Some p \<and> zmq_url p = ud_inference_url u"
  using assms
  by (auto simp: sys_allocate_unit_def rbind_Inr_iff Let_def unit_init_zmq_def safe_setting_def
      dest: pzmq_socket_zmq_url)

text \<open>C8: A set-up reaches across the processes. When the unit manager allocates a unit for a node and the node's
  registration call gets the server's answer, the node acknowledges the set-up with the work id under which
  the manager keeps the unit; an inference request with that work id, as the manager publishes it, goes to
  the URL the session listens on; and the session's answer goes out on the unit's output URL and to the
  client's own URL.\<close>

theorem inference_reaches_session:
  assumes "sys_allocate_unit uenv (unit_name t) s = Inr (u, s')" "0 \<le> work_id_number_counter s" "work_id_number_counter s \<le> int_max"
    and "rpc_allocate_unit uenv (unit_name t) s = Inr (rpc_answer (sf_zmq env) ''ipc:///tmp/rpc.sys'' ''register_unit'' (unit_name t), s')"
    and "path_exists (sf_zmq env) ''/tmp/rpc.sys''" "zmq_connect (sf_zmq env) ''ipc:///tmp/rpc.sys'' = 0"
    and "ud_output_url u \<noteq> []" "ud_inference_url u \<noteq> []" "length (ud_output_url u) \<le> max_param0 (sf_schar env)"
    and "CHR ''.'' \<notin> set (unit_name t)" "sf_status t \<noteq> 0" "url \<noteq> []" "length url \<le> max_param0 (sf_schar env)"
    and "simdjson ue json = Some get" "get ''request_id'' = Some rid" "get ''work_id'' = Some (ud_work_id u)"
    and "get ''action'' = Some ''inference''" "json \<noteq> []" "com_url_is s' com_id com" "plain_text com" "com \<noteq> []"
    and "raw = ''{'' @ quoted ''zmq_com'' @ '':'' @ quoted com @ '','' @ tl json" "action_seen raw (str_find action_key raw)"
    and "int_ok (sf_time env)" "utf8 (unit_name t)" "utf8 body" "utf8 raw"
  shows "\<exists>t1 t2. let n = work_id_number_counter s;
      line = result_line (sf_time env) (sample_json_str_get raw ''request_id'') (ud_work_id u) ''echo.result''
               (echo_inference env (sample_json_str_get raw ''data'')) []
    in process_event env (echo_ops env) (EVENT_SETUP, \<lparr>msg_bytes = set_param url body\<rparr>) t = Inr t1 \<and>
       wires t1 = wires t @ [(url, result_line (sf_time env) (sample_json_str_get body ''request_id'') (ud_work_id u)
                                     ''None'' (JStr ''None'') [])] \<and>
       in_service n (ud_output_url u) (ud_inference_url u) t1 \<and>
       unit_action_match ue com_id json s' = Inr (s'\<lparr>sent := sent s' @ [(ud_inference_url u, raw)]\<rparr>) \<and>
       channel_message env n (echo_on_inference env n (ud_work_id u)) raw t1 = Inr t2 \<and>
       wires t2 = wires t1 @ [(ud_output_url u, line), (com, line)]"
proof -
  let ?n = "work_id_number_counter s"
  note u = allocated_unit [OF assms(1)]
  have "rpc_answer (sf_zmq env) ''ipc:///tmp/rpc.sys'' ''register_unit'' (unit_name t) =
      set_param (int_to_string ?n) (set_param (ud_output_url u) (ud_inference_url u))"
    using assms(1,4) u(1) by (simp add: rpc_allocate_unit_def)
  then have g: "grants env (unit_name t) ?n (ud_output_url u) (ud_inference_url u)"
    using assms(2,3,5-9) by (simp add: grants_def)
  let ?t = "t\<lparr>sf_request_id := sample_json_str_get body ''request_id'', out_zmq_url := url\<rparr>"
  obtain t1 where t1: "sf_setup env (echo_ops env) url body ?t = Inr t1"
    "in_service ?n (ud_output_url u) (ud_inference_url u) t1" "?n \<in> echo_sessions (node t1)"
    "wires t1 = wires t @ [(url, result_line (sf_time env) (sample_json_str_get body ''request_id'') (ud_work_id u)
       ''None'' (JStr ''None'') [])]"
    using echo_setup_in_service [of env ?t ?n "ud_output_url u" "ud_inference_url u" url body] g assms(10,12,24,25) u(2)
      utf8_field [OF assms(26)] by auto
  have ev: "process_event env (echo_ops env) (EVENT_SETUP, \<lparr>msg_bytes = set_param url body\<rparr>) t = Inr t1"
    using t1(1) assms(11,13) by (simp add: on_request_def get_param_simps)
  obtain p where p: "ud_channel u = Some p" "zmq_url p = ud_inference_url u" using u(4) by blast
  have "safe_reading_unit (ud_work_id u) s' = Some u" using u(3) by (simp add: safe_reading_unit_iff)
  moreover have w: "ud_work_id u \<noteq> []" using u(2) by simp
  ultimately have pub: "unit_action_match ue com_id json s' = Inr (s'\<lparr>sent := sent s' @ [(ud_inference_url u, raw)]\<rparr>)"
    using inference_request_struct [OF assms(14-17) w assms(18,19)] p assms(22)
    by (simp add: zmq_bus_publisher_push_def unit_send_msg_def log_level_def SAMPLE_LOG_INFO_def SAMPLE_LOG_WARN_def)
  have "sample_json_str_get raw ''zmq_com'' = com" using zmq_com_read_back [OF assms(20)] assms(22) by simp
  moreover have "utf8 (ud_work_id u)" using work_id_utf8 [OF assms(25)] u(2) by simp
  ultimately have "\<exists>t2. channel_message env ?n (echo_on_inference env ?n (ud_work_id u)) raw t1 = Inr t2 \<and>
    (let line = result_line (sf_time env) (sample_json_str_get raw ''request_id'') (ud_work_id u) ''echo.result''
                  (echo_inference env (sample_json_str_get raw ''data'')) []
     in wires t2 = wires t1 @ [(ud_output_url u, line), (com, line)])"
    by (intro echo_message_answered [OF t1(2,3) w assms(24) _ assms(27,23) _ assms(21)])
  then show ?thesis using ev t1(2,4) pub by (auto simp: Let_def)
qed

lemma sample_echo_unit:
  "\<exists>u s. sys_allocate_unit UnitServer.sample_env ''echo'' sample_state = Inr (u, s) \<and>
     ud_work_id u = ''echo.0'' \<and> ud_port u = 0 \<and> zmq_c_format s = sample_format \<and> sent s = [] \<and>
     ud_output_url u = ''ipc:///tmp/llm/5010.sock.echo.output_url'' \<and>
     ud_inference_url u = ''ipc:///tmp/llm/5011.sock.echo.inference_url''"
  by (simp add: sample_run Let_def creat_def creat_pub_def pzmq_blank_def)
    (simp add: sample_state_def sample_config_def)

definition registered_sf :: sf_env where
  "registered_sf = sample_sf\<lparr>sf_zmq := sample_zmq\<lparr>rpc_answer := \<lambda>_ _ _. set_param ''0''
     (set_param ''ipc:///tmp/llm/5010.sock.echo.output_url'' ''ipc:///tmp/llm/5011.sock.echo.inference_url'')\<rparr>\<rparr>"

theorem inference_reaches_session_witness:
  "\<exists>s' ue t1 t2. unit_action_match ue 8000 (''{'' @ quoted ''action'' @ '':1}'') s' =
       Inr (s'\<lparr>sent := [(''ipc:///tmp/llm/5011.sock.echo.inference_url'', sample_request)]\<rparr>) \<and>
     channel_message registered_sf 0 (echo_on_inference registered_sf 0 ''echo.0'') sample_request t1 = Inr t2 \<and>
     map fst (wires t2) = [''ipc:///tmp/llm/8000.sock'', ''ipc:///tmp/llm/5010.sock.echo.output_url'', ''ipc:///tmp/llm/8000.sock'']"
proof -
  obtain u s' where u: "sys_allocate_unit UnitServer.sample_env ''echo'' sample_state = Inr (u, s')" "ud_work_id u = ''echo.0''"
    "ud_port u = 0" "zmq_c_format s' = sample_format" "sent s' = []"
    "ud_output_url u = ''ipc:///tmp/llm/5010.sock.echo.output_url''"
    "ud_inference_url u = ''ipc:///tmp/llm/5011.sock.echo.inference_url''"
    using sample_echo_unit by blast
  let ?get = "[''request_id'' \<mapsto> ''1'', ''work_id'' \<mapsto> ''echo.0'', ''action'' \<mapsto> ''inference'']"
  have c: "com_url_is s' 8000 ''ipc:///tmp/llm/8000.sock''"
    using sample_com_url u(4) by (simp add: com_url_is_def sample_state_def sample_config_def)
  have zero: "int_to_string 0 = ''0''" by (simp add: int_to_string_def nat_to_string_eval)
  have n: "work_id_number_counter sample_state = 0" by (simp add: sample_state_def sample_config_def)
  have t: "unit_name (echo_new sample_zmq) = ''echo''" "sf_status (echo_new sample_zmq) \<noteq> 0" "wires (echo_new sample_zmq) = []"
    by (simp_all add: echo_new_def stack_flow_new_def)
  have rpc: "rpc_allocate_unit UnitServer.sample_env ''echo'' sample_state =
      Inr (rpc_answer (sf_zmq registered_sf) ''ipc:///tmp/rpc.sys'' ''register_unit'' ''echo'', s')"
    using u by (simp add: rpc_allocate_unit_def registered_sf_def zero)
  have raw: "sample_request = ''{'' @ quoted ''zmq_com'' @ '':'' @ quoted ''ipc:///tmp/llm/8000.sock'' @ '','' @
      tl (''{'' @ quoted ''action'' @ '':1}'')"
    by (simp add: sample_request_def)
  have env: "path_exists (sf_zmq registered_sf) ''/tmp/rpc.sys''" "zmq_connect (sf_zmq registered_sf) ''ipc:///tmp/rpc.sys'' = 0"
    "sf_schar registered_sf"
    by (simp_all add: registered_sf_def sample_sf_def sample_zmq_def)
  have clock: "int_ok (sf_time registered_sf)" and name: "utf8 ''echo''"
    using sample_clock by (simp_all add: registered_sf_def ascii_utf8 code_of_def)
  note reg = inference_reaches_session [where t = "echo_new sample_zmq" and s = sample_state and env = registered_sf
      and ue = "sample_um_env ?get" and get = ?get and url = "''ipc:///tmp/llm/8000.sock''" and body = "''{}''"
      and json = "''{'' @ quoted ''action'' @ '':1}''" and raw = sample_request and rid = "''1''"
      and com = "''ipc:///tmp/llm/8000.sock''" and com_id = 8000 and u = u and s' = s'
      and uenv = UnitServer.sample_env, unfolded t(1) n u(2)]
  show ?thesis
    using reg [OF u(1) _ _ rpc env(1,2) _ _ _ _ t(2) _ _ _ _ _ _ _ c _ _ raw sample_request_facts(1) clock name sample_body(1) sample_request_facts(3)] u t(3) env(3)
    by (fastforce simp: max_param0_def sample_um_env_def plain_text_def Let_def int_max_def)
qed

end
